(* ===== verification/Prelude.thy ===== *)
theory Prelude
  imports Main "HOL-Library.Word"
begin

text \<open>
  Shared vocabulary of the development: machine types, the outcome of an operation that can
  panic or run into undefined behaviour, the pieces of the Rust standard library the sources
  use on numbers (\<open>to_string\<close>, \<open>{:02}\<close> padding, \<open>str::parse::<i64>\<close>), and generic list
  lemmas. Bytes are \<open>char\<close> (HOL characters are exactly the 256 byte values), so a Rust
  \<open>[u8]\<close>, \<open>str\<close> or \<open>String\<close> is a \<open>char list\<close>.
\<close>

unbundle bit_operations_syntax

subsection \<open>Machine types\<close>

type_synonym byte = char
type_synonym bytes = "char list"
type_synonym u16 = "16 word"
type_synonym u32 = "32 word"
type_synonym i32 = "32 word"
type_synonym u64 = "64 word"
type_synonym i64 = "64 word"
type_synonym f64 = "64 word" \<comment> \<open>the IEEE bit pattern\<close>

definition i64_min :: int where "i64_min = - (2 ^ 63)"
definition i64_max :: int where "i64_max = 2 ^ 63 - 1"
definition i32_min :: int where "i32_min = - (2 ^ 31)"
definition i32_max :: int where "i32_max = 2 ^ 31 - 1"
definition u32_max :: int where "u32_max = 2 ^ 32 - 1"

text \<open>\<open>usize\<close> is 64 bits wide. Vec capacities never exceed \<open>isize::MAX\<close>.\<close>

definition usize_modulus :: nat where "usize_modulus = 2 ^ 64"
definition isize_max :: nat where "isize_max = 2 ^ 63 - 1"

text \<open>Release-profile \<open>usize\<close> addition wraps.\<close>

definition usize_add :: "nat \<Rightarrow> nat \<Rightarrow> nat" where
  "usize_add a b = (a + b) mod usize_modulus"

lemma usize_add_small: "a \<le> isize_max \<Longrightarrow> b \<le> isize_max \<Longrightarrow> usize_add a b = a + b"
  by (simp add: usize_add_def usize_modulus_def isize_max_def)

text \<open>An operation returns, panics, or leaves the defined behaviour of Rust.\<close>

datatype 'a outcome = Done 'a | Panic string | UB string

fun is_done :: "'a outcome \<Rightarrow> bool" where
  "is_done (Done _) = True"
| "is_done (Panic _) = False"
| "is_done (UB _) = False"

lemma is_done_iff: "is_done r \<longleftrightarrow> (\<exists>x. r = Done x)"
  by (cases r) auto

text \<open>Sequencing of operations that may panic.\<close>

fun obind :: "'a outcome \<Rightarrow> ('a \<Rightarrow> 'b outcome) \<Rightarrow> 'b outcome" where
  "obind (Done x) f = f x"
| "obind (Panic e) f = Panic e"
| "obind (UB e) f = UB e"

lemma obind_cong [fundef_cong]:
  "r = r' \<Longrightarrow> (\<And>x. r' = Done x \<Longrightarrow> f x = f' x) \<Longrightarrow> obind r f = obind r' f'"
  by (cases r') auto

lemma obind_Done_iff: "obind r f = Done y \<longleftrightarrow> (\<exists>x. r = Done x \<and> f x = Done y)"
  by (cases r) auto

text \<open>The \<open>?\<close> operator on \<open>Result\<close>: an error is passed on.\<close>

fun ebind :: "'e + 'a \<Rightarrow> ('a \<Rightarrow> 'e + 'b) \<Rightarrow> 'e + 'b" where
  "ebind (Inl e) f = Inl e"
| "ebind (Inr x) f = f x"

lemma ebind_cong [fundef_cong]:
  "r = r' \<Longrightarrow> (\<And>x. r' = Inr x \<Longrightarrow> f x = f' x) \<Longrightarrow> ebind r f = ebind r' f'"
  by (cases r') auto

lemma ebind_Inr_iff: "ebind r f = Inr y \<longleftrightarrow> (\<exists>x. r = Inr x \<and> f x = Inr y)"
  by (cases r) auto

lemma ebind_Inl_iff: "ebind r f = Inl e \<longleftrightarrow> r = Inl e \<or> (\<exists>x. r = Inr x \<and> f x = Inl e)"
  by (cases r) auto

text \<open>The same where the computation can also panic.\<close>

definition rbind :: "('e + 'a) outcome \<Rightarrow> ('a \<Rightarrow> ('e + 'b) outcome) \<Rightarrow> ('e + 'b) outcome" where
  "rbind r f = obind r (\<lambda>x. case x of Inl e \<Rightarrow> Done (Inl e) | Inr y \<Rightarrow> f y)"

lemma rbind_simps [simp]:
  "rbind (Done (Inr x)) f = f x" "rbind (Done (Inl e)) f = Done (Inl e)"
  "rbind (Panic m) f = Panic m" "rbind (UB m) f = UB m"
  by (simp_all add: rbind_def)

lemma rbind_cong [fundef_cong]:
  "r = r' \<Longrightarrow> (\<And>x. r' = Done (Inr x) \<Longrightarrow> f x = f' x) \<Longrightarrow> rbind r f = rbind r' f'"
  by (cases r') (auto simp: rbind_def split: sum.splits)

lemma rbind_Inr_iff: "rbind r f = Done (Inr y) \<longleftrightarrow> (\<exists>x. r = Done (Inr x) \<and> f x = Done (Inr y))"
  by (cases r) (auto simp: rbind_def split: sum.splits)

text \<open>Collecting an iterator of results, stopping at the first error.\<close>

fun emapM :: "('a \<Rightarrow> 'e + 'b) \<Rightarrow> 'a list \<Rightarrow> 'e + 'b list" where
  "emapM f [] = Inr []"
| "emapM f (x # xs) = ebind (f x) (\<lambda>y. ebind (emapM f xs) (\<lambda>ys. Inr (y # ys)))"

lemma emapM_cong [fundef_cong]:
  "xs = ys \<Longrightarrow> (\<And>x. x \<in> set ys \<Longrightarrow> f x = g x) \<Longrightarrow> emapM f xs = emapM g ys"
proof (induction ys arbitrary: xs)
  case (Cons y ys)
  then show ?case by (cases "g y") auto
qed simp

lemma emapM_Inr_length: "emapM f xs = Inr ys \<Longrightarrow> length ys = length xs"
  by (induction xs arbitrary: ys) (auto simp: ebind_Inr_iff)

lemma emapM_Inr_nth:
  "emapM f xs = Inr ys \<Longrightarrow> i < length xs \<Longrightarrow> f (xs ! i) = Inr (ys ! i)"
proof (induction xs arbitrary: ys i)
  case (Cons x xs)
  then show ?case by (cases i) (auto simp: ebind_Inr_iff)
qed simp

subsection \<open>Named collections\<close>

named_theorems buffer_simps \<open>unfolding the Vec and Buffer operations\<close>
named_theorems stack_simps \<open>unfolding the Lua stack operations\<close>
named_theorems json_simps \<open>unfolding the JSON writer helpers\<close>
named_theorems registry_simps \<open>unfolding the response registry operations\<close>
named_theorems actor_simps \<open>unfolding the connection actor\<close>
named_theorems wf_intros \<open>introduction rules of the well-formedness predicates\<close>

subsection \<open>Integers as decimal text\<close>

definition digit_char :: "nat \<Rightarrow> char" where
  "digit_char d = char_of (48 + d)"

fun show_nat :: "nat \<Rightarrow> string" where
  "show_nat n = (if n < 10 then [digit_char n] else show_nat (n div 10) @ [digit_char (n mod 10)])"

declare show_nat.simps [simp del]

definition show_int :: "int \<Rightarrow> string" where
  "show_int i = (if i < 0 then ''-'' @ show_nat (nat (- i)) else show_nat (nat i))"

text \<open>\<open>format!("{:0w}", n)\<close> for a number that is not negative.\<close>

definition pad0 :: "nat \<Rightarrow> string \<Rightarrow> string" where
  "pad0 w s = replicate (w - length s) (CHR ''0'') @ s"

definition is_ascii_digit :: "char \<Rightarrow> bool" where
  "is_ascii_digit c \<longleftrightarrow> 48 \<le> (of_char c :: nat) \<and> (of_char c :: nat) \<le> 57"

definition digit_val :: "char \<Rightarrow> nat" where
  "digit_val c = of_char c - 48"

definition digits_val :: "string \<Rightarrow> nat" where
  "digits_val s = foldl (\<lambda>a c. 10 * a + digit_val c) 0 s"

text \<open>
  \<open>str::parse::<i64>\<close>: an optional sign, at least one digit, digits only, and a result in
  range; anything else is an error.
\<close>

definition parse_i64 :: "string \<Rightarrow> int option" where
  "parse_i64 s =
     (let neg = (s \<noteq> [] \<and> hd s = CHR ''-'');
          body = (if s \<noteq> [] \<and> (hd s = CHR ''-'' \<or> hd s = CHR ''+'') then tl s else s)
      in if body = [] \<or> \<not> list_all is_ascii_digit body then None
         else let m = int (digits_val body); v = (if neg then - m else m)
              in if i64_min \<le> v \<and> v \<le> i64_max then Some v else None)"

lemma digit_char_numerals [simp]:
  "digit_char 0 = CHR ''0''" "digit_char 1 = CHR ''1''" "digit_char (Suc 0) = CHR ''1''"
  "digit_char 2 = CHR ''2''" "digit_char 3 = CHR ''3''" "digit_char 4 = CHR ''4''"
  "digit_char 5 = CHR ''5''" "digit_char 6 = CHR ''6''" "digit_char 7 = CHR ''7''"
  "digit_char 8 = CHR ''8''" "digit_char 9 = CHR ''9''"
  by (simp_all add: digit_char_def char_of_def bit_0)

lemma digit_char_props:
  assumes "d < 10"
  shows "is_ascii_digit (digit_char d)" "digit_val (digit_char d) = d"
proof -
  have "of_char (digit_char d) = 48 + d"
    using assms by (simp add: digit_char_def of_char_of)
  then show "is_ascii_digit (digit_char d)" "digit_val (digit_char d) = d"
    using assms by (simp_all add: is_ascii_digit_def digit_val_def)
qed

lemma show_nat_ne: "show_nat n \<noteq> []"
  by (subst show_nat.simps) simp

lemma show_nat_digits: "list_all is_ascii_digit (show_nat n)"
proof (induction n rule: show_nat.induct)
  case (1 n)
  then show ?case
    by (subst show_nat.simps) (auto simp: digit_char_props)
qed

lemma digits_val_append: "digits_val (xs @ [c]) = 10 * digits_val xs + digit_val c"
  by (simp add: digits_val_def)

lemma digits_val_show_nat: "digits_val (show_nat n) = n"
proof (induction n rule: show_nat.induct)
  case (1 n)
  show ?case
  proof (cases "n < 10")
    case True
    then show ?thesis
      by (subst show_nat.simps) (simp add: digits_val_def digit_char_props)
  next
    case False
    then have "digits_val (show_nat n) = 10 * (n div 10) + n mod 10"
      by (subst show_nat.simps) (simp add: digits_val_append digit_char_props 1)
    then show ?thesis by simp
  qed
qed

lemma digit_not_sign: "is_ascii_digit c \<Longrightarrow> c \<noteq> CHR ''-'' \<and> c \<noteq> CHR ''+''"
proof -
  assume d: "is_ascii_digit c"
  have "\<not> is_ascii_digit (CHR ''-'')" "\<not> is_ascii_digit (CHR ''+'')"
    by (simp_all add: is_ascii_digit_def)
  with d show ?thesis by metis
qed

lemma show_nat_hd_digit: "is_ascii_digit (hd (show_nat n))"
  using show_nat_digits [of n] show_nat_ne [of n] by (cases "show_nat n") auto

text \<open>Printing an \<open>i64\<close> and parsing it back is the identity.\<close>

lemma parse_show_int:
  assumes "i64_min \<le> i" "i \<le> i64_max"
  shows "parse_i64 (show_int i) = Some i"
proof (cases "i < 0")
  case True
  then show ?thesis
    using assms
    by (simp add: parse_i64_def show_int_def show_nat_ne show_nat_digits digits_val_show_nat)
next
  case False
  have "hd (show_nat (nat i)) \<noteq> CHR ''-''" "hd (show_nat (nat i)) \<noteq> CHR ''+''"
    using digit_not_sign [OF show_nat_hd_digit] by auto
  with False show ?thesis
    using assms
    by (simp add: parse_i64_def show_int_def show_nat_ne show_nat_digits digits_val_show_nat)
qed

lemma sint_i64_range: "i64_min \<le> sint (w :: i64)" "sint w \<le> i64_max"
  using sint_range_size [of w] by (auto simp: i64_min_def i64_max_def word_size)

lemma sint_word_of_int: "i64_min \<le> i \<Longrightarrow> i \<le> i64_max \<Longrightarrow> sint (word_of_int i :: i64) = i"
  by (simp add: i64_min_def i64_max_def signed_of_int signed_take_bit_int_eq_self)

lemma sint_word_of_nat: "n < 2 ^ 63 \<Longrightarrow> sint (word_of_nat n :: i64) = int n"
  using sint_word_of_int [of "int n"] by (simp add: i64_min_def i64_max_def)

lemma show_int_ne: "show_int i \<noteq> []"
  by (simp add: show_int_def show_nat_ne)

lemma show_int_inj:
  assumes "show_int i = show_int j"
    and "i64_min \<le> i" "i \<le> i64_max" "i64_min \<le> j" "j \<le> i64_max"
  shows "i = j"
  using assms by (metis parse_show_int option.inject)

subsection \<open>UTF-8\<close>

text \<open>
  Rust's validation: the number of bytes of the first character, or the error, whose length is
  missing when the text ends inside a character.
\<close>

definition cont_byte :: "nat \<Rightarrow> bool" where
  "cont_byte b \<longleftrightarrow> 128 \<le> b \<and> b \<le> 191"

definition utf8_second :: "nat \<Rightarrow> nat \<Rightarrow> bool" where
  "utf8_second a b \<longleftrightarrow>
     (if a = 224 then 160 \<le> b \<and> b \<le> 191
      else if a = 237 then 128 \<le> b \<and> b \<le> 159
      else if a = 240 then 144 \<le> b \<and> b \<le> 191
      else if a = 244 then 128 \<le> b \<and> b \<le> 143
      else cont_byte b)"

fun utf8_tail :: "nat \<Rightarrow> nat \<Rightarrow> nat list \<Rightarrow> nat option option" where
  "utf8_tail 0 i bs = None"
| "utf8_tail (Suc n) i [] = Some None"
| "utf8_tail (Suc n) i (b # bs) = (if cont_byte b then utf8_tail n (Suc i) bs else Some (Some i))"

definition utf8_first :: "nat \<Rightarrow> nat list \<Rightarrow> nat option + nat" where
  "utf8_first a bs =
     (if a < 128 then Inr 1
      else if a < 194 \<or> 244 < a then Inl (Some 1)
      else let w = (if a < 224 then 2 else if a < 240 then 3 else 4) in
        case bs of [] \<Rightarrow> Inl None
        | b # bs' \<Rightarrow> if \<not> utf8_second a b then Inl (Some 1)
            else case utf8_tail (w - 2) 2 bs' of None \<Rightarrow> Inr w | Some e \<Rightarrow> Inl e)"

lemma utf8_first_pos: "utf8_first a bs = Inr w \<Longrightarrow> 0 < w"
  by (auto simp: utf8_first_def Let_def split: if_splits list.splits option.splits)

function (sequential) utf8_check :: "nat \<Rightarrow> nat list \<Rightarrow> (nat \<times> nat option) option" where
  "utf8_check i [] = None"
| "utf8_check i (a # bs) =
     (case utf8_first a bs of Inl e \<Rightarrow> Some (i, e) | Inr w \<Rightarrow> utf8_check (i + w) (drop w (a # bs)))"
  by pat_completeness auto
termination
  by (relation "measure (\<lambda>(_, bs). length bs)") (auto dest: utf8_first_pos)

subsection \<open>Lists\<close>

text \<open>Overwriting a segment in place (\<open>ptr::copy_nonoverlapping\<close> into an allocation).\<close>

definition overwrite :: "nat \<Rightarrow> 'a list \<Rightarrow> 'a list \<Rightarrow> 'a list" where
  "overwrite i xs ys = take i ys @ xs @ drop (i + length xs) ys"

lemma length_overwrite [simp]:
  "i + length xs \<le> length ys \<Longrightarrow> length (overwrite i xs ys) = length ys"
  by (simp add: overwrite_def)

lemma take_overwrite_before: "n \<le> i \<Longrightarrow> i \<le> length ys \<Longrightarrow> take n (overwrite i xs ys) = take n ys"
  by (simp add: overwrite_def min_def)

lemma take_overwrite_end:
  "i \<le> length ys \<Longrightarrow> take (i + length xs) (overwrite i xs ys) = take i ys @ xs"
  by (simp add: overwrite_def)

lemma drop_overwrite_after:
  "i + length xs \<le> n \<Longrightarrow> i \<le> length ys \<Longrightarrow> drop n (overwrite i xs ys) = drop n ys"
  by (simp add: overwrite_def)

subsection \<open>Machines\<close>

text \<open>
  Running a list of operations, stopping when one panics or leaves defined behaviour, and the
  interface of a component whose operations keep an invariant and are memory safe.
\<close>

fun run_ops :: "('s \<Rightarrow> 'op \<Rightarrow> 's outcome) \<Rightarrow> 's \<Rightarrow> 'op list \<Rightarrow> 's outcome" where
  "run_ops step s [] = Done s"
| "run_ops step s (p # ps) =
     (case step s p of Done s' \<Rightarrow> run_ops step s' ps | Panic e \<Rightarrow> Panic e | UB e \<Rightarrow> UB e)"

text \<open>
  Each operation is called in a state that allows it, as long as the run goes on. An operation
  that asks nothing of the state has the guard \<open>\<lambda>_ _. True\<close>.
\<close>

fun guarded :: "('s \<Rightarrow> 'op \<Rightarrow> 's outcome) \<Rightarrow> ('s \<Rightarrow> 'op \<Rightarrow> bool) \<Rightarrow> 's \<Rightarrow> 'op list \<Rightarrow> bool" where
  "guarded step may s [] \<longleftrightarrow> True"
| "guarded step may s (p # ps) \<longleftrightarrow> may s p \<and> (case step s p of Done s' \<Rightarrow> guarded step may s' ps | _ \<Rightarrow> True)"

lemma guarded_always: "(\<And>s p. p \<in> set ps \<Longrightarrow> may s p) \<Longrightarrow> guarded step may s ps"
  by (induction ps arbitrary: s) (auto split: outcome.splits)

locale safe_machine =
  fixes step :: "'s \<Rightarrow> 'op \<Rightarrow> 's outcome"
    and inv :: "'s \<Rightarrow> bool"
    and may :: "'s \<Rightarrow> 'op \<Rightarrow> bool"
  assumes step_inv: "inv s \<Longrightarrow> may s p \<Longrightarrow> step s p = Done s' \<Longrightarrow> inv s'"
    and step_no_ub: "inv s \<Longrightarrow> may s p \<Longrightarrow> step s p \<noteq> UB e"
begin

lemma run_inv: "inv s \<Longrightarrow> guarded step may s ps \<Longrightarrow> run_ops step s ps = Done s' \<Longrightarrow> inv s'"
  by (induction ps arbitrary: s) (auto split: outcome.splits dest: step_inv)

lemma run_no_ub: "inv s \<Longrightarrow> guarded step may s ps \<Longrightarrow> run_ops step s ps \<noteq> UB e"
  by (induction ps arbitrary: s) (auto split: outcome.splits dest: step_inv step_no_ub)

end

text \<open>A machine whose operations always return, and whose invariant every operation keeps.\<close>

locale total_machine =
  fixes step :: "'s \<Rightarrow> 'op \<Rightarrow> 's"
    and inv :: "'s \<Rightarrow> bool"
  assumes step_keeps: "inv s \<Longrightarrow> inv (step s p)"
begin

lemma runs_keep: "inv s \<Longrightarrow> inv (foldl step s ps)"
  by (induction ps arbitrary: s) (auto intro: step_keeps)

end

sublocale total_machine \<subseteq> lifted: safe_machine "\<lambda>s p. Done (step s p)" inv "\<lambda>_ _. True"
  by unfold_locales (auto intro: step_keeps)

text \<open>
  A first-in first-out store of bytes and what each call of it does to the bytes that wait: put
  a chunk or one byte, take \<open>n\<close> when there are enough, skip \<open>n\<close> when there are enough, make room,
  look at all of them, empty it.
\<close>

datatype 'b fifo_op =
  Put "'b list" | PutOne 'b | Get nat | Skip nat | Room nat | Peek | Empty

fun fifo_step :: "'b list \<Rightarrow> 'b fifo_op \<Rightarrow> 'b list option \<times> 'b list" where
  "fifo_step q (Put xs) = (Some [], q @ xs)"
| "fifo_step q (PutOne x) = (Some [], q @ [x])"
| "fifo_step q (Get n) = (if length q < n then (None, q) else (Some (take n q), drop n q))"
| "fifo_step q (Skip n) = (Some [], if length q < n then q else drop n q)"
| "fifo_step q (Room n) = (Some [], q)"
| "fifo_step q Peek = (Some q, q)"
| "fifo_step q Empty = (Some [], [])"

fun fifo_run :: "'b list \<Rightarrow> 'b fifo_op list \<Rightarrow> 'b list option list \<times> 'b list" where
  "fifo_run q [] = ([], q)"
| "fifo_run q (p # ps) =
     (case fifo_step q p of (a, q1) \<Rightarrow> (case fifo_run q1 ps of (as, q2) \<Rightarrow> (a # as, q2)))"

lemma fifo_step_map:
  "fifo_step (map f q) (map_fifo_op f p) = map_prod (map_option (map f)) (map f) (fifo_step q p)"
  by (cases p) (auto simp: take_map drop_map)

lemma fifo_run_map:
  "fifo_run (map f q) (map (map_fifo_op f) ps) =
     map_prod (map (map_option (map f))) (map f) (fifo_run q ps)"
  by (induction ps arbitrary: q) (auto simp: fifo_step_map split: prod.splits)

text \<open>The answers of a store and its state after a list of calls; \<open>None\<close> when a call does not return.\<close>

fun queue_run :: "('q \<Rightarrow> 'b fifo_op \<Rightarrow> ('c list option \<times> 'q) option) \<Rightarrow> 'q \<Rightarrow> 'b fifo_op list \<Rightarrow>
    ('c list option list \<times> 'q) option" where
  "queue_run call q [] = Some ([], q)"
| "queue_run call q (p # ps) =
     Option.bind (call q p) (\<lambda>(a, q1). map_option (\<lambda>(as, q2). (a # as, q2)) (queue_run call q1 ps))"

text \<open>
  A store refines the first-in first-out one: \<open>room w q\<close> says that it has not used more than
  \<open>w\<close> of its budget, \<open>cost\<close> is what a call can use of it, and a call within the budget returns.
\<close>

locale byte_queue =
  fixes room :: "nat \<Rightarrow> 'q \<Rightarrow> bool"
    and view :: "'q \<Rightarrow> 'b option list"
    and call :: "'q \<Rightarrow> 'b fifo_op \<Rightarrow> ('b option list option \<times> 'q) option"
    and cost :: "'b fifo_op \<Rightarrow> nat"
    and budget :: nat
    and sane :: "'b fifo_op \<Rightarrow> bool"
  assumes call_refines: "room w q \<Longrightarrow> w + cost p \<le> budget \<Longrightarrow> sane p \<Longrightarrow>
    \<exists>a q'. call q p = Some (a, q') \<and> room (w + cost p) q' \<and>
      (a, view q') = fifo_step (view q) (map_fifo_op Some p)"
begin

lemma run_refines:
  "room w q \<Longrightarrow> w + sum_list (map cost ps) \<le> budget \<Longrightarrow> list_all sane ps \<Longrightarrow>
    \<exists>as q'. queue_run call q ps = Some (as, q') \<and> room (w + sum_list (map cost ps)) q' \<and>
      (as, view q') = fifo_run (view q) (map (map_fifo_op Some) ps)"
proof (induction ps arbitrary: w q)
  case (Cons p ps)
  from Cons.prems obtain a q1 where 1: "call q p = Some (a, q1)" "room (w + cost p) q1"
    "(a, view q1) = fifo_step (view q) (map_fifo_op Some p)"
    using call_refines [of w q p] by auto
  from Cons.IH [OF 1(2)] Cons.prems obtain as q2 where 2: "queue_run call q1 ps = Some (as, q2)"
    "room (w + cost p + sum_list (map cost ps)) q2"
    "(as, view q2) = fifo_run (view q1) (map (map_fifo_op Some) ps)"
    by (auto simp: add.assoc)
  from 1(3) [symmetric] 2(3) [symmetric] show ?case
    using 1(1) 2(1,2) by (auto simp: add.assoc)
qed simp

end

end
