(* ===== verification/CoreBuffer.thy ===== *)
theory CoreBuffer
  imports Prelude
begin

text \<open>
  The byte buffer of \<open>crates/libs/lib-core/src/buffer.rs\<close>: a \<open>Vec<u8>\<close> with a read position.
  The allocation behind the Vec is modelled cell by cell (\<open>None\<close> is a cell that was never
  written), because the code moves the length over unwritten cells (\<open>commit\<close>), reuses consumed
  cells (\<open>write_front\<close>, \<open>prepare\<close>) and reads through raw pointers.
\<close>

section \<open>Vec<u8>\<close>

record rvec =
  cells :: "byte option list"
  vlen :: nat

abbreviation capacity :: "rvec \<Rightarrow> nat" where
  "capacity v \<equiv> length (cells v)"

definition vec_bytes :: "rvec \<Rightarrow> byte option list" where
  "vec_bytes v = take (vlen v) (cells v)"

definition vec_ok :: "rvec \<Rightarrow> bool" where
  "vec_ok v \<longleftrightarrow> vlen v \<le> capacity v \<and> capacity v \<le> isize_max"

definition vec_with_capacity :: "nat \<Rightarrow> rvec" where
  "vec_with_capacity n = \<lparr>cells = replicate n None, vlen = 0\<rparr>"

text \<open>Amortised growth of the standard library: double, at least 8, at least what is needed.\<close>

definition vec_reserve :: "rvec \<Rightarrow> nat \<Rightarrow> rvec" where
  "vec_reserve v extra =
     (if capacity v - vlen v < extra
      then v\<lparr>cells := cells v @
        replicate (max (max (2 * capacity v) 8) (vlen v + extra) - capacity v) None\<rparr>
      else v)"

definition vec_extend :: "rvec \<Rightarrow> byte list \<Rightarrow> rvec" where
  "vec_extend v xs =
     (let v' = vec_reserve v (length xs)
      in v'\<lparr>cells := overwrite (vlen v') (map Some xs) (cells v'), vlen := vlen v' + length xs\<rparr>)"

definition vec_push :: "rvec \<Rightarrow> byte \<Rightarrow> rvec" where
  "vec_push v c = vec_extend v [c]"

section \<open>The buffer and its operations\<close>

record buffer =
  rpos :: nat
  data :: rvec

definition default_reserve :: nat where
  "default_reserve = 128"

definition buf_with_capacity :: "nat \<Rightarrow> buffer" where
  "buf_with_capacity n = \<lparr>rpos = 0, data = vec_with_capacity n\<rparr>"

definition buf_new :: buffer where
  "buf_new = \<lparr>rpos = 0, data = vec_with_capacity default_reserve\<rparr>"

definition buf_from_slice :: "byte list \<Rightarrow> buffer" where
  "buf_from_slice xs = \<lparr>rpos = 0, data = vec_extend (vec_with_capacity (length xs)) xs\<rparr>"

definition buf_from_vec :: "rvec \<Rightarrow> buffer" where
  "buf_from_vec v = \<lparr>rpos = 0, data = v\<rparr>"

text \<open>
  \<open>prepare\<close>: room for \<open>size\<close> more bytes behind the length. When the free tail is too small, the
  unread bytes move to the front if that makes enough room; otherwise a new allocation of
  exactly the required size takes a copy of the Vec (a request beyond \<open>isize::MAX\<close> panics).
\<close>

definition buf_prepare :: "buffer \<Rightarrow> nat \<Rightarrow> buffer outcome" where
  "buf_prepare b sz =
     (let v = data b; tail_free_space = capacity v - vlen v in
      if tail_free_space < sz then
        (let count = vlen v - rpos b in
         if sz \<le> usize_add tail_free_space (rpos b) then
           Done \<lparr>rpos = 0,
             data = \<lparr>cells = (if count \<noteq> 0
                              then overwrite 0 (take count (drop (rpos b) (cells v))) (cells v)
                              else cells v),
                     vlen = count\<rparr>\<rparr>
         else
           (let required_size = usize_add (vlen v) sz in
            if isize_max < required_size then Panic ''capacity overflow''
            else if required_size < vlen v then UB ''copy past the new allocation''
            else Done (b\<lparr>data := \<lparr>cells = take (vlen v) (cells v) @
                                    replicate (required_size - vlen v) None,
                                  vlen = vlen v\<rparr>\<rparr>)))
      else Done b)"

definition buf_write_slice :: "buffer \<Rightarrow> byte list \<Rightarrow> buffer outcome" where
  "buf_write_slice b xs =
     (case buf_prepare b (length xs) of
        Done b' \<Rightarrow> Done (b'\<lparr>data := vec_extend (data b') xs\<rparr>)
      | Panic e \<Rightarrow> Panic e
      | UB e \<Rightarrow> UB e)"

text \<open>\<open>write\<close> is \<open>Vec::push\<close>, which panics when the grown capacity exceeds \<open>isize::MAX\<close>.\<close>

definition buf_write :: "buffer \<Rightarrow> byte \<Rightarrow> buffer outcome" where
  "buf_write b c =
     (let v = vec_push (data b) c in
      if capacity v \<le> isize_max then Done (b\<lparr>data := v\<rparr>) else Panic ''capacity overflow'')"

text \<open>\<open>unsafe_write\<close> stores without looking at the capacity.\<close>

definition buf_unsafe_write :: "buffer \<Rightarrow> byte \<Rightarrow> buffer outcome" where
  "buf_unsafe_write b c =
     (let v = data b in
      if vlen v < capacity v
      then Done (b\<lparr>data := v\<lparr>cells := (cells v)[vlen v := Some c], vlen := vlen v + 1\<rparr>\<rparr>)
      else UB ''write past the allocation'')"

definition buf_write_front :: "buffer \<Rightarrow> byte list \<Rightarrow> bool \<times> buffer" where
  "buf_write_front b xs =
     (let len = length xs in
      if rpos b < len then (False, b)
      else (True, b\<lparr>rpos := rpos b - len,
              data := (data b)\<lparr>cells := overwrite (rpos b - len) (map Some xs) (cells (data b))\<rparr>\<rparr>))"

definition buf_write_front_byte :: "buffer \<Rightarrow> byte \<Rightarrow> bool \<times> buffer" where
  "buf_write_front_byte b c =
     (if rpos b = 0 then (False, b)
      else (True, b\<lparr>rpos := rpos b - 1,
              data := (data b)\<lparr>cells := (cells (data b))[rpos b - 1 := Some c]\<rparr>\<rparr>))"

text \<open>\<open>write_str\<close> and \<open>write_chars\<close> write the bytes of a string, of a displayed value.\<close>

definition buf_write_str :: "buffer \<Rightarrow> string \<Rightarrow> buffer outcome" where
  "buf_write_str b s = buf_write_slice b s"

definition buf_write_chars :: "('t \<Rightarrow> string) \<Rightarrow> buffer \<Rightarrow> 't \<Rightarrow> buffer outcome" where
  "buf_write_chars to_string b x = buf_write_slice b (to_string x)"

definition buf_read :: "buffer \<Rightarrow> nat \<Rightarrow> (byte option list option \<times> buffer) outcome" where
  "buf_read b count =
     (if vlen (data b) < usize_add (rpos b) count then Done (None, b)
      else if isize_max < count then Panic ''capacity overflow''
      else Done (Some (take count (drop (rpos b) (cells (data b)))),
                 b\<lparr>rpos := rpos b + count\<rparr>))"

definition buf_consume :: "buffer \<Rightarrow> nat \<Rightarrow> buffer" where
  "buf_consume b count =
     (if vlen (data b) < usize_add (rpos b) count then b
      else b\<lparr>rpos := usize_add (rpos b) count\<rparr>)"

definition buf_seek :: "buffer \<Rightarrow> int \<Rightarrow> bool \<times> buffer" where
  "buf_seek b pos =
     (if pos < 0 then
        (if rpos b < nat (- pos) then (False, b)
         else (True, b\<lparr>rpos := rpos b - nat (- pos)\<rparr>))
      else if vlen (data b) < usize_add (rpos b) (nat pos) then (False, b)
      else (True, b\<lparr>rpos := usize_add (rpos b) (nat pos)\<rparr>))"

definition buf_clear :: "buffer \<Rightarrow> buffer" where
  "buf_clear b = \<lparr>rpos = 0, data = (data b)\<lparr>vlen := 0\<rparr>\<rparr>"

definition buf_len :: "buffer \<Rightarrow> nat" where
  "buf_len b = vlen (data b) - rpos b"

definition buf_is_empty :: "buffer \<Rightarrow> bool" where
  "buf_is_empty b \<longleftrightarrow> vlen (data b) = rpos b"

definition buf_commit :: "buffer \<Rightarrow> nat \<Rightarrow> bool \<times> buffer" where
  "buf_commit b sz =
     (let len = usize_add (vlen (data b)) sz in
      if capacity (data b) < len then (False, b)
      else (True, b\<lparr>data := (data b)\<lparr>vlen := len\<rparr>\<rparr>))"

definition buf_revert :: "buffer \<Rightarrow> nat \<Rightarrow> buffer outcome" where
  "buf_revert b sz =
     (if usize_add (rpos b) sz \<le> vlen (data b)
      then Done (b\<lparr>data := (data b)\<lparr>vlen := (vlen (data b) + (usize_modulus - sz)) mod usize_modulus\<rparr>\<rparr>)
      else Panic ''revert size is larger than readable size'')"

text \<open>The readable bytes: \<open>data\<close>, \<open>as_slice\<close>, \<open>as_mut_slice\<close>, \<open>as_str\<close> and \<open>Display\<close> expose them.\<close>

definition buf_contents :: "buffer \<Rightarrow> byte option list" where
  "buf_contents b = drop (rpos b) (take (vlen (data b)) (cells (data b)))"

definition buf_data :: "buffer \<Rightarrow> byte option list outcome" where
  "buf_data b =
     (if rpos b \<le> vlen (data b) then Done (buf_contents b)
      else Panic ''range start index out of range'')"

text \<open>\<open>read_u8\<close> indexes the Vec: a panic behind the length, a byte before it.\<close>

definition buf_read_u8 :: "buffer \<Rightarrow> nat \<Rightarrow> byte outcome" where
  "buf_read_u8 b pos =
     (let at = usize_add (rpos b) pos in
      if vlen (data b) \<le> at then Panic ''index out of bounds''
      else case cells (data b) ! at of
          Some c \<Rightarrow> Done c | None \<Rightarrow> UB ''read of uninitialised memory'')"

text \<open>\<open>as_slice\<close> and \<open>as_mut_slice\<close> build the slice from raw parts; the caller stores into the latter.\<close>

definition buf_as_slice :: "buffer \<Rightarrow> byte option list outcome" where
  "buf_as_slice b =
     (if rpos b \<le> vlen (data b) then Done (buf_contents b) else UB ''slice of negative length'')"

definition buf_mut_slice_set :: "buffer \<Rightarrow> nat \<Rightarrow> byte \<Rightarrow> buffer outcome" where
  "buf_mut_slice_set b i c =
     (if vlen (data b) < rpos b then UB ''slice of negative length''
      else if buf_len b \<le> i then Panic ''index out of bounds''
      else Done (b\<lparr>data := (data b)\<lparr>cells := (cells (data b))[rpos b + i := Some c]\<rparr>\<rparr>))"

text \<open>\<open>as_str\<close>, also behind \<open>Display\<close>, does not look whether the bytes are UTF-8.\<close>

definition buf_as_str :: "buffer \<Rightarrow> string outcome" where
  "buf_as_str b = obind (buf_as_slice b) (\<lambda>bs.
     if list_all (\<lambda>c. c \<noteq> None) bs \<and> utf8_check 0 (map (\<lambda>c. of_char (the c)) bs) = None
     then Done (map the bs) else UB ''str that is not UTF-8'')"

text \<open>
  The fixed-width readers copy raw bytes with no bounds check: outside the allocation, or over
  cells never written, the read is undefined behaviour. The copy is in host order;
  \<open>to_le\<close>/\<open>to_be\<close> swap when the host disagrees.
\<close>

definition raw_cells :: "buffer \<Rightarrow> nat \<Rightarrow> nat \<Rightarrow> byte list outcome" where
  "raw_cells b pos n =
     (let at = usize_add (rpos b) pos in
      if capacity (data b) < at + n then UB ''read past the allocation''
      else if list_all (\<lambda>c. c \<noteq> None) (take n (drop at (cells (data b))))
      then Done (map the (take n (drop at (cells (data b)))))
      else UB ''read of uninitialised memory'')"

fun bytes_to_nat :: "byte list \<Rightarrow> nat" where
  "bytes_to_nat [] = 0"
| "bytes_to_nat (c # cs) = of_char c + 256 * bytes_to_nat cs"

definition native_word :: "bool \<Rightarrow> byte list \<Rightarrow> 'w::len word" where
  "native_word host_le cs = word_of_nat (bytes_to_nat (if host_le then cs else rev cs))"

definition buf_read_word :: "bool \<Rightarrow> nat \<Rightarrow> buffer \<Rightarrow> nat \<Rightarrow> bool \<Rightarrow> ('w::len word) outcome" where
  "buf_read_word host_le n b pos le =
     (case raw_cells b pos n of
        Done cs \<Rightarrow> Done (native_word host_le (if le = host_le then cs else rev cs))
      | Panic e \<Rightarrow> Panic e
      | UB e \<Rightarrow> UB e)"

definition buf_read_i16 :: "bool \<Rightarrow> buffer \<Rightarrow> nat \<Rightarrow> bool \<Rightarrow> u16 outcome" where
  "buf_read_i16 host_le b pos le = buf_read_word host_le 2 b pos le"

definition buf_read_u16 :: "bool \<Rightarrow> buffer \<Rightarrow> nat \<Rightarrow> bool \<Rightarrow> u16 outcome" where
  "buf_read_u16 host_le b pos le = buf_read_word host_le 2 b pos le"

definition buf_read_i32 :: "bool \<Rightarrow> buffer \<Rightarrow> nat \<Rightarrow> bool \<Rightarrow> i32 outcome" where
  "buf_read_i32 host_le b pos le = buf_read_word host_le 4 b pos le"

definition buf_read_u32 :: "bool \<Rightarrow> buffer \<Rightarrow> nat \<Rightarrow> bool \<Rightarrow> u32 outcome" where
  "buf_read_u32 host_le b pos le = buf_read_word host_le 4 b pos le"


section \<open>Well-formedness\<close>

text \<open>The length stays inside the allocation and the read position behind the length.\<close>

definition buf_ok :: "buffer \<Rightarrow> bool" where
  "buf_ok b \<longleftrightarrow> vec_ok (data b) \<and> rpos b \<le> vlen (data b)"

lemma buf_okD:
  assumes "buf_ok b"
  shows "rpos b \<le> vlen (data b)" "vlen (data b) \<le> capacity (data b)"
    "capacity (data b) \<le> isize_max" "vlen (data b) \<le> isize_max" "rpos b \<le> isize_max"
    "rpos b \<le> capacity (data b)"
  using assms by (auto simp: buf_ok_def vec_ok_def)

lemma isize_double: "isize_max + isize_max < usize_modulus"
  by (simp add: isize_max_def usize_modulus_def)

lemma vec_reserve_props:
  "vlen (vec_reserve v n) = vlen v"
  "vlen v \<le> capacity v \<Longrightarrow> vlen v + n \<le> capacity (vec_reserve v n)"
  "vlen v \<le> capacity v \<Longrightarrow> take (vlen v) (cells (vec_reserve v n)) = take (vlen v) (cells v)"
  "vlen v + n \<le> capacity v \<Longrightarrow> vec_reserve v n = v"
  by (auto simp: vec_reserve_def)

lemma vec_extend_bytes:
  assumes "vlen v \<le> capacity v"
  shows "vec_bytes (vec_extend v xs) = vec_bytes v @ map Some xs"
    and "vlen (vec_extend v xs) = vlen v + length xs"
    and "vlen (vec_extend v xs) \<le> capacity (vec_extend v xs)"
proof -
  let ?v = "vec_reserve v (length xs)"
  have cap: "vlen v + length xs \<le> capacity ?v"
    using assms by (rule vec_reserve_props(2))
  have "take (vlen v + length (map Some xs)) (overwrite (vlen v) (map Some xs) (cells ?v))
      = take (vlen v) (cells ?v) @ map Some xs"
    using cap by (intro take_overwrite_end) simp
  then show "vec_bytes (vec_extend v xs) = vec_bytes v @ map Some xs"
    using assms by (simp add: vec_extend_def vec_bytes_def Let_def vec_reserve_props)
  show "vlen (vec_extend v xs) = vlen v + length xs"
    by (simp add: vec_extend_def Let_def vec_reserve_props)
  then show "vlen (vec_extend v xs) \<le> capacity (vec_extend v xs)"
    using cap by (simp add: vec_extend_def Let_def vec_reserve_props)
qed

lemma vec_extend_room:
  "vlen v + length xs \<le> capacity v \<Longrightarrow> capacity (vec_extend v xs) = capacity v"
  by (simp add: vec_extend_def Let_def vec_reserve_props)

lemma buf_contents_vec: "buf_contents b = drop (rpos b) (vec_bytes (data b))"
  by (simp add: buf_contents_def vec_bytes_def)

lemma buf_contents_length: "buf_ok b \<Longrightarrow> length (buf_contents b) = buf_len b"
  by (auto simp: buf_contents_def buf_len_def dest: buf_okD)

text \<open>
  The three ways through \<open>prepare\<close>: enough room already, compaction, reallocation. Each keeps
  the readable bytes and makes room.
\<close>

lemma take_overwrite_0: "length xs \<le> length ys \<Longrightarrow> take (length xs) (overwrite 0 xs ys) = xs"
  by (simp add: overwrite_def)

lemma buf_prepare_Done:
  assumes ok: "buf_ok b" and n: "n \<le> isize_max" and prep: "buf_prepare b n = Done b'"
  shows "buf_ok b'" and "buf_contents b' = buf_contents b"
    and "vlen (data b') + n \<le> capacity (data b')"
proof -
  note bd = buf_okD [OF ok]
  let ?v = "data b" and ?count = "vlen (data b) - rpos b"
  have wrap: "usize_add (capacity ?v - vlen ?v) (rpos b) = capacity ?v - vlen ?v + rpos b"
    "usize_add (vlen ?v) n = vlen ?v + n"
    using bd n by (simp_all only: usize_add_small [of "capacity ?v - vlen ?v" "rpos b"]
        usize_add_small [of "vlen ?v" n])
  consider (room) "n \<le> capacity ?v - vlen ?v"
    | (compact) "capacity ?v - vlen ?v < n" "n \<le> capacity ?v - vlen ?v + rpos b"
    | (grow) "capacity ?v - vlen ?v + rpos b < n"
    by linarith
  then have "buf_ok b' \<and> buf_contents b' = buf_contents b \<and> vlen (data b') + n \<le> capacity (data b')"
  proof cases
    case room
    then have "b' = b" using prep by (simp add: buf_prepare_def Let_def)
    then show ?thesis using ok room bd by simp
  next
    case compact
    let ?unread = "take ?count (drop (rpos b) (cells ?v))"
    have len: "length ?unread = ?count" using bd by simp
    have moved: "take ?count (if ?count \<noteq> 0 then overwrite 0 ?unread (cells ?v) else cells ?v)
        = ?unread"
      using take_overwrite_0 [of ?unread "cells ?v"] len bd by auto
    have len2: "length (if ?count \<noteq> 0 then overwrite 0 ?unread (cells ?v) else cells ?v)
        = capacity ?v"
      using len bd by auto
    have b': "b' = \<lparr>rpos = 0, data =
        \<lparr>cells = (if ?count \<noteq> 0 then overwrite 0 ?unread (cells ?v) else cells ?v),
         vlen = ?count\<rparr>\<rparr>"
      using prep compact wrap by (auto simp: buf_prepare_def Let_def split: if_splits)
    have "buf_contents b' = ?unread"
      using moved by (simp add: b' buf_contents_def)
    moreover have "?unread = buf_contents b"
      by (simp add: buf_contents_def drop_take)
    moreover have "buf_ok b'"
      using bd len2 by (simp add: b' buf_ok_def vec_ok_def)
    ultimately show ?thesis
      using compact bd len2 by (simp add: b')
  next
    case grow
    then have "isize_max \<ge> vlen ?v + n" and b': "b' = b\<lparr>data := \<lparr>cells = take (vlen ?v) (cells ?v) @
        replicate n None, vlen = vlen ?v\<rparr>\<rparr>"
      using prep wrap by (auto simp: buf_prepare_def Let_def split: if_splits)
    then show ?thesis
      using bd by (simp add: buf_ok_def vec_ok_def buf_contents_def)
  qed
  then show "buf_ok b'" "buf_contents b' = buf_contents b"
    "vlen (data b') + n \<le> capacity (data b')" by auto
qed

lemma buf_prepare_total:
  assumes ok: "buf_ok b" and room: "vlen (data b) + n \<le> isize_max"
  shows "\<exists>b'. buf_prepare b n = Done b'"
proof -
  have "usize_add (vlen (data b)) n = vlen (data b) + n"
    using room by (intro usize_add_small) auto
  with room have "\<not> isize_max < usize_add (vlen (data b)) n"
    "\<not> usize_add (vlen (data b)) n < vlen (data b)" by simp_all
  then show ?thesis
    unfolding buf_prepare_def Let_def by (simp split: if_split)
qed

lemma buf_write_slice_Done:
  assumes ok: "buf_ok b" and n: "length xs \<le> isize_max" and w: "buf_write_slice b xs = Done b'"
  shows "buf_ok b'" and "buf_contents b' = buf_contents b @ map Some xs"
proof -
  obtain b1 where prep: "buf_prepare b (length xs) = Done b1"
    and b': "b' = b1\<lparr>data := vec_extend (data b1) xs\<rparr>"
    using w by (auto simp: buf_write_slice_def split: outcome.splits)
  note p = buf_prepare_Done [OF ok n prep]
  note bd = buf_okD [OF p(1)]
  have ext: "vec_bytes (data b') = vec_bytes (data b1) @ map Some xs"
    "vlen (data b') = vlen (data b1) + length xs" "capacity (data b') = capacity (data b1)"
    using vec_extend_bytes [OF bd(2), of xs] vec_extend_room [OF p(3)] by (simp_all add: b')
  show "buf_ok b'"
    using ext bd p(3) by (auto simp: buf_ok_def vec_ok_def b')
  have "rpos b1 \<le> length (vec_bytes (data b1))"
    using bd by (simp add: vec_bytes_def)
  then show "buf_contents b' = buf_contents b @ map Some xs"
    using ext p(2) by (simp add: buf_contents_vec b')
qed

lemma buf_write_slice_total:
  assumes "buf_ok b" and "vlen (data b) + length xs \<le> isize_max"
  shows "\<exists>b'. buf_write_slice b xs = Done b'"
  using buf_prepare_total [OF assms] by (auto simp: buf_write_slice_def)

lemma buf_read_Done:
  assumes ok: "buf_ok b" and n: "n \<le> isize_max"
  shows "buf_read b n =
     (if length (buf_contents b) < n then Done (None, b)
      else Done (Some (take n (buf_contents b)), b\<lparr>rpos := rpos b + n\<rparr>))"
proof -
  note bd = buf_okD [OF ok]
  have "usize_add (rpos b) n = rpos b + n" using bd n by (intro usize_add_small) auto
  moreover have "take n (buf_contents b) = take n (drop (rpos b) (cells (data b)))"
    if "rpos b + n \<le> vlen (data b)"
    using that by (simp add: buf_contents_def drop_take min_def)
  ultimately show ?thesis
    using bd n by (auto simp: buf_read_def buf_contents_def)
qed

lemma buf_advance:
  assumes "buf_ok b" and "n \<le> length (buf_contents b)"
  shows "buf_ok (b\<lparr>rpos := rpos b + n\<rparr>)"
    and "buf_contents (b\<lparr>rpos := rpos b + n\<rparr>) = drop n (buf_contents b)"
  using assms buf_okD [OF assms(1)]
  by (auto simp: buf_ok_def buf_contents_def add.commute)

text \<open>The other operations, each against the readable bytes.\<close>

lemma buf_write_Done:
  assumes ok: "buf_ok b" and w: "buf_write b c = Done b'"
  shows "buf_ok b'" and "buf_contents b' = buf_contents b @ [Some c]"
proof -
  note bd = buf_okD [OF ok]
  have b': "b' = b\<lparr>data := vec_push (data b) c\<rparr>" "capacity (vec_push (data b) c) \<le> isize_max"
    using w by (auto simp: buf_write_def Let_def split: if_splits)
  note e = vec_extend_bytes [OF bd(2), of "[c]"]
  show "buf_ok b'"
    using e b' bd by (auto simp: buf_ok_def vec_ok_def vec_push_def)
  have "rpos b \<le> length (vec_bytes (data b))" using bd by (simp add: vec_bytes_def)
  then show "buf_contents b' = buf_contents b @ [Some c]"
    using e b' by (simp add: buf_contents_vec vec_push_def)
qed

lemma buf_write_front_ok:
  assumes ok: "buf_ok b"
  shows "buf_ok (snd (buf_write_front b xs))"
    and "fst (buf_write_front b xs) \<longleftrightarrow> length xs \<le> rpos b"
    and "length xs \<le> rpos b \<Longrightarrow>
      buf_contents (snd (buf_write_front b xs)) = map Some xs @ buf_contents b"
    and "rpos b < length xs \<Longrightarrow> snd (buf_write_front b xs) = b"
proof -
  note bd = buf_okD [OF ok]
  let ?b = "snd (buf_write_front b xs)"
  show "fst (buf_write_front b xs) \<longleftrightarrow> length xs \<le> rpos b" "rpos b < length xs \<Longrightarrow> ?b = b"
    by (auto simp: buf_write_front_def Let_def)
  show "buf_ok ?b"
    using bd ok by (auto simp: buf_write_front_def Let_def buf_ok_def vec_ok_def)
  assume n: "length xs \<le> rpos b"
  have "drop (rpos b - length xs) (overwrite (rpos b - length xs) (map Some xs) (cells (data b)))
      = map Some xs @ drop (rpos b) (cells (data b))"
    using n bd by (simp add: overwrite_def)
  then show "buf_contents ?b = map Some xs @ buf_contents b"
    using n bd by (simp add: buf_write_front_def Let_def buf_contents_def drop_take)
qed

lemma write_front_byte_is_write_front:
  assumes "buf_ok b"
  shows "buf_write_front_byte b c = buf_write_front b [c]"
  using buf_okD(6) [OF assms] assms
  by (cases "rpos b = 0")
    (auto simp: buf_write_front_byte_def buf_write_front_def Let_def overwrite_def
      upd_conv_take_nth_drop)

lemma buf_clear_ok:
  assumes "buf_ok b"
  shows "buf_ok (buf_clear b)" and "buf_contents (buf_clear b) = []"
  using assms by (auto simp: buf_clear_def buf_ok_def vec_ok_def buf_contents_def)

lemma buf_consume_ok: "buf_ok b \<Longrightarrow> buf_ok (buf_consume b n)"
  by (auto simp: buf_consume_def buf_ok_def)

lemma buf_seek_ok: "buf_ok b \<Longrightarrow> buf_ok (snd (buf_seek b p))"
  by (auto simp: buf_seek_def buf_ok_def)

lemma buf_commit_ok:
  assumes "buf_ok b" and "n \<le> isize_max"
  shows "buf_ok (snd (buf_commit b n))"
  using buf_okD [OF assms(1)] usize_add_small [of "vlen (data b)" n] assms
  by (auto simp: buf_commit_def Let_def buf_ok_def vec_ok_def)

lemma buf_revert_Done:
  assumes ok: "buf_ok b" and n: "n \<le> isize_max"
  shows "buf_revert b n =
     (if n \<le> length (buf_contents b)
      then Done (b\<lparr>data := (data b)\<lparr>vlen := vlen (data b) - n\<rparr>\<rparr>)
      else Panic ''revert size is larger than readable size'')"
proof -
  note bd = buf_okD [OF ok]
  have add: "usize_add (rpos b) n = rpos b + n" using bd n by (intro usize_add_small) auto
  have "(vlen (data b) + (usize_modulus - n)) mod usize_modulus = vlen (data b) - n"
    if "n \<le> vlen (data b)"
  proof -
    have eq: "vlen (data b) + (usize_modulus - n) = (vlen (data b) - n) + usize_modulus"
      using that bd isize_double n by simp
    show ?thesis using bd isize_double unfolding eq by simp
  qed
  then show ?thesis
    using bd add by (auto simp: buf_revert_def buf_contents_def)
qed

text \<open>
  One call of the public interface; its parameters are what a caller can pass. \<open>prepare\<close> hands out
  the new room as a slice, into which the caller writes; \<open>as_mut_slice\<close> hands out the readable
  bytes, \<open>as_mut_vec\<close> the Vec, which the caller can replace by any other.
\<close>

datatype buf_op =
    WriteSlice "byte list" | WriteStr string | WriteChars string | Write byte | UnsafeWrite byte
  | WriteFront "byte list" | WriteFrontByte byte
  | Read nat | Consume nat | Seek int | Clear | Len | IsEmpty
  | Prepare nat "byte list" | Commit nat | Revert nat
  | Data | AsPtr | ReadU8 nat | ReadI16 nat bool | ReadU16 nat bool | ReadI32 nat bool | ReadU32 nat bool
  | AsSlice | AsMutSlice nat byte | AsMutVec rvec | AsVec | AsPointer | AsStr

definition buf_fill :: "buffer \<Rightarrow> byte list \<Rightarrow> buffer" where
  "buf_fill b xs = b\<lparr>data := (data b)\<lparr>cells := overwrite (vlen (data b)) (map Some xs) (cells (data b))\<rparr>\<rparr>"

fun buf_step :: "bool \<Rightarrow> buffer \<Rightarrow> buf_op \<Rightarrow> buffer outcome" where
  "buf_step h b (WriteSlice xs) = buf_write_slice b xs"
| "buf_step h b (WriteStr s) = buf_write_str b s"
| "buf_step h b (WriteChars s) = buf_write_chars (\<lambda>t. t) b s"
| "buf_step h b (Write c) = buf_write b c"
| "buf_step h b (UnsafeWrite c) = buf_unsafe_write b c"
| "buf_step h b (WriteFront xs) = Done (snd (buf_write_front b xs))"
| "buf_step h b (WriteFrontByte c) = Done (snd (buf_write_front_byte b c))"
| "buf_step h b (Read n) = obind (buf_read b n) (\<lambda>r. Done (snd r))"
| "buf_step h b (Consume n) = Done (buf_consume b n)"
| "buf_step h b (Seek p) = Done (snd (buf_seek b p))"
| "buf_step h b Clear = Done (buf_clear b)"
| "buf_step h b Len = Done b"
| "buf_step h b IsEmpty = Done b"
| "buf_step h b (Prepare n xs) = obind (buf_prepare b n) (\<lambda>b'. Done (buf_fill b' xs))"
| "buf_step h b (Commit n) = Done (snd (buf_commit b n))"
| "buf_step h b (Revert n) = buf_revert b n"
| "buf_step h b Data = obind (buf_data b) (\<lambda>_. Done b)"
| "buf_step h b AsPtr = Done b"
| "buf_step h b (ReadU8 pos) = obind (buf_read_u8 b pos) (\<lambda>_. Done b)"
| "buf_step h b (ReadI16 pos le) = obind (buf_read_i16 h b pos le) (\<lambda>_. Done b)"
| "buf_step h b (ReadU16 pos le) = obind (buf_read_u16 h b pos le) (\<lambda>_. Done b)"
| "buf_step h b (ReadI32 pos le) = obind (buf_read_i32 h b pos le) (\<lambda>_. Done b)"
| "buf_step h b (ReadU32 pos le) = obind (buf_read_u32 h b pos le) (\<lambda>_. Done b)"
| "buf_step h b AsSlice = obind (buf_as_slice b) (\<lambda>_. Done b)"
| "buf_step h b (AsMutSlice i c) = buf_mut_slice_set b i c"
| "buf_step h b (AsMutVec v) = Done (b\<lparr>data := v\<rparr>)"
| "buf_step h b AsVec = Done b"
| "buf_step h b AsPointer = Done b"
| "buf_step h b AsStr = obind (buf_as_str b) (\<lambda>_. Done b)"

text \<open>
  What the types promise: a slice has at most \<open>isize::MAX\<close> bytes, a \<open>usize\<close> is below \<open>2 ^ 64\<close>, what a
  caller writes through the slice of \<open>prepare\<close> fits in it, and a Vec is well formed.
\<close>

fun op_given :: "buf_op \<Rightarrow> bool" where
  "op_given (WriteSlice xs) \<longleftrightarrow> length xs \<le> isize_max"
| "op_given (WriteStr s) \<longleftrightarrow> length s \<le> isize_max"
| "op_given (WriteChars s) \<longleftrightarrow> length s \<le> isize_max"
| "op_given (Prepare n xs) \<longleftrightarrow> n < usize_modulus \<and> length xs \<le> n"
| "op_given (Commit n) \<longleftrightarrow> n < usize_modulus"
| "op_given (Revert n) \<longleftrightarrow> n < usize_modulus"
| "op_given (AsMutVec v) \<longleftrightarrow> vec_ok v"
| "op_given _ \<longleftrightarrow> True"

text \<open>The bytes of a fixed-width read lie inside the allocation and were written.\<close>

definition word_there :: "nat \<Rightarrow> buffer \<Rightarrow> nat \<Rightarrow> bool" where
  "word_there n b pos \<longleftrightarrow> usize_add (rpos b) pos + n \<le> capacity (data b) \<and>
     list_all (\<lambda>c. c \<noteq> None) (take n (drop (usize_add (rpos b) pos) (cells (data b))))"

text \<open>
  What the code leaves to its caller. \<open>unsafe_write\<close> wants room; a fixed-width read wants its bytes
  there, \<open>read_u8\<close> that the byte was written, \<open>as_str\<close> UTF-8; a Vec put in the place of the old one
  must reach to the read position; and a size must not make the sums of \<open>prepare\<close>, \<open>commit\<close> and
  \<open>revert\<close> wrap into a length before the read position or behind the allocation. Every other call is
  allowed in every state.
\<close>

fun op_safe :: "buffer \<Rightarrow> buf_op \<Rightarrow> bool" where
  "op_safe b (UnsafeWrite c) \<longleftrightarrow> vlen (data b) < capacity (data b)"
| "op_safe b (Prepare n xs) \<longleftrightarrow> vlen (data b) + n < usize_modulus"
| "op_safe b (Commit n) \<longleftrightarrow> rpos b \<le> usize_add (vlen (data b)) n"
| "op_safe b (Revert n) \<longleftrightarrow>
     rpos b + n < usize_modulus \<or> vlen (data b) + (usize_modulus - n) \<le> capacity (data b)"
| "op_safe b (ReadU8 pos) \<longleftrightarrow>
     (usize_add (rpos b) pos < vlen (data b) \<longrightarrow> cells (data b) ! usize_add (rpos b) pos \<noteq> None)"
| "op_safe b (ReadI16 pos le) \<longleftrightarrow> word_there 2 b pos"
| "op_safe b (ReadU16 pos le) \<longleftrightarrow> word_there 2 b pos"
| "op_safe b (ReadI32 pos le) \<longleftrightarrow> word_there 4 b pos"
| "op_safe b (ReadU32 pos le) \<longleftrightarrow> word_there 4 b pos"
| "op_safe b (AsMutVec v) \<longleftrightarrow> rpos b \<le> vlen v"
| "op_safe b AsStr \<longleftrightarrow> list_all (\<lambda>c. c \<noteq> None) (buf_contents b) \<and>
     utf8_check 0 (map (\<lambda>c. of_char (the c)) (buf_contents b)) = None"
| "op_safe b _ \<longleftrightarrow> True"

text \<open>A call is defined when it panics, or returns a well-formed buffer.\<close>

definition call_defined :: "buffer outcome \<Rightarrow> bool" where
  "call_defined r \<longleftrightarrow> (case r of Done b \<Rightarrow> buf_ok b | Panic e \<Rightarrow> True | UB e \<Rightarrow> False)"

lemma call_defined_simps [simp]:
  "call_defined (Done b) \<longleftrightarrow> buf_ok b" "call_defined (Panic e)" "\<not> call_defined (UB e)"
  by (simp_all add: call_defined_def)

lemma defined_unless:
  "(\<And>b'. r = Done b' \<Longrightarrow> buf_ok b') \<Longrightarrow> (\<And>e. r \<noteq> UB e) \<Longrightarrow> call_defined r"
  by (cases r) auto

lemma buf_prepare_no_UB:
  assumes "buf_ok b" and "n \<le> isize_max"
  shows "buf_prepare b n \<noteq> UB e"
proof -
  have "usize_add (vlen (data b)) n = vlen (data b) + n"
    using buf_okD [OF assms(1)] assms(2) by (intro usize_add_small) auto
  then show ?thesis by (simp add: buf_prepare_def Let_def)
qed

lemma buf_prepare_large:
  assumes ok: "buf_ok b" and n: "isize_max < n" "n < usize_modulus"
  shows "call_defined (obind (buf_prepare b n) f) \<longleftrightarrow> vlen (data b) + n < usize_modulus"
proof -
  note bd = buf_okD [OF ok]
  have "usize_add (capacity (data b) - vlen (data b)) (rpos b) = capacity (data b) - vlen (data b) + rpos b"
    using bd by (intro usize_add_small) auto
  then have small: "\<not> n \<le> usize_add (capacity (data b) - vlen (data b)) (rpos b)"
    "capacity (data b) - vlen (data b) < n" using bd n by simp_all
  show ?thesis
  proof (cases "vlen (data b) + n < usize_modulus")
    case True
    then have "usize_add (vlen (data b)) n = vlen (data b) + n" by (simp add: usize_add_def)
    then show ?thesis using True small n by (simp add: buf_prepare_def Let_def)
  next
    case False
    have "usize_add (vlen (data b)) n = (vlen (data b) + n - usize_modulus) mod usize_modulus"
      unfolding usize_add_def using False by (intro le_mod_geq) simp
    also have "\<dots> = vlen (data b) + n - usize_modulus"
      using bd n isize_double by (intro mod_less) linarith
    finally have "usize_add (vlen (data b)) n = vlen (data b) + n - usize_modulus" .
    moreover have "vlen (data b) + n - usize_modulus < vlen (data b)" using False n by linarith
    ultimately show ?thesis using False small n bd isize_double by (simp add: buf_prepare_def Let_def)
  qed
qed

lemma buf_fill_ok:
  "buf_ok b \<Longrightarrow> vlen (data b) + length xs \<le> capacity (data b) \<Longrightarrow> buf_ok (buf_fill b xs)"
  by (simp add: buf_fill_def buf_ok_def vec_ok_def)

lemma prepare_defined:
  assumes ok: "buf_ok b" and g: "n < usize_modulus" "length xs \<le> n"
  shows "call_defined (obind (buf_prepare b n) (\<lambda>b'. Done (buf_fill b' xs))) \<longleftrightarrow>
    vlen (data b) + n < usize_modulus"
proof (cases "n \<le> isize_max")
  case True
  have "call_defined (obind (buf_prepare b n) (\<lambda>b'. Done (buf_fill b' xs)))"
    using buf_prepare_Done [OF ok True] buf_prepare_no_UB [OF ok True] g
    by (cases "buf_prepare b n") (auto intro!: buf_fill_ok)
  then show ?thesis using True buf_okD [OF ok] isize_double by simp
qed (use buf_prepare_large [OF ok _ g(1)] in simp)

lemma commit_defined:
  assumes ok: "buf_ok b" and n: "n < usize_modulus"
  shows "buf_ok (snd (buf_commit b n)) \<longleftrightarrow> rpos b \<le> usize_add (vlen (data b)) n"
  using buf_okD [OF ok] ok by (auto simp: buf_commit_def Let_def buf_ok_def vec_ok_def)

lemma revert_defined:
  assumes ok: "buf_ok b" and n: "n < usize_modulus"
  shows "call_defined (buf_revert b n) \<longleftrightarrow>
    rpos b + n < usize_modulus \<or> vlen (data b) + (usize_modulus - n) \<le> capacity (data b)"
proof -
  note bd = buf_okD [OF ok]
  show ?thesis
  proof (cases "rpos b + n < usize_modulus")
    case True
    then have add: "usize_add (rpos b) n = rpos b + n" by (simp add: usize_add_def)
    have "(vlen (data b) + (usize_modulus - n)) mod usize_modulus = vlen (data b) - n"
      if "rpos b + n \<le> vlen (data b)"
    proof -
      have "vlen (data b) + (usize_modulus - n) = (vlen (data b) - n) + usize_modulus"
        using that n by simp
      moreover have "vlen (data b) - n < usize_modulus" using bd isize_double by linarith
      ultimately show ?thesis by simp
    qed
    then show ?thesis using True add bd
      by (auto simp: buf_revert_def buf_ok_def vec_ok_def)
  next
    case False
    have "usize_add (rpos b) n = (rpos b + n - usize_modulus) mod usize_modulus"
      unfolding usize_add_def using False by (intro le_mod_geq) simp
    also have "\<dots> = rpos b + n - usize_modulus" using bd n isize_double by (intro mod_less) linarith
    finally have low: "usize_add (rpos b) n \<le> vlen (data b)" using bd n by linarith
    have "(vlen (data b) + (usize_modulus - n)) mod usize_modulus = vlen (data b) + (usize_modulus - n)"
      using False bd isize_double by (intro mod_less) linarith
    then show ?thesis using False low bd by (auto simp: buf_revert_def buf_ok_def vec_ok_def)
  qed
qed

lemma word_defined:
  "call_defined (obind (buf_read_word h n b pos le :: 'w::len word outcome) (\<lambda>_. Done b)) \<longleftrightarrow>
    buf_ok b \<and> word_there n b pos"
  by (auto simp: buf_read_word_def raw_cells_def word_there_def Let_def)

lemma buf_read_ok:
  assumes ok: "buf_ok b" and r: "buf_read b n = Done (x, b')"
  shows "buf_ok b'"
proof (cases "n \<le> isize_max")
  case True
  show ?thesis
  proof (cases "length (buf_contents b) < n")
    case True
    then show ?thesis using r ok buf_read_Done [OF ok \<open>n \<le> isize_max\<close>] by simp
  next
    case False
    then show ?thesis
      using r buf_read_Done [OF ok \<open>n \<le> isize_max\<close>] buf_advance(1) [OF ok, of n] by simp
  qed
next
  case False
  then show ?thesis using r ok by (auto simp: buf_read_def split: if_splits)
qed

lemma read_defined: "buf_ok b \<Longrightarrow> call_defined (obind (buf_read b n) (\<lambda>r. Done (snd r)))"
  using buf_read_ok [of b n] by (cases "buf_read b n") (force simp: buf_read_def split: if_splits)+

lemma write_slice_defined:
  assumes "buf_ok b" and "length xs \<le> isize_max"
  shows "call_defined (buf_write_slice b xs)"
  using buf_write_slice_Done(1) [OF assms] buf_prepare_no_UB [OF assms]
  by (intro defined_unless) (auto simp: buf_write_slice_def split: outcome.splits)

lemma write_defined: "buf_ok b \<Longrightarrow> call_defined (buf_write b c)"
  using buf_write_Done(1) [of b c] by (intro defined_unless) (auto simp: buf_write_def Let_def)

text \<open>A call is defined exactly when the state allows it.\<close>

lemma buf_step_defined:
  assumes ok: "buf_ok b" and g: "op_given p"
  shows "call_defined (buf_step h b p) \<longleftrightarrow> op_safe b p"
proof (cases p)
  case (AsMutSlice i c)
  then show ?thesis using ok by (auto simp: buf_mut_slice_set_def buf_ok_def vec_ok_def)
next
  case (ReadU8 pos)
  then show ?thesis using ok by (auto simp: buf_read_u8_def Let_def split: option.splits)
next
  case (WriteFrontByte c)
  then show ?thesis
    using buf_write_front_ok(1) [OF ok] by (auto simp: write_front_byte_is_write_front [OF ok])
next
  case (UnsafeWrite c)
  then show ?thesis using ok by (auto simp: buf_unsafe_write_def Let_def buf_ok_def vec_ok_def)
next
  case AsStr
  then show ?thesis using ok by (auto simp: buf_as_str_def buf_as_slice_def dest: buf_okD)
next
  case (AsMutVec v)
  then show ?thesis using g by (auto simp: buf_ok_def)
qed (use ok g prepare_defined [OF ok] revert_defined [OF ok] commit_defined [OF ok] in
  \<open>auto simp: buf_write_str_def buf_write_chars_def write_slice_defined write_defined read_defined
     buf_write_front_ok(1) buf_consume_ok buf_seek_ok buf_clear_ok(1) word_defined
     buf_read_i16_def buf_read_u16_def buf_read_i32_def buf_read_u32_def
     buf_data_def buf_as_slice_def dest: buf_okD\<close>)

section \<open>The contracts\<close>

text \<open>The public operations as a memory-safe machine.\<close>

interpretation buf_machine: safe_machine "buf_step h" buf_ok "\<lambda>b p. op_given p \<and> op_safe b p"
proof
  fix b p b' e
  assume "buf_ok b" "op_given p \<and> op_safe b p"
  then have d: "call_defined (buf_step h b p)" using buf_step_defined by blast
  show "buf_ok b'" if "buf_step h b p = Done b'" using d that by simp
  show "buf_step h b p \<noteq> UB e" using d by auto
qed

text \<open>The buffer as a byte queue: what a call answers, and how much of the allocation it can use.\<close>

fun buf_call :: "buffer \<Rightarrow> byte fifo_op \<Rightarrow> (byte option list option \<times> buffer) option" where
  "buf_call b (Put xs) = (case buf_write_slice b xs of Done b' \<Rightarrow> Some (Some [], b') | _ \<Rightarrow> None)"
| "buf_call b (PutOne c) = (case buf_write b c of Done b' \<Rightarrow> Some (Some [], b') | _ \<Rightarrow> None)"
| "buf_call b (Get n) = (case buf_read b n of Done r \<Rightarrow> Some r | _ \<Rightarrow> None)"
| "buf_call b (Skip n) = Some (Some [], buf_consume b n)"
| "buf_call b (Room n) = (case buf_prepare b n of Done b' \<Rightarrow> Some (Some [], b') | _ \<Rightarrow> None)"
| "buf_call b Peek = (case buf_data b of Done xs \<Rightarrow> Some (Some xs, b) | _ \<Rightarrow> None)"
| "buf_call b Empty = Some (Some [], buf_clear b)"

fun fifo_cost :: "byte fifo_op \<Rightarrow> nat" where
  "fifo_cost (Put xs) = length xs"
| "fifo_cost (PutOne c) = 1"
| "fifo_cost (Room n) = n"
| "fifo_cost _ = 0"

definition fifo_budget :: nat where
  "fifo_budget = (isize_max - 128) div 2"

fun fifo_sane :: "byte fifo_op \<Rightarrow> bool" where
  "fifo_sane (Get n) \<longleftrightarrow> n \<le> isize_max"
| "fifo_sane (Skip n) \<longleftrightarrow> n \<le> isize_max"
| "fifo_sane _ \<longleftrightarrow> True"

definition buf_room :: "nat \<Rightarrow> buffer \<Rightarrow> bool" where
  "buf_room w b \<longleftrightarrow> buf_ok b \<and> vlen (data b) \<le> w \<and> capacity (data b) \<le> 2 * w + 128"

lemma fifo_budgetD: "w \<le> fifo_budget \<Longrightarrow> 2 * w + 128 \<le> isize_max"
  by (simp add: fifo_budget_def isize_max_def)

lemma buf_prepare_room:
  assumes r: "buf_room w b" and n: "w + n \<le> fifo_budget"
  shows "\<exists>b'. buf_prepare b n = Done b' \<and> buf_room (w + n) b' \<and> buf_contents b' = buf_contents b \<and>
    vlen (data b') \<le> w \<and> vlen (data b') + n \<le> capacity (data b')"
proof -
  have ok: "buf_ok b" and v: "vlen (data b) \<le> w" and c: "capacity (data b) \<le> 2 * w + 128"
    using r by (auto simp: buf_room_def)
  have m: "vlen (data b) + n \<le> isize_max" "n \<le> isize_max" using v fifo_budgetD [OF n] by auto
  obtain b' where b': "buf_prepare b n = Done b'" using buf_prepare_total [OF ok m(1)] by blast
  have add: "usize_add (vlen (data b)) n = vlen (data b) + n"
    using buf_okD [OF ok] m by (intro usize_add_small) auto
  have len: "length (take k (drop i (cells (data b)))) \<le> capacity (data b)" for k i by simp
  have "vlen (data b') \<le> vlen (data b) \<and> capacity (data b') \<le> max (capacity (data b)) (vlen (data b) + n)"
    using b' buf_okD [OF ok] by (auto simp: buf_prepare_def Let_def add split: if_splits)
  then show ?thesis using b' buf_prepare_Done [OF ok m(2) b'] v c
    by (auto simp: buf_room_def)
qed

lemma buf_write_slice_room:
  assumes r: "buf_room w b" and n: "w + length xs \<le> fifo_budget"
  shows "\<exists>b'. buf_write_slice b xs = Done b' \<and> buf_room (w + length xs) b' \<and>
    buf_contents b' = buf_contents b @ map Some xs"
proof -
  have ok: "buf_ok b" using r by (simp add: buf_room_def)
  have m: "length xs \<le> isize_max" using fifo_budgetD [OF n] by auto
  obtain b1 where b1: "buf_prepare b (length xs) = Done b1" "buf_room (w + length xs) b1"
    "vlen (data b1) \<le> w" "vlen (data b1) + length xs \<le> capacity (data b1)"
    using buf_prepare_room [OF assms] by blast
  let ?b = "b1\<lparr>data := vec_extend (data b1) xs\<rparr>"
  have w: "buf_write_slice b xs = Done ?b" using b1 by (simp add: buf_write_slice_def)
  have "vlen (data b1) \<le> capacity (data b1)" using b1(4) by simp
  then have "vlen (data ?b) = vlen (data b1) + length xs" "capacity (data ?b) = capacity (data b1)"
    using b1(4) by (simp_all add: vec_extend_bytes vec_extend_room)
  then have "buf_room (w + length xs) ?b"
    using b1 buf_write_slice_Done(1) [OF ok m w] by (simp add: buf_room_def)
  then show ?thesis using w buf_write_slice_Done(2) [OF ok m w] by blast
qed

lemma buf_write_room:
  assumes r: "buf_room w b" and n: "w + 1 \<le> fifo_budget"
  shows "\<exists>b'. buf_write b c = Done b' \<and> buf_room (w + 1) b' \<and> buf_contents b' = buf_contents b @ [Some c]"
proof -
  have ok: "buf_ok b" and v: "vlen (data b) \<le> w" and cap: "capacity (data b) \<le> 2 * w + 128"
    using r by (auto simp: buf_room_def)
  note bd = buf_okD [OF ok]
  let ?v = "vec_push (data b) c"
  have "capacity ?v = capacity (vec_reserve (data b) 1)"
    using vec_reserve_props(1,2) [of "data b" 1] bd by (simp add: vec_push_def vec_extend_def Let_def)
  also have "\<dots> \<le> 2 * (w + 1) + 128" using v cap bd by (auto simp: vec_reserve_def)
  finally have c: "capacity ?v \<le> 2 * (w + 1) + 128" .
  then have w: "buf_write b c = Done (b\<lparr>data := ?v\<rparr>)"
    using fifo_budgetD [OF n] by (simp add: buf_write_def Let_def)
  moreover have "vlen ?v = vlen (data b) + 1" using bd by (simp add: vec_push_def vec_extend_bytes)
  ultimately show ?thesis using c v buf_write_Done [OF ok w] by (simp add: buf_room_def)
qed

lemma buf_take_room:
  assumes r: "buf_room w b" and n: "n \<le> length (buf_contents b)"
  shows "buf_room w (b\<lparr>rpos := rpos b + n\<rparr>)"
  using r buf_advance(1) [OF _ n] by (simp add: buf_room_def)

lemma buf_consume_eq:
  assumes "buf_ok b" "n \<le> isize_max"
  shows "buf_consume b n = (if length (buf_contents b) < n then b else b\<lparr>rpos := rpos b + n\<rparr>)"
proof -
  note bd = buf_okD [OF assms(1)]
  have "usize_add (rpos b) n = rpos b + n" using bd assms by (intro usize_add_small) auto
  then show ?thesis using bd by (auto simp: buf_consume_def buf_contents_def)
qed

interpretation buf_queue: byte_queue buf_room buf_contents buf_call fifo_cost fifo_budget fifo_sane
proof
  fix w b p
  assume r: "buf_room w b" and n: "w + fifo_cost p \<le> fifo_budget" and s: "fifo_sane p"
  have ok: "buf_ok b" using r by (simp add: buf_room_def)
  show "\<exists>a b'. buf_call b p = Some (a, b') \<and> buf_room (w + fifo_cost p) b' \<and>
      (a, buf_contents b') = fifo_step (buf_contents b) (map_fifo_op Some p)"
  proof (cases p)
    case (Put xs)
    then show ?thesis using buf_write_slice_room [OF r, of xs] n by auto
  next
    case (PutOne c)
    then show ?thesis using buf_write_room [OF r, of c] n by auto
  next
    case (Get k)
    then show ?thesis
      using s r buf_read_Done [OF ok, of k] buf_take_room [OF r, of k] buf_advance(2) [OF ok, of k] by auto
  next
    case (Skip k)
    then show ?thesis
      using s r buf_consume_eq [OF ok, of k] buf_take_room [OF r, of k] buf_advance(2) [OF ok, of k] by auto
  next
    case (Room k)
    then show ?thesis using buf_prepare_room [OF r, of k] n by auto
  next
    case Peek
    then show ?thesis using r buf_okD(1) [OF ok] by (simp add: buf_data_def)
  next
    case Empty
    then show ?thesis using r buf_clear_ok [OF ok] by (auto simp: buf_room_def buf_clear_def)
  qed
qed

lemma buf_initial_ok:
  "buf_ok buf_new" "buf_contents buf_new = []"
  "n \<le> isize_max \<Longrightarrow> buf_ok (buf_with_capacity n)" "buf_contents (buf_with_capacity n) = []"
  by (simp_all add: buf_ok_def vec_ok_def buf_new_def buf_with_capacity_def vec_with_capacity_def
      buf_contents_def default_reserve_def isize_max_def)

lemma buf_new_room: "buf_room 0 buf_new"
  using buf_initial_ok(1) by (simp add: buf_room_def buf_new_def vec_with_capacity_def default_reserve_def)

section \<open>Properties\<close>



text \<open>
  C29. First in, first out: on a fresh buffer any interleaving of writes of chunks and of single
  bytes, reads and skips of any length, \<open>prepare\<close>, \<open>data\<close> and \<open>clear\<close> returns, as long as the sizes written
  and prepared do not come near half the address space, and answers each call as a byte queue does; the bytes
  still unread are those of the queue. Compaction and reallocation on the way do not show.
\<close>

theorem buffer_fifo:
  assumes "sum_list (map fifo_cost ps) \<le> fifo_budget" and "list_all fifo_sane ps"
  shows "\<exists>b. queue_run buf_call buf_new ps = Some (map (map_option (map Some)) (fst (fifo_run [] ps)), b) \<and>
    buf_contents b = map Some (snd (fifo_run [] ps))"
proof -
  obtain as b where "queue_run buf_call buf_new ps = Some (as, b)"
    "(as, buf_contents b) = fifo_run (map Some []) (map (map_fifo_op Some) ps)"
    using buf_queue.run_refines [OF buf_new_room, of ps] assms buf_initial_ok(2) by auto
  then show ?thesis unfolding fifo_run_map by (cases "fifo_run [] ps") auto
qed

theorem buffer_fifo_witness:
  "\<exists>b. queue_run buf_call buf_new [Put ''abc'', Get 2, PutOne (CHR ''d''), Room 126, Get 5, Get 1, Peek] =
    Some ([Some [], Some [Some (CHR ''a''), Some (CHR ''b'')], Some [], Some [], None, Some [Some (CHR ''c'')],
      Some [Some (CHR ''d'')]], b) \<and> buf_contents b = [Some (CHR ''d'')]"
proof -
  let ?ps = "[Put ''abc'', Get 2, PutOne (CHR ''d''), Room 126, Get 5, Get 1, Peek]"
  have run: "fifo_run [] ?ps = ([Some [], Some ''ab'', Some [], Some [], None, Some ''c'', Some ''d''], ''d'')"
    by (simp add: numeral_eq_Suc)
  have "sum_list (map fifo_cost ?ps) \<le> fifo_budget" "list_all fifo_sane ?ps"
    by (simp_all add: fifo_budget_def isize_max_def)
  from buffer_fifo [OF this] show ?thesis unfolding run by simp
qed

text \<open>
  A header written in front: after \<open>n\<close> bytes were consumed, \<open>write_front\<close> accepts exactly the
  headers of at most as many bytes as lie before the read position and puts them before the
  unread bytes, leaving those unchanged.
\<close>

theorem buffer_write_front_header:
  assumes "buf_ok b" and "buf_read b n = Done (Some xs, b')"
  shows "(fst (buf_write_front b' hdr) \<longleftrightarrow> length hdr \<le> rpos b + n) \<and>
    (length hdr \<le> rpos b + n \<longrightarrow>
      buf_contents (snd (buf_write_front b' hdr)) = map Some hdr @ drop n (buf_contents b))"
proof -
  have n: "n \<le> isize_max"
    using assms(2) by (auto simp: buf_read_def split: if_splits)
  then have m: "n \<le> length (buf_contents b)" "b' = b\<lparr>rpos := rpos b + n\<rparr>"
    using assms(2) by (auto simp: buf_read_Done [OF assms(1) n] split: if_splits)
  note adv = buf_advance [OF assms(1) m(1)]
  show ?thesis
    using buf_write_front_ok(2,3) [OF adv(1), of hdr] adv(2) m(2) by auto
qed

theorem buffer_write_front_header_witness:
  "\<exists>b'. buf_read (buf_from_slice ''abcd'') 2 = Done (Some [Some (CHR ''a''), Some (CHR ''b'')], b') \<and>
    buf_contents (snd (buf_write_front b' ''X'')) = map Some ''Xcd''"
proof -
  have ok: "buf_ok (buf_from_slice ''abcd'')"
    by (simp add: buf_from_slice_def buf_ok_def vec_ok_def vec_extend_def vec_reserve_def Let_def
        vec_with_capacity_def overwrite_def isize_max_def)
  have c: "buf_contents (buf_from_slice ''abcd'') = map Some ''abcd''"
    by (simp add: buf_from_slice_def buf_contents_def vec_extend_def vec_reserve_def Let_def
        vec_with_capacity_def overwrite_def)
  have r: "buf_read (buf_from_slice ''abcd'') 2 =
      Done (Some [Some (CHR ''a''), Some (CHR ''b'')], (buf_from_slice ''abcd'')\<lparr>rpos := 2\<rparr>)"
  proof -
    have "(2::nat) \<le> isize_max" by (simp add: isize_max_def)
    from buf_read_Done [OF ok this] show ?thesis
      unfolding c by (simp add: buf_from_slice_def numeral_2_eq_2)
  qed
  show ?thesis
    using buffer_write_front_header [OF ok r, of "''X''"] r c
    by (auto simp: buf_from_slice_def numeral_2_eq_2)
qed

text \<open>
  The fixed-width readers do not depend on the byte order of the host: over initialised
  bytes inside the allocation, the little-endian read weighs the first byte lowest and the
  big-endian read weighs it highest, on every host.
\<close>

theorem buffer_read_word_host_independent:
  assumes "raw_cells b pos n = Done cs"
  shows "buf_read_word host_le n b pos True = Done (word_of_nat (bytes_to_nat cs) :: 'w::len word) \<and>
    buf_read_word host_le n b pos False = Done (word_of_nat (bytes_to_nat (rev cs)) :: 'w word)"
  using assms by (cases host_le) (auto simp: buf_read_word_def native_word_def)

theorem buffer_read_word_host_independent_witness:
  "buf_read_u16 False (buf_from_slice [CHR 0x01, CHR 0x02]) 0 True = Done 0x201"
proof -
  have r: "raw_cells (buf_from_slice [CHR 0x01, CHR 0x02]) 0 2 = Done [CHR 0x01, CHR 0x02]"
    by (simp add: raw_cells_def buf_from_slice_def vec_extend_def vec_reserve_def Let_def
        vec_with_capacity_def overwrite_def usize_add_def usize_modulus_def)
  show ?thesis
    using buffer_read_word_host_independent [OF r, of False, where 'w = 16]
    by (simp add: buf_read_u16_def)
qed

text \<open>
  Where the buffer is not safe: with a size beyond \<open>isize::MAX\<close> the release build's wrapping
  addition lets \<open>commit\<close> move the length behind the read position, and the fixed-width readers,
  unlike \<open>read_u8\<close>, read past the allocation instead of panicking.
\<close>

theorem buffer_unchecked_sizes:
  "(\<exists>b n. buf_ok b \<and> fst (buf_commit b n) \<and> \<not> buf_ok (snd (buf_commit b n))) \<and>
   (\<forall>b pos le h. buf_ok b \<and> pos \<le> isize_max \<and> capacity (data b) < rpos b + pos + 2 \<longrightarrow>
      (\<exists>e. buf_read_u16 h b pos le = UB e) \<and> (\<exists>e. buf_read_u8 b (pos + 1) = Panic e))"
proof (intro conjI)
  let ?b = "(buf_from_slice ''a'')\<lparr>rpos := 1\<rparr>"
  have ok: "buf_ok ?b"
    by (simp add: buf_from_slice_def buf_ok_def vec_ok_def vec_extend_def vec_reserve_def Let_def
        vec_with_capacity_def overwrite_def isize_max_def)
  have "buf_commit ?b (usize_modulus - 1) = (True, ?b\<lparr>data := (data ?b)\<lparr>vlen := 0\<rparr>\<rparr>)"
    by (simp add: buf_commit_def Let_def usize_add_def usize_modulus_def buf_from_slice_def
        vec_extend_def vec_reserve_def vec_with_capacity_def overwrite_def)
  then show "\<exists>b n. buf_ok b \<and> fst (buf_commit b n) \<and> \<not> buf_ok (snd (buf_commit b n))"
    using ok by (intro exI [of _ ?b] exI [of _ "usize_modulus - 1"]) (simp add: buf_ok_def)
  show "\<forall>b pos le h. buf_ok b \<and> pos \<le> isize_max \<and> capacity (data b) < rpos b + pos + 2 \<longrightarrow>
      (\<exists>e. buf_read_u16 h b pos le = UB e) \<and> (\<exists>e. buf_read_u8 b (pos + 1) = Panic e)"
  proof (intro allI impI)
    fix b pos le h
    assume a: "buf_ok b \<and> pos \<le> isize_max \<and> capacity (data b) < rpos b + pos + 2"
    note bd = buf_okD [OF conjunct1 [OF a]]
    have add: "usize_add (rpos b) pos = rpos b + pos"
      "usize_add (rpos b) (pos + 1) = rpos b + pos + 1"
      using a bd(5) by (simp_all add: usize_add_def isize_max_def usize_modulus_def)
    show "(\<exists>e. buf_read_u16 h b pos le = UB e) \<and> (\<exists>e. buf_read_u8 b (pos + 1) = Panic e)"
      using a add bd
      by (auto simp: buf_read_u16_def buf_read_word_def raw_cells_def Let_def buf_read_u8_def)
  qed
qed

theorem buffer_unchecked_sizes_witness:
  "\<exists>e. buf_read_u16 True buf_new 127 True = UB e"
proof -
  have "buf_ok buf_new \<and> 127 \<le> isize_max \<and> capacity (data buf_new) < rpos buf_new + 127 + 2"
    using buf_initial_ok(1)
    by (simp add: buf_new_def vec_with_capacity_def default_reserve_def isize_max_def)
  then show ?thesis using buffer_unchecked_sizes by blast
qed

end
