(* ===== verification/LuaValue.thy ===== *)
theory LuaValue
  imports Prelude
begin

text \<open>
  Lua values, tables and the stack as \<open>crates/libs/lib-lua-sys/src/laux.rs\<close> sees them. The Lua
  library is not part of the repository; what is used of it is its documented behaviour:
  a table is a finite map traversed by \<open>lua_next\<close> in some fixed order (\<open>entries\<close>), the raw
  length is a border (\<open>border\<close>), a metatable field is looked up by name (\<open>metas\<close>). Tables live
  in a heap and values refer to them by address, so cyclic data is possible.
\<close>

section \<open>Values and tables\<close>

datatype lua_value =
    LNone | LNil | LBoolean bool | LLightUserData u64 | LNumber f64 | LInteger i64
  | LString bytes | LTable nat | LFunction u64 | LUserData u64 | LThread u64

record lua_tbl =
  entries :: "(lua_value \<times> lua_value) list"
  border :: nat
  metas :: "(string \<times> lua_value) list"

type_synonym lua_heap = "nat \<Rightarrow> lua_tbl"

definition rawget :: "lua_tbl \<Rightarrow> lua_value \<Rightarrow> lua_value" where
  "rawget t k = (case map_of (entries t) k of None \<Rightarrow> LNil | Some v \<Rightarrow> v)"

definition int_key :: "nat \<Rightarrow> lua_value" where
  "int_key i = LInteger (word_of_nat i)"

definition rawgeti :: "lua_tbl \<Rightarrow> nat \<Rightarrow> lua_value" where
  "rawgeti t i = rawget t (int_key i)"

definition metafield :: "lua_tbl \<Rightarrow> string \<Rightarrow> lua_value" where
  "metafield t name = (case map_of (metas t) name of None \<Rightarrow> LNil | Some v \<Rightarrow> v)"

text \<open>A border of a table, as in section 3.4.7 of the Lua manual.\<close>

definition is_border :: "lua_tbl \<Rightarrow> nat \<Rightarrow> bool" where
  "is_border t n \<longleftrightarrow> n < 2 ^ 62 \<and> (n = 0 \<or> rawgeti t n \<noteq> LNil) \<and> rawgeti t (n + 1) = LNil"

definition table_ok :: "lua_tbl \<Rightarrow> bool" where
  "table_ok t \<longleftrightarrow> distinct (map fst (entries t)) \<and>
     list_all (\<lambda>e. fst e \<noteq> LNil \<and> fst e \<noteq> LNone \<and> snd e \<noteq> LNil \<and> snd e \<noteq> LNone) (entries t) \<and>
     is_border t (border t)"

section \<open>Types and conversions\<close>

datatype ltype =
    TNone | TNil | TBoolean | TLightUserData | TNumber | TString | TTable | TFunction
  | TUserData | TThread | TInteger

fun lua_type_code :: "ltype \<Rightarrow> int" where
  "lua_type_code TNone = -1"
| "lua_type_code TNil = 0"
| "lua_type_code TBoolean = 1"
| "lua_type_code TLightUserData = 2"
| "lua_type_code TNumber = 3"
| "lua_type_code TInteger = 3"
| "lua_type_code TString = 4"
| "lua_type_code TTable = 5"
| "lua_type_code TFunction = 6"
| "lua_type_code TUserData = 7"
| "lua_type_code TThread = 8"

fun lua_type :: "lua_value \<Rightarrow> ltype" where
  "lua_type LNone = TNone"
| "lua_type LNil = TNil"
| "lua_type (LBoolean _) = TBoolean"
| "lua_type (LLightUserData _) = TLightUserData"
| "lua_type (LNumber _) = TNumber"
| "lua_type (LInteger _) = TInteger"
| "lua_type (LString _) = TString"
| "lua_type (LTable _) = TTable"
| "lua_type (LFunction _) = TFunction"
| "lua_type (LUserData _) = TUserData"
| "lua_type (LThread _) = TThread"

fun lua_value_name :: "lua_value \<Rightarrow> string" where
  "lua_value_name LNone = ''none''"
| "lua_value_name LNil = ''nil''"
| "lua_value_name (LBoolean _) = ''boolean''"
| "lua_value_name (LLightUserData _) = ''lightuserdata''"
| "lua_value_name (LNumber _) = ''number''"
| "lua_value_name (LInteger _) = ''number''"
| "lua_value_name (LString _) = ''string''"
| "lua_value_name (LTable _) = ''table''"
| "lua_value_name (LFunction _) = ''function''"
| "lua_value_name (LUserData _) = ''userdata''"
| "lua_value_name (LThread _) = ''thread''"

text \<open>
  \<open>LuaValue::to_vec\<close>. The text of a float is Rust's \<open>f64::to_string\<close>, passed as \<open>show_f64\<close>.
\<close>

fun lua_to_vec :: "(f64 \<Rightarrow> string) \<Rightarrow> lua_value \<Rightarrow> bytes" where
  "lua_to_vec show_f64 (LString s) = s"
| "lua_to_vec show_f64 (LInteger n) = show_int (sint n)"
| "lua_to_vec show_f64 (LNumber n) = show_f64 n"
| "lua_to_vec show_f64 _ = []"

text \<open>
  The \<open>LuaStack\<close> trait. \<open>from_opt\<close> never fails: an integer target takes integers only and
  truncates to its width (\<open>as\<close>), a boolean target takes anything but nil, a string target takes
  strings only. \<open>from_checked\<close> raises a Lua error; \<open>luaL_checkinteger\<close>'s conversions (integral
  floats, numeric strings) are the argument \<open>tointeger\<close>.
\<close>

fun opt_integer :: "lua_value \<Rightarrow> 'w::len word option" where
  "opt_integer (LInteger i) = Some (ucast i)"
| "opt_integer _ = None"

fun opt_bool :: "lua_value \<Rightarrow> bool option" where
  "opt_bool LNone = None"
| "opt_bool LNil = None"
| "opt_bool (LBoolean b) = Some b"
| "opt_bool _ = Some True"

fun opt_bytes :: "lua_value \<Rightarrow> bytes option" where
  "opt_bytes (LString s) = Some s"
| "opt_bytes _ = None"

definition checked_integer_as :: "(lua_value \<Rightarrow> i64 option) \<Rightarrow> lua_value \<Rightarrow> string + 'w::len word" where
  "checked_integer_as tointeger v =
     (case tointeger v of Some i \<Rightarrow> Inr (ucast i) | None \<Rightarrow> Inl ''number expected'')"

fun checked_bool :: "lua_value \<Rightarrow> string + bool" where
  "checked_bool (LBoolean b) = Inr b"
| "checked_bool _ = Inl ''boolean expected''"

section \<open>The stack\<close>

text \<open>The stack grows to the right; index 1 is the first element, index -1 the last.\<close>

type_synonym lua_stack = "lua_value list"

definition lua_at :: "lua_stack \<Rightarrow> int \<Rightarrow> lua_value" where
  "lua_at s i =
     (let j = (if 0 < i then i - 1 else int (length s) + i) in
      if 0 \<le> j \<and> j < int (length s) then s ! nat j else LNone)"

definition lua_push :: "lua_stack \<Rightarrow> lua_value \<Rightarrow> lua_stack" where
  [stack_simps]: "lua_push s v = s @ [v]"

definition lua_settop :: "lua_stack \<Rightarrow> nat \<Rightarrow> lua_stack" where
  [stack_simps]: "lua_settop s n = take n s @ replicate (n - length s) LNil"

definition lua_pop :: "lua_stack \<Rightarrow> nat \<Rightarrow> lua_stack" where
  [stack_simps]: "lua_pop s n = take (length s - n) s"

text \<open>\<open>lua_remove\<close>: delete the element at a (positive) index.\<close>

definition lua_remove :: "lua_stack \<Rightarrow> nat \<Rightarrow> lua_stack" where
  [stack_simps]: "lua_remove s i = take (i - 1) s @ drop i s"

text \<open>\<open>lua_next\<close> pops a key and pushes the next key and value, or nothing at the end.\<close>

definition next_entry ::
  "(lua_value \<times> lua_value) list \<Rightarrow> lua_value \<Rightarrow> string + (lua_value \<times> lua_value) option" where
  "next_entry es k =
     (if k = LNil then Inr (case es of [] \<Rightarrow> None | e # _ \<Rightarrow> Some e)
      else (case dropWhile (\<lambda>e. fst e \<noteq> k) es of
              [] \<Rightarrow> Inl ''invalid key to next''
            | _ # rest \<Rightarrow> Inr (case rest of [] \<Rightarrow> None | e # _ \<Rightarrow> Some e)))"

definition lua_next :: "lua_tbl \<Rightarrow> lua_stack \<Rightarrow> string + (bool \<times> lua_stack)" where
  "lua_next t s =
     ebind (next_entry (entries t) (lua_at s (-1))) (\<lambda>r.
       case r of None \<Rightarrow> Inr (False, lua_pop s 1)
       | Some (k, v) \<Rightarrow> Inr (True, lua_push (lua_push (lua_pop s 1) k) v))"

lemma next_entry_first:
  "next_entry es LNil = Inr (case es of [] \<Rightarrow> None | e # _ \<Rightarrow> Some e)"
  by (simp add: next_entry_def)

lemma dropWhile_distinct:
  assumes "distinct (map fst (pre @ (k, v) # post))"
  shows "dropWhile (\<lambda>e. fst e \<noteq> k) (pre @ (k, v) # post) = (k, v) # post"
  using assms by (induction pre) auto

lemma next_entry_next:
  assumes "distinct (map fst (pre @ (k, v) # post))" and "k \<noteq> LNil"
  shows "next_entry (pre @ (k, v) # post) k = Inr (case post of [] \<Rightarrow> None | e # _ \<Rightarrow> Some e)"
  using dropWhile_distinct [OF assms(1)] assms(2) by (simp add: next_entry_def)

lemma lua_at_top [simp]: "lua_at (s @ [v]) (-1) = v"
  by (simp add: lua_at_def nat_add_distrib)

lemma lua_next_step:
  assumes "distinct (map fst (pre @ (k, v) # post))" and "k \<noteq> LNil"
    and "entries t = pre @ (k, v) # post"
  shows "lua_next t (s @ [k]) =
     (case post of [] \<Rightarrow> Inr (False, s) | (k', v') # _ \<Rightarrow> Inr (True, s @ [k', v']))"
  using next_entry_next [OF assms(1,2)] assms(3)
  by (auto simp: lua_next_def stack_simps split: list.splits)

lemma lua_next_nil:
  "lua_next t (s @ [LNil]) =
     (case entries t of [] \<Rightarrow> Inr (False, s) | (k', v') # _ \<Rightarrow> Inr (True, s @ [k', v']))"
  by (auto simp: lua_next_def next_entry_first stack_simps split: list.splits)

section \<open>Array detection\<close>

text \<open>
  \<open>lua_array_size\<close> on the stack, step for step. The scan over the keys is bounded by fuel; one
  more than the number of entries is enough, since the keys are distinct
  (\<open>array_size_scan_total\<close>).
\<close>

definition key_integer :: "lua_value \<Rightarrow> int" where
  "key_integer k = (case k of LInteger i \<Rightarrow> sint i | _ \<Rightarrow> 0)"

fun array_size_scan :: "nat \<Rightarrow> lua_tbl \<Rightarrow> int \<Rightarrow> lua_stack \<Rightarrow> string + (bool \<times> lua_stack)" where
  "array_size_scan 0 t len s = Inl ''out of fuel''"
| "array_size_scan (Suc n) t len s =
     ebind (lua_next t s) (\<lambda>(more, s1).
       if \<not> more then Inr (True, s1)
       else if lua_type (lua_at s1 (-2)) = TInteger \<and>
               0 < key_integer (lua_at s1 (-2)) \<and> key_integer (lua_at s1 (-2)) \<le> len
            then array_size_scan n t len (lua_pop s1 1)
            else Inr (False, lua_pop s1 2))"

definition lua_array_size_st :: "lua_tbl \<Rightarrow> lua_stack \<Rightarrow> string + ((bool \<times> nat) \<times> lua_stack)" where
  "lua_array_size_st t s =
     (if metafield t ''__array'' \<noteq> LNil then Inr ((True, border t), s)
      else if metafield t ''__object'' \<noteq> LNil then Inr ((False, 0), s)
      else ebind (lua_next t (lua_push s LNil)) (\<lambda>(more, s1).
        if \<not> more then Inr ((False, 0), s1)
        else
          (let first_key = key_integer (lua_at s1 (-2)); s2 = lua_pop s1 2 in
           if first_key \<le> 0 then Inr ((False, 0), s2)
           else ebind (if first_key = 1
                       then ebind (lua_next t (lua_push s2 (int_key (border t)))) (\<lambda>(more', s3).
                              Inr (if more' then (True, lua_pop s3 2) else (False, s3)))
                       else Inr (False, s2)) (\<lambda>(tail, s3).
             if tail \<or> int (border t) < first_key then Inr ((False, 0), s3)
             else ebind (array_size_scan (Suc (length (entries t))) t (int (border t))
                           (lua_push s3 LNil)) (\<lambda>(ok, s4).
               Inr (if ok then ((True, border t), s4) else ((False, 0), s4)))))))"

text \<open>The decision without the stack.\<close>

definition index_key :: "int \<Rightarrow> lua_value \<times> lua_value \<Rightarrow> bool" where
  "index_key len e \<longleftrightarrow>
     lua_type (fst e) = TInteger \<and> 0 < key_integer (fst e) \<and> key_integer (fst e) \<le> len"

definition all_index_keys :: "lua_tbl \<Rightarrow> bool" where
  "all_index_keys t \<longleftrightarrow> list_all (index_key (int (border t))) (entries t)"

definition lua_array_size :: "lua_tbl \<Rightarrow> bool \<times> nat" where
  "lua_array_size t =
     (if metafield t ''__array'' \<noteq> LNil then (True, border t)
      else if metafield t ''__object'' \<noteq> LNil then (False, 0)
      else case entries t of
        [] \<Rightarrow> (False, 0)
      | (k, _) # _ \<Rightarrow>
          if key_integer k \<le> 0 then (False, 0)
          else if key_integer k = 1 \<and> fst (last (entries t)) \<noteq> int_key (border t) then (False, 0)
          else if int (border t) < key_integer k then (False, 0)
          else if all_index_keys t then (True, border t) else (False, 0))"

lemma lua_at_second [simp]: "lua_at (s @ [k, v]) (-2) = k"
  by (simp add: lua_at_def nth_append)

lemma lua_at_top2 [simp]: "lua_at (s @ [k, v]) (-1) = v"
  using lua_at_top [of "s @ [k]" v] by simp

lemma lua_pop_simps [simp]:
  "lua_pop (s @ [v]) (Suc 0) = s" "lua_pop (s @ [k, v]) (Suc 0) = s @ [k]"
  "lua_pop (s @ [k, v]) 2 = s"
  by (simp_all add: stack_simps)

lemma index_key_pair [simp]:
  "index_key len (k, v) \<longleftrightarrow> lua_type k = TInteger \<and> 0 < key_integer k \<and> key_integer k \<le> len"
  by (simp add: index_key_def)

declare array_size_scan.simps(2) [simp del]

lemma array_size_scan_from:
  assumes "distinct (map fst (entries t))" and "list_all (\<lambda>e. fst e \<noteq> LNil) (entries t)"
    and "entries t = pre @ (k, v) # post" and "length post < n"
  shows "array_size_scan n t len (s @ [k]) = Inr (list_all (index_key len) post, s)"
  using assms(3,4)
proof (induction post arbitrary: pre k v n)
  case Nil
  then obtain m where n: "n = Suc m" by (cases n) auto
  have "lua_next t (s @ [k]) = Inr (False, s)"
    using lua_next_step [of pre k v "[]" t s] assms(1,2) Nil by simp
  then show ?case by (simp add: n array_size_scan.simps(2))
next
  case (Cons e post)
  obtain k' v' where e: "e = (k', v')" by (cases e)
  from Cons.prems obtain m where n: "n = Suc m" by (cases n) auto
  have nx: "lua_next t (s @ [k]) = Inr (True, s @ [k', v'])"
    using lua_next_step [of pre k v "e # post" t s] assms(1,2) Cons.prems e by simp
  have "array_size_scan m t len (s @ [k']) = Inr (list_all (index_key len) post, s)"
    using Cons.prems n e by (intro Cons.IH [of "pre @ [(k, v)]" k' v']) auto
  with nx show ?case by (auto simp: n e array_size_scan.simps(2))
qed

lemma array_size_scan_total:
  assumes "distinct (map fst (entries t))" and "list_all (\<lambda>e. fst e \<noteq> LNil) (entries t)"
  shows "array_size_scan (Suc (length (entries t))) t len (s @ [LNil]) =
     Inr (list_all (index_key len) (entries t), s)"
proof (cases "entries t")
  case Nil
  then show ?thesis by (simp add: lua_next_nil array_size_scan.simps(2))
next
  case (Cons e post)
  obtain k v where e: "e = (k, v)" by (cases e)
  have "array_size_scan (Suc (length post)) t len (s @ [k]) = Inr (list_all (index_key len) post, s)"
    by (rule array_size_scan_from [OF assms, of "[]" k v]) (simp_all add: Cons e)
  then show ?thesis by (auto simp: lua_next_nil Cons e array_size_scan.simps(2) [of "Suc (length post)"])
qed

lemma next_after_border:
  assumes ok: "table_ok t" and es: "entries t \<noteq> []" and k: "int_key (border t) \<in> fst ` set (entries t)"
  shows "\<exists>r. lua_next t (s @ [int_key (border t)]) = Inr r \<and>
     (fst r \<longleftrightarrow> fst (last (entries t)) \<noteq> int_key (border t)) \<and>
     (if fst r then lua_pop (snd r) 2 else snd r) = s"
proof -
  obtain v where "(int_key (border t), v) \<in> set (entries t)" using k by auto
  then obtain pre post where sp: "entries t = pre @ (int_key (border t), v) # post"
    by (meson split_list)
  have d: "distinct (map fst (entries t))" using ok by (simp add: table_ok_def)
  have nx: "lua_next t (s @ [int_key (border t)]) =
      (case post of [] \<Rightarrow> Inr (False, s) | (k', v') # _ \<Rightarrow> Inr (True, s @ [k', v']))"
    using d sp by (intro lua_next_step) (auto simp: int_key_def)
  show ?thesis
  proof (cases post rule: rev_cases)
    case Nil
    then show ?thesis using nx sp by simp
  next
    case (snoc post' e)
    have "fst e \<noteq> int_key (border t)"
      using d sp snoc by auto
    then show ?thesis
      using nx sp snoc by (auto split: list.splits simp: Cons_eq_append_conv)
  qed
qed

text \<open>On a well-formed table the stack code computes the decision and restores the stack.\<close>

lemma rawgeti_not_nil: "rawgeti t i \<noteq> LNil \<Longrightarrow> int_key i \<in> fst ` set (entries t)"
  by (auto simp: rawgeti_def rawget_def split: option.splits dest!: map_of_SomeD
      intro!: image_eqI [rotated])

lemma lua_array_size_st_eq:
  assumes ok: "table_ok t"
  shows "lua_array_size_st t s = Inr (lua_array_size t, s)"
proof (cases "metafield t ''__array'' \<noteq> LNil \<or> metafield t ''__object'' \<noteq> LNil \<or> entries t = []")
  case True
  then show ?thesis
    by (auto simp: lua_array_size_st_def lua_array_size_def lua_push_def lua_next_nil)
next
  case False
  then obtain k v rest where es: "entries t = (k, v) # rest"
    by (cases "entries t") auto
  have d: "distinct (map fst (entries t))" "list_all (\<lambda>e. fst e \<noteq> LNil) (entries t)"
    using ok by (auto simp: table_ok_def list_all_iff)
  have first: "lua_next t (s @ [LNil]) = Inr (True, s @ [k, v])"
    by (simp add: lua_next_nil es)
  have scan: "array_size_scan (Suc (length (entries t))) t (int (border t)) (s @ [LNil]) =
      Inr (all_index_keys t, s)"
    using array_size_scan_total [OF d] by (simp add: all_index_keys_def)
  show ?thesis
  proof (cases "key_integer k = 1")
    case True
    then have "k = int_key 1"
      by (auto simp: key_integer_def int_key_def split: lua_value.splits intro: signed_word_eqI)
    then have "rawgeti t 1 \<noteq> LNil"
      using ok es by (auto simp: rawgeti_def rawget_def table_ok_def)
    then have "border t \<noteq> 0"
      using ok by (intro notI) (simp add: table_ok_def is_border_def)
    then have "int_key (border t) \<in> fst ` set (entries t)"
      using ok by (intro rawgeti_not_nil) (auto simp: table_ok_def is_border_def)
    then obtain r where r: "lua_next t (s @ [int_key (border t)]) = Inr r"
      "fst r \<longleftrightarrow> fst (last (entries t)) \<noteq> int_key (border t)"
      "(if fst r then lua_pop (snd r) 2 else snd r) = s"
      using next_after_border [OF ok, of s] es by auto
    then show ?thesis
      using False True first scan es
      by (cases r) (auto simp: lua_array_size_st_def lua_array_size_def lua_push_def Let_def)
  next
    case n1: False
    then show ?thesis
      using False first scan es
      by (auto simp: lua_array_size_st_def lua_array_size_def lua_push_def Let_def)
  qed
qed

section \<open>Iterators\<close>

text \<open>
  \<open>LuaTableIterator\<close>: the iterator remembers whether a value is on the stack; each \<open>next\<close> pops it
  and lets \<open>lua_next\<close> replace the key below it. Dropping the iterator pops the value only.
\<close>

type_synonym iter_state = "bool \<times> lua_stack"

definition table_iter :: "lua_stack \<Rightarrow> iter_state" where
  "table_iter s = (False, lua_push s LNil)"

definition table_iter_next ::
  "lua_tbl \<Rightarrow> iter_state \<Rightarrow> string + ((lua_value \<times> lua_value) option \<times> iter_state)" where
  "table_iter_next t st =
     (let s1 = (if fst st then lua_pop (snd st) 1 else snd st) in
      ebind (lua_next t s1) (\<lambda>(more, s2).
        if more then Inr (Some (lua_at s2 (-2), lua_at s2 (-1)), (True, s2))
        else Inr (None, (False, s2))))"

definition table_iter_drop :: "iter_state \<Rightarrow> lua_stack" where
  "table_iter_drop st = (if fst st then lua_pop (snd st) 1 else snd st)"

text \<open>
  \<open>LuaArrayIterator\<close>: \<open>next\<close> pops the previous element and pushes \<open>t[pos]\<close>, up to \<open>len\<close>.
\<close>

record array_iter_state =
  pos :: nat
  has_elem :: bool
  astack :: lua_stack

definition array_iter :: "lua_stack \<Rightarrow> array_iter_state" where
  "array_iter s = \<lparr>pos = 0, has_elem = False, astack = s\<rparr>"

definition array_iter_next ::
  "lua_tbl \<Rightarrow> nat \<Rightarrow> array_iter_state \<Rightarrow> lua_value option \<times> array_iter_state" where
  "array_iter_next t len st =
     (let s1 = (if has_elem st then lua_pop (astack st) 1 else astack st) in
      if len \<le> pos st then (None, st\<lparr>has_elem := False, astack := s1\<rparr>)
      else let s2 = lua_push s1 (rawgeti t (pos st + 1)) in
        (Some (lua_at s2 (-1)), \<lparr>pos = pos st + 1, has_elem = True, astack = s2\<rparr>))"

definition array_iter_drop :: "array_iter_state \<Rightarrow> lua_stack" where
  "array_iter_drop st = (if has_elem st then lua_pop (astack st) 1 else astack st)"

text \<open>What the loops over the iterators see.\<close>

definition array_values :: "lua_tbl \<Rightarrow> nat \<Rightarrow> lua_value list" where
  "array_values t len = map (rawgeti t) [1..<Suc len]"

fun table_iter_calls ::
  "nat \<Rightarrow> lua_tbl \<Rightarrow> iter_state \<Rightarrow> string + ((lua_value \<times> lua_value) list \<times> iter_state)" where
  "table_iter_calls 0 t st = Inr ([], st)"
| "table_iter_calls (Suc n) t st =
     ebind (table_iter_next t st) (\<lambda>(item, st1).
       case item of None \<Rightarrow> Inr ([], st1)
       | Some e \<Rightarrow> ebind (table_iter_calls n t st1) (\<lambda>(es, st2). Inr (e # es, st2)))"

fun array_iter_calls ::
  "nat \<Rightarrow> lua_tbl \<Rightarrow> nat \<Rightarrow> array_iter_state \<Rightarrow> lua_value list \<times> array_iter_state" where
  "array_iter_calls 0 t len st = ([], st)"
| "array_iter_calls (Suc n) t len st =
     (case array_iter_next t len st of
        (None, st1) \<Rightarrow> ([], st1)
      | (Some v, st1) \<Rightarrow> (case array_iter_calls n t len st1 of (vs, st2) \<Rightarrow> (v # vs, st2)))"

lemma table_iter_calls_from:
  assumes "distinct (map fst (entries t))" "list_all (\<lambda>e. fst e \<noteq> LNil) (entries t)"
    and "entries t = pre @ (k, v) # post"
  shows "table_iter_calls n t (True, s @ [k, v]) =
     Inr (take n post,
       if length post < n then (False, s)
       else (True, s @ [fst (((k, v) # post) ! n), snd (((k, v) # post) ! n)]))"
  using assms(3)
proof (induction n arbitrary: pre k v post)
  case (Suc n)
  have knil: "k \<noteq> LNil" using assms(2) Suc.prems by auto
  show ?case
  proof (cases post)
    case Nil
    then show ?thesis
      using lua_next_step [of pre k v "[]" t s] assms(1) Suc.prems knil
      by (simp add: table_iter_next_def Let_def)
  next
    case (Cons e rest)
    obtain k' v' where e: "e = (k', v')" by (cases e)
    have "table_iter_next t (True, s @ [k, v]) = Inr (Some (k', v'), (True, s @ [k', v']))"
      using lua_next_step [of pre k v post t s] assms(1) Suc.prems knil Cons e
      by (simp add: table_iter_next_def Let_def)
    moreover have "entries t = (pre @ [(k, v)]) @ (k', v') # rest"
      using Suc.prems Cons e by simp
    note Suc.IH [OF this]
    ultimately show ?thesis using Cons e by simp
  qed
qed simp

lemma table_iter_calls_eq:
  assumes "table_ok t"
  shows "table_iter_calls (Suc n) t (table_iter s) =
     Inr (take (Suc n) (entries t),
       if length (entries t) \<le> n then (False, s)
       else (True, s @ [fst (entries t ! n), snd (entries t ! n)]))"
proof (cases "entries t")
  case Nil
  then show ?thesis by (simp add: table_iter_def table_iter_next_def lua_push_def lua_next_nil)
next
  case (Cons e rest)
  obtain k v where e: "e = (k, v)" by (cases e)
  have d: "distinct (map fst (entries t))" "list_all (\<lambda>e. fst e \<noteq> LNil) (entries t)"
    using assms by (auto simp: table_ok_def list_all_iff)
  have "table_iter_next t (table_iter s) = Inr (Some (k, v), (True, s @ [k, v]))"
    by (simp add: table_iter_def table_iter_next_def lua_push_def lua_next_nil Cons e Let_def)
  then show ?thesis
    using table_iter_calls_from [OF d, of "[]" k v rest n s] Cons e by auto
qed

lemma array_iter_calls_from:
  "array_iter_calls n t len \<lparr>pos = p, has_elem = True, astack = s @ [x]\<rparr> =
     (map (rawgeti t) (take n [Suc p..<Suc len]),
      (if n \<le> len - p
       then \<lparr>pos = p + n, has_elem = True, astack = s @ [if n = 0 then x else rawgeti t (p + n)]\<rparr>
       else \<lparr>pos = max p len, has_elem = False, astack = s\<rparr>))"
proof (induction n arbitrary: p x)
  case (Suc n)
  show ?case
  proof (cases "len \<le> p")
    case True
    then show ?thesis by (simp add: array_iter_next_def Let_def max_def)
  next
    case False
    then have nx: "array_iter_next t len \<lparr>pos = p, has_elem = True, astack = s @ [x]\<rparr> =
        (Some (rawgeti t (Suc p)),
          \<lparr>pos = Suc p, has_elem = True, astack = s @ [rawgeti t (Suc p)]\<rparr>)"
      by (simp add: array_iter_next_def Let_def lua_push_def)
    have "[Suc p..<Suc len] = Suc p # [Suc (Suc p)..<Suc len]"
      using False by (subst upt_conv_Cons) auto
    then show ?thesis
      using False by (auto simp: nx Suc.IH simp del: upt_Suc)
  qed
qed simp

lemma array_iter_calls_eq:
  "fst (array_iter_calls n t len (array_iter s)) = take n (array_values t len)"
  "array_iter_drop (snd (array_iter_calls n t len (array_iter s))) = s"
proof -
  have "fst (array_iter_calls n t len (array_iter s)) = take n (array_values t len) \<and>
    array_iter_drop (snd (array_iter_calls n t len (array_iter s))) = s"
  proof (cases n)
    case 0
    then show ?thesis by (simp add: array_iter_def array_iter_drop_def)
  next
    case (Suc m)
    show ?thesis
    proof (cases "len = 0")
      case True
      then show ?thesis
        by (simp add: Suc array_iter_def array_iter_next_def array_values_def array_iter_drop_def)
    next
      case False
      have up: "[Suc 0..<Suc len] = Suc 0 # [Suc (Suc 0)..<Suc len]"
        using False by (subst upt_conv_Cons) auto
      have "array_iter_next t len (array_iter s) =
          (Some (rawgeti t 1), \<lparr>pos = 1, has_elem = True, astack = s @ [rawgeti t 1]\<rparr>)"
        using False by (simp add: array_iter_def array_iter_next_def Let_def lua_push_def)
      then show ?thesis
        using array_iter_calls_from [of m t len 1 s "rawgeti t 1"]
        by (auto simp: Suc array_values_def up take_map array_iter_drop_def numeral_2_eq_2
            simp del: upt_Suc split: prod.splits)
    qed
  qed
  then show "fst (array_iter_calls n t len (array_iter s)) = take n (array_values t len)"
    "array_iter_drop (snd (array_iter_calls n t len (array_iter s))) = s" by auto
qed

section \<open>Fields and arguments\<close>

text \<open>
  \<open>opt_field\<close>: the field is looked up raw on top of the stack and popped on every path;
  \<open>LuaArgs\<close> hands out argument positions one after the other.
\<close>

definition opt_field_st ::
  "(lua_value \<Rightarrow> 't option) \<Rightarrow> lua_tbl \<Rightarrow> string \<Rightarrow> lua_stack \<Rightarrow> 't option \<times> lua_stack" where
  "opt_field_st conv t field s =
     (let s1 = lua_push (lua_pop (lua_push s (LString field)) 1) (rawget t (LString field)) in
      if lua_type_code (lua_type (lua_at s1 (-1))) \<le> 0 then (None, lua_pop s1 1)
      else (conv (lua_at s1 (-1)), lua_pop s1 1))"

definition opt_field :: "(lua_value \<Rightarrow> 't option) \<Rightarrow> lua_tbl \<Rightarrow> string \<Rightarrow> 't option" where
  "opt_field conv t field =
     (case rawget t (LString field) of LNone \<Rightarrow> None | LNil \<Rightarrow> None | v \<Rightarrow> conv v)"

lemma opt_field_st_eq: "opt_field_st conv t field s = (opt_field conv t field, s)"
  by (cases "rawget t (LString field)")
    (simp_all add: opt_field_st_def opt_field_def Let_def lua_push_def)

definition iter_arg :: "nat \<Rightarrow> nat \<times> nat" where
  "iter_arg current = (current, current + 1)"

section \<open>Properties\<close>

text \<open>
  Array detection on the Lua stack: on every well-formed table \<open>lua_array_size\<close> terminates
  without a Lua error, leaves the stack exactly as it found it on each of its seven exits,
  and returns the decision made from the table alone.
\<close>

theorem array_size_restores_stack:
  assumes "table_ok t"
  shows "lua_array_size_st t s = Inr (lua_array_size t, s)"
  using assms by (rule lua_array_size_st_eq)

definition demo_table :: lua_tbl where
  "demo_table = \<lparr>entries = [(int_key 1, LBoolean True), (int_key 2, LString ''x'')],
     border = 2, metas = []\<rparr>"

lemma demo_table_ok: "table_ok demo_table"
  by (simp add: demo_table_def table_ok_def is_border_def rawgeti_def rawget_def int_key_def)

theorem array_size_restores_stack_witness:
  "lua_array_size_st demo_table [LNil] = Inr ((True, 2), [LNil])"
  using array_size_restores_stack [OF demo_table_ok, of "[LNil]"]
  by (simp add: demo_table_def lua_array_size_def metafield_def int_key_def key_integer_def
      all_index_keys_def)

lemma key_integer_int_key:
  assumes "lua_type k = TInteger" "0 < key_integer k"
  shows "k = int_key (nat (key_integer k))"
  using assms by (cases k) (auto simp: key_integer_def int_key_def)

text \<open>
  A table taken for an array loses no entry: when a well-formed table without a metatable
  is classified as an array of length \<open>n\<close>, every key is one of the indices \<open>1..n\<close> that the
  array iterator visits, and the iterator finds the entry's value there.
\<close>

theorem array_detect_loses_nothing:
  assumes "table_ok t" and "metafield t ''__array'' = LNil" and "lua_array_size t = (True, n)"
    and "(k, v) \<in> set (entries t)"
  shows "\<exists>i. 1 \<le> i \<and> i \<le> n \<and> k = int_key i \<and> array_values t n ! (i - 1) = v"
proof -
  have n: "n = border t" and all: "all_index_keys t"
    using assms(2,3) by (auto simp: lua_array_size_def split: if_splits list.splits)
  then have k: "lua_type k = TInteger" "0 < key_integer k" "key_integer k \<le> int n"
    using assms(4) by (auto simp: all_index_keys_def list_all_iff)
  let ?i = "nat (key_integer k)"
  have i: "1 \<le> ?i" "?i \<le> n" "k = int_key ?i"
    using k key_integer_int_key [OF k(1,2)] by auto
  have "map_of (entries t) k = Some v"
    using assms(1,4) by (simp add: table_ok_def)
  then have "rawgeti t ?i = v" using i by (simp add: rawgeti_def rawget_def flip: i(3))
  with i show ?thesis
    by (intro exI [of _ ?i]) (simp add: array_values_def nth_append del: upt_Suc)
qed

theorem array_detect_loses_nothing_witness:
  "\<exists>i. 1 \<le> i \<and> i \<le> 2 \<and> int_key 2 = int_key i \<and> array_values demo_table 2 ! (i - 1) = LString ''x''"
proof (rule array_detect_loses_nothing [OF demo_table_ok])
  show "lua_array_size demo_table = (True, 2)"
    by (simp add: demo_table_def lua_array_size_def metafield_def int_key_def key_integer_def
      all_index_keys_def)
qed (simp_all add: demo_table_def metafield_def)

text \<open>
  A Lua sequence is always taken for an array: keys \<open>1..n\<close> traversed in order with the
  border at \<open>n\<close>, and no metatable, give an array of length \<open>n\<close>.
\<close>

theorem array_detect_sequence:
  assumes "entries t = map (\<lambda>i. (int_key i, f i)) [1..<Suc n]" and "0 < n" and "n < 2 ^ 62"
    and "border t = n" and "metas t = []"
  shows "lua_array_size t = (True, n)"
proof -
  have key: "lua_type (int_key i) = TInteger" "key_integer (int_key i) = int i"
    if "i \<le> n" for i
    using that assms(3) sint_word_of_nat [of i] by (auto simp: int_key_def key_integer_def)
  have es: "entries t = (int_key 1, f 1) # map (\<lambda>i. (int_key i, f i)) [2..<Suc n]"
    using assms(1,2) by (simp add: upt_conv_Cons numeral_2_eq_2 del: upt_Suc)
  have last: "fst (last (entries t)) = int_key n"
    using assms(1,2) by simp
  have "all_index_keys t"
    using assms(1,4) key by (auto simp: all_index_keys_def list_all_iff)
  then show ?thesis
    using es last assms key [of 1]
    by (simp add: lua_array_size_def metafield_def)
qed

theorem array_detect_sequence_witness: "lua_array_size demo_table = (True, 2)"
proof (rule array_detect_sequence [of _ "\<lambda>i. if i = 1 then LBoolean True else LString ''x''"])
  show "entries demo_table =
      map (\<lambda>i. (int_key i, if i = 1 then LBoolean True else LString ''x'')) [1..<Suc 2]"
    by (simp add: demo_table_def numeral_2_eq_2)
qed (simp_all add: demo_table_def)

text \<open>
  The stack effect of leaving a loop over \<open>LuaTable::iter\<close>: run to the end, the iterator
  yields the entries in order and restores the stack; left after the \<open>n\<close>-th entry (an early
  return), its \<open>Drop\<close> pops the value but leaves the \<open>n\<close>-th key behind. The array iterator
  restores the stack wherever it is left.
\<close>

theorem iterator_stack_effect:
  assumes "table_ok t"
  shows "(\<exists>st. table_iter_calls (Suc (length (entries t))) t (table_iter s) = Inr (entries t, st) \<and>
        table_iter_drop st = s) \<and>
    (\<forall>n < length (entries t). \<exists>st.
        table_iter_calls (Suc n) t (table_iter s) = Inr (take (Suc n) (entries t), st) \<and>
        table_iter_drop st = s @ [fst (entries t ! n)]) \<and>
    (\<forall>m len. fst (array_iter_calls m t len (array_iter s)) = take m (array_values t len) \<and>
        array_iter_drop (snd (array_iter_calls m t len (array_iter s))) = s)"
  using table_iter_calls_eq [OF assms] array_iter_calls_eq [of _ t _ s]
  by (auto simp: table_iter_drop_def)

theorem iterator_stack_effect_witness:
  "\<exists>st. table_iter_calls 1 demo_table (table_iter []) = Inr ([(int_key 1, LBoolean True)], st) \<and>
     table_iter_drop st = [int_key 1]"
proof -
  have "0 < length (entries demo_table)" by (simp add: demo_table_def)
  then obtain st where
    "table_iter_calls (Suc 0) demo_table (table_iter []) = Inr (take (Suc 0) (entries demo_table), st)"
    "table_iter_drop st = [] @ [fst (entries demo_table ! 0)]"
    using iterator_stack_effect [OF demo_table_ok, of "[]"] by blast
  then show ?thesis by (simp add: demo_table_def)
qed

end
