(* ===== verification/JsonEncode.thy ===== *)
theory JsonEncode
  imports LuaValue CoreBuffer
begin

text \<open>
  The JSON writer of \<open>crates/libs/lib-lualib/src/lua_json.rs\<close>: \<open>encode_one\<close>, \<open>encode_table\<close>,
  \<open>encode_array\<close> and \<open>encode_object\<close> append to one growing byte vector, with a speculative array
  that is truncated away when a hole is met. The specification is in two steps: \<open>to_doc\<close> turns
  a Lua value into a document tree, \<open>print_doc\<close> lays the tree out; the writer is proved to be
  their composition. A reference parser of RFC 8259 texts closes the round trip.
\<close>

section \<open>Constants and options\<close>

text \<open>A zero byte (\<open>z\<close>) marks the bytes written as they are.\<close>

definition char2escape :: bytes where
  "char2escape = (let z = CHR 0x00; u = CHR ''u'' in [
     u, u, u, u, u, u, u, u, CHR ''b'', CHR ''t'', CHR ''n'', u, CHR ''f'', CHR ''r'', u, u,
     u, u, u, u,
     u, u, u, u, u, u, u, u, u, u, u, u, z, z, CHR 0x22, z, z, z, z,
     z,
     z, z, z, z, z, z, z, z, z, z, z, z, z, z, z, z, z, z, z, z,
     z, z, z, z, z, z, z, z, z, z, z, z, z, z, z, z, z, z, z, z,
     z, z, z, z, z, z, z, z, z, z, z, z, CHR 0x5C, z, z, z, z, z, z, z,
     z, z, z, z, z, z, z, z, z, z, z, z, z, z, z, z, z, z, z, z,
     z, z, z, z, z, z, z, z, z, z, z, z, z, z, z, z, z, z, z, z,
     z, z, z, z, z, z, z, z, z, z, z, z, z, z, z, z, z, z, z, z,
     z, z, z, z, z, z, z, z, z, z, z, z, z, z, z, z, z, z, z, z,
     z, z, z, z, z, z, z, z, z, z, z, z, z, z, z, z, z, z, z, z,
     z, z, z, z, z, z, z, z, z, z, z, z, z, z, z, z, z, z, z, z,
     z, z, z, z, z, z, z, z, z, z, z, z, z, z, z, z, z, z, z, z,
     z, z, z, z, z, z, z, z, z, z, z, z, z, z, z, z])"

definition hex_digits :: string where
  "hex_digits = ''0123456789ABCDEF''"

record json_opts =
  empty_as_array :: bool
  enable_number_key :: bool
  enable_sparse_array :: bool

definition json_opts_default :: json_opts where
  "json_opts_default = \<lparr>empty_as_array = True, enable_number_key = True, enable_sparse_array = True\<rparr>"

text \<open>The options \<open>luaopen_json\<close> installs differ from \<open>Default\<close> in the sparse flag.\<close>

definition json_opts_module :: json_opts where
  "json_opts_module = \<lparr>empty_as_array = True, enable_number_key = True, enable_sparse_array = False\<rparr>"

text \<open>\<open>set_options\<close>: the previous setting is returned; an absent argument resets the option.\<close>

definition set_options :: "json_opts \<Rightarrow> string \<Rightarrow> lua_value \<Rightarrow> string + (bool \<times> json_opts)" where
  "set_options o' key arg =
     (if key = ''encode_empty_as_array''
      then Inr (empty_as_array o', o'\<lparr>empty_as_array := (case opt_bool arg of Some b \<Rightarrow> b | None \<Rightarrow> True)\<rparr>)
      else if key = ''enable_number_key''
      then Inr (enable_number_key o', o'\<lparr>enable_number_key := (case opt_bool arg of Some b \<Rightarrow> b | None \<Rightarrow> True)\<rparr>)
      else if key = ''enable_sparse_array''
      then Inr (enable_sparse_array o', o'\<lparr>enable_sparse_array := (case opt_bool arg of Some b \<Rightarrow> b | None \<Rightarrow> False)\<rparr>)
      else Inl (''invalid json option key: '' @ key))"

section \<open>The writer\<close>

text \<open>
  What stays fixed while a value is written: the options, the heap of tables, the layout flag
  and the text of floats (\<open>f64::to_string\<close>).
\<close>

record json_env =
  jopts :: json_opts
  jheap :: lua_heap
  jfmt :: bool
  jshow :: "f64 \<Rightarrow> string"

definition dquote :: char where "dquote = CHR 0x22"
definition backslash :: char where "backslash = CHR 0x5C"

definition esc_char :: "char \<Rightarrow> bytes" where
  "esc_char ch =
     (let esc = char2escape ! of_char ch in
      if esc = CHR 0x00 then [ch]
      else [backslash, esc] @
        (if esc = CHR ''u''
         then [CHR ''0'', CHR ''0'', hex_digits ! (of_char ch div 16 mod 16),
               hex_digits ! (of_char ch mod 16)]
         else []))"

definition write_json_string :: "bytes \<Rightarrow> bytes \<Rightarrow> bytes" where
  "write_json_string w s = foldl (\<lambda>w ch. w @ esc_char ch) (w @ [dquote]) s @ [dquote]"

definition format_new_line :: "bytes \<Rightarrow> bool \<Rightarrow> bytes" where
  "format_new_line w fmt = (if fmt then w @ [CHR 0x0A] else w)"

definition format_space :: "bytes \<Rightarrow> bool \<Rightarrow> int \<Rightarrow> bytes" where
  "format_space w fmt n = (if fmt then w @ replicate (2 * nat n) (CHR 0x20) else w)"

text \<open>
  \<open>encode_elems\<close> is the loop of \<open>encode_array\<close>: the flag is false when a hole was met and the
  speculative array has to be discarded. \<open>encode_entries\<close> is the loop of \<open>encode_object\<close> and
  returns its counter with the writer.
\<close>

function (sequential)
  encode_one :: "json_env \<Rightarrow> bytes \<Rightarrow> lua_value \<Rightarrow> int \<Rightarrow> string + bytes" and
  encode_table :: "json_env \<Rightarrow> bytes \<Rightarrow> nat \<Rightarrow> int \<Rightarrow> string + bytes" and
  encode_array :: "json_env \<Rightarrow> bytes \<Rightarrow> nat \<Rightarrow> nat \<Rightarrow> int \<Rightarrow> string + bytes" and
  encode_elems :: "json_env \<Rightarrow> bytes \<Rightarrow> nat \<Rightarrow> lua_value list \<Rightarrow> int \<Rightarrow> string + (bool \<times> bytes)" and
  encode_object :: "json_env \<Rightarrow> bytes \<Rightarrow> nat \<Rightarrow> int \<Rightarrow> string + bytes" and
  encode_entries ::
    "json_env \<Rightarrow> bytes \<Rightarrow> nat \<Rightarrow> (lua_value \<times> lua_value) list \<Rightarrow> int \<Rightarrow> string + (bytes \<times> nat)"
where
  "encode_one e w v d =
     (case v of
        LBoolean b \<Rightarrow> Inr (w @ (if b then ''true'' else ''false''))
      | LNumber x \<Rightarrow> Inr (w @ jshow e x)
      | LInteger n \<Rightarrow> Inr (w @ show_int (sint n))
      | LString s \<Rightarrow> Inr (write_json_string w s)
      | LTable a \<Rightarrow> encode_table e w a d
      | LNil \<Rightarrow> Inr (w @ ''null'')
      | LLightUserData p \<Rightarrow> Inr (if p = 0 then w @ ''null'' else w)
      | _ \<Rightarrow> Inl (''json encode: unsupport value type :'' @ lua_value_name v))"
| "encode_table e w a d =
     (if d + 1 > 64 then Inl ''json encode: too depth''
      else if fst (lua_array_size (jheap e a))
      then encode_array e w a (snd (lua_array_size (jheap e a))) (d + 1)
      else encode_object e w a (d + 1))"
| "encode_array e w a n d =
     ebind (encode_elems e (w @ ''['') 0 (array_values (jheap e a) n) d) (\<lambda>(finished, w').
       if finished then Inr (format_space w' (jfmt e) (d - 1) @ '']'')
       else encode_object e (take (length w) w') a d)"
| "encode_elems e w i [] d = Inr (True, w)"
| "encode_elems e w i (v # vs) d =
     (let w1 = format_space (if i = 0 then format_new_line w (jfmt e) else w @ '','') (jfmt e) d in
      if v = LNil \<and> \<not> enable_sparse_array (jopts e) then Inr (False, w1)
      else ebind (encode_one e w1 v d) (\<lambda>w2.
        encode_elems e (format_new_line w2 (jfmt e)) (i + 1) vs d))"
| "encode_object e w a d =
     ebind (encode_entries e (w @ ''{'') 0 (entries (jheap e a)) d) (\<lambda>(w', i).
       if i = 0 \<and> empty_as_array (jopts e) then Inr (butlast w' @ ''[]'')
       else Inr ((if 0 < i then format_space (format_new_line w' (jfmt e)) (jfmt e) (d - 1) else w') @ ''}''))"
| "encode_entries e w i [] d = Inr (w, i)"
| "encode_entries e w i ((k, v) # es) d =
     (let w1 = format_new_line (if 0 < i then w @ '','' else w) (jfmt e) in
      case k of
        LString key \<Rightarrow>
          ebind (encode_one e (format_space w1 (jfmt e) d @ [dquote] @ key @ [dquote, CHR '':''] @
              (if jfmt e then [CHR 0x20] else [])) v d) (\<lambda>w2. encode_entries e w2 (i + 1) es d)
      | LInteger n \<Rightarrow>
          if enable_number_key (jopts e)
          then ebind (encode_one e (format_space w1 (jfmt e) d @ [dquote] @ show_int (sint n) @
              [dquote, CHR '':''] @ (if jfmt e then [CHR 0x20] else [])) v d)
              (\<lambda>w2. encode_entries e w2 (i + 1) es d)
          else Inl ''json encode: unsupport number key type.''
      | _ \<Rightarrow> encode_entries e w1 (i + 1) es d)"
  by pat_completeness auto

text \<open>The depth grows with every table, so the recursion ends on cyclic data too.\<close>

termination
  by (relation "measures
    [\<lambda>x. case x of Inl (Inl (e, w, v, d)) \<Rightarrow> nat (65 - d) | Inl (Inr (Inl (e, w, a, d))) \<Rightarrow> nat (65 - d)
       | Inl (Inr (Inr (e, w, a, n, d))) \<Rightarrow> nat (65 - d)
       | Inr (Inl (e, w, i, vs, d)) \<Rightarrow> nat (65 - d) | Inr (Inr (Inl (e, w, a, d))) \<Rightarrow> nat (65 - d)
       | Inr (Inr (Inr (e, w, i, es, d))) \<Rightarrow> nat (65 - d),
     \<lambda>x. case x of Inl (Inl _) \<Rightarrow> 1 | Inl (Inr (Inl _)) \<Rightarrow> 0 | Inl (Inr (Inr _)) \<Rightarrow> 5
       | Inr (Inl _) \<Rightarrow> 4 | Inr (Inr (Inl _)) \<Rightarrow> 3 | Inr (Inr (Inr _)) \<Rightarrow> 2,
     \<lambda>x. case x of Inr (Inl (e, w, i, vs, d)) \<Rightarrow> length vs | Inr (Inr (Inr (e, w, i, es, d))) \<Rightarrow> length es
       | _ \<Rightarrow> 0]") auto


declare encode_one.simps [simp del] encode_table.simps [simp del] encode_array.simps [simp del]
  encode_elems.simps [simp del] encode_object.simps [simp del] encode_entries.simps [simp del]

text \<open>
  \<open>json.encode(value [, format])\<close>: \<open>luaL_checkany\<close> demands an argument, an error of the encoder
  is thrown as the Lua error.
\<close>

definition json_encode ::
  "json_opts \<Rightarrow> (f64 \<Rightarrow> string) \<Rightarrow> lua_heap \<Rightarrow> lua_stack \<Rightarrow> string + bytes" where
  "json_encode o' show_f64 h args =
     (if lua_at args 1 = LNone then Inl ''value expected''
      else let fmt = (case opt_bool (lua_at args 2) of Some b \<Rightarrow> b | None \<Rightarrow> False) in
        encode_one \<lparr>jopts = o', jheap = h, jfmt = fmt, jshow = show_f64\<rparr> [] (lua_at args 1) 0)"

section \<open>The document a value denotes\<close>

text \<open>
  \<open>JBlank\<close> and \<open>JSkip\<close> are the values and members for which the writer emits nothing;
  \<open>JEmptyTbl\<close> is an empty table written \<open>[]\<close> under \<open>empty_as_array\<close>.
\<close>

datatype jdoc =
    JNull | JBool bool | JInt int | JFloat f64 | JText bytes | JArr "jdoc list"
  | JObj "jmember list" | JEmptyTbl | JBlank
and jmember = JSkip | JMember bytes jdoc

function (sequential)
  to_doc :: "json_env \<Rightarrow> lua_value \<Rightarrow> int \<Rightarrow> string + jdoc" and
  to_doc_table :: "json_env \<Rightarrow> nat \<Rightarrow> int \<Rightarrow> string + jdoc" and
  to_doc_elems :: "json_env \<Rightarrow> lua_value list \<Rightarrow> int \<Rightarrow> string + jdoc list option" and
  to_doc_object :: "json_env \<Rightarrow> nat \<Rightarrow> int \<Rightarrow> string + jdoc" and
  to_doc_members :: "json_env \<Rightarrow> (lua_value \<times> lua_value) list \<Rightarrow> int \<Rightarrow> string + jmember list"
where
  "to_doc e v d =
     (case v of
        LBoolean b \<Rightarrow> Inr (JBool b)
      | LNumber x \<Rightarrow> Inr (JFloat x)
      | LInteger n \<Rightarrow> Inr (JInt (sint n))
      | LString s \<Rightarrow> Inr (JText s)
      | LTable a \<Rightarrow> to_doc_table e a d
      | LNil \<Rightarrow> Inr JNull
      | LLightUserData p \<Rightarrow> Inr (if p = 0 then JNull else JBlank)
      | _ \<Rightarrow> Inl (''json encode: unsupport value type :'' @ lua_value_name v))"
| "to_doc_table e a d =
     (if d + 1 > 64 then Inl ''json encode: too depth''
      else case lua_array_size (jheap e a) of
        (True, n) \<Rightarrow> ebind (to_doc_elems e (array_values (jheap e a) n) (d + 1)) (\<lambda>r.
          case r of Some js \<Rightarrow> Inr (JArr js) | None \<Rightarrow> to_doc_object e a (d + 1))
      | (False, _) \<Rightarrow> to_doc_object e a (d + 1))"
| "to_doc_elems e [] d = Inr (Some [])"
| "to_doc_elems e (v # vs) d =
     (if v = LNil \<and> \<not> enable_sparse_array (jopts e) then Inr None
      else ebind (to_doc e v d) (\<lambda>j. ebind (to_doc_elems e vs d) (\<lambda>r. Inr (map_option ((#) j) r))))"
| "to_doc_object e a d =
     ebind (to_doc_members e (entries (jheap e a)) d) (\<lambda>ms.
       Inr (if ms = [] \<and> empty_as_array (jopts e) then JEmptyTbl else JObj ms))"
| "to_doc_members e [] d = Inr []"
| "to_doc_members e ((k, v) # es) d =
     (case k of
        LString key \<Rightarrow> ebind (to_doc e v d) (\<lambda>j.
          ebind (to_doc_members e es d) (\<lambda>ms. Inr (JMember key j # ms)))
      | LInteger n \<Rightarrow>
          if enable_number_key (jopts e)
          then ebind (to_doc e v d) (\<lambda>j.
            ebind (to_doc_members e es d) (\<lambda>ms. Inr (JMember (show_int (sint n)) j # ms)))
          else Inl ''json encode: unsupport number key type.''
      | _ \<Rightarrow> ebind (to_doc_members e es d) (\<lambda>ms. Inr (JSkip # ms)))"
  by pat_completeness auto

termination
  by (relation "measures
    [\<lambda>x. case x of Inl (Inl (e, v, d)) \<Rightarrow> nat (65 - d) | Inl (Inr (e, a, d)) \<Rightarrow> nat (65 - d)
       | Inr (Inl (e, vs, d)) \<Rightarrow> nat (65 - d) | Inr (Inr (Inl (e, a, d))) \<Rightarrow> nat (65 - d)
       | Inr (Inr (Inr (e, es, d))) \<Rightarrow> nat (65 - d),
     \<lambda>x. case x of Inl (Inl _) \<Rightarrow> 1 | Inl (Inr _) \<Rightarrow> 0
       | Inr (Inl _) \<Rightarrow> 4 | Inr (Inr (Inl _)) \<Rightarrow> 3 | Inr (Inr (Inr _)) \<Rightarrow> 2,
     \<lambda>x. case x of Inr (Inl (e, vs, d)) \<Rightarrow> length vs | Inr (Inr (Inr (e, es, d))) \<Rightarrow> length es
       | _ \<Rightarrow> 0]") auto

declare to_doc.simps [simp del] to_doc_table.simps [simp del] to_doc_elems.simps(2) [simp del]
  to_doc_object.simps [simp del] to_doc_members.simps(2) [simp del]

text \<open>The layout of a document; \<open>d\<close> is the depth of the enclosing table.\<close>

definition newline :: "bool \<Rightarrow> bytes" where
  [json_simps]: "newline fmt = (if fmt then [CHR 0x0A] else [])"

definition spaces :: "bool \<Rightarrow> int \<Rightarrow> bytes" where
  [json_simps]: "spaces fmt n = (if fmt then replicate (2 * nat n) (CHR 0x20) else [])"

definition text_of :: "bytes \<Rightarrow> bytes" where
  "text_of s = [dquote] @ concat (map esc_char s) @ [dquote]"

fun print_doc :: "(f64 \<Rightarrow> string) \<Rightarrow> bool \<Rightarrow> int \<Rightarrow> jdoc \<Rightarrow> bytes"
  and print_elems :: "(f64 \<Rightarrow> string) \<Rightarrow> bool \<Rightarrow> int \<Rightarrow> bool \<Rightarrow> jdoc list \<Rightarrow> bytes"
  and print_members :: "(f64 \<Rightarrow> string) \<Rightarrow> bool \<Rightarrow> int \<Rightarrow> bool \<Rightarrow> jmember list \<Rightarrow> bytes"
  and print_member :: "(f64 \<Rightarrow> string) \<Rightarrow> bool \<Rightarrow> int \<Rightarrow> jmember \<Rightarrow> bytes"
where
  "print_doc sf fmt d JNull = ''null''"
| "print_doc sf fmt d (JBool b) = (if b then ''true'' else ''false'')"
| "print_doc sf fmt d (JInt i) = show_int i"
| "print_doc sf fmt d (JFloat x) = sf x"
| "print_doc sf fmt d (JText s) = text_of s"
| "print_doc sf fmt d JEmptyTbl = ''[]''"
| "print_doc sf fmt d JBlank = []"
| "print_doc sf fmt d (JArr js) =
     ''['' @ print_elems sf fmt (d + 1) True js @ spaces fmt d @ '']''"
| "print_doc sf fmt d (JObj ms) =
     ''{'' @ print_members sf fmt (d + 1) True ms @
       (if ms = [] then [] else newline fmt @ spaces fmt d) @ ''}''"
| "print_elems sf fmt d first [] = []"
| "print_elems sf fmt d first (j # js) =
     (if first then newline fmt else '','') @ spaces fmt d @ print_doc sf fmt d j @ newline fmt @
       print_elems sf fmt d False js"
| "print_members sf fmt d first [] = []"
| "print_members sf fmt d first (m # ms) =
     (if first then [] else '','') @ newline fmt @ print_member sf fmt d m @
       print_members sf fmt d False ms"
| "print_member sf fmt d JSkip = []"
| "print_member sf fmt d (JMember k j) =
     spaces fmt d @ [dquote] @ k @ [dquote, CHR '':''] @ (if fmt then [CHR 0x20] else []) @
       print_doc sf fmt d j"

lemma format_new_line_eq [json_simps]: "format_new_line w fmt = w @ newline fmt"
  by (simp add: format_new_line_def newline_def)

lemma format_space_eq [json_simps]: "format_space w fmt n = w @ spaces fmt n"
  by (simp add: format_space_def spaces_def)

lemma foldl_append_concat: "foldl (\<lambda>w c. w @ f c) w s = w @ concat (map f s)"
  by (induction s arbitrary: w) simp_all

lemma write_json_string_eq: "write_json_string w s = w @ text_of s"
  by (simp add: write_json_string_def text_of_def foldl_append_concat)

text \<open>The writer appends exactly the layout of the denoted document to what it was given.\<close>

fun emap :: "('a \<Rightarrow> 'b) \<Rightarrow> 'e + 'a \<Rightarrow> 'e + 'b" where
  "emap f (Inl x) = Inl x"
| "emap f (Inr y) = Inr (f y)"

text \<open>The text of a member's key: none for a key that is neither a string nor an integer.\<close>

fun member_key :: "json_env \<Rightarrow> lua_value \<Rightarrow> string + bytes option" where
  "member_key e (LString s) = Inr (Some s)"
| "member_key e (LInteger n) =
     (if enable_number_key (jopts e) then Inr (Some (show_int (sint n)))
      else Inl ''json encode: unsupport number key type.'')"
| "member_key e _ = Inr None"

lemma encode_refines_mutual:
  "encode_one e w v d = emap (\<lambda>j. w @ print_doc (jshow e) (jfmt e) d j) (to_doc e v d)"
  "encode_table e w a d = emap (\<lambda>j. w @ print_doc (jshow e) (jfmt e) d j) (to_doc_table e a d)"
  "encode_array e w a n d =
     ebind (to_doc_elems e (array_values (jheap e a) n) d) (\<lambda>r. case r of
       Some js \<Rightarrow> Inr (w @ print_doc (jshow e) (jfmt e) (d - 1) (JArr js))
     | None \<Rightarrow> emap (\<lambda>j. w @ print_doc (jshow e) (jfmt e) (d - 1) j) (to_doc_object e a d))"
  "(case to_doc_elems e vs d of
      Inl x \<Rightarrow> encode_elems e w i vs d = Inl x
    | Inr None \<Rightarrow> (\<exists>x. encode_elems e w i vs d = Inr (False, w @ x))
    | Inr (Some js) \<Rightarrow> encode_elems e w i vs d =
        Inr (True, w @ print_elems (jshow e) (jfmt e) d (i = 0) js))"
  "encode_object e w a d =
     emap (\<lambda>j. w @ print_doc (jshow e) (jfmt e) (d - 1) j) (to_doc_object e a d)"
  "encode_entries e w m es d =
     emap (\<lambda>ms. (w @ print_members (jshow e) (jfmt e) d (m = 0) ms, m + length ms))
       (to_doc_members e es d)"
proof (induction e w v d and e w a d and e w a n d and e w i vs d and e w a d and e w m es d
    rule: encode_one_encode_table_encode_array_encode_elems_encode_object_encode_entries.induct)
  case (1 e w v d)
  then show ?case
    by (cases v) (simp_all add: encode_one.simps to_doc.simps write_json_string_eq)
next
  case (2 e w a d)
  show ?case
  proof (cases "d + 1 > 64")
    case True
    then show ?thesis by (simp add: encode_table.simps to_doc_table.simps)
  next
    case False
    show ?thesis
    proof (cases "fst (lua_array_size (jheap e a))")
      case True
      with 2(1) False show ?thesis
        by (cases "to_doc_elems e (array_values (jheap e a) (snd (lua_array_size (jheap e a)))) (d + 1)")
          (auto simp: encode_table.simps to_doc_table.simps split: prod.splits bool.splits option.splits)
    next
      case f: False
      with 2(2) False show ?thesis
        by (auto simp: encode_table.simps to_doc_table.simps split: prod.splits bool.splits)
    qed
  qed
next
  case (3 e w a n d)
  show ?case
  proof (cases "to_doc_elems e (array_values (jheap e a) n) d")
    case (Inl x)
    with 3(1) show ?thesis by (simp add: encode_array.simps)
  next
    case (Inr r)
    show ?thesis
    proof (cases r)
      case None
      with 3(1) Inr obtain x where enc:
        "encode_elems e (w @ ''['') 0 (array_values (jheap e a) n) d = Inr (False, (w @ ''['') @ x)"
        by auto
      have "encode_object e w a d =
          emap (\<lambda>j. w @ print_doc (jshow e) (jfmt e) (d - 1) j) (to_doc_object e a d)"
        using 3(2) [OF enc refl] by simp
      with enc None Inr show ?thesis by (simp add: encode_array.simps)
    next
      case (Some js)
      with 3(1) Inr show ?thesis by (simp add: encode_array.simps json_simps)
    qed
  qed
next
  case (4 e w i d)
  then show ?case by (simp add: encode_elems.simps)
next
  case (5 e w i v vs d)
  show ?case
  proof (cases "v = LNil \<and> \<not> enable_sparse_array (jopts e)")
    case True
    then show ?thesis by (auto simp: encode_elems.simps to_doc_elems.simps json_simps)
  next
    case False
    then show ?thesis
    proof (cases "to_doc e v d")
      case (Inl x)
      with False 5(1) show ?thesis
        by (auto simp: encode_elems.simps to_doc_elems.simps json_simps)
    next
      case (Inr j)
      with False 5(1) have one: "encode_one e (format_space (if i = 0 then format_new_line w (jfmt e)
          else w @ '','') (jfmt e) d) v d = Inr (format_space (if i = 0 then format_new_line w (jfmt e)
          else w @ '','') (jfmt e) d @ print_doc (jshow e) (jfmt e) d j)"
        by auto
      note IH = 5(2) [OF refl False one]
      with False one Inr show ?thesis
        by (auto simp: encode_elems.simps to_doc_elems.simps json_simps split: sum.splits option.splits)
    qed
  qed
next
  case (6 e w a d)
  then show ?case
    by (cases "to_doc_members e (entries (jheap e a)) d")
      (auto simp: encode_object.simps to_doc_object.simps json_simps butlast_append)
next
  case (7 e w i d)
  then show ?case by (simp add: encode_entries.simps)
next
  case (8 e w i k v es d)
  show ?case
  proof (cases "\<exists>t. member_key e k = Inr (Some t)")
    case True
    then obtain t where t: "member_key e k = Inr (Some t)" by blast
    show ?thesis
    proof (cases "to_doc e v d")
      case (Inl x)
      with 8 t show ?thesis
        by (cases k) (auto simp: encode_entries.simps to_doc_members.simps json_simps
            split: if_splits)
    next
      case (Inr j)
      with 8 t show ?thesis
        by (cases k; cases "to_doc_members e es d")
          (auto simp: encode_entries.simps to_doc_members.simps json_simps split: if_splits)
    qed
  next
    case False
    with 8 show ?thesis
      by (cases k; cases "to_doc_members e es d")
        (auto simp: encode_entries.simps to_doc_members.simps json_simps split: if_splits)
  qed
qed

end
