(* ===== verification/JsonText.thy ===== *)
theory JsonText
  imports JsonEncode
begin

text \<open>
  A reference parser for JSON texts (RFC 8259), used as the specification of what the writer of
  \<open>JsonEncode\<close> produces, and the properties of the writer. Numbers are kept as their token, so
  that no float arithmetic enters.
\<close>

section \<open>The reference parser\<close>

datatype jtext =
  PNull | PBool bool | PNum string | PStr bytes | PArr "jtext list" | PObj "(bytes \<times> jtext) list"

definition is_ws :: "char \<Rightarrow> bool" where
  "is_ws c \<longleftrightarrow> c \<in> {CHR 0x20, CHR 0x09, CHR 0x0A, CHR 0x0D}"

definition skip_ws :: "bytes \<Rightarrow> bytes" where
  "skip_ws s = dropWhile is_ws s"

definition num_char :: "char \<Rightarrow> bool" where
  "num_char c \<longleftrightarrow> is_ascii_digit c \<or> c \<in> {CHR ''-'', CHR ''+'', CHR ''.'', CHR ''e'', CHR ''E''}"

definition all_digits1 :: "string \<Rightarrow> bool" where
  "all_digits1 s \<longleftrightarrow> s \<noteq> [] \<and> list_all is_ascii_digit s"

definition json_exp_ok :: "string \<Rightarrow> bool" where
  "json_exp_ok s \<longleftrightarrow> s = [] \<or> (hd s \<in> {CHR ''e'', CHR ''E''} \<and>
     (all_digits1 (tl s) \<or> (tl s \<noteq> [] \<and> hd (tl s) \<in> {CHR ''+'', CHR ''-''} \<and> all_digits1 (tl (tl s)))))"

definition json_frac_ok :: "string \<Rightarrow> bool" where
  "json_frac_ok s \<longleftrightarrow>
     (if s \<noteq> [] \<and> hd s = CHR ''.''
      then takeWhile is_ascii_digit (tl s) \<noteq> [] \<and> json_exp_ok (dropWhile is_ascii_digit (tl s))
      else json_exp_ok s)"

definition is_json_number :: "string \<Rightarrow> bool" where
  "is_json_number s \<longleftrightarrow>
     (let body = (if s \<noteq> [] \<and> hd s = CHR ''-'' then tl s else s);
          ds = takeWhile is_ascii_digit body
      in ds \<noteq> [] \<and> (ds = ''0'' \<or> hd ds \<noteq> CHR ''0'') \<and> json_frac_ok (dropWhile is_ascii_digit body))"

definition unescape :: "char \<Rightarrow> char option" where
  "unescape c =
     (if c = dquote \<or> c = backslash \<or> c = CHR ''/'' then Some c
      else if c = CHR ''b'' then Some (CHR 0x08) else if c = CHR ''t'' then Some (CHR 0x09)
      else if c = CHR ''n'' then Some (CHR 0x0A) else if c = CHR ''f'' then Some (CHR 0x0C)
      else if c = CHR ''r'' then Some (CHR 0x0D) else None)"

definition hex_val :: "char \<Rightarrow> nat option" where
  "hex_val c =
     (if is_ascii_digit c then Some (of_char c - 48)
      else if 65 \<le> (of_char c :: nat) \<and> (of_char c :: nat) \<le> 70 then Some (of_char c - 55)
      else if 97 \<le> (of_char c :: nat) \<and> (of_char c :: nat) \<le> 102 then Some (of_char c - 87)
      else None)"

text \<open>
  Four hexadecimal digits; the writer only produces code points below 128, which are single
  bytes, and the parser refuses the others.
\<close>

definition hex4 :: "char \<Rightarrow> char \<Rightarrow> char \<Rightarrow> char \<Rightarrow> char option" where
  "hex4 a b c d =
     (case (hex_val a, hex_val b, hex_val c, hex_val d) of
        (Some p, Some q, Some r, Some s) \<Rightarrow>
          let n = ((p * 16 + q) * 16 + r) * 16 + s in if n < 128 then Some (char_of n) else None
      | _ \<Rightarrow> None)"

definition cons_fst :: "'a \<Rightarrow> 'a list \<times> 'b \<Rightarrow> 'a list \<times> 'b" where
  "cons_fst x p = (x # fst p, snd p)"

fun parse_chars :: "bytes \<Rightarrow> (bytes \<times> bytes) option" where
  "parse_chars [] = None"
| "parse_chars (c # cs) =
     (if c = dquote then Some ([], cs)
      else if (of_char c :: nat) < 32 then None
      else if c = backslash then
        (case cs of
           [] \<Rightarrow> None
         | x # cs' \<Rightarrow>
             (case unescape x of
                Some ch \<Rightarrow> map_option (cons_fst ch) (parse_chars cs')
              | None \<Rightarrow>
                  if x = CHR ''u'' then
                    (case cs' of
                       h1 # h2 # h3 # h4 # cs'' \<Rightarrow>
                         (case hex4 h1 h2 h3 h4 of
                            Some ch \<Rightarrow> map_option (cons_fst ch) (parse_chars cs'')
                          | None \<Rightarrow> None)
                     | _ \<Rightarrow> None)
                  else None))
      else map_option (cons_fst c) (parse_chars cs))"

text \<open>
  The grammar by recursive descent. The fuel bounds the number of nested calls; twice the
  length of the text is enough (\<open>need_bound\<close>), which \<open>json_parse\<close> supplies.
\<close>

fun parse_value :: "nat \<Rightarrow> bytes \<Rightarrow> (jtext \<times> bytes) option"
  and parse_elems :: "nat \<Rightarrow> bytes \<Rightarrow> (jtext list \<times> bytes) option"
  and parse_members :: "nat \<Rightarrow> bytes \<Rightarrow> ((bytes \<times> jtext) list \<times> bytes) option"
where
  "parse_value 0 s = None"
| "parse_value (Suc n) s =
     (case skip_ws s of
        [] \<Rightarrow> None
      | c # r \<Rightarrow>
          if c = dquote then map_option (\<lambda>(t, r'). (PStr t, r')) (parse_chars r)
          else if c = CHR ''['' then
            (if skip_ws r \<noteq> [] \<and> hd (skip_ws r) = CHR '']'' then Some (PArr [], tl (skip_ws r))
             else map_option (\<lambda>(vs, r'). (PArr vs, r')) (parse_elems n r))
          else if c = CHR ''{'' then
            (if skip_ws r \<noteq> [] \<and> hd (skip_ws r) = CHR ''}'' then Some (PObj [], tl (skip_ws r))
             else map_option (\<lambda>(ms, r'). (PObj ms, r')) (parse_members n r))
          else if take 4 (c # r) = ''null'' then Some (PNull, drop 3 r)
          else if take 4 (c # r) = ''true'' then Some (PBool True, drop 3 r)
          else if take 5 (c # r) = ''false'' then Some (PBool False, drop 4 r)
          else if is_json_number (takeWhile num_char (c # r))
          then Some (PNum (takeWhile num_char (c # r)), dropWhile num_char (c # r))
          else None)"
| "parse_elems 0 s = None"
| "parse_elems (Suc n) s =
     (case parse_value n s of
        None \<Rightarrow> None
      | Some (v, r) \<Rightarrow>
          (case skip_ws r of
             [] \<Rightarrow> None
           | c # r' \<Rightarrow>
               if c = CHR '','' then map_option (cons_fst v) (parse_elems n r')
               else if c = CHR '']'' then Some ([v], r') else None))"
| "parse_members 0 s = None"
| "parse_members (Suc n) s =
     (case skip_ws s of
        [] \<Rightarrow> None
      | q # r \<Rightarrow>
          if q \<noteq> dquote then None
          else case parse_chars r of
            None \<Rightarrow> None
          | Some (k, r1) \<Rightarrow>
              (case skip_ws r1 of
                 [] \<Rightarrow> None
               | c1 # r2 \<Rightarrow>
                   if c1 \<noteq> CHR '':'' then None
                   else case parse_value n r2 of
                     None \<Rightarrow> None
                   | Some (v, r3) \<Rightarrow>
                       (case skip_ws r3 of
                          [] \<Rightarrow> None
                        | c2 # r4 \<Rightarrow>
                            if c2 = CHR '','' then map_option (cons_fst (k, v)) (parse_members n r4)
                            else if c2 = CHR ''}'' then Some ([(k, v)], r4) else None)))"

definition json_parse :: "bytes \<Rightarrow> jtext option" where
  "json_parse s =
     (case parse_value (2 * length s) s of
        Some (v, r) \<Rightarrow> if skip_ws r = [] then Some v else None
      | None \<Rightarrow> None)"

section \<open>Documents whose text is JSON\<close>

definition plain_text :: "bytes \<Rightarrow> bool" where
  "plain_text s \<longleftrightarrow> list_all (\<lambda>c. char2escape ! of_char c = CHR 0x00) s"

fun clean :: "(f64 \<Rightarrow> string) \<Rightarrow> jdoc \<Rightarrow> bool" and clean_member :: "(f64 \<Rightarrow> string) \<Rightarrow> jmember \<Rightarrow> bool"
where
  "clean sf (JFloat x) = is_json_number (sf x)"
| "clean sf (JArr js) = list_all (clean sf) js"
| "clean sf (JObj ms) = list_all (clean_member sf) ms"
| "clean sf JBlank = False"
| "clean sf _ = True"
| "clean_member sf JSkip = False"
| "clean_member sf (JMember k j) = (plain_text k \<and> clean sf j)"

text \<open>The parsed form of a document.\<close>

fun parsed :: "(f64 \<Rightarrow> string) \<Rightarrow> jdoc \<Rightarrow> jtext"
  and parsed_member :: "(f64 \<Rightarrow> string) \<Rightarrow> jmember \<Rightarrow> bytes \<times> jtext"
where
  "parsed sf JNull = PNull"
| "parsed sf JBlank = PNull"
| "parsed sf (JBool b) = PBool b"
| "parsed sf (JInt i) = PNum (show_int i)"
| "parsed sf (JFloat x) = PNum (sf x)"
| "parsed sf (JText s) = PStr s"
| "parsed sf (JArr js) = PArr (map (parsed sf) js)"
| "parsed sf (JObj ms) = PObj (map (parsed_member sf) ms)"
| "parsed sf JEmptyTbl = PArr []"
| "parsed_member sf JSkip = ([], PNull)"
| "parsed_member sf (JMember k j) = (k, parsed sf j)"


section \<open>Strings\<close>

text \<open>Each byte is written raw, as a two-byte escape, or as \<open>\u00XX\<close>, and reads back.\<close>

lemma char2escape_eq: "char2escape =
    replicate 8 (CHR ''u'') @ [CHR ''b'', CHR ''t'', CHR ''n'', CHR ''u'', CHR ''f'', CHR ''r''] @
    replicate 18 (CHR ''u'') @ [CHR 0x00, CHR 0x00, dquote] @ replicate 57 (CHR 0x00) @
    [backslash] @ replicate 163 (CHR 0x00)"
  by (simp add: char2escape_def Let_def dquote_def backslash_def numeral_eq_Suc)

lemma char2escape_nth:
  assumes "n < 256"
  shows "char2escape ! n =
     (if n = 8 then CHR ''b'' else if n = 9 then CHR ''t'' else if n = 10 then CHR ''n''
      else if n = 12 then CHR ''f'' else if n = 13 then CHR ''r'' else if n < 32 then CHR ''u''
      else if n = 34 then dquote else if n = 92 then backslash else CHR 0x00)"
  using assms by (subst char2escape_eq) (auto simp: nth_append nth_Cons')

lemma hex_digits_length: "length hex_digits = 16"
  by (simp add: hex_digits_def)

lemma hex_val_digit:
  assumes "k < 16"
  shows "hex_val (hex_digits ! k) = Some k"
proof -
  have "list_all (\<lambda>k. hex_val (hex_digits ! k) = Some k)
      [0, 1, 2, 3, 4, 5, 6, 7, 8, 9, 10, 11, 12, 13, 14, 15]"
    by (simp add: hex_val_def hex_digits_def is_ascii_digit_def)
  moreover have "k \<in> set [0, 1, 2, 3, 4, 5, 6, 7, 8, 9, 10, 11, 12, 13, 14, 15]"
    using assms by (auto simp: numeral_eq_Suc less_Suc_eq)
  ultimately show ?thesis unfolding list_all_iff by blast
qed

lemma hex4_byte:
  assumes "n < 128"
  shows "hex4 (CHR ''0'') (CHR ''0'') (hex_digits ! (n div 16 mod 16)) (hex_digits ! (n mod 16)) =
     Some (char_of n)"
proof -
  have "hex_val (CHR ''0'') = Some 0" by (simp add: hex_val_def is_ascii_digit_def)
  moreover have "n div 16 mod 16 * 16 + n mod 16 = n" using assms by simp
  ultimately show ?thesis using assms by (simp add: hex4_def hex_val_digit)
qed

lemma char_numerals:
  "char_of (8 :: nat) = CHR 0x08" "char_of (9 :: nat) = CHR 0x09" "char_of (10 :: nat) = CHR 0x0A"
  "char_of (12 :: nat) = CHR 0x0C" "char_of (13 :: nat) = CHR 0x0D" "char_of (34 :: nat) = dquote"
  "char_of (92 :: nat) = backslash"
  by (simp_all add: char_of_def dquote_def backslash_def bit_0)

lemma of_char_eqD: "of_char ch = (n :: nat) \<Longrightarrow> ch = char_of n"
  by (metis char_of_char)

lemma esc_cases:
  obtains (raw) "esc_char ch = [ch]" "ch \<noteq> dquote" "ch \<noteq> backslash" "32 \<le> (of_char ch :: nat)"
  | (short) x where "esc_char ch = [backslash, x]" "unescape x = Some ch" "x \<noteq> CHR 0x00"
      "32 \<le> (of_char x :: nat)"
  | (hex) c d where "esc_char ch = [backslash, CHR ''u'', CHR ''0'', CHR ''0'', c, d]"
      "hex4 (CHR ''0'') (CHR ''0'') c d = Some ch" "c \<in> set hex_digits" "d \<in> set hex_digits"
proof -
  let ?n = "of_char ch :: nat"
  have len: "?n < 256" using of_char_mod_256 [of ch] by (metis mod_less_divisor zero_less_numeral)
  have ds: "hex_digits ! k \<in> set hex_digits" if "k < 16" for k
    using that hex_digits_length by (simp add: nth_mem)
  consider "?n \<in> {8, 9, 10, 12, 13, 34, 92}" | "?n < 32" "?n \<notin> {8, 9, 10, 12, 13}"
    | "32 \<le> ?n" "?n \<noteq> 34" "?n \<noteq> 92" by force
  then show ?thesis
  proof cases
    case 1
    then show ?thesis
      using char2escape_nth [OF len]
      by (intro short [of "char2escape ! ?n"])
        (auto simp: esc_char_def Let_def dquote_def backslash_def unescape_def char_numerals
          dest!: of_char_eqD)
  next
    case 2
    then have "char2escape ! ?n = CHR ''u''" using char2escape_nth [OF len] by auto
    with 2 show ?thesis
      using hex4_byte [of ?n] ds by (intro hex) (auto simp: esc_char_def)
  next
    case 3
    then show ?thesis
      using char2escape_nth [OF len] by (intro raw) (auto simp: esc_char_def dquote_def backslash_def)
  qed
qed

lemma parse_chars_esc:
  "parse_chars (esc_char ch @ rest) = map_option (cons_fst ch) (parse_chars rest)"
proof -
  have u: "unescape (CHR ''u'') = None" by (simp add: unescape_def dquote_def backslash_def)
  have bd: "backslash \<noteq> dquote" "\<not> (of_char backslash :: nat) < 32"
    by (simp_all add: backslash_def dquote_def)
  show ?thesis
  proof (cases rule: esc_cases [of ch])
    case raw
    then show ?thesis by simp
  next
    case (short x)
    with bd show ?thesis by simp
  next
    case (hex c d)
    with bd u show ?thesis by simp
  qed
qed

lemma parse_chars_text:
  "parse_chars (concat (map esc_char s) @ dquote # rest) = Some (s, rest)"
  by (induction s) (simp_all add: parse_chars_esc cons_fst_def)

lemma plain_text_concat: "plain_text k \<Longrightarrow> concat (map esc_char k) = k"
  by (induction k) (simp_all add: plain_text_def esc_char_def)

lemma parse_chars_key:
  "plain_text k \<Longrightarrow> parse_chars (k @ dquote # rest) = Some (k, rest)"
  using parse_chars_text [of k rest] by (simp add: plain_text_concat)

lemma esc_char_no_control:
  assumes "c \<in> set (esc_char ch)"
  shows "32 \<le> (of_char c :: nat)"
proof -
  have hd: "list_all (\<lambda>c. 32 \<le> (of_char c :: nat)) hex_digits"
    by (simp add: hex_digits_def)
  show ?thesis
    by (cases rule: esc_cases [of ch])
      (use assms hd in \<open>auto simp: list_all_iff backslash_def\<close>)
qed

section \<open>Numbers\<close>

lemma num_char_props:
  "num_char c \<Longrightarrow> \<not> is_ws c \<and> c \<noteq> dquote \<and> c \<noteq> CHR ''['' \<and> c \<noteq> CHR ''{'' \<and> c \<noteq> CHR ''n'' \<and>
     c \<noteq> CHR ''t'' \<and> c \<noteq> CHR ''f'' \<and> c \<noteq> CHR '']'' \<and> c \<noteq> CHR ''}'' \<and> c \<noteq> CHR '','' \<and> c \<noteq> CHR '':''"
  by (auto simp: num_char_def is_ascii_digit_def is_ws_def dquote_def)

lemma list_all_takeWhile_dropWhile:
  "list_all P (dropWhile Q s) \<Longrightarrow> (\<And>c. Q c \<Longrightarrow> P c) \<Longrightarrow> list_all P s"
  by (induction s) (auto split: if_splits)

lemma digit_num_char: "is_ascii_digit c \<Longrightarrow> num_char c"
  by (simp add: num_char_def)

lemma all_digits1_num: "all_digits1 s \<Longrightarrow> list_all num_char s"
  by (auto simp: all_digits1_def list_all_iff digit_num_char)

lemma json_exp_num: "json_exp_ok s \<Longrightarrow> list_all num_char s"
proof (cases s)
  case (Cons c t)
  assume "json_exp_ok s"
  with Cons show ?thesis
    by (cases t) (auto simp: json_exp_ok_def num_char_def dest: all_digits1_num)
qed simp

lemma json_frac_num: "json_frac_ok s \<Longrightarrow> list_all num_char s"
proof (cases "s \<noteq> [] \<and> hd s = CHR ''.''")
  case True
  assume "json_frac_ok s"
  with True have "list_all num_char (dropWhile is_ascii_digit (tl s))"
    by (auto simp: json_frac_ok_def dest: json_exp_num)
  then have "list_all num_char (tl s)"
    using list_all_takeWhile_dropWhile digit_num_char by blast
  with True show ?thesis by (cases s) (auto simp: num_char_def)
next
  case False
  assume "json_frac_ok s"
  with False show ?thesis by (auto simp: json_frac_ok_def intro: json_exp_num split: if_splits)
qed

lemma json_number_num:
  assumes "is_json_number s"
  shows "s \<noteq> []" "list_all num_char s"
proof -
  show "s \<noteq> []" using assms by (auto simp: is_json_number_def)
  let ?b = "if s \<noteq> [] \<and> hd s = CHR ''-'' then tl s else s"
  have "json_frac_ok (dropWhile is_ascii_digit ?b)"
    using assms by (simp add: is_json_number_def Let_def)
  then have "list_all num_char ?b"
    using json_frac_num list_all_takeWhile_dropWhile digit_num_char by blast
  then show "list_all num_char s"
    by (cases s) (auto simp: num_char_def split: if_splits)
qed

lemma show_nat_no_zero: "show_nat n = ''0'' \<or> hd (show_nat n) \<noteq> CHR ''0''"
proof (induction n rule: show_nat.induct)
  case (1 n)
  show ?case
  proof (cases "n < 10")
    case True
    then show ?thesis by (subst (1 2) show_nat.simps) (auto simp: digit_char_def char_of_eq_iff)
  next
    case False
    then have "show_nat (n div 10) \<noteq> ''0''"
      using digits_val_show_nat [of "n div 10"] by (auto simp: digits_val_def digit_val_def)
    with 1 False show ?thesis
      by (subst (1 2) show_nat.simps) (simp add: show_nat_ne hd_append)
  qed
qed

lemma takeWhile_all: "list_all P s \<Longrightarrow> takeWhile P s = s \<and> dropWhile P s = []"
  by (induction s) auto



lemma show_int_json: "is_json_number (show_int i)"
proof -
  have "hd (show_nat m) \<noteq> CHR ''-''" for m
    using digit_not_sign [OF show_nat_hd_digit] by auto
  then show ?thesis
    using show_nat_no_zero show_nat_digits [unfolded list_all_iff]
    by (auto simp: is_json_number_def show_int_def show_nat_ne Let_def json_frac_ok_def
        json_exp_ok_def takeWhile_all [OF show_nat_digits])
qed


section \<open>Fuel\<close>

fun need :: "jdoc \<Rightarrow> nat" and need_elems :: "jdoc list \<Rightarrow> nat" and need_members :: "jmember list \<Rightarrow> nat"
  and need_member :: "jmember \<Rightarrow> nat"
where
  "need (JArr js) = 1 + need_elems js"
| "need (JObj ms) = 1 + need_members ms"
| "need _ = 1"
| "need_elems [] = 0"
| "need_elems (j # js) = 1 + need j + need_elems js"
| "need_members [] = 0"
| "need_members (m # ms) = 1 + need_member m + need_members ms"
| "need_member JSkip = 0"
| "need_member (JMember k j) = need j"

lemma text_of_length: "2 \<le> length (text_of s)"
  by (simp add: text_of_def)

lemma need_bound_mutual:
  "clean sf j \<Longrightarrow> need j < 2 * length (print_doc sf fmt d j)"
  "list_all (clean sf) js \<Longrightarrow> need_elems js \<le> 2 * length (print_elems sf fmt d first js) + 1 \<and>
     (\<not> first \<longrightarrow> need_elems js \<le> 2 * length (print_elems sf fmt d first js))"
  "list_all (clean_member sf) ms \<Longrightarrow> need_members ms \<le> 2 * length (print_members sf fmt d first ms)"
  "clean_member sf m \<Longrightarrow> need_member m + 6 \<le> 2 * length (print_member sf fmt d m)"
proof (induction sf fmt d j and sf fmt d first js and sf fmt d first ms and sf fmt d m
    rule: print_doc_print_elems_print_members_print_member.induct)
  case (3 sf fmt d i)
  then show ?case by (cases "show_int i") (simp_all add: show_int_ne)
next
  case (4 sf fmt d x)
  then have "sf x \<noteq> []" using json_number_num by simp
  then show ?case by (cases "sf x") simp_all
next
  case (5 sf fmt d s)
  then show ?case using text_of_length [of s] by simp
next
  case (11 sf fmt d first j js)
  then show ?case by (cases first) auto
next
  case (13 sf fmt d first m ms)
  then show ?case by (cases first) auto
qed auto

lemmas need_bound = need_bound_mutual(1)

section \<open>The parser inverts the layout\<close>

lemma skip_ws_simps [simp]:
  "skip_ws (newline fmt @ s) = skip_ws s" "skip_ws (spaces fmt n @ s) = skip_ws s"
  "skip_ws [] = []" "\<not> is_ws c \<Longrightarrow> skip_ws (c # s) = c # s"
  "skip_ws (CHR 0x20 # s) = skip_ws s"
proof -
  have "dropWhile is_ws (replicate k (CHR 0x20) @ s) = dropWhile is_ws s" for k
    by (induction k) (auto simp: is_ws_def)
  then show "skip_ws (spaces fmt n @ s) = skip_ws s"
    by (simp add: skip_ws_def spaces_def)
qed (auto simp: skip_ws_def newline_def is_ws_def)

lemma not_ws [simp]:
  "\<not> is_ws (CHR ''['')" "\<not> is_ws (CHR '']'')" "\<not> is_ws (CHR ''{'')" "\<not> is_ws (CHR ''}'')"
  "\<not> is_ws (CHR '','')" "\<not> is_ws (CHR '':'')" "\<not> is_ws dquote" "\<not> is_ws (CHR ''n'')"
  "\<not> is_ws (CHR ''t'')" "\<not> is_ws (CHR ''f'')"
  by (simp_all add: is_ws_def dquote_def)

lemma dquote_ne [simp]:
  "CHR ''['' \<noteq> dquote" "CHR ''{'' \<noteq> dquote" "CHR ''n'' \<noteq> dquote" "CHR ''t'' \<noteq> dquote"
  "CHR ''f'' \<noteq> dquote" "CHR '']'' \<noteq> dquote" "CHR ''}'' \<noteq> dquote" "dquote \<noteq> CHR ''[''"
  "dquote \<noteq> CHR ''{''" "dquote \<noteq> CHR '']''" "dquote \<noteq> CHR ''}''"
  by (simp_all add: dquote_def)

text \<open>What may follow a value: nothing, or a character that is not part of a number.\<close>

definition ends_value :: "bytes \<Rightarrow> bool" where
  "ends_value s \<longleftrightarrow> s = [] \<or> \<not> num_char (hd s)"

lemma ends_value_simps [simp]:
  "ends_value []" "ends_value (CHR '','' # s)" "ends_value (CHR '']'' # s)"
  "ends_value (CHR ''}'' # s)" "ends_value s \<Longrightarrow> ends_value (newline fmt @ s)"
  "ends_value s \<Longrightarrow> ends_value (spaces fmt n @ s)"
  by (auto simp: ends_value_def num_char_def is_ascii_digit_def newline_def spaces_def hd_append)

lemma ends_value_elems [simp]:
  "ends_value s \<Longrightarrow> ends_value (print_elems sf fmt d False js @ s)"
  by (cases js) simp_all

lemma ends_value_members [simp]:
  "ends_value s \<Longrightarrow> ends_value (print_members sf fmt d False ms @ s)"
  by (cases ms) simp_all

lemma takeWhile_ends:
  "list_all num_char t \<Longrightarrow> ends_value rest \<Longrightarrow>
    takeWhile num_char (t @ rest) = t \<and> dropWhile num_char (t @ rest) = rest"
  by (induction t) (cases rest; auto simp: ends_value_def)+

lemma parse_number:
  assumes "is_json_number t" "ends_value rest" "skip_ws s = skip_ws (t @ rest)"
  shows "parse_value (Suc n) s = Some (PNum t, rest)"
proof -
  obtain c t' where t: "t = c # t'" using json_number_num(1) [OF assms(1)] by (cases t) auto
  have c: "num_char c" using json_number_num(2) [OF assms(1)] t by simp
  have "skip_ws s = c # (t' @ rest)" using assms(3) num_char_props [OF c] t by simp
  moreover have "takeWhile num_char (c # (t' @ rest)) = t" "dropWhile num_char (c # (t' @ rest)) = rest"
    using takeWhile_ends [OF json_number_num(2) [OF assms(1)] assms(2)] t by simp_all
  moreover have "take 4 (c # (t' @ rest)) \<noteq> ''null''" "take 4 (c # (t' @ rest)) \<noteq> ''true''"
    "take 5 (c # (t' @ rest)) \<noteq> ''false''"
    using num_char_props [OF c] by (auto simp: numeral_eq_Suc)
  ultimately show ?thesis
    using assms(1) num_char_props [OF c] by (simp del: takeWhile.simps dropWhile.simps)
qed


text \<open>
  A document reads back when the parser, with enough fuel and after any white space, returns its
  parsed form and the rest of the text.
\<close>

definition reads :: "(f64 \<Rightarrow> string) \<Rightarrow> bool \<Rightarrow> jdoc \<Rightarrow> bool" where
  "reads sf fmt j \<longleftrightarrow> (\<forall>d rest n s. ends_value rest \<longrightarrow> need j \<le> n \<longrightarrow>
     skip_ws s = skip_ws (print_doc sf fmt d j @ rest) \<longrightarrow> parse_value n s = Some (parsed sf j, rest))"

fun reads_member :: "(f64 \<Rightarrow> string) \<Rightarrow> bool \<Rightarrow> jmember \<Rightarrow> bool" where
  "reads_member sf fmt JSkip = False"
| "reads_member sf fmt (JMember k j) = (plain_text k \<and> reads sf fmt j)"

lemma readsD:
  "reads sf fmt j \<Longrightarrow> ends_value rest \<Longrightarrow> need j \<le> n \<Longrightarrow>
    skip_ws s = skip_ws (print_doc sf fmt d j @ rest) \<Longrightarrow> parse_value n s = Some (parsed sf j, rest)"
  unfolding reads_def by blast

lemma parse_elems_layout:
  assumes "list_all (reads sf fmt) (j # js)" "need_elems (j # js) \<le> n"
    "skip_ws s = skip_ws (print_doc sf fmt d j @ newline fmt @ print_elems sf fmt d False js @
       spaces fmt d' @ CHR '']'' # rest)"
  shows "parse_elems n s = Some (map (parsed sf) (j # js), rest)"
  using assms
proof (induction js arbitrary: j n s)
  case Nil
  then obtain m where n: "n = Suc m" by (cases n) auto
  have "parse_value m s = Some (parsed sf j, newline fmt @ spaces fmt d' @ CHR '']'' # rest)"
    using Nil n by (intro readsD [where d = d and fmt = fmt]) simp_all
  then show ?case by (simp add: n)
next
  case (Cons j' js)
  then obtain m where n: "n = Suc m" by (cases n) auto
  let ?tail = "print_doc sf fmt d j' @ newline fmt @ print_elems sf fmt d False js @
    spaces fmt d' @ CHR '']'' # rest"
  have "parse_value m s = Some (parsed sf j, newline fmt @ CHR '','' # spaces fmt d @ ?tail)"
    using Cons.prems n by (intro readsD [where d = d and fmt = fmt]) simp_all
  moreover have "parse_elems m (spaces fmt d @ ?tail) = Some (map (parsed sf) (j' # js), rest)"
    using Cons.prems n by (intro Cons.IH) simp_all
  ultimately show ?case by (simp add: n cons_fst_def)
qed

lemma parse_members_layout:
  assumes "list_all (reads_member sf fmt) (x # ms)" "need_members (x # ms) \<le> n"
    "skip_ws s = skip_ws (print_member sf fmt d x @ print_members sf fmt d False ms @
       newline fmt @ spaces fmt d' @ CHR ''}'' # rest)"
  shows "parse_members n s = Some (map (parsed_member sf) (x # ms), rest)"
  using assms
proof (induction ms arbitrary: x n s)
  case Nil
  then obtain m where n: "n = Suc m" by (cases n) auto
  obtain k j where x: "x = JMember k j" using Nil by (cases x) auto
  have "parse_value m ((if fmt then [CHR 0x20] else []) @ print_doc sf fmt d j @ newline fmt @
      spaces fmt d' @ CHR ''}'' # rest) =
      Some (parsed sf j, newline fmt @ spaces fmt d' @ CHR ''}'' # rest)"
    using Nil n x by (intro readsD [where d = d and fmt = fmt]) simp_all
  then show ?case using Nil x by (simp add: n parse_chars_key)
next
  case (Cons x' ms)
  then obtain m where n: "n = Suc m" by (cases n) auto
  obtain k j where x: "x = JMember k j" using Cons.prems by (cases x) auto
  let ?tail = "newline fmt @ print_member sf fmt d x' @ print_members sf fmt d False ms @
    newline fmt @ spaces fmt d' @ CHR ''}'' # rest"
  have "parse_value m ((if fmt then [CHR 0x20] else []) @ print_doc sf fmt d j @ CHR '','' # ?tail) =
      Some (parsed sf j, CHR '','' # ?tail)"
    using Cons.prems n x by (intro readsD [where d = d and fmt = fmt]) simp_all
  moreover have "parse_members m ?tail = Some (map (parsed_member sf) (x' # ms), rest)"
    using Cons.prems n by (intro Cons.IH) simp_all
  ultimately show ?case using Cons.prems x by (simp add: n parse_chars_key cons_fst_def)
qed

lemma print_doc_no_bracket:
  assumes "clean sf j"
  shows "\<exists>c t. print_doc sf fmt d j = c # t \<and> \<not> is_ws c \<and> c \<noteq> CHR '']'' \<and> c \<noteq> CHR ''}''"
proof -
  have num: "\<exists>c t. s = c # t \<and> \<not> is_ws c \<and> c \<noteq> CHR '']'' \<and> c \<noteq> CHR ''}''"
    if "is_json_number s" for s
    using json_number_num [OF that] num_char_props by (cases s) auto
  show ?thesis
    using assms num show_int_json by (cases j) (auto simp: text_of_def)
qed

lemma clean_reads:
  "clean sf j \<Longrightarrow> reads sf fmt j"
  "clean_member sf m \<Longrightarrow> reads_member sf fmt m"
proof (induction j and m rule: jdoc.induct jmember.induct)
  case (JArr js)
  show ?case
    unfolding reads_def
  proof (intro allI impI)
    fix d rest n s
    assume a: "ends_value rest" "need (JArr js) \<le> n"
      "skip_ws s = skip_ws (print_doc sf fmt d (JArr js) @ rest)"
    then obtain m where n: "n = Suc m" by (cases n) auto
    show "parse_value n s = Some (parsed sf (JArr js), rest)"
    proof (cases js)
      case Nil
      with a n show ?thesis by simp
    next
      case (Cons j js')
      obtain c t where c: "print_doc sf fmt (d + 1) j = c # t" "\<not> is_ws c" "c \<noteq> CHR '']''"
        using print_doc_no_bracket [of sf j fmt "d + 1"] JArr.prems Cons by auto
      have "list_all (reads sf fmt) (j # js')"
        using JArr Cons by (auto simp: list_all_iff)
      then have "parse_elems m (newline fmt @ spaces fmt (d + 1) @ print_doc sf fmt (d + 1) j @
          newline fmt @ print_elems sf fmt (d + 1) False js' @ spaces fmt d @ CHR '']'' # rest) =
          Some (map (parsed sf) (j # js'), rest)"
        using a n Cons by (intro parse_elems_layout) simp_all
      with a n Cons c show ?thesis by simp
    qed
  qed
next
  case (JObj ms)
  show ?case
    unfolding reads_def
  proof (intro allI impI)
    fix d rest n s
    assume a: "ends_value rest" "need (JObj ms) \<le> n"
      "skip_ws s = skip_ws (print_doc sf fmt d (JObj ms) @ rest)"
    then obtain m where n: "n = Suc m" by (cases n) auto
    show "parse_value n s = Some (parsed sf (JObj ms), rest)"
    proof (cases ms)
      case Nil
      with a n show ?thesis by simp
    next
      case (Cons x ms')
      obtain k j where x: "x = JMember k j" using JObj.prems Cons by (cases x) auto
      have "list_all (reads_member sf fmt) (x # ms')"
        using JObj Cons by (auto simp: list_all_iff)
      then have "parse_members m (newline fmt @ print_member sf fmt (d + 1) x @
          print_members sf fmt (d + 1) False ms' @ newline fmt @ spaces fmt d @ CHR ''}'' # rest) =
          Some (map (parsed_member sf) (x # ms'), rest)"
        using a n Cons by (intro parse_members_layout) simp_all
      with a n Cons x show ?thesis by simp
    qed
  qed
next
  case (JInt i)
  then show ?case
    unfolding reads_def using parse_number [OF show_int_json]
    by (metis Suc_le_D need.simps(5) One_nat_def parsed.simps(4) print_doc.simps(3))
next
  case (JFloat x)
  then show ?case
    unfolding reads_def using parse_number
    by (metis Suc_le_D need.simps(6) One_nat_def clean.simps(1) parsed.simps(5) print_doc.simps(4))
next
  case (JText s)
  have "parse_value (Suc m) s' = Some (PStr s, rest)" if "skip_ws s' = skip_ws (text_of s @ rest)"
    for m s' rest
    using that by (simp add: text_of_def parse_chars_text)
  then show ?case
    unfolding reads_def by (auto dest!: Suc_le_D)
next
  case JNull
  then show ?case by (auto simp: reads_def dest!: Suc_le_D)
next
  case (JBool b)
  then show ?case by (cases b) (auto simp: reads_def dest!: Suc_le_D)
next
  case JEmptyTbl
  then show ?case by (auto simp: reads_def dest!: Suc_le_D)
qed auto

lemma json_parse_layout:
  assumes "clean sf j"
  shows "json_parse (print_doc sf fmt d j) = Some (parsed sf j)"
proof -
  have "parse_value (2 * length (print_doc sf fmt d j)) (print_doc sf fmt d j) = Some (parsed sf j, [])"
    using clean_reads(1) [OF assms] need_bound [OF assms, of fmt d]
    by (intro readsD [where d = d and fmt = fmt]) simp_all
  then show ?thesis by (simp add: json_parse_def dquote_def)
qed


section \<open>Depth\<close>

text \<open>The values the writer visits below a table.\<close>

definition written_entry :: "lua_value \<times> lua_value \<Rightarrow> bool" where
  "written_entry x \<longleftrightarrow> lua_type (fst x) = TString \<or> lua_type (fst x) = TInteger"

definition children :: "json_env \<Rightarrow> nat \<Rightarrow> lua_value set" where
  "children e a =
     (let t = jheap e a; (arr, n) = lua_array_size t in
      if arr \<and> (enable_sparse_array (jopts e) \<or> LNil \<notin> set (array_values t n))
      then set (array_values t n)
      else snd ` set (filter written_entry (entries t)))"

lemma to_doc_elems_all:
  "to_doc_elems e vs d = Inr (Some js) \<Longrightarrow> v \<in> set vs \<Longrightarrow> \<exists>j. to_doc e v d = Inr j"
  by (induction vs arbitrary: js) (auto simp: to_doc_elems.simps(2) ebind_Inr_iff split: if_splits)

lemma to_doc_elems_holes:
  "to_doc_elems e vs d = Inr r \<Longrightarrow>
     r = None \<longleftrightarrow> (\<not> enable_sparse_array (jopts e) \<and> LNil \<in> set vs)"
  by (induction vs arbitrary: r) (auto simp: to_doc_elems.simps(2) ebind_Inr_iff split: if_splits)

lemma to_doc_members_all:
  "to_doc_members e es d = Inr ms \<Longrightarrow> x \<in> set es \<Longrightarrow> written_entry x \<Longrightarrow>
     \<exists>j. to_doc e (snd x) d = Inr j"
proof (induction es arbitrary: ms)
  case (Cons y es)
  obtain k v where y: "y = (k, v)" by (cases y)
  from Cons y show ?case
    by (cases k) (auto simp: to_doc_members.simps(2) ebind_Inr_iff written_entry_def split: if_splits)
qed simp

lemma to_doc_table_children:
  assumes "to_doc_table e a d = Inr j" "v \<in> children e a"
  shows "d < 64 \<and> (\<exists>j. to_doc e v (d + 1) = Inr j)"
proof -
  obtain arr n where sz: "lua_array_size (jheap e a) = (arr, n)" by (cases "lua_array_size (jheap e a)")
  have obj: "\<exists>j. to_doc e v (d + 1) = Inr j"
    if ob: "to_doc_object e a (d + 1) = Inr j'" and vi: "v \<in> snd ` set (filter written_entry (entries (jheap e a)))"
    for j'
  proof -
    obtain x where x: "x \<in> set (entries (jheap e a))" "written_entry x" "v = snd x"
      using vi by auto
    then show ?thesis
      using ob to_doc_members_all [of e "entries (jheap e a)" "d + 1" _ x]
      by (auto simp: to_doc_object.simps ebind_Inr_iff)
  qed
  have d: "d < 64" using assms(1) by (auto simp: to_doc_table.simps split: if_splits)
  show ?thesis
  proof (cases arr)
    case True
    then obtain r where r: "to_doc_elems e (array_values (jheap e a) n) (d + 1) = Inr r"
      "case r of Some js \<Rightarrow> j = JArr js | None \<Rightarrow> to_doc_object e a (d + 1) = Inr j"
      using assms(1) sz d by (auto simp: to_doc_table.simps ebind_Inr_iff split: option.splits)
    then show ?thesis
      using to_doc_elems_holes [OF r(1)] to_doc_elems_all assms(2) sz True d obj
      by (cases r) (auto simp: children_def)
  next
    case False
    then show ?thesis
      using assms sz d obj by (auto simp: to_doc_table.simps children_def)
  qed
qed


text \<open>A set of tables each of which refers to another of the set cannot be written.\<close>

lemma to_doc_cyclic:
  assumes "\<forall>a\<in>S. \<exists>b\<in>S. LTable b \<in> children e a" and "a \<in> S"
  shows "\<exists>x. to_doc_table e a d = Inl x"
proof (rule ccontr)
  have gen: "a \<in> S \<Longrightarrow> to_doc_table e a d \<noteq> Inr j" for a j
  proof (induction "nat (65 - d)" arbitrary: a d j rule: less_induct)
    case less
    show ?case
    proof
      assume j: "to_doc_table e a d = Inr j"
      obtain b where b: "b \<in> S" "LTable b \<in> children e a" using assms(1) less.prems by blast
      then obtain j' where "d < 64" "to_doc e (LTable b) (d + 1) = Inr j'"
        using to_doc_table_children [OF j] by blast
      then show False
        using less.hyps [of "d + 1" b j'] b(1) by (simp add: to_doc.simps)
    qed
  qed
  assume "\<nexists>x. to_doc_table e a d = Inl x"
  with gen assms(2) show False by (cases "to_doc_table e a d") auto
qed

text \<open>\<open>nested e n a\<close>: from table \<open>a\<close> on, \<open>n\<close> tables lie one in the other, \<open>a\<close> counted.\<close>

fun nested :: "json_env \<Rightarrow> nat \<Rightarrow> nat \<Rightarrow> bool" where
  "nested e 0 a \<longleftrightarrow> True"
| "nested e (Suc 0) a \<longleftrightarrow> True"
| "nested e (Suc (Suc n)) a \<longleftrightarrow> (\<exists>b. LTable b \<in> children e a \<and> nested e (Suc n) b)"

lemma nested_Suc: "0 < n \<Longrightarrow> nested e (Suc n) a \<longleftrightarrow> (\<exists>b. LTable b \<in> children e a \<and> nested e n b)"
  by (cases n) auto

lemma written_within_depth:
  "to_doc_table e a d = Inr j \<Longrightarrow> nested e n a \<Longrightarrow> 0 < n \<Longrightarrow> d + int n \<le> 64"
proof (induction e n a arbitrary: d j rule: nested.induct)
  case (2 e a)
  then show ?case by (auto simp: to_doc_table.simps split: if_splits)
next
  case (3 e n a)
  then obtain b where b: "LTable b \<in> children e a" "nested e (Suc n) b" by auto
  obtain j' where "to_doc e (LTable b) (d + 1) = Inr j'" using to_doc_table_children [OF 3(2) b(1)] by blast
  then have "to_doc_table e b (d + 1) = Inr j'" by (simp add: to_doc.simps)
  from 3(1) [OF this b(2)] show ?case by simp
qed simp

text \<open>The guard's error comes from a table below, unless the guard itself raises it here.\<close>

definition too_deep :: string where
  "too_deep = ''json encode: too depth''"

lemma to_doc_too_deep:
  "to_doc e v d = Inl too_deep \<Longrightarrow> \<exists>b. v = LTable b \<and> to_doc_table e b d = Inl too_deep"
  by (cases v) (auto simp: to_doc.simps too_deep_def split: if_splits)

lemma to_doc_elems_too_deep:
  "to_doc_elems e vs d = Inl too_deep \<Longrightarrow> \<exists>v\<in>set vs. to_doc e v d = Inl too_deep"
  by (induction vs) (auto simp: to_doc_elems.simps(2) ebind_Inl_iff split: if_splits)

lemma to_doc_members_too_deep:
  "to_doc_members e es d = Inl too_deep \<Longrightarrow> \<exists>x\<in>set es. written_entry x \<and> to_doc e (snd x) d = Inl too_deep"
proof (induction es)
  case (Cons y es)
  obtain k v where y: "y = (k, v)" by (cases y)
  from Cons y show ?case
    by (cases k) (auto simp: to_doc_members.simps(2) ebind_Inl_iff written_entry_def too_deep_def split: if_splits)
qed simp

lemma array_value_written:
  assumes "LTable b \<in> set (array_values t n)"
  shows "LTable b \<in> snd ` set (filter written_entry (entries t))"
proof -
  obtain i where "rawgeti t i = LTable b" using assms by (auto simp: array_values_def)
  then have "(LInteger (word_of_nat i), LTable b) \<in> set (entries t)"
    by (auto simp: rawgeti_def rawget_def int_key_def split: option.splits dest: map_of_SomeD)
  then show ?thesis by (force simp: written_entry_def)
qed

lemma to_doc_table_too_deep:
  assumes "to_doc_table e a d = Inl too_deep"
  shows "64 \<le> d \<or> (\<exists>b. LTable b \<in> children e a \<and> to_doc_table e b (d + 1) = Inl too_deep)"
proof (cases "64 \<le> d")
  case False
  obtain arr n where sz: "lua_array_size (jheap e a) = (arr, n)" by (cases "lua_array_size (jheap e a)")
  have obj: "\<exists>b. LTable b \<in> snd ` set (filter written_entry (entries (jheap e a))) \<and> to_doc_table e b (d + 1) = Inl too_deep"
    if "to_doc_object e a (d + 1) = Inl too_deep"
  proof -
    have "to_doc_members e (entries (jheap e a)) (d + 1) = Inl too_deep"
      using that by (auto simp: to_doc_object.simps ebind_Inl_iff)
    from to_doc_members_too_deep [OF this] obtain x where
      x: "x \<in> set (entries (jheap e a))" "written_entry x" "to_doc e (snd x) (d + 1) = Inl too_deep" by blast
    with to_doc_too_deep [OF x(3)] show ?thesis by force
  qed
  show ?thesis
  proof (cases arr)
    case True
    consider "to_doc_elems e (array_values (jheap e a) n) (d + 1) = Inl too_deep"
      | "to_doc_elems e (array_values (jheap e a) n) (d + 1) = Inr None" "to_doc_object e a (d + 1) = Inl too_deep"
      using assms sz True False by (auto simp: to_doc_table.simps ebind_Inl_iff split: option.splits)
    then show ?thesis
    proof cases
      case 1
      from to_doc_elems_too_deep [OF this] to_doc_too_deep obtain b where
        b: "LTable b \<in> set (array_values (jheap e a) n)" "to_doc_table e b (d + 1) = Inl too_deep" by metis
      then have "LTable b \<in> children e a"
        using array_value_written [OF b(1)] sz True by (auto simp: children_def Let_def)
      with b(2) show ?thesis by blast
    next
      case 2
      then show ?thesis using obj [OF 2(2)] to_doc_elems_holes [OF 2(1)] sz True
        by (auto simp: children_def Let_def)
    qed
  next
    case arr: False
    then show ?thesis using assms sz obj False by (auto simp: to_doc_table.simps children_def Let_def)
  qed
qed simp

lemma too_deep_nested:
  "to_doc_table e a d = Inl too_deep \<Longrightarrow> d \<le> 64 \<Longrightarrow> nested e (nat (65 - d)) a"
proof (induction "nat (64 - d)" arbitrary: a d)
  case 0
  then have "d = 64" by simp
  then show ?case by simp
next
  case (Suc k)
  then obtain b where b: "LTable b \<in> children e a" "to_doc_table e b (d + 1) = Inl too_deep"
    using to_doc_table_too_deep by fastforce
  then have "nested e (nat (65 - (d + 1))) b" using Suc(1) [of "d + 1" b] Suc(2) by simp
  moreover have "nat (65 - d) = Suc (nat (65 - (d + 1)))" "0 < nat (65 - (d + 1))" using Suc by simp_all
  ultimately show ?case using b(1) by (auto simp: nested_Suc)
qed

section \<open>Properties\<close>

text \<open>
  C1. The JSON writer is the layout of the denoted document: whatever the buffer already holds,
  \<open>encode_one\<close> keeps it, appends exactly the text of the value's document, and fails with the
  document's error. In particular a speculative array that meets a hole is truncated without
  residue and rewritten as an object.
\<close>

theorem encode_writes_document:
  "encode_one e w v d = emap (\<lambda>j. w @ print_doc (jshow e) (jfmt e) d j) (to_doc e v d)"
  by (rule encode_refines_mutual)

text \<open>
  C5. Round trip: when \<open>json.encode\<close> succeeds on a value whose document is clean (keys that need
  no escape, only string or integer keys, no opaque pointer, floats with a number text), the
  output, compact or formatted, is a JSON text, and a parser reads the document back from it.
\<close>

theorem json_encode_roundtrip:
  assumes "json_encode o' sf h args = Inr out"
    and "\<forall>fmt j. to_doc \<lparr>jopts = o', jheap = h, jfmt = fmt, jshow = sf\<rparr> (lua_at args 1) 0 = Inr j \<longrightarrow>
           clean sf j"
  shows "\<exists>fmt j. to_doc \<lparr>jopts = o', jheap = h, jfmt = fmt, jshow = sf\<rparr> (lua_at args 1) 0 = Inr j \<and>
           json_parse out = Some (parsed sf j)"
proof -
  let ?fmt = "case opt_bool (lua_at args 2) of Some b \<Rightarrow> b | None \<Rightarrow> False"
  let ?e = "\<lparr>jopts = o', jheap = h, jfmt = ?fmt, jshow = sf\<rparr>"
  have "encode_one ?e [] (lua_at args 1) 0 = Inr out"
    using assms(1) by (simp add: json_encode_def Let_def split: if_splits)
  then obtain j where j: "to_doc ?e (lua_at args 1) 0 = Inr j" "out = print_doc sf ?fmt 0 j"
    by (cases "to_doc ?e (lua_at args 1) 0") (auto simp: encode_refines_mutual(1))
  with assms(2) have "json_parse out = Some (parsed sf j)"
    using json_parse_layout by blast
  with j show ?thesis by blast
qed

definition demo_heap :: lua_heap where
  "demo_heap a = \<lparr>entries = (if a = 0 then [(LString ''a'', LTable 1), (LInteger 7, LNil)] else
     [(int_key 1, LBoolean True), (int_key 2, LString ''x'')]),
     border = (if a = 0 then 0 else 2), metas = []\<rparr>"

lemma array_values_2: "array_values t 2 = [rawgeti t 1, rawgeti t 2]"
  by (simp add: array_values_def numeral_2_eq_2)

lemma demo_doc:
  "to_doc \<lparr>jopts = json_opts_module, jheap = demo_heap, jfmt = fmt, jshow = sf\<rparr> (LTable 0) 0 =
     Inr (JObj [JMember ''a'' (JArr [JBool True, JText ''x'']), JMember ''7'' JNull])"
  by (simp add: to_doc.simps to_doc_table.simps to_doc_elems.simps to_doc_object.simps
      to_doc_members.simps lua_array_size_def demo_heap_def metafield_def key_integer_def
      all_index_keys_def int_key_def array_values_2 rawgeti_def rawget_def json_opts_module_def
      show_int_def show_nat.simps)

theorem json_encode_roundtrip_witness:
  "\<exists>out j. json_encode json_opts_module (\<lambda>_. ''0'') demo_heap [LTable 0, LBoolean True] = Inr out \<and>
     json_parse out = Some (parsed (\<lambda>_. ''0'') j) \<and>
     j = JObj [JMember ''a'' (JArr [JBool True, JText ''x'']), JMember ''7'' JNull]"
proof -
  have arg1: "lua_at [LTable 0, LBoolean True] 1 = LTable 0" by (simp add: lua_at_def)
  obtain out where out: "json_encode json_opts_module (\<lambda>_. ''0'') demo_heap
      [LTable 0, LBoolean True] = Inr out"
    by (simp add: json_encode_def arg1 encode_refines_mutual(1) demo_doc Let_def)
  have cl: "clean (\<lambda>_. ''0'') (JObj [JMember ''a'' (JArr [JBool True, JText ''x'']), JMember ''7'' JNull])"
    by (simp add: plain_text_def char2escape_nth)
  show ?thesis
    using json_encode_roundtrip [OF out] cl out by (auto simp: arg1 demo_doc)
qed

text \<open>
  Strings: any byte string, written as a JSON string, is read back unchanged, and the text
  contains no control byte.
\<close>

theorem json_string_escape:
  "json_parse (write_json_string [] s) = Some (PStr s) \<and>
   (\<forall>c \<in> set (write_json_string [] s). 32 \<le> (of_char c :: nat))"
proof -
  have "json_parse (print_doc (\<lambda>_. []) False 0 (JText s)) = Some (PStr s)"
    by (subst json_parse_layout) simp_all
  then show ?thesis
    by (auto simp: write_json_string_eq text_of_def dquote_def dest!: esc_char_no_control)
qed

theorem json_string_escape_witness:
  "json_parse (write_json_string [] [CHR 0x0A, CHR 0x22]) = Some (PStr [CHR 0x0A, CHR 0x22])"
  using json_string_escape [of "[CHR 0x0A, CHR 0x22]"] by (rule conjunct1)

text \<open>
  C30. The depth guard of the writer. A value in which 65 tables lie one in the other (over the values
  the writer visits: array elements, or the members with string and integer keys) is refused; the guard's
  error is raised for no other value, so 64 tables are not too many; and a
  cyclic value (a set of tables each of which contains another one of the set) is refused at
  whatever depth it is met, so the writer never diverges on it.
\<close>

theorem json_depth_guard:
  "(nested e 65 a \<longrightarrow> (\<exists>x. encode_one e w (LTable a) 0 = Inl x)) \<and>
   (encode_one e w (LTable a) 0 = Inl ''json encode: too depth'' \<longrightarrow> nested e 65 a) \<and>
   ((\<forall>a\<in>S. \<exists>b\<in>S. LTable b \<in> children e a) \<and> a \<in> S \<longrightarrow> (\<exists>x. encode_one e w (LTable a) d = Inl x))"
proof (intro conjI impI)
  assume n: "nested e 65 a"
  have "to_doc_table e a 0 \<noteq> Inr j" for j using written_within_depth [of e a 0 j 65] n by auto
  then show "\<exists>x. encode_one e w (LTable a) 0 = Inl x"
    by (cases "to_doc_table e a 0") (auto simp: encode_refines_mutual(1) to_doc.simps)
next
  assume "encode_one e w (LTable a) 0 = Inl ''json encode: too depth''"
  then have "to_doc_table e a 0 = Inl too_deep"
    by (cases "to_doc_table e a 0") (auto simp: encode_refines_mutual(1) to_doc.simps too_deep_def)
  from too_deep_nested [OF this] show "nested e 65 a" by simp
next
  assume "(\<forall>a\<in>S. \<exists>b\<in>S. LTable b \<in> children e a) \<and> a \<in> S"
  then obtain x where "to_doc_table e a d = Inl x" using to_doc_cyclic by blast
  then show "\<exists>x. encode_one e w (LTable a) d = Inl x"
    by (simp add: encode_refines_mutual(1) to_doc.simps)
qed

text \<open>Tables one in the other: the last one, with the number \<open>n\<close>, holds a number.\<close>

definition chain_env :: "nat \<Rightarrow> json_env" where
  "chain_env n = \<lparr>jopts = json_opts_module,
     jheap = (\<lambda>a. \<lparr>entries = [(LString ''k'', if a < n then LTable (a + 1) else LInteger 1)], border = 0, metas = []\<rparr>),
     jfmt = False, jshow = (\<lambda>_. ''0'')\<rparr>"

lemma chain_children: "children (chain_env n) a = {if a < n then LTable (a + 1) else LInteger 1}"
  by (simp add: children_def chain_env_def lua_array_size_def metafield_def key_integer_def written_entry_def)

lemma chain_nested: "0 < k \<Longrightarrow> nested (chain_env n) k a \<longleftrightarrow> k = 1 \<or> a + k \<le> n + 1"
proof (induction k arbitrary: a rule: less_induct)
  case (less k)
  show ?case
  proof (cases "k = 1")
    case False
    then obtain m where m: "k = Suc m" "0 < m" using less.prems by (cases k) auto
    have "nested (chain_env n) k a \<longleftrightarrow> a < n \<and> nested (chain_env n) m (a + 1)"
      using m by (auto simp: nested_Suc chain_children split: if_splits)
    also have "\<dots> \<longleftrightarrow> a < n \<and> (m = 1 \<or> a + 1 + m \<le> n + 1)" using less.IH [of m "a + 1"] m by simp
    finally show ?thesis using m by auto
  qed simp
qed

lemma chain_step:
  "to_doc_table (chain_env n) a d =
     (if d + 1 > 64 then Inl ''json encode: too depth''
      else ebind (if a < n then to_doc_table (chain_env n) (a + 1) (d + 1) else Inr (JInt 1))
        (\<lambda>j. Inr (JObj [JMember ''k'' j])))"
proof -
  have f: "entries (jheap (chain_env n) a) = [(LString ''k'', if a < n then LTable (a + 1) else LInteger 1)]"
    "lua_array_size (jheap (chain_env n) a) = (False, 0)"
    by (simp_all add: chain_env_def lua_array_size_def metafield_def key_integer_def)
  have "to_doc_object (chain_env n) a d' =
      ebind (if a < n then to_doc_table (chain_env n) (a + 1) d' else Inr (JInt 1)) (\<lambda>j. Inr (JObj [JMember ''k'' j]))" for d'
    by (cases "to_doc_table (chain_env n) (Suc a) d'")
      (simp_all add: to_doc_object.simps f to_doc_members.simps to_doc.simps)
  then show ?thesis by (subst to_doc_table.simps) (simp add: f(2))
qed

lemma chain_error: "to_doc_table (chain_env n) a d = Inl x \<Longrightarrow> x = ''json encode: too depth''"
proof (induction "nat (65 - d)" arbitrary: a d rule: less_induct)
  case less
  show ?case using less.prems less.hyps [of "d + 1" "a + 1"]
    by (subst (asm) chain_step) (auto simp: ebind_Inl_iff split: if_splits)
qed

definition loop_env :: json_env where
  "loop_env = \<lparr>jopts = json_opts_module,
     jheap = (\<lambda>a. \<lparr>entries = [(LString ''self'', LTable a)], border = 0, metas = []\<rparr>),
     jfmt = False, jshow = (\<lambda>_. ''0'')\<rparr>"

theorem json_depth_guard_witness:
  "(\<exists>out. encode_one (chain_env 63) [] (LTable 0) 0 = Inr out) \<and>
   encode_one (chain_env 64) [] (LTable 0) 0 = Inl ''json encode: too depth'' \<and>
   (\<exists>x. encode_one loop_env [] (LTable 5) 0 = Inl x)"
proof (intro conjI)
  have err: "x = ''json encode: too depth''" if "encode_one (chain_env n) [] (LTable 0) 0 = Inl x" for n x
    using that chain_error [of n 0 0 x]
    by (cases "to_doc_table (chain_env n) 0 0") (auto simp: encode_refines_mutual(1) to_doc.simps)
  show "\<exists>out. encode_one (chain_env 63) [] (LTable 0) 0 = Inr out"
    using json_depth_guard [of "chain_env 63" 0 "[]" "{}" 0] err [of 63] chain_nested [of 65 63 0]
    by (cases "encode_one (chain_env 63) [] (LTable 0) 0") auto
  show "encode_one (chain_env 64) [] (LTable 0) 0 = Inl ''json encode: too depth''"
    using json_depth_guard [of "chain_env 64" 0 "[]" "{}" 0] err [of 64] chain_nested [of 65 64 0] by auto
  have "LTable 5 \<in> children loop_env 5"
    by (simp add: children_def loop_env_def lua_array_size_def metafield_def key_integer_def
        written_entry_def)
  then show "\<exists>x. encode_one loop_env [] (LTable 5) 0 = Inl x"
    using json_depth_guard [of loop_env 5 "[]" "{5}" 0] by auto
qed

text \<open>
  C36. Keys are written raw: a string key with a quote in it changes the structure of the text, so
  a table with one entry is read back as an object with two members.
\<close>

theorem json_key_injection:
  assumes "plain_text k1" and "plain_text k2" and "metas (jheap e a) = []"
    and "entries (jheap e a) =
      [(LString (k1 @ [dquote] @ '':1,'' @ [dquote] @ k2), LInteger 2)]" and "\<not> jfmt e"
  shows "\<exists>out. encode_one e [] (LTable a) 0 = Inr out \<and>
     json_parse out = Some (PObj [(k1, PNum ''1''), (k2, PNum ''2'')])"
proof -
  let ?k = "k1 @ [dquote] @ '':1,'' @ [dquote] @ k2"
  have num: "show_int (sint (2 :: i64)) = ''2''" "show_int 1 = ''1''" "show_int 2 = ''2''"
    by (simp_all add: show_int_def show_nat.simps)
  have "to_doc e (LTable a) 0 = Inr (JObj [JMember ?k (JInt 2)])"
    using assms by (simp add: to_doc.simps to_doc_table.simps to_doc_object.simps
        to_doc_members.simps lua_array_size_def metafield_def key_integer_def)
  then have "encode_one e [] (LTable a) 0 = Inr (print_doc (jshow e) False 0 (JObj [JMember ?k (JInt 2)]))"
    using assms(5) by (simp add: encode_refines_mutual(1))
  moreover have "print_doc (jshow e) False 0 (JObj [JMember ?k (JInt 2)]) =
      print_doc (jshow e) False 0 (JObj [JMember k1 (JInt 1), JMember k2 (JInt 2)])"
    by (simp add: num newline_def spaces_def)
  moreover have "json_parse (print_doc (jshow e) False 0 (JObj [JMember k1 (JInt 1), JMember k2 (JInt 2)])) =
      Some (PObj [(k1, PNum ''1''), (k2, PNum ''2'')])"
    using assms by (subst json_parse_layout) (simp_all add: num)
  ultimately show ?thesis by (auto simp: num newline_def spaces_def)
qed

theorem json_key_injection_witness:
  "\<exists>e out. encode_one e [] (LTable 0) 0 = Inr out \<and>
     json_parse out = Some (PObj [(''a'', PNum ''1''), (''admin'', PNum ''2'')])"
proof -
  let ?e = "\<lparr>jopts = json_opts_module,
     jheap = (\<lambda>_. \<lparr>entries = [(LString (''a'' @ [dquote] @ '':1,'' @ [dquote] @ ''admin''), LInteger 2)],
       border = 0, metas = []\<rparr>), jfmt = False, jshow = (\<lambda>_. ''0'')\<rparr>"
  have "\<exists>out. encode_one ?e [] (LTable 0) 0 = Inr out \<and>
     json_parse out = Some (PObj [(''a'', PNum ''1''), (''admin'', PNum ''2'')])"
    by (rule json_key_injection) (simp_all add: plain_text_def char2escape_nth)
  then show ?thesis by blast
qed

text \<open>
  Values the writer passes over in silence make the text malformed: an entry whose key is
  neither a string nor an integer still counts for the separator, so the object starts with a
  comma; a non-null light userdata is written as nothing at all; a float whose text is \<open>NaN\<close>
  is written raw. No such text is JSON.
\<close>

theorem json_silent_values_malformed:
  "(\<forall>b v k n a. entries (jheap e a) = [(LBoolean b, v), (LString k, LInteger n)] \<and>
      metas (jheap e a) = [] \<and> \<not> jfmt e \<longrightarrow>
      encode_one e [] (LTable a) 0 =
        Inr (''{,'' @ [dquote] @ k @ [dquote] @ '':'' @ show_int (sint n) @ ''}'') \<and>
      json_parse (''{,'' @ [dquote] @ k @ [dquote] @ '':'' @ show_int (sint n) @ ''}'') = None) \<and>
   (\<forall>p. p \<noteq> 0 \<longrightarrow> encode_one e [] (LLightUserData p) 0 = Inr []) \<and> json_parse [] = None \<and>
   (\<forall>x. jshow e x = ''NaN'' \<longrightarrow> encode_one e [] (LNumber x) 0 = Inr ''NaN'') \<and>
   json_parse ''NaN'' = None"
proof -
  have obj: "json_parse (CHR ''{'' # CHR '','' # s) = None" for s
    by (simp add: json_parse_def dquote_def)
  have none: "json_parse [] = None" by (simp add: json_parse_def)
  have nan: "json_parse ''NaN'' = None"
    by (simp add: json_parse_def eval_nat_numeral skip_ws_def is_ws_def dquote_def num_char_def
        is_ascii_digit_def is_json_number_def)
  show ?thesis
    using obj nan none
    by (auto simp: encode_refines_mutual(1) to_doc.simps to_doc_table.simps to_doc_object.simps
        to_doc_members.simps lua_array_size_def metafield_def key_integer_def newline_def spaces_def)
qed

theorem json_silent_values_malformed_witness:
  "encode_one loop_env [] (LLightUserData 8) 0 = Inr [] \<and> json_parse [] = None"
  using json_silent_values_malformed [of loop_env] by simp

end
