(* ===== verification/Resp.thy ===== *)
theory Resp
  imports JsonText
begin

text \<open>
  The two functions of \<open>lua_json.rs\<close> that build outgoing buffers: \<open>json.concat\<close>, and
  \<open>json.concat_resp\<close>, which writes a Redis command in the RESP protocol. Both write through the
  \<open>Buffer\<close> of \<open>CoreBuffer\<close>.
\<close>

section \<open>Hashing\<close>

definition hash_combine_u64 :: "u64 \<Rightarrow> u64 \<Rightarrow> u64" where
  "hash_combine_u64 h k0 =
     (let m = 0xc6a4a7935bd1e995; k1 = k0 * m; k2 = k1 XOR drop_bit 47 k1; k3 = k2 * m
      in (h XOR k3) * m + 0xe6546b64)"

fun hash_bytes :: "u64 \<Rightarrow> u64 \<Rightarrow> bytes \<Rightarrow> u64" where
  "hash_bytes seed basis [] = seed"
| "hash_bytes seed basis (b # bs) =
     (let basis' = (basis XOR of_char b) * 1099511628211
      in hash_bytes (hash_combine_u64 seed basis') basis' bs)"

definition hash_string :: "bytes \<Rightarrow> u64" where
  "hash_string s = hash_bytes 0 14695981039346656037 s"

text \<open>\<open>i64::abs\<close> in the release profile wraps on the least value.\<close>

definition i64_abs :: "i64 \<Rightarrow> i64" where
  "i64_abs x = (if sint x < 0 then - x else x)"

section \<open>json.concat\<close>

text \<open>
  \<open>encode_table\<close> works on the Vec inside the buffer; by \<open>encode_writes_document\<close> what it appends
  does not depend on what the Vec holds, so the encoded text is appended to the Vec.
\<close>

definition encode_into :: "json_env \<Rightarrow> buffer \<Rightarrow> nat \<Rightarrow> string + buffer" where
  "encode_into e b a =
     ebind (encode_table e [] a 0) (\<lambda>out. Inr (b\<lparr>data := vec_extend (data b) out\<rparr>))"

text \<open>
  The loop over the elements; the error message of an unsupported element takes
  \<open>lua_typename(-1)\<close>, which is the name of no value, whatever the element is.
\<close>

fun concat_elems :: "json_env \<Rightarrow> buffer \<Rightarrow> lua_value list \<Rightarrow> (string + buffer) outcome" where
  "concat_elems e b [] = Done (Inr b)"
| "concat_elems e b (v # vs) =
     (case v of
        LString s \<Rightarrow> obind (buf_write_slice b s) (\<lambda>b'. concat_elems e b' vs)
      | LNumber x \<Rightarrow> obind (buf_write_chars (jshow e) b x) (\<lambda>b'. concat_elems e b' vs)
      | LInteger n \<Rightarrow> obind (buf_write_chars (\<lambda>n. show_int (sint n)) b n) (\<lambda>b'. concat_elems e b' vs)
      | LBoolean t \<Rightarrow> obind (buf_write_slice b (if t then ''true'' else ''false''))
          (\<lambda>b'. concat_elems e b' vs)
      | LTable a \<Rightarrow>
          (case encode_into e b a of Inl x \<Rightarrow> Done (Inl x) | Inr b' \<Rightarrow> concat_elems e b' vs)
      | _ \<Rightarrow> Done (Inl (''json.concat: unsupport value type :'' @ ''no value'')))"

definition json_concat :: "json_env \<Rightarrow> lua_value \<Rightarrow> (string + buffer) outcome" where
  "json_concat e arg =
     (case arg of
        LString s \<Rightarrow> obind (buf_write_slice (buf_with_capacity (length s)) s) (\<lambda>b. Done (Inr b))
      | LTable a \<Rightarrow> concat_elems (e\<lparr>jfmt := False\<rparr>) buf_new
          (array_values (jheap e a) (snd (lua_array_size (jheap e a))))
      | _ \<Rightarrow> Done (Inl ''table expected''))"

section \<open>json.concat_resp\<close>

definition write_resp :: "buffer \<Rightarrow> bytes \<Rightarrow> buffer outcome" where
  "write_resp b cmd =
     obind (buf_write_slice b ([CHR 0x0D, CHR 0x0A] @ ''$'')) (\<lambda>b1.
     obind (buf_write_chars show_nat b1 (length cmd)) (\<lambda>b2.
     obind (buf_write_slice b2 [CHR 0x0D, CHR 0x0A]) (\<lambda>b3. buf_write_str b3 cmd)))"

text \<open>
  The recursion into a table with a \<open>__redis\<close> metafield has no depth guard; the fuel is the
  depth of the native stack, and running out of it is the stack overflow.
\<close>

fun concat_resp_one :: "nat \<Rightarrow> json_env \<Rightarrow> buffer \<Rightarrow> lua_value \<Rightarrow> (string + buffer) outcome"
  and concat_resp_all :: "nat \<Rightarrow> json_env \<Rightarrow> buffer \<Rightarrow> lua_value list \<Rightarrow> (string + buffer) outcome"
where
  "concat_resp_one 0 e b v = UB ''stack overflow''"
| "concat_resp_one (Suc n) e b v =
     (case v of
        LNil \<Rightarrow> obind (buf_write_slice b ([CHR 0x0D, CHR 0x0A] @ ''$-1'')) (\<lambda>b'. Done (Inr b'))
      | LNumber x \<Rightarrow> obind (write_resp b (jshow e x)) (\<lambda>b'. Done (Inr b'))
      | LInteger i \<Rightarrow> obind (write_resp b (show_int (sint i))) (\<lambda>b'. Done (Inr b'))
      | LBoolean t \<Rightarrow> obind (write_resp b (if t then ''true'' else ''false'')) (\<lambda>b'. Done (Inr b'))
      | LString s \<Rightarrow> obind (write_resp b s) (\<lambda>b'. Done (Inr b'))
      | LTable a \<Rightarrow>
          if metafield (jheap e a) ''__redis'' \<noteq> LNil
          then concat_resp_all n e b (array_values (jheap e a) (snd (lua_array_size (jheap e a))))
          else (case encode_table (e\<lparr>jfmt := False\<rparr>) [] a 0 of
                  Inl x \<Rightarrow> Done (Inl x)
                | Inr w \<Rightarrow> obind (write_resp b w) (\<lambda>b'. Done (Inr b')))
      | _ \<Rightarrow> Done (Inl (''concat_resp_one: unsupport value type :'' @ lua_value_name v)))"
| "concat_resp_all n e b [] = Done (Inr b)"
| "concat_resp_all n e b (v # vs) =
     obind (concat_resp_one n e b v) (\<lambda>r.
       case r of Inl x \<Rightarrow> Done (Inl x) | Inr b' \<Rightarrow> concat_resp_all n e b' vs)"

text \<open>The shard hash handed back with the buffer.\<close>

definition resp_hash :: "lua_stack \<Rightarrow> u64" where
  "resp_hash args =
     (let n = length args in
      if lua_type (lua_at args 2) = TTable then 1
      else case opt_bytes (lua_at args 1) of
        None \<Rightarrow> 1
      | Some key \<Rightarrow>
          if key = [] then 1
          else (let part = (if 2 < n \<and> (hd key = CHR ''h'' \<or> hd key = CHR ''H'')
                            then opt_bytes (lua_at args 3)
                            else if 1 < n then opt_bytes (lua_at args 2) else None)
                in case part of Some s \<Rightarrow> hash_string s | None \<Rightarrow> 1))"

definition concat_resp :: "nat \<Rightarrow> json_env \<Rightarrow> lua_stack \<Rightarrow> (string + (buffer \<times> i64) option) outcome" where
  "concat_resp fuel e args =
     (if args = [] then Done (Inr None)
      else obind (buf_write buf_new (CHR ''*'')) (\<lambda>b1.
        obind (buf_write_chars show_nat b1 (length args)) (\<lambda>b2.
        obind (concat_resp_all fuel e b2 args) (\<lambda>r.
          case r of
            Inl x \<Rightarrow> Done (Inl x)
          | Inr b3 \<Rightarrow> obind (buf_write_slice b3 [CHR 0x0D, CHR 0x0A]) (\<lambda>b4.
              Done (Inr (Some (b4, i64_abs (resp_hash args)))))))))"


section \<open>The bulk strings a command denotes\<close>

text \<open>A bulk string is nil or a byte string; \<open>resp_flat\<close> lists those an argument stands for.\<close>

fun resp_flat :: "nat \<Rightarrow> json_env \<Rightarrow> lua_value \<Rightarrow> (string + bytes option list) outcome"
  and resp_flat_all :: "nat \<Rightarrow> json_env \<Rightarrow> lua_value list \<Rightarrow> (string + bytes option list) outcome"
where
  "resp_flat 0 e v = UB ''stack overflow''"
| "resp_flat (Suc n) e v =
     (case v of
        LNil \<Rightarrow> Done (Inr [None])
      | LNumber x \<Rightarrow> Done (Inr [Some (jshow e x)])
      | LInteger i \<Rightarrow> Done (Inr [Some (show_int (sint i))])
      | LBoolean t \<Rightarrow> Done (Inr [Some (if t then ''true'' else ''false'')])
      | LString s \<Rightarrow> Done (Inr [Some s])
      | LTable a \<Rightarrow>
          if metafield (jheap e a) ''__redis'' \<noteq> LNil
          then resp_flat_all n e (array_values (jheap e a) (snd (lua_array_size (jheap e a))))
          else Done (emap (\<lambda>w. [Some w]) (encode_table (e\<lparr>jfmt := False\<rparr>) [] a 0))
      | _ \<Rightarrow> Done (Inl (''concat_resp_one: unsupport value type :'' @ lua_value_name v)))"
| "resp_flat_all n e [] = Done (Inr [])"
| "resp_flat_all n e (v # vs) =
     obind (resp_flat n e v) (\<lambda>r.
       case r of Inl x \<Rightarrow> Done (Inl x)
       | Inr is \<Rightarrow> obind (resp_flat_all n e vs) (\<lambda>r'. Done (emap (\<lambda>js. is @ js) r')))"

definition crlf :: bytes where "crlf = [CHR 0x0D, CHR 0x0A]"

fun bulk :: "bytes option \<Rightarrow> bytes" where
  "bulk None = crlf @ ''$-1''"
| "bulk (Some s) = crlf @ ''$'' @ show_nat (length s) @ crlf @ s"

definition bulks :: "bytes option list \<Rightarrow> bytes" where
  "bulks xs = concat (map bulk xs)"

text \<open>A fresh write buffer: well-formed and never read from.\<close>

definition ready :: "buffer \<Rightarrow> bool" where
  "ready b \<longleftrightarrow> buf_ok b \<and> rpos b = 0"

definition appended :: "buffer \<Rightarrow> bytes \<Rightarrow> buffer \<Rightarrow> bool" where
  "appended b out b' \<longleftrightarrow> ready b' \<and> buf_contents b' = buf_contents b @ map Some out"

lemma appended_trans: "appended b x b1 \<Longrightarrow> appended b1 y b2 \<Longrightarrow> appended b (x @ y) b2"
  by (simp add: appended_def)

lemma ready_vlen: "ready b \<Longrightarrow> vlen (data b) = length (buf_contents b)"
  using buf_contents_length [of b] by (simp add: ready_def buf_len_def)

lemma write_slice_ready:
  assumes "ready b" "length (buf_contents b) + length xs \<le> isize_max"
  shows "\<exists>b'. buf_write_slice b xs = Done b' \<and> appended b xs b'"
proof -
  have ok: "buf_ok b" using assms(1) by (simp add: ready_def)
  obtain b' where b': "buf_write_slice b xs = Done b'"
    using buf_write_slice_total [OF ok, of xs] assms ready_vlen by auto
  have "rpos b' = 0"
    using b' assms(1) by (auto simp: buf_write_slice_def buf_prepare_def Let_def ready_def
        split: if_splits)
  with b' show ?thesis
    using buf_write_slice_Done [OF ok _ b'] assms(2) by (auto simp: appended_def ready_def)
qed

lemma write_resp_ready:
  assumes "ready b" "length (buf_contents b) + length (bulk (Some s)) \<le> isize_max"
  shows "\<exists>b'. write_resp b s = Done b' \<and> appended b (bulk (Some s)) b'"
proof -
  have len: "length (bulk (Some s)) = 3 + length (show_nat (length s)) + 2 + length s"
    by (simp add: crlf_def)
  obtain b1 where b1: "buf_write_slice b (crlf @ ''$'') = Done b1" "appended b (crlf @ ''$'') b1"
    using write_slice_ready [OF assms(1), of "crlf @ ''$''"] assms(2) len by (auto simp: crlf_def)
  then obtain b2 where b2: "buf_write_slice b1 (show_nat (length s)) = Done b2"
      "appended b1 (show_nat (length s)) b2"
    using write_slice_ready [of b1 "show_nat (length s)"] assms(2) len
    by (auto simp: appended_def crlf_def)
  then obtain b3 where b3: "buf_write_slice b2 crlf = Done b3" "appended b2 crlf b3"
    using write_slice_ready [of b2 crlf] assms(2) len b1 by (auto simp: appended_def crlf_def)
  then obtain b4 where b4: "buf_write_slice b3 s = Done b4" "appended b3 s b4"
    using write_slice_ready [of b3 s] assms(2) len b1 b2 by (auto simp: appended_def crlf_def)
  have "appended b (bulk (Some s)) b4"
    using b1 b2 b3 b4 by (simp add: appended_def)
  with b1 b2 b3 b4 show ?thesis
    by (simp add: write_resp_def buf_write_chars_def buf_write_str_def crlf_def)
qed

text \<open>With room for the result, the writer appends the bulk strings of its argument.\<close>

lemma concat_resp_flat:
  "resp_flat n e v = Done (Inr is) \<Longrightarrow> ready b \<Longrightarrow>
     length (buf_contents b) + length (bulks is) \<le> isize_max \<Longrightarrow>
     \<exists>b'. concat_resp_one n e b v = Done (Inr b') \<and> appended b (bulks is) b'"
  "resp_flat_all n e vs = Done (Inr is) \<Longrightarrow> ready b \<Longrightarrow>
     length (buf_contents b) + length (bulks is) \<le> isize_max \<Longrightarrow>
     \<exists>b'. concat_resp_all n e b vs = Done (Inr b') \<and> appended b (bulks is) b'"
proof (induction n e v and n e vs arbitrary: b "is" and b "is" rule: resp_flat_resp_flat_all.induct)
  case (2 n e v)
  show ?case
  proof (cases v)
    case LNil
    with 2 show ?thesis
      using write_slice_ready [of b "crlf @ ''$-1''"] by (auto simp: bulks_def crlf_def)
  next
    case (LBoolean t)
    with 2 show ?thesis
      using write_resp_ready [of b "if t then ''true'' else ''false''"]
      by (auto simp: bulks_def simp del: bulk.simps)
  next
    case (LNumber x)
    with 2 show ?thesis
      using write_resp_ready [of b "jshow e x"] by (auto simp: bulks_def simp del: bulk.simps)
  next
    case (LInteger i)
    with 2 show ?thesis
      using write_resp_ready [of b "show_int (sint i)"] by (auto simp: bulks_def simp del: bulk.simps)
  next
    case (LString s)
    with 2 show ?thesis
      using write_resp_ready [of b s] by (auto simp: bulks_def simp del: bulk.simps)
  next
    case (LTable a)
    show ?thesis
    proof (cases "metafield (jheap e a) ''__redis'' \<noteq> LNil")
      case True
      with 2 LTable show ?thesis by simp
    next
      case False
      then obtain w where w: "encode_table (e\<lparr>jfmt := False\<rparr>) [] a 0 = Inr w" "is = [Some w]"
        using 2 LTable by (cases "encode_table (e\<lparr>jfmt := False\<rparr>) [] a 0") auto
      then show ?thesis
        using 2 LTable False write_resp_ready [of b w] by (auto simp: bulks_def simp del: bulk.simps)
    qed
  qed (use 2 in auto)
next
  case (4 n e v vs)
  obtain r where r: "resp_flat n e v = Done r"
    using 4(3) by (cases "resp_flat n e v") auto
  with 4(3) obtain xs where "r = Inr xs" by (cases r) auto
  with r have xs: "resp_flat n e v = Done (Inr xs)" by simp
  then obtain ys where ys: "resp_flat_all n e vs = Done (Inr ys)" and eq: "is = xs @ ys"
    using 4(3) by (cases "resp_flat_all n e vs") (auto elim!: emap.elims)
  obtain b1 where b1: "concat_resp_one n e b v = Done (Inr b1)" "appended b (bulks xs) b1"
    using 4(1) [OF xs 4(4)] 4(5) eq by (auto simp: bulks_def)
  have "\<exists>b2. concat_resp_all n e b1 vs = Done (Inr b2) \<and> appended b1 (bulks ys) b2"
    using 4(2) [OF xs refl ys, of b1] 4(5) eq b1(2) by (auto simp: bulks_def appended_def)
  with b1 eq show ?case by (auto simp: bulks_def dest: appended_trans)
qed (auto simp: bulks_def appended_def)


section \<open>A reader of the protocol\<close>

text \<open>
  A reference parser of a RESP array of bulk strings. Every header ends with a line break, and so
  does every bulk string, so a text is a header followed by \<open>CRLF bulk\<close> blocks and a last \<open>CRLF\<close>.
\<close>

fun read_bulks :: "nat \<Rightarrow> bytes \<Rightarrow> bytes option list option" where
  "read_bulks 0 s = (if s = crlf then Some [] else None)"
| "read_bulks (Suc k) s =
     (if take 3 s \<noteq> crlf @ ''$'' then None
      else let t = drop 3 s in
        if take 2 t = ''-1'' then map_option ((#) None) (read_bulks k (drop 2 t))
        else let ds = takeWhile is_ascii_digit t; t' = dropWhile is_ascii_digit t; n = digits_val ds in
          if ds = [] \<or> take 2 t' \<noteq> crlf \<or> length t' < 2 + n then None
          else map_option ((#) (Some (take n (drop 2 t')))) (read_bulks k (drop (2 + n) t')))"

definition read_command :: "bytes \<Rightarrow> bytes option list option" where
  "read_command s =
     (if s = [] \<or> hd s \<noteq> CHR ''*'' then None
      else let ds = takeWhile is_ascii_digit (tl s) in
        if ds = [] then None
        else read_bulks (digits_val ds) (dropWhile is_ascii_digit (tl s)))"

declare read_bulks.simps [simp del]

lemma digits_prefix:
  assumes "list_all is_ascii_digit ds" "rest = [] \<or> \<not> is_ascii_digit (hd rest)"
  shows "takeWhile is_ascii_digit (ds @ rest) = ds \<and> dropWhile is_ascii_digit (ds @ rest) = rest"
  using assms by (induction ds) (cases rest; auto)+

lemma read_bulk_one:
  "read_bulks (Suc k) (bulk x @ rest) = map_option ((#) x) (read_bulks k rest)"
proof (cases x)
  case None
  then show ?thesis by (simp add: read_bulks.simps crlf_def)
next
  case (Some s)
  let ?ds = "show_nat (length s)"
  have pre: "takeWhile is_ascii_digit (?ds @ crlf @ s @ rest) = ?ds \<and>
      dropWhile is_ascii_digit (?ds @ crlf @ s @ rest) = crlf @ s @ rest"
    by (rule digits_prefix) (simp_all add: show_nat_digits crlf_def is_ascii_digit_def)
  have "take 2 (?ds @ crlf @ s @ rest) \<noteq> ''-1''"
    using show_nat_ne [of "length s"] digit_not_sign [OF show_nat_hd_digit [of "length s"]]
    by (cases ?ds) (auto simp: numeral_2_eq_2)
  then show ?thesis
    using pre by (simp add: read_bulks.simps Some crlf_def show_nat_ne digits_val_show_nat)
qed

lemma read_bulks_exact:
  "read_bulks k (bulks xs @ crlf) = (if k = length xs then Some xs else None)"
proof (induction xs arbitrary: k)
  case Nil
  then show ?case by (cases k) (simp_all add: bulks_def read_bulks.simps crlf_def)
next
  case (Cons x xs)
  show ?case
  proof (cases k)
    case 0
    then show ?thesis by (cases x) (simp_all add: bulks_def read_bulks.simps crlf_def)
  next
    case (Suc m)
    then show ?thesis using read_bulk_one [of m x "bulks xs @ crlf"] Cons.IH [of m]
      by (simp add: bulks_def)
  qed
qed

text \<open>The text of a command whose header announces \<open>n\<close> and which carries \<open>xs\<close>.\<close>

definition command_text :: "nat \<Rightarrow> bytes option list \<Rightarrow> bytes" where
  "command_text n xs = ''*'' @ show_nat n @ bulks xs @ crlf"

lemma read_command_text:
  "read_command (command_text n xs) = (if n = length xs then Some xs else None)"
proof -
  have "bulks xs @ crlf = [] \<or> \<not> is_ascii_digit (hd (bulks xs @ crlf))"
    by (cases xs; cases "hd xs") (auto simp: bulks_def crlf_def is_ascii_digit_def)
  then have "takeWhile is_ascii_digit (show_nat n @ bulks xs @ crlf) = show_nat n \<and>
      dropWhile is_ascii_digit (show_nat n @ bulks xs @ crlf) = bulks xs @ crlf"
    by (intro digits_prefix) (simp_all add: show_nat_digits)
  then show ?thesis
    by (simp add: read_command_def command_text_def show_nat_ne digits_val_show_nat read_bulks_exact)
qed

lemma buf_new_ready: "ready buf_new \<and> buf_contents buf_new = []"
  by (simp add: ready_def buf_new_def buf_ok_def vec_ok_def vec_with_capacity_def
      default_reserve_def isize_max_def buf_contents_def)

lemma concat_resp_writes:
  assumes fl: "resp_flat_all fuel e args = Done (Inr xs)" and ne: "args \<noteq> []"
    and room: "length (command_text (length args) xs) \<le> isize_max"
  shows "\<exists>b. concat_resp fuel e args = Done (Inr (Some (b, i64_abs (resp_hash args)))) \<and>
     buf_ok b \<and> buf_contents b = map Some (command_text (length args) xs)"
proof -
  have len: "length (command_text (length args) xs) =
      1 + length (show_nat (length args)) + length (bulks xs) + 2"
    by (simp add: command_text_def crlf_def)
  have "capacity (vec_push (data buf_new) (CHR ''*'')) \<le> isize_max"
    by (simp add: buf_new_def vec_push_def vec_extend_def vec_reserve_def vec_with_capacity_def
        default_reserve_def isize_max_def Let_def)
  then obtain b1 where w1: "buf_write buf_new (CHR ''*'') = Done b1"
    and b1: "b1 = buf_new\<lparr>data := vec_push (data buf_new) (CHR ''*'')\<rparr>"
    by (simp add: buf_write_def Let_def)
  have a1: "ready b1" "buf_contents b1 = [Some (CHR ''*'')]"
    using buf_write_Done [OF _ w1] buf_new_ready b1 by (auto simp: ready_def buf_new_def)
  obtain b2 where b2: "buf_write_slice b1 (show_nat (length args)) = Done b2"
      "appended b1 (show_nat (length args)) b2"
    using write_slice_ready [OF a1(1), of "show_nat (length args)"] a1 room len by auto
  obtain b3 where b3: "concat_resp_all fuel e b2 args = Done (Inr b3)" "appended b2 (bulks xs) b3"
    using concat_resp_flat(2) [OF fl, of b2] b2(2) a1 room len by (auto simp: appended_def)
  obtain b4 where b4: "buf_write_slice b3 crlf = Done b4" "appended b3 crlf b4"
    using write_slice_ready [of b3 crlf] b2(2) b3(2) a1 room len by (auto simp: appended_def crlf_def)
  have "buf_contents b4 = map Some (command_text (length args) xs)" "buf_ok b4"
    using a1 b2(2) b3(2) b4(2) by (auto simp: appended_def command_text_def ready_def)
  with w1 b2(1) b3(1) b4(1) ne show ?thesis
    by (simp add: concat_resp_def buf_write_chars_def crlf_def)
qed

section \<open>Properties\<close>

text \<open>The bulk string of an argument that is not a \<open>__redis\<close> table.\<close>

definition resp_item :: "json_env \<Rightarrow> lua_value \<Rightarrow> string + bytes option" where
  "resp_item e v =
     (case v of
        LNil \<Rightarrow> Inr None
      | LNumber x \<Rightarrow> Inr (Some (jshow e x))
      | LInteger i \<Rightarrow> Inr (Some (show_int (sint i)))
      | LBoolean t \<Rightarrow> Inr (Some (if t then ''true'' else ''false''))
      | LString s \<Rightarrow> Inr (Some s)
      | LTable a \<Rightarrow> emap Some (encode_table (e\<lparr>jfmt := False\<rparr>) [] a 0)
      | _ \<Rightarrow> Inl (''concat_resp_one: unsupport value type :'' @ lua_value_name v))"

definition redis_table :: "json_env \<Rightarrow> lua_value \<Rightarrow> bool" where
  "redis_table e v \<longleftrightarrow> (case v of LTable a \<Rightarrow> metafield (jheap e a) ''__redis'' \<noteq> LNil | _ \<Rightarrow> False)"

lemma resp_flat_item:
  "\<not> redis_table e v \<Longrightarrow> resp_item e v = Inr x \<Longrightarrow> resp_flat (Suc n) e v = Done (Inr [x])"
  by (cases v) (auto simp: resp_item_def redis_table_def elim!: emap.elims)

lemma resp_flat_items:
  "list_all (\<lambda>v. \<not> redis_table e v) vs \<Longrightarrow> emapM (resp_item e) vs = Inr xs \<Longrightarrow>
     resp_flat_all (Suc n) e vs = Done (Inr xs)"
  by (induction vs arbitrary: xs) (auto simp: ebind_Inr_iff resp_flat_item simp del: resp_flat.simps)

lemma resp_flat_all_append:
  "resp_flat_all n e xs = Done (Inr p) \<Longrightarrow> resp_flat_all n e ys = Done (Inr q) \<Longrightarrow>
     resp_flat_all n e (xs @ ys) = Done (Inr (p @ q))"
proof (induction xs arbitrary: p)
  case (Cons x xs)
  obtain r where r: "resp_flat n e x = Done r" using Cons.prems by (cases "resp_flat n e x") auto
  with Cons.prems obtain ps where ps: "r = Inr ps" by (cases r) auto
  with r Cons.prems obtain qs where "resp_flat_all n e xs = Done (Inr qs)" "p = ps @ qs"
    by (cases "resp_flat_all n e xs") (auto elim!: emap.elims)
  with Cons r ps show ?case by simp
qed simp

text \<open>
  C12. RESP round trip: for arguments that are not \<open>__redis\<close> tables, \<open>concat_resp\<close> returns a
  well-formed buffer whose text a RESP reader reads as the array of the arguments, each one a
  bulk string with its exact length (binary data and line breaks included).
\<close>

theorem resp_roundtrip:
  assumes "args \<noteq> []" and "list_all (\<lambda>v. \<not> redis_table e v) args"
    and "emapM (resp_item e) args = Inr xs"
    and "length (command_text (length args) xs) \<le> isize_max"
  shows "\<exists>b out. concat_resp (Suc n) e args = Done (Inr (Some (b, i64_abs (resp_hash args)))) \<and>
     buf_ok b \<and> buf_contents b = map Some out \<and> read_command out = Some xs"
proof -
  have "length xs = length args" using emapM_Inr_length [OF assms(3)] .
  then show ?thesis
    using concat_resp_writes [OF resp_flat_items [OF assms(2,3), of n] assms(1,4)]
    by (auto simp: read_command_text)
qed

theorem resp_roundtrip_witness:
  "\<exists>b out h. concat_resp 1 loop_env [LString ''set'', LString crlf, LNil] = Done (Inr (Some (b, h))) \<and>
     buf_contents b = map Some out \<and> read_command out = Some [Some ''set'', Some crlf, None]"
proof -
  have "\<exists>b out. concat_resp (Suc 0) loop_env [LString ''set'', LString crlf, LNil] = Done (Inr (Some
      (b, i64_abs (resp_hash [LString ''set'', LString crlf, LNil])))) \<and> buf_ok b \<and>
      buf_contents b = map Some out \<and> read_command out = Some [Some ''set'', Some crlf, None]"
    by (rule resp_roundtrip) (simp_all add: redis_table_def resp_item_def command_text_def bulks_def
        crlf_def show_nat.simps isize_max_def)
  then show ?thesis by auto
qed

text \<open>
  A \<open>__redis\<close> table is spliced into the command, but the header still announces the number of
  Lua arguments: unless the table has exactly one element, the text is no RESP command.
\<close>

theorem resp_redis_table_count:
  assumes "list_all (\<lambda>v. \<not> redis_table e v) (pre @ vs @ post)"
    and "metafield (jheap e a) ''__redis'' \<noteq> LNil"
    and "vs = array_values (jheap e a) (snd (lua_array_size (jheap e a)))" and "length vs \<noteq> 1"
    and "emapM (resp_item e) pre = Inr xs" "emapM (resp_item e) vs = Inr ys"
      "emapM (resp_item e) post = Inr zs"
    and "length (command_text (length (pre @ [LTable a] @ post)) (xs @ ys @ zs)) \<le> isize_max"
  shows "\<exists>b h out. concat_resp (Suc (Suc n)) e (pre @ [LTable a] @ post) = Done (Inr (Some (b, h))) \<and>
     buf_contents b = map Some out \<and> read_command out = None"
proof -
  have fa: "resp_flat_all (Suc (Suc n)) e pre = Done (Inr xs)"
    "resp_flat_all (Suc n) e vs = Done (Inr ys)" "resp_flat_all (Suc (Suc n)) e post = Done (Inr zs)"
    using assms(1,5-7) by (auto intro!: resp_flat_items)
  have "resp_flat_all (Suc (Suc n)) e [LTable a] = Done (Inr ys)"
    using fa(2) assms(2,3) by simp
  then have "resp_flat_all (Suc (Suc n)) e (pre @ [LTable a] @ post) = Done (Inr (xs @ ys @ zs))"
    using fa by (intro resp_flat_all_append)
  moreover have "length (pre @ [LTable a] @ post) \<noteq> length (xs @ ys @ zs)"
    using assms(4) emapM_Inr_length [OF assms(5)] emapM_Inr_length [OF assms(6)]
      emapM_Inr_length [OF assms(7)] by simp
  ultimately show ?thesis
    using concat_resp_writes [of "Suc (Suc n)" e "pre @ [LTable a] @ post" "xs @ ys @ zs"] assms(8)
    by (auto simp: read_command_text simp del: resp_flat_all.simps)
qed

definition redis_env :: json_env where
  "redis_env = loop_env\<lparr>jheap := (\<lambda>_. \<lparr>entries = [(int_key 1, LString ''k1''), (int_key 2, LString ''k2'')],
     border = 2, metas = [(''__redis'', LBoolean True)]\<rparr>)\<rparr>"

theorem resp_redis_table_count_witness:
  "\<exists>b h out. concat_resp 2 redis_env [LString ''del'', LTable 0] = Done (Inr (Some (b, h))) \<and>
     buf_contents b = map Some out \<and> read_command out = None"
proof -
  have vs: "array_values (jheap redis_env 0) (snd (lua_array_size (jheap redis_env 0))) =
      [LString ''k1'', LString ''k2'']"
    by (simp add: redis_env_def loop_env_def lua_array_size_def metafield_def key_integer_def
        all_index_keys_def int_key_def array_values_2 rawgeti_def rawget_def)
  have "\<exists>b h out. concat_resp (Suc (Suc 0)) redis_env ([LString ''del''] @ [LTable 0] @ []) =
      Done (Inr (Some (b, h))) \<and> buf_contents b = map Some out \<and> read_command out = None"
    by (rule resp_redis_table_count [OF _ _ vs [symmetric], where xs = "[Some ''del'']" and zs = "[]"
          and ys = "[Some ''k1'', Some ''k2'']"])
      (simp_all add: redis_table_def resp_item_def command_text_def bulks_def crlf_def
        show_nat.simps isize_max_def metafield_def redis_env_def)
  then show ?thesis by (simp add: numeral_2_eq_2)
qed

text \<open>
  Unlike the JSON writer, the RESP writer has no depth guard: on a set of \<open>__redis\<close> arrays
  whose first element is again one of them, no stack is deep enough.
\<close>

theorem resp_cyclic_overflows:
  assumes "\<forall>a\<in>S. metafield (jheap e a) ''__redis'' \<noteq> LNil \<and> (\<exists>a'\<in>S. \<exists>vs.
      array_values (jheap e a) (snd (lua_array_size (jheap e a))) = LTable a' # vs)"
    and "a \<in> S"
  shows "concat_resp_one n e b (LTable a) = UB ''stack overflow''"
  using assms(2)
proof (induction n arbitrary: a)
  case (Suc n)
  then obtain a' vs where "a' \<in> S" "metafield (jheap e a) ''__redis'' \<noteq> LNil"
    "array_values (jheap e a) (snd (lua_array_size (jheap e a))) = LTable a' # vs"
    using assms(1) by blast
  with Suc.IH show ?case by simp
qed simp

theorem resp_cyclic_overflows_witness:
  "concat_resp_one 1000 (loop_env\<lparr>jheap := (\<lambda>_. \<lparr>entries = [(int_key 1, LTable 0)], border = 1,
     metas = [(''__redis'', LBoolean True)]\<rparr>)\<rparr>) buf_new (LTable 0) = UB ''stack overflow''"
  by (rule resp_cyclic_overflows [of "{0}"])
    (simp_all add: metafield_def lua_array_size_def key_integer_def all_index_keys_def int_key_def
      array_values_def rawgeti_def rawget_def)

end
