(* ===== verification/JsonDecode.thy ===== *)
theory JsonDecode
  imports JsonEncode "HOL-Library.AList"
begin

text \<open>
  \<open>json.decode\<close> of \<open>lua_json.rs\<close>. Parsing is the crate \<open>serde_json\<close>, a parameter; what is modelled
  is \<open>decode_one\<close>, which rebuilds a parsed \<open>Value\<close> as Lua tables, and the choice of the source of
  the text. A new table is laid out by the Lua library: \<open>lay items\<close> is the table reached by
  storing \<open>items\<close> in order, with \<open>layout_ok\<close> stating what Lua documents of it.
\<close>

section \<open>serde_json::Value\<close>

datatype jnumber = PosInt u64 | NegInt i64 | FloatNum f64

datatype json_value =
    VNull | VBool bool | VNumber jnumber | VString bytes
  | VArray "json_value list" | VObject "(bytes \<times> json_value) list"

text \<open>\<open>Number::is_f64\<close>, \<open>as_f64\<close>, \<open>as_i64\<close>: an unsigned number beyond \<open>i64::MAX\<close> has no \<open>i64\<close>.\<close>

fun is_f64 :: "jnumber \<Rightarrow> bool" where
  "is_f64 (FloatNum _) = True"
| "is_f64 _ = False"

fun as_i64 :: "jnumber \<Rightarrow> i64 option" where
  "as_i64 (PosInt n) = (if unat n < 2 ^ 63 then Some n else None)"
| "as_i64 (NegInt n) = Some n"
| "as_i64 (FloatNum _) = None"

fun as_f64 :: "jnumber \<Rightarrow> f64 option" where
  "as_f64 (FloatNum x) = Some x"
| "as_f64 _ = None"

section \<open>Building Lua values\<close>

type_synonym layout = "(lua_value \<times> lua_value) list \<Rightarrow> lua_tbl"
type_synonym alloc = "lua_heap \<times> nat"

text \<open>The key an object member is stored under.\<close>

definition decode_key :: "json_opts \<Rightarrow> bytes \<Rightarrow> lua_value" where
  "decode_key o' k =
     (if (is_ascii_digit (hd k) \<or> hd k = CHR ''-'') \<and> enable_number_key o'
      then (case parse_i64 k of Some n \<Rightarrow> LInteger (word_of_int n) | None \<Rightarrow> LString k)
      else LString k)"

fun decode_one :: "layout \<Rightarrow> json_opts \<Rightarrow> json_value \<Rightarrow> alloc \<Rightarrow> lua_value \<times> alloc"
  and decode_elems :: "layout \<Rightarrow> json_opts \<Rightarrow> nat \<Rightarrow> json_value list \<Rightarrow> alloc \<Rightarrow>
    (lua_value \<times> lua_value) list \<times> alloc"
  and decode_members :: "layout \<Rightarrow> json_opts \<Rightarrow> (bytes \<times> json_value) list \<Rightarrow> alloc \<Rightarrow>
    (lua_value \<times> lua_value) list \<times> alloc"
where
  "decode_one lay o' (VObject ms) st =
     (case decode_members lay o' ms (fst st, snd st + 1) of (items, (h, n)) \<Rightarrow>
        (LTable (snd st), (h(snd st := lay items), n)))"
| "decode_one lay o' (VArray vs) st =
     (case decode_elems lay o' 0 vs (fst st, snd st + 1) of (items, (h, n)) \<Rightarrow>
        (LTable (snd st), (h(snd st := lay items), n)))"
| "decode_one lay o' (VBool b) st = (LBoolean b, st)"
| "decode_one lay o' (VNumber n) st =
     (if is_f64 n then LNumber (case as_f64 n of Some x \<Rightarrow> x | None \<Rightarrow> 0)
      else LInteger (case as_i64 n of Some i \<Rightarrow> i | None \<Rightarrow> 0), st)"
| "decode_one lay o' VNull st = (LLightUserData 0, st)"
| "decode_one lay o' (VString s) st = (LString s, st)"
| "decode_elems lay o' i [] st = ([], st)"
| "decode_elems lay o' i (v # vs) st =
     (case decode_one lay o' v st of (lv, st1) \<Rightarrow>
      case decode_elems lay o' (i + 1) vs st1 of (items, st2) \<Rightarrow> ((int_key (i + 1), lv) # items, st2))"
| "decode_members lay o' [] st = ([], st)"
| "decode_members lay o' ((k, v) # ms) st =
     (if k = [] then decode_members lay o' ms st
      else case decode_one lay o' v st of (lv, st1) \<Rightarrow>
        case decode_members lay o' ms st1 of (items, st2) \<Rightarrow> ((decode_key o' k, lv) # items, st2))"

text \<open>
  \<open>decode\<close>: a text starting with \<open>@\<close> names a file. Errors are returned as nil and a message. The
  crates and the file system are fields of \<open>json_io\<close>.
\<close>

record json_io =
  from_utf8 :: "bytes \<Rightarrow> string + string"
  read_file :: "string \<Rightarrow> string + bytes"
  from_slice :: "bytes \<Rightarrow> string + json_value"

definition json_decode ::
  "json_io \<Rightarrow> layout \<Rightarrow> json_opts \<Rightarrow> bytes \<Rightarrow> alloc \<Rightarrow> lua_value list \<times> alloc" where
  "json_decode io lay o' str st =
     (let result =
        (if str \<noteq> [] \<and> hd str = CHR ''@''
         then ebind (from_utf8 io (tl str)) (\<lambda>path. ebind (read_file io path) (from_slice io))
         else from_slice io str)
      in case result of
           Inr v \<Rightarrow> (case decode_one lay o' v st of (lv, st') \<Rightarrow> ([lv], st'))
         | Inl msg \<Rightarrow> ([LNil, LString msg], st))"

section \<open>The layout of new tables\<close>

definition present :: "lua_value \<Rightarrow> bool" where
  "present v \<longleftrightarrow> v \<noteq> LNil \<and> v \<noteq> LNone"

text \<open>A key Lua stores as it is: not nil, and not a float, which is normalised when it is integral.\<close>

definition plain_key :: "lua_value \<Rightarrow> bool" where
  "plain_key k \<longleftrightarrow> present k \<and> (\<forall>x. k \<noteq> LNumber x)"

definition layout_ok :: "layout \<Rightarrow> bool" where
  "layout_ok lay \<longleftrightarrow>
     (\<forall>items. list_all (\<lambda>x. plain_key (fst x) \<and> present (snd x)) items \<and> length items < 2 ^ 62 \<longrightarrow>
        table_ok (lay items) \<and> metas (lay items) = [] \<and>
        (\<forall>k. map_of (entries (lay items)) k = map_of (rev items) k))"

lemma int_key_inj: "i < 2 ^ 63 \<Longrightarrow> j < 2 ^ 63 \<Longrightarrow> int_key i = int_key j \<Longrightarrow> i = j"
proof -
  assume a: "i < 2 ^ 63" "j < 2 ^ 63" "int_key i = int_key j"
  then have "(word_of_nat i :: i64) = word_of_nat j"
    by (simp only: int_key_def lua_value.inject)
  then have "int i = int j" using a sint_word_of_nat by metis
  then show "i = j" by simp
qed

lemma rawgeti_border_irrelevant: "rawgeti (t\<lparr>border := b\<rparr>) = rawgeti t"
  by (rule ext) (simp add: rawgeti_def rawget_def)

text \<open>The least border of a table with at most \<open>n\<close> keys.\<close>

definition least_border :: "lua_tbl \<Rightarrow> nat \<Rightarrow> nat" where
  "least_border t n = length (takeWhile (\<lambda>i. rawgeti t (Suc i) \<noteq> LNil) [0..<n])"

lemma least_border_is_border:
  assumes keys: "card (fst ` set (entries t)) \<le> n" and n: "n < 2 ^ 62"
  shows "is_border t (least_border t n)"
proof -
  let ?b = "least_border t n"
  have b: "?b \<le> n" using length_takeWhile_le [of _ "[0..<n]"] by (simp add: least_border_def)
  have below: "rawgeti t (Suc i) \<noteq> LNil" if "i < ?b" for i
  proof -
    have i: "i < length (takeWhile (\<lambda>i. rawgeti t (Suc i) \<noteq> LNil) [0..<n])"
      using that by (simp add: least_border_def)
    then have "takeWhile (\<lambda>i. rawgeti t (Suc i) \<noteq> LNil) [0..<n] ! i = i"
      using that b takeWhile_nth [OF i] by simp
    then show ?thesis using set_takeWhileD [OF nth_mem [OF i]] by metis
  qed
  have at: "rawgeti t (Suc ?b) = LNil"
  proof (cases "?b < n")
    case True
    then show ?thesis
      using nth_length_takeWhile [of "\<lambda>i. rawgeti t (Suc i) \<noteq> LNil" "[0..<n]"] by (simp add: least_border_def)
  next
    case False
    show ?thesis
    proof (rule ccontr)
      assume nn: "rawgeti t (Suc ?b) \<noteq> LNil"
      have bn: "?b = n" using False b by simp
      have stored: "int_key (Suc m) \<in> fst ` set (entries t)" if "m \<le> n" for m
        using below [of m] nn that unfolding bn
        by (cases "m = n") (simp_all add: rawgeti_not_nil)
      have "int_key ` {1..Suc n} \<subseteq> fst ` set (entries t)"
      proof (rule image_subsetI)
        fix i
        assume "i \<in> {1..Suc n}"
        then show "int_key i \<in> fst ` set (entries t)" using stored [of "i - 1"] by (cases i) simp_all
      qed
      then have "card (int_key ` {1..Suc n}) \<le> card (fst ` set (entries t))" by (intro card_mono) simp_all
      moreover have "inj_on int_key {1..Suc n}"
        using n by (intro inj_onI) (auto intro: int_key_inj)
      then have "card (int_key ` {1..Suc n}) = Suc n" by (simp add: card_image)
      ultimately show False using keys by simp
    qed
  qed
  have "?b = 0 \<or> rawgeti t ?b \<noteq> LNil" using below [of "?b - 1"] by (cases ?b) auto
  then show ?thesis unfolding is_border_def using at b n by simp
qed

text \<open>A layout that satisfies the contract: entries in order of their last store, least border.\<close>

definition simple_layout :: layout where
  "simple_layout items =
     (let t = \<lparr>entries = AList.clearjunk (rev items), border = 0, metas = []\<rparr> in
      t\<lparr>border := least_border t (length items)\<rparr>)"

lemma simple_layout_ok: "layout_ok simple_layout"
  unfolding layout_ok_def
proof (intro allI impI)
  fix items :: "(lua_value \<times> lua_value) list"
  assume a: "list_all (\<lambda>x. plain_key (fst x) \<and> present (snd x)) items \<and> length items < 2 ^ 62"
  let ?es = "AList.clearjunk (rev items)"
  let ?t = "\<lparr>entries = ?es, border = 0, metas = []\<rparr>"
  let ?b = "least_border ?t (length items)"
  have es: "set ?es \<subseteq> set items"
  proof
    fix x
    assume "x \<in> set ?es"
    then have "map_of ?es (fst x) = Some (snd x)" by (intro map_of_is_SomeI) simp_all
    then show "x \<in> set items" by (auto simp: map_of_clearjunk dest: map_of_SomeD)
  qed
  have "card (fst ` set ?es) \<le> card (fst ` set items)"
    using es by (intro card_mono image_mono) auto
  also have "\<dots> \<le> length items"
    using card_length [of "map fst items"] by simp
  finally have "is_border ?t ?b" using a by (intro least_border_is_border) simp_all
  then have "is_border (?t\<lparr>border := ?b\<rparr>) ?b"
    unfolding is_border_def rawgeti_border_irrelevant .
  moreover have "list_all (\<lambda>x. plain_key (fst x) \<and> present (snd x)) ?es"
    using a es by (auto simp: list_all_iff)
  ultimately have "table_ok (?t\<lparr>border := ?b\<rparr>)"
    unfolding table_ok_def by (simp add: present_def plain_key_def list_all_iff)
  then show "table_ok (simple_layout items) \<and> metas (simple_layout items) = [] \<and>
      (\<forall>k. map_of (entries (simple_layout items)) k = map_of (rev items) k)"
    by (simp add: simple_layout_def Let_def map_of_clearjunk)
qed

section \<open>What a decoded value denotes\<close>

text \<open>
  \<open>denotes o' h lv v\<close>: in the heap \<open>h\<close>, the Lua value \<open>lv\<close> is the image of \<open>v\<close>. An array is a table
  with exactly the indices of its elements. In an object, members with an empty key are dropped
  and a later member wins over an earlier one that is stored under the same Lua key.
\<close>

definition member_keys :: "json_opts \<Rightarrow> (bytes \<times> json_value) list \<Rightarrow> lua_value set" where
  "member_keys o' ms = {decode_key o' k | k. k \<in> fst ` set ms \<and> k \<noteq> []}"

fun denotes :: "json_opts \<Rightarrow> lua_heap \<Rightarrow> lua_value \<Rightarrow> json_value \<Rightarrow> bool"
  and denotes_elems :: "json_opts \<Rightarrow> lua_heap \<Rightarrow> lua_tbl \<Rightarrow> nat \<Rightarrow> json_value list \<Rightarrow> bool"
  and denotes_members :: "json_opts \<Rightarrow> lua_heap \<Rightarrow> lua_tbl \<Rightarrow> (bytes \<times> json_value) list \<Rightarrow> bool"
where
  "denotes o' h lv VNull = (lv = LLightUserData 0)"
| "denotes o' h lv (VBool b) = (lv = LBoolean b)"
| "denotes o' h lv (VString s) = (lv = LString s)"
| "denotes o' h lv (VNumber n) =
     (lv = (case n of FloatNum x \<Rightarrow> LNumber x | NegInt i \<Rightarrow> LInteger i
            | PosInt i \<Rightarrow> LInteger (if unat i < 2 ^ 63 then i else 0)))"
| "denotes o' h lv (VArray vs) =
     (case lv of LTable a \<Rightarrow>
        table_ok (h a) \<and> denotes_elems o' h (h a) 1 vs \<and>
        fst ` set (entries (h a)) = int_key ` {1..length vs}
      | _ \<Rightarrow> False)"
| "denotes o' h lv (VObject ms) =
     (case lv of LTable a \<Rightarrow>
        table_ok (h a) \<and> denotes_members o' h (h a) ms \<and>
        fst ` set (entries (h a)) = member_keys o' ms
      | _ \<Rightarrow> False)"
| "denotes_elems o' h t i [] = True"
| "denotes_elems o' h t i (v # vs) =
     (denotes o' h (rawgeti t i) v \<and> denotes_elems o' h t (i + 1) vs)"
| "denotes_members o' h t [] = True"
| "denotes_members o' h t ((k, v) # ms) =
     ((k \<noteq> [] \<and> decode_key o' k \<notin> member_keys o' ms \<longrightarrow> denotes o' h (rawget t (decode_key o' k)) v) \<and>
      denotes_members o' h t ms)"

text \<open>Collections small enough for 64-bit indices.\<close>

fun small :: "json_value \<Rightarrow> bool" where
  "small (VArray vs) = (length vs < 2 ^ 62 \<and> list_all small vs)"
| "small (VObject ms) = (length ms < 2 ^ 62 \<and> list_all (\<lambda>m. small (snd m)) ms)"
| "small _ = True"

text \<open>
  The addresses below \<open>n\<close> are in use; \<open>frame n h h'\<close> says they are left alone, and what is built
  between \<open>n\<close> and \<open>n'\<close> keeps its meaning in every heap that agrees there.
\<close>

definition frame :: "nat \<Rightarrow> lua_heap \<Rightarrow> lua_heap \<Rightarrow> bool" where
  "frame n h h' \<longleftrightarrow> (\<forall>a<n. h' a = h a)"

definition same_between :: "nat \<Rightarrow> nat \<Rightarrow> lua_heap \<Rightarrow> lua_heap \<Rightarrow> bool" where
  "same_between n n' h h' \<longleftrightarrow> (\<forall>a. n \<le> a \<and> a < n' \<longrightarrow> h' a = h a)"

lemma plain_decode_key: "plain_key (decode_key o' k)"
  by (simp add: decode_key_def plain_key_def present_def split: option.splits)

lemma plain_int_key: "plain_key (int_key i)"
  by (simp add: int_key_def plain_key_def present_def)

lemma layout_get:
  assumes "layout_ok lay" "list_all (\<lambda>x. plain_key (fst x) \<and> present (snd x)) items" "length items < 2 ^ 62"
  shows "table_ok (lay items)" "map_of (entries (lay items)) = map_of (rev items)"
    "fst ` set (entries (lay items)) = fst ` set items"
proof -
  show ok: "table_ok (lay items)" "map_of (entries (lay items)) = map_of (rev items)"
    using assms unfolding layout_ok_def by auto
  have "dom (map_of (entries (lay items))) = dom (map_of (rev items))" using ok(2) by simp
  then show "fst ` set (entries (lay items)) = fst ` set items"
    by (simp add: dom_map_of_conv_image_fst)
qed

text \<open>The items of an array decode to an association with distinct indices.\<close>

definition good_items :: "(lua_value \<times> lua_value) list \<Rightarrow> bool" where
  "good_items items \<longleftrightarrow> list_all (\<lambda>x. plain_key (fst x) \<and> present (snd x)) items"

lemma rawget_map_of: "map_of (entries t) k = Some v \<Longrightarrow> rawget t k = v"
  by (simp add: rawget_def)

lemma map_of_rev_last: "k \<notin> fst ` set ys \<Longrightarrow> map_of (rev ((k, v) # ys)) k = Some v"
proof -
  assume "k \<notin> fst ` set ys"
  then have "map_of (rev ys) k = None" by (simp add: map_of_eq_None_iff)
  then show ?thesis by (simp add: map_add_def)
qed

lemma map_of_rev_cons: "k' \<in> fst ` set ys \<or> k' \<noteq> k \<Longrightarrow> map_of (rev ((k, v) # ys)) k' = map_of (rev ys) k'"
proof -
  assume a: "k' \<in> fst ` set ys \<or> k' \<noteq> k"
  show ?thesis
  proof (cases "k' = k")
    case True
    then have "map_of (rev ys) k' \<noteq> None" using a by (simp add: map_of_eq_None_iff)
    then show ?thesis by (auto simp: map_add_def)
  next
    case False
    then show ?thesis by (simp add: map_add_def split: option.splits)
  qed
qed

lemma decode_elems_keys:
  "map fst (fst (decode_elems lay o' i vs st)) = map int_key [Suc i..<Suc i + length vs]"
proof (induction vs arbitrary: i st)
  case (Cons v vs)
  have "[Suc i..<Suc i + length (v # vs)] = Suc i # [Suc (Suc i)..<Suc (Suc i) + length vs]"
    by (simp add: upt_conv_Cons del: upt_Suc)
  with Cons.IH [of "Suc i"] show ?case by (auto simp del: upt_Suc split: prod.splits) (metis fst_conv)
qed simp

lemma decode_elems_length: "length (fst (decode_elems lay o' i vs st)) = length vs"
  using decode_elems_keys [of lay o' i vs st] by (metis length_map length_upt diff_add_inverse)

lemma decode_members_keys:
  "fst ` set (fst (decode_members lay o' ms st)) = member_keys o' ms"
  "length (fst (decode_members lay o' ms st)) \<le> length ms"
proof (induction ms arbitrary: st)
  case (Cons m ms)
  obtain k v where m: "m = (k, v)" by (cases m)
  {
    case 1
    show ?case
    proof (cases "k = []")
      case True
      with Cons.IH(1) m show ?thesis by (auto simp: member_keys_def)
    next
      case False
      obtain lv st1 where s1: "decode_one lay o' v st = (lv, st1)" by (cases "decode_one lay o' v st")
      obtain items st2 where s2: "decode_members lay o' ms st1 = (items, st2)"
        by (cases "decode_members lay o' ms st1")
      have "fst ` set items = member_keys o' ms" using Cons.IH(1) [of st1] s2 by simp
      moreover have "member_keys o' (m # ms) = insert (decode_key o' k) (member_keys o' ms)"
        using False m by (auto simp: member_keys_def)
      ultimately show ?thesis using False m s1 s2 by simp
    qed
  next
    case 2
    show ?case
      using Cons.IH(2) m by (auto simp: le_SucI split: prod.splits) (metis fst_conv)
  }
qed (auto simp: member_keys_def)


lemma same_between_mono:
  "same_between n n' h h' \<Longrightarrow> n \<le> m \<Longrightarrow> m' \<le> n' \<Longrightarrow> same_between m m' h h'"
  by (auto simp: same_between_def)

lemma same_between_frame:
  "frame m h h' \<Longrightarrow> same_between n n' h' h'' \<Longrightarrow> m \<le> n' \<Longrightarrow> same_between n m h h''"
  by (auto simp: same_between_def frame_def)

lemma frame_trans: "frame n h h' \<Longrightarrow> frame m h' h'' \<Longrightarrow> n \<le> m \<Longrightarrow> frame n h h''"
  by (auto simp: frame_def)

text \<open>What a call built: new addresses, the old heap, a value that keeps its meaning.\<close>

definition built :: "json_opts \<Rightarrow> alloc \<Rightarrow> alloc \<Rightarrow> lua_value \<Rightarrow> json_value \<Rightarrow> bool" where
  "built o' st st' lv v \<longleftrightarrow> snd st \<le> snd st' \<and> frame (snd st) (fst st) (fst st') \<and> present lv \<and>
     (\<forall>h. same_between (snd st) (snd st') (fst st') h \<longrightarrow> denotes o' h lv v)"

definition built_elems ::
  "json_opts \<Rightarrow> alloc \<Rightarrow> alloc \<Rightarrow> nat \<Rightarrow> (lua_value \<times> lua_value) list \<Rightarrow> json_value list \<Rightarrow> bool" where
  "built_elems o' st st' i items vs \<longleftrightarrow> snd st \<le> snd st' \<and> frame (snd st) (fst st) (fst st') \<and>
     good_items items \<and>
     (\<forall>h t. same_between (snd st) (snd st') (fst st') h \<longrightarrow>
        (\<forall>k<length vs. rawgeti t (Suc (i + k)) = snd (items ! k)) \<longrightarrow> denotes_elems o' h t (Suc i) vs)"

definition built_members ::
  "json_opts \<Rightarrow> alloc \<Rightarrow> alloc \<Rightarrow> (lua_value \<times> lua_value) list \<Rightarrow> (bytes \<times> json_value) list \<Rightarrow> bool" where
  "built_members o' st st' items ms \<longleftrightarrow> snd st \<le> snd st' \<and> frame (snd st) (fst st) (fst st') \<and>
     good_items items \<and>
     (\<forall>h t. same_between (snd st) (snd st') (fst st') h \<longrightarrow>
        (\<forall>k\<in>fst ` set items. map_of (entries t) k = map_of (rev items) k) \<longrightarrow>
        denotes_members o' h t ms)"

lemma built_table:
  assumes "snd st + 1 \<le> n" "frame (snd st + 1) (fst st) h1"
  shows "snd st \<le> n \<and> frame (snd st) (fst st) (h1(snd st := t))"
  using assms by (auto simp: frame_def)

lemma same_between_upd:
  assumes "same_between n n' (h1(n := t)) h" "n < n'"
  shows "h n = t \<and> same_between (n + 1) n' h1 h"
  using assms by (auto simp: same_between_def)

lemma decode_built:
  shows "decode_one lay o' v st = (lv, st') \<Longrightarrow> layout_ok lay \<Longrightarrow> small v \<Longrightarrow> built o' st st' lv v"
    and "decode_elems lay o' i vs st = (items, st') \<Longrightarrow> layout_ok lay \<Longrightarrow> list_all small vs \<Longrightarrow>
      built_elems o' st st' i items vs"
    and "decode_members lay o' ms st = (items, st') \<Longrightarrow> layout_ok lay \<Longrightarrow>
      list_all (\<lambda>m. small (snd m)) ms \<Longrightarrow> built_members o' st st' items ms"
proof (induction lay o' v st and lay o' i vs st and lay o' ms st arbitrary: lv st' and items st' and items st'
    rule: decode_one_decode_elems_decode_members.induct)
  case (1 lay o' ms st)
  obtain items h1 n1 where d: "decode_members lay o' ms (fst st, snd st + 1) = (items, (h1, n1))"
    by (cases "decode_members lay o' ms (fst st, snd st + 1)") auto
  have r: "lv = LTable (snd st)" "st' = (h1(snd st := lay items), n1)" using 1(2) d by auto
  have b: "built_members o' (fst st, snd st + 1) (h1, n1) items ms" using 1(1) d 1(3,4) by simp
  have len: "length items < 2 ^ 62" "fst ` set items = member_keys o' ms"
    using decode_members_keys [of lay o' ms "(fst st, snd st + 1)"] d 1(4) by simp_all
  note lg = layout_get [OF 1(3) _ len(1)]
  have good: "list_all (\<lambda>x. plain_key (fst x) \<and> present (snd x)) items"
    using b by (simp add: built_members_def good_items_def)
  have "denotes o' h lv (VObject ms)" if "same_between (snd st) n1 (h1(snd st := lay items)) h" for h
  proof -
    have h: "h (snd st) = lay items" "same_between (snd st + 1) n1 h1 h"
      using same_between_upd [OF that] b by (auto simp: built_members_def)
    then have "denotes_members o' h (lay items) ms"
      using b lg(2) [OF good] by (auto simp: built_members_def)
    with h r lg [OF good] len show ?thesis by simp
  qed
  moreover have "snd st \<le> n1 \<and> frame (snd st) (fst st) (h1(snd st := lay items))"
    using b by (intro built_table) (auto simp: built_members_def)
  ultimately show ?case by (auto simp: built_def r present_def)
next
  case (2 lay o' vs st)
  obtain items h1 n1 where d: "decode_elems lay o' 0 vs (fst st, snd st + 1) = (items, (h1, n1))"
    by (cases "decode_elems lay o' 0 vs (fst st, snd st + 1)") auto
  have r: "lv = LTable (snd st)" "st' = (h1(snd st := lay items), n1)" using 2(2) d by auto
  have b: "built_elems o' (fst st, snd st + 1) (h1, n1) 0 items vs" using 2(1) d 2(3,4) by simp
  have keys: "map fst items = map int_key [Suc 0..<Suc (length vs)]" and len: "length items = length vs"
    using decode_elems_keys [of lay o' 0 vs "(fst st, snd st + 1)"] decode_elems_length [of lay o' 0 vs]
      d by (simp_all del: upt_Suc) (metis fst_conv)
  have small: "length items < 2 ^ 62" using len 2(4) by simp
  note lg = layout_get [OF 2(3) _ small]
  have good: "list_all (\<lambda>x. plain_key (fst x) \<and> present (snd x)) items"
    using b by (simp add: built_elems_def good_items_def)
  have "distinct (map fst items)"
    unfolding keys using small len by (auto simp: distinct_map intro!: inj_onI int_key_inj simp del: upt_Suc)
  then have get: "rawgeti (lay items) (Suc k) = snd (items ! k)" if "k < length vs" for k
  proof -
    have "map fst items ! k = int_key (Suc k)"
      unfolding keys using that by (simp del: upt_Suc)
    then have "(int_key (Suc k), snd (items ! k)) \<in> set (rev items)"
      using that len by (metis nth_map nth_mem prod.collapse set_rev)
    then have "map_of (rev items) (int_key (Suc k)) = Some (snd (items ! k))"
      using \<open>distinct (map fst items)\<close> by (intro map_of_is_SomeI) (simp_all add: rev_map [symmetric])
    then show ?thesis using lg(2) [OF good] by (simp add: rawgeti_def rawget_def)
  qed
  have "fst ` set items = int_key ` {1..length vs}"
    using arg_cong [OF keys, of set] by (simp add: atLeastLessThanSuc_atLeastAtMost del: upt_Suc)
  moreover have "denotes_elems o' h (lay items) 1 vs" if "same_between (snd st + 1) n1 h1 h" for h
    using b get that by (auto simp: built_elems_def)
  ultimately have "denotes o' h lv (VArray vs)"
    if "same_between (snd st) n1 (h1(snd st := lay items)) h" for h
    using same_between_upd [OF that] b r lg(1,3) [OF good] by (auto simp: built_elems_def)
  moreover have "snd st \<le> n1 \<and> frame (snd st) (fst st) (h1(snd st := lay items))"
    using b by (intro built_table) (auto simp: built_elems_def)
  ultimately show ?case by (auto simp: built_def r present_def)
next
  case (8 lay o' i v vs st)
  obtain lv st1 where s1: "decode_one lay o' v st = (lv, st1)" by (cases "decode_one lay o' v st")
  obtain items2 st2 where s2: "decode_elems lay o' (i + 1) vs st1 = (items2, st2)"
    by (cases "decode_elems lay o' (i + 1) vs st1")
  have r: "items = (int_key (i + 1), lv) # items2" "st' = st2" using 8(3) s1 s2 by auto
  have b1: "built o' st st1 lv v" using 8(1) [OF s1] 8(4,5) by simp
  have b2: "built_elems o' st1 st2 (i + 1) items2 vs" using 8(2) [OF s1 [symmetric] s2] 8(4,5) by simp
  have "denotes_elems o' h t (Suc i) (v # vs)"
    if sb: "same_between (snd st) (snd st2) (fst st2) h"
      and get: "\<forall>k<length (v # vs). rawgeti t (Suc (i + k)) = snd (items ! k)" for h t
  proof -
    have "same_between (snd st) (snd st1) (fst st1) h"
      using b1 b2 sb by (auto simp: same_between_def frame_def built_def built_elems_def)
    moreover have "rawgeti t (Suc i) = lv" using get r by force
    ultimately have "denotes o' h (rawgeti t (Suc i)) v" using b1 by (simp add: built_def)
    moreover have "same_between (snd st1) (snd st2) (fst st2) h"
      using b1 sb by (auto simp: same_between_def built_def)
    moreover have "rawgeti t (Suc (i + 1 + k)) = snd (items2 ! k)" if "k < length vs" for k
      using get [rule_format, of "Suc k"] that r by simp
    ultimately show ?thesis using b2 by (simp add: built_elems_def)
  qed
  with b1 b2 show ?case
    by (auto simp: built_elems_def built_def r good_items_def plain_int_key intro: frame_trans)
next
  case (10 lay o' k v ms st)
  show ?case
  proof (cases "k = []")
    case True
    with 10 show ?thesis by (auto simp: built_members_def)
  next
    case False
    obtain lv st1 where s1: "decode_one lay o' v st = (lv, st1)" by (cases "decode_one lay o' v st")
    obtain items2 st2 where s2: "decode_members lay o' ms st1 = (items2, st2)"
      by (cases "decode_members lay o' ms st1")
    have r: "items = (decode_key o' k, lv) # items2" "st' = st2" using 10(4) s1 s2 False by auto
    have b1: "built o' st st1 lv v" using 10(2) [OF False s1] 10(5,6) by simp
    have b2: "built_members o' st1 st2 items2 ms"
      using 10(3) [OF False s1 [symmetric] s2] 10(5,6) by simp
    have keys: "fst ` set items2 = member_keys o' ms"
      using decode_members_keys(1) [of lay o' ms st1] s2 by simp
    have "denotes_members o' h t ((k, v) # ms)"
      if sb: "same_between (snd st) (snd st2) (fst st2) h"
        and get: "\<forall>x\<in>fst ` set items. map_of (entries t) x = map_of (rev items) x" for h t
    proof -
      have "same_between (snd st) (snd st1) (fst st1) h"
        using b1 b2 sb by (auto simp: same_between_def frame_def built_def built_members_def)
      moreover have "rawget t (decode_key o' k) = lv" if "decode_key o' k \<notin> member_keys o' ms"
        using get map_of_rev_last [of "decode_key o' k" items2 lv] that keys r
        by (intro rawget_map_of) auto
      ultimately have "decode_key o' k \<notin> member_keys o' ms \<longrightarrow> denotes o' h (rawget t (decode_key o' k)) v"
        using b1 by (auto simp: built_def)
      moreover have "same_between (snd st1) (snd st2) (fst st2) h"
        using b1 sb by (auto simp: same_between_def built_def)
      moreover have "\<forall>x\<in>fst ` set items2. map_of (entries t) x = map_of (rev items2) x"
        using get map_of_rev_cons [of _ items2 "decode_key o' k" lv] r by auto
      ultimately show ?thesis using b2 by (simp add: built_members_def)
    qed
    with b1 b2 show ?thesis
      by (auto simp: built_members_def built_def r good_items_def plain_decode_key intro: frame_trans)
  qed
qed (auto simp: built_def built_elems_def built_members_def frame_def present_def good_items_def split: jnumber.splits)


section \<open>Properties\<close>

definition decode_text :: "json_io \<Rightarrow> bytes \<Rightarrow> string + json_value" where
  "decode_text io str =
     (if str \<noteq> [] \<and> hd str = CHR ''@''
      then ebind (from_utf8 io (tl str)) (\<lambda>path. ebind (read_file io path) (from_slice io))
      else from_slice io str)"

text \<open>
  C14. \<open>json.decode\<close> is faithful: when the text parses to \<open>v\<close>, one value is returned, every table
  that existed before is untouched, and the value denotes \<open>v\<close> in the new heap: every array has
  exactly its indices, every object its keys, with the elements' images below them. When the
  text (or the named file) cannot be read, nil and the message are returned and nothing changes.
\<close>

theorem json_decode_faithful:
  assumes "layout_ok lay"
  shows "(\<forall>v. decode_text io str = Inr v \<and> small v \<longrightarrow>
      (\<exists>lv st'. json_decode io lay o' str st = ([lv], st') \<and> denotes o' (fst st') lv v \<and>
         frame (snd st) (fst st) (fst st'))) \<and>
    (\<forall>msg. decode_text io str = Inl msg \<longrightarrow> json_decode io lay o' str st = ([LNil, LString msg], st))"
proof (intro conjI allI impI)
  fix v
  assume v: "decode_text io str = Inr v \<and> small v"
  obtain lv st' where d: "decode_one lay o' v st = (lv, st')" by (cases "decode_one lay o' v st")
  then have "built o' st st' lv v" using decode_built(1) assms v by blast
  then show "\<exists>lv st'. json_decode io lay o' str st = ([lv], st') \<and> denotes o' (fst st') lv v \<and>
      frame (snd st) (fst st) (fst st')"
    using v d by (auto simp: json_decode_def decode_text_def built_def same_between_def Let_def)
next
  fix msg
  assume "decode_text io str = Inl msg"
  then show "json_decode io lay o' str st = ([LNil, LString msg], st)"
    by (auto simp: json_decode_def decode_text_def Let_def split: if_splits)
qed

definition blank_heap :: lua_heap where
  "blank_heap _ = demo_table"

definition demo_io :: json_io where
  "demo_io = \<lparr>from_utf8 = Inr, read_file = (\<lambda>_. Inl ''not found''),
     from_slice = (\<lambda>s. if s = ''{'' then Inl ''EOF'' else Inr (VArray [VBool True, VNull]))\<rparr>"

theorem json_decode_faithful_witness:
  "\<exists>lv st'. json_decode demo_io simple_layout json_opts_module ''[true,null]'' (blank_heap, 4) = ([lv], st') \<and>
     denotes json_opts_module (fst st') lv (VArray [VBool True, VNull]) \<and> frame 4 blank_heap (fst st')"
proof -
  have "decode_text demo_io ''[true,null]'' = Inr (VArray [VBool True, VNull])"
    by (simp add: decode_text_def demo_io_def)
  moreover have "small (VArray [VBool True, VNull])" by simp
  ultimately have "\<exists>lv st'. json_decode demo_io simple_layout json_opts_module ''[true,null]'' (blank_heap, 4) =
      ([lv], st') \<and> denotes json_opts_module (fst st') lv (VArray [VBool True, VNull]) \<and>
      frame (snd (blank_heap, 4 :: nat)) (fst (blank_heap, 4 :: nat)) (fst st')"
    using json_decode_faithful [OF simple_layout_ok, of demo_io "''[true,null]''" json_opts_module "(blank_heap, 4)"]
    by blast
  then show ?thesis by simp
qed

text \<open>
  Integer keys survive: the decimal text the writer makes of an integer key is turned back
  into that integer by the decoder (with number keys enabled), for every 64-bit key, negative
  ones included; and only texts that denote an \<open>i64\<close> become integers.
\<close>

theorem json_integer_key_roundtrip:
  assumes "enable_number_key o'"
  shows "decode_key o' (show_int (sint n)) = LInteger n \<and>
    (decode_key o' k = LInteger n \<longrightarrow> parse_i64 k = Some (sint n)) \<and>
    (parse_i64 k = None \<longrightarrow> decode_key o' k = LString k)"
proof -
  have "is_ascii_digit (hd (show_int (sint n))) \<or> hd (show_int (sint n)) = CHR ''-''"
    using show_nat_hd_digit by (simp add: show_int_def)
  then have "decode_key o' (show_int (sint n)) = LInteger n"
    using assms parse_show_int [OF sint_i64_range] by (simp add: decode_key_def)
  moreover have "sint (word_of_int i :: i64) = i" if "parse_i64 k = Some i" for i
    using that by (intro sint_word_of_int) (auto simp: parse_i64_def Let_def split: if_splits)
  ultimately show ?thesis
    by (auto simp: decode_key_def split: if_splits option.splits)
qed

theorem json_integer_key_roundtrip_witness:
  "decode_key json_opts_module (show_int (sint (-5 :: i64))) = LInteger (-5)"
  using json_integer_key_roundtrip [of json_opts_module "-5"] by (simp add: json_opts_module_def)

text \<open>
  What decoding loses: an unsigned number beyond \<open>i64::MAX\<close> becomes the integer 0, a member
  with an empty key disappears, and two members whose keys denote the same integer (\<open>7\<close> and
  \<open>007\<close>) are merged, the later one winning.
\<close>

theorem json_decode_losses:
  assumes "layout_ok lay" and "2 ^ 63 \<le> unat n" and "enable_number_key o'"
  shows "decode_one lay o' (VNumber (PosInt n)) st = (LInteger 0, st) \<and>
    decode_one lay o' (VObject (([], v) # ms)) st = decode_one lay o' (VObject ms) st \<and>
    (\<exists>a h' m. decode_one lay o' (VObject [(''7'', VBool True), (''007'', VBool False)]) (h, m0) =
       (LTable a, (h', m)) \<and> fst ` set (entries (h' a)) = {LInteger 7} \<and>
       rawget (h' a) (LInteger 7) = LBoolean False)"
proof -
  have k: "decode_key o' ''7'' = LInteger 7" "decode_key o' ''007'' = LInteger 7"
    using assms(3) by (simp_all add: decode_key_def is_ascii_digit_def parse_i64_def digits_val_def
        digit_val_def Let_def i64_min_def i64_max_def)
  let ?items = "[(LInteger 7, LBoolean True), (LInteger 7, LBoolean False)]"
  have "list_all (\<lambda>x. plain_key (fst x) \<and> present (snd x)) ?items" by (simp add: plain_key_def present_def)
  then have "map_of (entries (lay ?items)) (LInteger 7) = Some (LBoolean False)"
    "fst ` set (entries (lay ?items)) = {LInteger 7}"
    using layout_get [OF assms(1), of ?items] by simp_all
  then show ?thesis
    using assms(2) by (auto simp: k rawget_def split: prod.splits)
qed

theorem json_decode_losses_witness:
  "decode_one simple_layout json_opts_module (VNumber (PosInt (2 ^ 63))) (blank_heap, 0) =
     (LInteger 0, (blank_heap, 0))"
  using json_decode_losses [OF simple_layout_ok, of "2 ^ 63" json_opts_module "(blank_heap, 0)"]
  by (simp add: json_opts_module_def)

end
