(* ===== verification/SqlxRetry.thy ===== *)
theory SqlxRetry
  imports Prelude
begin

text \<open>
  The reconnect policy of \<open>crates/libs/lib-lualib/src/sqlx_retry.rs\<close>. Durations and instants are
  counted in nanoseconds; a \<open>Duration\<close> saturates at its maximum, and adding one to an \<open>Instant\<close>
  panics beyond the range of the clock.
\<close>

definition duration_max :: nat where
  "duration_max = (2 ^ 64 - 1) * 10 ^ 9 + 999999999"

definition instant_max :: nat where
  "instant_max = (2 ^ 63 - 1) * 10 ^ 9 + 999999999"

definition saturating_mul :: "nat \<Rightarrow> nat \<Rightarrow> nat" where
  "saturating_mul d n = min (d * n) duration_max"

definition instant_add :: "nat \<Rightarrow> nat \<Rightarrow> nat outcome" where
  "instant_add now d =
     (if now + d \<le> instant_max then Done (now + d) else Panic ''overflow when adding duration to instant'')"

definition div_ceil :: "nat \<Rightarrow> nat \<Rightarrow> nat" where
  "div_ceil a b = (a + b - 1) div b"

section \<open>ReconnectBackoff\<close>

record backoff =
  initial :: nat
  bmax :: nat
  delay :: nat
  retry_at :: "nat option"

definition backoff_new :: "nat \<Rightarrow> nat \<Rightarrow> backoff" where
  "backoff_new i m = \<lparr>initial = i, bmax = m, delay = 0, retry_at = None\<rparr>"

definition backoff_failed :: "backoff \<Rightarrow> nat \<Rightarrow> backoff outcome" where
  "backoff_failed b now =
     (let d = (if delay b = 0 then initial b else min (saturating_mul (delay b) 2) (bmax b))
      in obind (instant_add now d) (\<lambda>at'. Done (b\<lparr>delay := d, retry_at := Some at'\<rparr>)))"

definition backoff_reset :: "backoff \<Rightarrow> backoff" where
  "backoff_reset b = b\<lparr>delay := 0, retry_at := None\<rparr>"

text \<open>The milliseconds are cast to \<open>u64\<close>.\<close>

definition retry_after_ms :: "backoff \<Rightarrow> nat \<Rightarrow> u64" where
  "retry_after_ms b now =
     (case retry_at b of None \<Rightarrow> 0
      | Some at' \<Rightarrow> word_of_nat (div_ceil (at' - now) 1000000))"

section \<open>ConnectionLogGate\<close>

record log_gate =
  interval :: nat
  next_log :: "nat option"
  suppressed :: u64

definition log_gate_new :: "nat \<Rightarrow> log_gate" where
  "log_gate_new i = \<lparr>interval = i, next_log = None, suppressed = 0\<rparr>"

definition saturating_inc :: "u64 \<Rightarrow> u64" where
  "saturating_inc n = (if n = - 1 then n else n + 1)"

definition log_gate_take :: "log_gate \<Rightarrow> nat \<Rightarrow> (u64 option \<times> log_gate) outcome" where
  "log_gate_take g now =
     (if (case next_log g of None \<Rightarrow> False | Some at' \<Rightarrow> now < at')
      then Done (None, g\<lparr>suppressed := saturating_inc (suppressed g)\<rparr>)
      else obind (instant_add now (interval g)) (\<lambda>at'.
        Done (Some (suppressed g), g\<lparr>next_log := Some at', suppressed := 0\<rparr>)))"

section \<open>The contract\<close>

datatype backoff_op = Failed nat | Reset

fun backoff_step :: "backoff \<Rightarrow> backoff_op \<Rightarrow> backoff outcome" where
  "backoff_step b (Failed now) = backoff_failed b now"
| "backoff_step b Reset = Done (backoff_reset b)"

text \<open>The delay never exceeds the larger of the two bounds, and is zero exactly without a retry time.\<close>

definition backoff_ok :: "nat \<Rightarrow> nat \<Rightarrow> backoff \<Rightarrow> bool" where
  "backoff_ok i m b \<longleftrightarrow> initial b = i \<and> bmax b = m \<and> delay b \<le> max i m \<and>
     (retry_at b = None \<longrightarrow> delay b = 0)"

lemma instant_add_Done: "instant_add now d = Done x \<longleftrightarrow> x = now + d \<and> now + d \<le> instant_max"
  by (auto simp: instant_add_def)

interpretation backoff_machine: safe_machine backoff_step "backoff_ok i m" "\<lambda>_ _. True"
proof
  fix b p b'
  assume "backoff_ok i m b" "backoff_step b p = Done b'"
  then show "backoff_ok i m b'"
    by (cases p) (auto simp: backoff_ok_def backoff_failed_def backoff_reset_def Let_def
        obind_Done_iff instant_add_Done split: if_splits)
next
  fix b p e
  show "backoff_step b p \<noteq> UB e"
    by (cases p) (auto simp: backoff_failed_def instant_add_def Let_def)
qed

section \<open>Properties\<close>

text \<open>Consecutive failures at the given times.\<close>

definition failures :: "backoff \<Rightarrow> nat list \<Rightarrow> backoff outcome" where
  "failures b ts = run_ops backoff_step b (map Failed ts)"

lemma run_ops_append:
  "run_ops step s (xs @ ys) = obind (run_ops step s xs) (\<lambda>s'. run_ops step s' ys)"
  by (induction xs arbitrary: s) (auto split: outcome.splits)

lemma failures_snoc: "failures b (ts @ [t]) = obind (failures b ts) (\<lambda>b'. backoff_failed b' t)"
proof -
  have "run_ops backoff_step b' [Failed t] = backoff_failed b' t" for b'
    by (cases "backoff_failed b' t") simp_all
  then show ?thesis by (simp add: failures_def run_ops_append)
qed

lemma failures_single: "failures b [t] = backoff_failed b t"
  using failures_snoc [of b "[]" t] by (simp add: failures_def)

lemma failures_delay:
  assumes "0 < i" "i \<le> m" "m \<le> duration_max"
  shows "failures (backoff_new i m) (ts @ [t]) = Done b \<Longrightarrow>
     delay b = min (i * 2 ^ length ts) m \<and> retry_at b = Some (t + delay b) \<and> initial b = i \<and> bmax b = m"
proof (induction ts arbitrary: t b rule: rev_induct)
  case Nil
  then show ?case
    using assms by (auto simp: failures_single backoff_failed_def backoff_new_def
        obind_Done_iff instant_add_Done Let_def)
next
  case (snoc s ts)
  obtain b1 where b1: "failures (backoff_new i m) (ts @ [s]) = Done b1" "backoff_failed b1 t = Done b"
    using snoc.prems failures_snoc [of _ "ts @ [s]" t] by (auto simp: obind_Done_iff)
  note IH = snoc.IH [OF b1(1)]
  have "min (saturating_mul (delay b1) 2) m = min (i * 2 ^ Suc (length ts)) m"
    using IH assms by (auto simp: saturating_mul_def min_def)
  moreover have "delay b1 \<noteq> 0" using IH assms by (auto simp: min_def)
  ultimately show ?case
    using b1(2) IH by (auto simp: backoff_failed_def obind_Done_iff instant_add_Done Let_def)
qed

text \<open>
  C32. Exponential backoff: the delay after the \<open>n\<close>-th consecutive failure is the initial delay
  doubled \<open>n - 1\<close> times and capped at the maximum, and the next attempt is allowed that long
  after the last failure, whatever the times of the earlier ones.
\<close>

theorem backoff_exponential:
  assumes "0 < i" and "i \<le> m" and "m \<le> duration_max" and "list_all (\<lambda>s. s + m \<le> instant_max) (ts @ [t])"
  shows "\<exists>b. failures (backoff_new i m) (ts @ [t]) = Done b \<and>
     delay b = min (i * 2 ^ length ts) m \<and> retry_at b = Some (t + delay b)"
proof -
  have "\<exists>b. failures (backoff_new i m) ss = Done b" if "list_all (\<lambda>s. s + m \<le> instant_max) ss" for ss
    using that
  proof (induction ss rule: rev_induct)
    case (snoc s ss)
    then obtain b where b: "failures (backoff_new i m) ss = Done b" by auto
    have "backoff_ok i m (backoff_new i m)" by (simp add: backoff_ok_def backoff_new_def)
    moreover have "guarded backoff_step (\<lambda>_ _. True) (backoff_new i m) (map Failed ss)" by (rule guarded_always) simp
    ultimately have "backoff_ok i m b"
      using backoff_machine.run_inv b unfolding failures_def by blast
    then have "(if delay b = 0 then initial b else min (saturating_mul (delay b) 2) (bmax b)) \<le> m"
      using assms by (auto simp: backoff_ok_def)
    then show ?case
      using snoc.prems b by (auto simp: failures_snoc backoff_failed_def Let_def instant_add_def)
  qed (simp add: failures_def)
  then obtain b where "failures (backoff_new i m) (ts @ [t]) = Done b" using assms(4) by blast
  with failures_delay [OF assms(1-3) this] show ?thesis by blast
qed

theorem backoff_exponential_witness:
  "\<exists>b. failures (backoff_new 200 5000) ([10, 20] @ [30]) = Done b \<and> delay b = 800 \<and> retry_at b = Some 830"
  using backoff_exponential [of 200 5000 "[10, 20]" 30]
  by (auto simp: duration_max_def instant_max_def)

text \<open>
  C33. The advertised waiting time is exact: it is zero precisely when an attempt is allowed, after
  waiting that many milliseconds one is allowed, and one millisecond less is not enough.
\<close>

theorem retry_after_exact:
  assumes "\<And>at'. retry_at b = Some at' \<Longrightarrow> at' \<le> now + bmax b" and "bmax b \<le> 10 ^ 24"
  shows "(retry_after_ms b now = 0 \<longleftrightarrow> (\<forall>at'. retry_at b = Some at' \<longrightarrow> at' \<le> now)) \<and>
    retry_after_ms b (now + 1000000 * unat (retry_after_ms b now)) = 0 \<and>
    (0 < unat (retry_after_ms b now) \<longrightarrow>
       0 < unat (retry_after_ms b (now + 1000000 * (unat (retry_after_ms b now) - 1))))"
proof (cases "retry_at b")
  case None
  then show ?thesis by (simp add: retry_after_ms_def)
next
  case (Some at')
  have ms: "unat (retry_after_ms b t) = div_ceil (at' - t) 1000000" if "now \<le> t" for t
  proof -
    have "at' - t \<le> 10 ^ 24" using assms Some that by fastforce
    then have "div_ceil (at' - t) 1000000 \<le> (10 ^ 24 + 999999) div 1000000"
      unfolding div_ceil_def by (intro div_le_mono) simp
    then have "div_ceil (at' - t) 1000000 < 2 ^ 64" by simp
    then show ?thesis by (simp add: retry_after_ms_def Some unsigned_of_nat take_bit_nat_eq_self)
  qed
  have eq0: "retry_after_ms b t = 0 \<longleftrightarrow> at' \<le> t" if "now \<le> t" for t
  proof -
    have "div_ceil (at' - t) 1000000 = 0 \<longleftrightarrow> at' \<le> t"
      by (auto simp: div_ceil_def div_eq_0_iff)
    then show ?thesis using ms [OF that] by (metis unat_eq_zero)
  qed
  let ?k = "unat (retry_after_ms b now)"
  have k: "?k = (at' - now + 999999) div 1000000" using ms [of now] by (simp add: div_ceil_def)
  have "at' \<le> now + 1000000 * ?k" unfolding k by linarith
  moreover have "0 < ?k \<longrightarrow> now + 1000000 * (?k - 1) < at'" unfolding k by linarith
  ultimately show ?thesis
    using eq0 [of now] eq0 [of "now + 1000000 * ?k"] eq0 [of "now + 1000000 * (?k - 1)"] Some
    by (auto simp: unat_gt_0)
qed

theorem retry_after_exact_witness:
  "retry_after_ms (\<lparr>initial = 1, bmax = 10 ^ 9, delay = 1, retry_at = Some 2500001\<rparr>) 500000 = 3 \<and>
   retry_after_ms (\<lparr>initial = 1, bmax = 10 ^ 9, delay = 1, retry_at = Some 2500001\<rparr>) (500000 + 3000000) = 0"
proof -
  let ?b = "\<lparr>initial = 1, bmax = 10 ^ 9, delay = 1, retry_at = Some 2500001\<rparr>"
  have "retry_after_ms ?b 500000 = 3" by (simp add: retry_after_ms_def div_ceil_def)
  moreover from this have "retry_after_ms ?b (500000 + 1000000 * unat (retry_after_ms ?b 500000)) = 0"
    using retry_after_exact [of ?b 500000] by simp
  ultimately show ?thesis by simp
qed

text \<open>Running the gate over a list of times: the answers and the final gate.\<close>

fun gate_run :: "log_gate \<Rightarrow> nat list \<Rightarrow> (u64 option list \<times> log_gate) outcome" where
  "gate_run g [] = Done ([], g)"
| "gate_run g (t # ts) =
     obind (log_gate_take g t) (\<lambda>(r, g1). obind (gate_run g1 ts) (\<lambda>(rs, g2). Done (r # rs, g2)))"

definition refusals :: "u64 option list \<Rightarrow> nat" where
  "refusals rs = length (filter (\<lambda>r. r = None) rs)"

definition reported :: "u64 option list \<Rightarrow> nat" where
  "reported rs = sum_list (map (\<lambda>r. case r of None \<Rightarrow> 0 | Some n \<Rightarrow> unat n) rs)"

lemma gate_run_conserves:
  "gate_run g ts = Done (rs, g') \<Longrightarrow> unat (suppressed g) + length ts < 2 ^ 64 \<Longrightarrow>
     reported rs + unat (suppressed g') = unat (suppressed g) + refusals rs"
proof (induction ts arbitrary: g rs)
  case Nil
  then show ?case by (simp add: reported_def refusals_def)
next
  case (Cons t ts)
  obtain r g1 rs1 where s: "log_gate_take g t = Done (r, g1)" "gate_run g1 ts = Done (rs1, g')"
      "rs = r # rs1"
    using Cons.prems(1) by (auto simp: obind_Done_iff)
  show ?case
  proof (cases r)
    case None
    have "suppressed g \<noteq> - 1"
      using Cons.prems(2) by (auto simp: unsigned_minus_1_eq_mask mask_eq_exp_minus_1)
    then have "unat (suppressed g1) = unat (suppressed g) + 1"
      using s(1) None Cons.prems(2)
      by (auto simp: log_gate_take_def saturating_inc_def obind_Done_iff unat_word_ariths split: if_splits option.splits)
    with Cons.IH [OF s(2)] Cons.prems(2) s(3) None show ?thesis
      by (simp add: reported_def refusals_def)
  next
    case (Some n)
    then have "n = suppressed g" "suppressed g1 = 0"
      using s(1) by (auto simp: log_gate_take_def obind_Done_iff split: if_splits)
    with Cons.IH [OF s(2)] Cons.prems(2) s(3) Some show ?thesis
      by (simp add: reported_def refusals_def)
  qed
qed


text \<open>
  The log gate loses no count: over any sequence of failures, the numbers reported with the
  messages that pass plus the number still held are exactly the messages that were suppressed,
  and after a message passes at time \<open>t\<close> none passes before \<open>t + interval\<close>.
\<close>

theorem log_gate_conservation:
  assumes "gate_run (log_gate_new i) ts = Done (rs, g)" and "length ts < 2 ^ 64"
  shows "reported rs + unat (suppressed g) = refusals rs \<and>
    (\<forall>g1 g2 t n s. log_gate_take g1 t = Done (Some n, g2) \<and> s < t + interval g1 \<longrightarrow>
       (\<exists>g3. log_gate_take g2 s = Done (None, g3)))"
proof (intro conjI allI impI)
  show "reported rs + unat (suppressed g) = refusals rs"
    using gate_run_conserves [OF assms(1)] assms(2) by (simp add: log_gate_new_def)
next
  fix g1 g2 t n s
  assume "log_gate_take g1 t = Done (Some n, g2) \<and> s < t + interval g1"
  then show "\<exists>g3. log_gate_take g2 s = Done (None, g3)"
    by (auto simp: log_gate_take_def obind_Done_iff instant_add_Done split: if_splits)
qed

theorem log_gate_conservation_witness:
  "reported [Some 0, None, None, Some 2, None] + 1 = refusals [Some 0, None, None, Some 2, None]"
proof -
  have "gate_run (log_gate_new 10) [0, 5, 9, 10, 11] =
      Done ([Some 0, None, None, Some 2, None], \<lparr>interval = 10, next_log = Some 20, suppressed = 1\<rparr>)"
    by (simp add: log_gate_new_def log_gate_take_def instant_add_def instant_max_def saturating_inc_def)
  from log_gate_conservation [OF this] show ?thesis by simp
qed

end
