(* ===== verification/SqlxResponse.thy ===== *)
theory SqlxResponse
  imports Prelude "HOL-Library.Multiset"
begin

text \<open>
  The response registry of \<open>crates/libs/lib-lualib/src/sqlx_response.rs\<close>: a Lua waiter registers a
  key and owns a lease, a worker publishes the reply, the waiter takes it. The sequential
  operations come first; \<open>reg_step\<close> then cuts them at their lock boundaries, so that a \<open>publish\<close>
  or \<open>take\<close> that has found its slot can be overtaken by the drop of the lease and by a new
  registration of the same key.
\<close>

section \<open>State\<close>

type_synonym reg_key = "u32 \<times> i64"

record 'a slot =
  active :: bool
  content :: "'a option"

text \<open>
  \<open>shards\<close> are the 32 maps from keys to weak references, \<open>slot_of\<close> the slots themselves by address,
  \<open>leases\<close> the live leases with their keys, \<open>held\<close> the slots kept alive by calls in progress.
\<close>

record 'a registry =
  shards :: "nat \<Rightarrow> (reg_key \<times> nat) list"
  slot_of :: "nat \<Rightarrow> 'a slot"
  leases :: "(nat \<times> reg_key) list"
  held :: "nat list"
  fresh :: nat

definition registry_new :: "'a registry" where
  "registry_new = \<lparr>shards = (\<lambda>_. []), slot_of = (\<lambda>_. \<lparr>active = False, content = None\<rparr>),
     leases = [], held = [], fresh = 0\<rparr>"

definition shard_index :: "reg_key \<Rightarrow> nat" where
  "shard_index k = unat ((((ucast (fst k) :: u64) * 0x9e3779b9) XOR snd k) AND 31)"

text \<open>\<open>Weak::upgrade\<close> succeeds while a lease or a call in progress owns the slot.\<close>

definition upgrade :: "'a registry \<Rightarrow> nat \<Rightarrow> bool" where
  "upgrade r sid \<longleftrightarrow> sid \<in> fst ` set (leases r) \<or> sid \<in> set (held r)"

definition find_slot :: "'a registry \<Rightarrow> reg_key \<Rightarrow> nat option" where
  "find_slot r k =
     (case map_of (shards r (shard_index k)) k of
        None \<Rightarrow> None | Some sid \<Rightarrow> if upgrade r sid then Some sid else None)"

text \<open>\<open>HashMap::insert\<close> and \<open>HashMap::remove\<close> on the shard of the key.\<close>

definition shard_remove :: "'a registry \<Rightarrow> reg_key \<Rightarrow> 'a registry" where
  "shard_remove r k =
     r\<lparr>shards := (shards r)(shard_index k := filter (\<lambda>e. fst e \<noteq> k) (shards r (shard_index k)))\<rparr>"

definition shard_insert :: "'a registry \<Rightarrow> reg_key \<Rightarrow> nat \<Rightarrow> 'a registry" where
  "shard_insert r k sid =
     r\<lparr>shards := (shards r)(shard_index k := (k, sid) # filter (\<lambda>e. fst e \<noteq> k) (shards r (shard_index k)))\<rparr>"

definition set_slot :: "'a registry \<Rightarrow> nat \<Rightarrow> 'a slot \<Rightarrow> 'a registry" where
  "set_slot r sid s = r\<lparr>slot_of := (slot_of r)(sid := s)\<rparr>"

section \<open>Operations\<close>

definition register :: "'a registry \<Rightarrow> reg_key \<Rightarrow> (string + nat) \<times> 'a registry" where
  "register r k =
     (if find_slot r k \<noteq> None then (Inl ''SQLx response session is already in use'', r)
      else (Inr (fresh r),
        (set_slot (shard_insert r k (fresh r)) (fresh r) \<lparr>active = True, content = None\<rparr>)
          \<lparr>leases := (fresh r, k) # leases r, fresh := fresh r + 1\<rparr>))"

text \<open>The part of \<open>publish\<close> and of \<open>take\<close> under the lock of the slot.\<close>

definition publish_slot :: "'a registry \<Rightarrow> nat \<Rightarrow> 'a \<Rightarrow> bool \<times> 'a registry" where
  "publish_slot r sid v =
     (let s = slot_of r sid in
      if \<not> active s \<or> content s \<noteq> None then (False, r)
      else (True, set_slot r sid (s\<lparr>content := Some v\<rparr>)))"

definition take_slot :: "'a registry \<Rightarrow> nat \<Rightarrow> 'a option \<times> 'a registry" where
  "take_slot r sid = (content (slot_of r sid), set_slot r sid \<lparr>active = False, content = None\<rparr>)"

definition publish :: "'a registry \<Rightarrow> reg_key \<Rightarrow> 'a \<Rightarrow> bool \<times> 'a registry" where
  "publish r k v = (case find_slot r k of None \<Rightarrow> (False, r) | Some sid \<Rightarrow> publish_slot r sid v)"

definition take_response :: "'a registry \<Rightarrow> reg_key \<Rightarrow> 'a option \<times> 'a registry" where
  "take_response r k = (case find_slot r k of None \<Rightarrow> (None, r) | Some sid \<Rightarrow> take_slot r sid)"

text \<open>\<open>counts\<close> walks over the values of the 32 shards.\<close>

definition live_slots :: "'a registry \<Rightarrow> nat list" where
  "live_slots r = concat (map (\<lambda>i. filter (upgrade r) (map snd (shards r i))) [0..<32])"

definition counts :: "'a registry \<Rightarrow> nat \<times> nat" where
  "counts r =
     foldl (\<lambda>(waiting, ready) sid.
        if active (slot_of r sid)
        then (if content (slot_of r sid) \<noteq> None then (waiting, ready + 1) else (waiting + 1, ready))
        else (waiting, ready)) (0, 0) (live_slots r)"

text \<open>\<open>Drop\<close>: the entry is removed only if it still refers to this lease's slot.\<close>

definition drop_lease :: "'a registry \<Rightarrow> nat \<Rightarrow> reg_key \<Rightarrow> 'a registry" where
  "drop_lease r sid k =
     (let r1 = (if map_of (shards r (shard_index k)) k = Some sid then shard_remove r k else r);
          r2 = set_slot r1 sid \<lparr>active = False, content = None\<rparr>
      in r2\<lparr>leases := filter (\<lambda>l. l \<noteq> (sid, k)) (leases r2)\<rparr>)"

section \<open>Interleavings\<close>

text \<open>
  \<open>Begin\<close> is the lookup of a \<open>publish\<close> or \<open>take\<close> (it keeps the slot alive), \<open>Publish\<close> and \<open>Take\<close> its
  second half on one of the held slots, \<open>Drop\<close> the end of a lease.
\<close>

datatype 'a reg_op =
  Register reg_key | Begin reg_key | Publish nat 'a | Take nat | Drop nat reg_key

definition release :: "'a registry \<Rightarrow> nat \<Rightarrow> 'a registry" where
  "release r sid = r\<lparr>held := remove1 sid (held r)\<rparr>"

fun reg_step :: "'a registry \<Rightarrow> 'a reg_op \<Rightarrow> 'a registry" where
  "reg_step r (Register k) = snd (register r k)"
| "reg_step r (Begin k) =
     (case find_slot r k of None \<Rightarrow> r | Some sid \<Rightarrow> r\<lparr>held := sid # held r\<rparr>)"
| "reg_step r (Publish sid v) =
     (if sid \<in> set (held r) then release (snd (publish_slot r sid v)) sid else r)"
| "reg_step r (Take sid) =
     (if sid \<in> set (held r) then release (snd (take_slot r sid)) sid else r)"
| "reg_step r (Drop sid k) = (if (sid, k) \<in> set (leases r) then drop_lease r sid k else r)"

text \<open>
  Every entry belongs to a live lease of its key and sits in its shard, every lease has its
  entry, and a slot without a lease is inactive and empty.
\<close>

definition reg_ok :: "'a registry \<Rightarrow> bool" where
  "reg_ok r \<longleftrightarrow>
     (\<forall>i k sid. (k, sid) \<in> set (shards r i) \<longleftrightarrow> i = shard_index k \<and> (sid, k) \<in> set (leases r)) \<and>
     (\<forall>i. distinct (map fst (shards r i))) \<and>
     distinct (map fst (leases r)) \<and>
     (\<forall>sid \<in> fst ` set (leases r) \<union> set (held r). sid < fresh r) \<and>
     (\<forall>sid. sid \<notin> fst ` set (leases r) \<longrightarrow> slot_of r sid = \<lparr>active = False, content = None\<rparr>) \<and>
     (\<forall>sid. content (slot_of r sid) \<noteq> None \<longrightarrow> active (slot_of r sid))"


lemma reg_okD:
  assumes "reg_ok r"
  shows "(k, sid) \<in> set (shards r i) \<longleftrightarrow> i = shard_index k \<and> (sid, k) \<in> set (leases r)"
    "distinct (map fst (shards r i))" "distinct (map fst (leases r))"
    "sid \<in> fst ` set (leases r) \<Longrightarrow> sid < fresh r" "sid \<in> set (held r) \<Longrightarrow> sid < fresh r"
    "sid \<notin> fst ` set (leases r) \<Longrightarrow> slot_of r sid = \<lparr>active = False, content = None\<rparr>"
    "content (slot_of r sid) \<noteq> None \<Longrightarrow> active (slot_of r sid)"
  using assms unfolding reg_ok_def by blast+

lemma shard_get:
  assumes "reg_ok r"
  shows "map_of (shards r (shard_index k)) k = Some sid \<longleftrightarrow> (sid, k) \<in> set (leases r)"
  using reg_okD(1,2) [OF assms] by (metis map_of_SomeD map_of_is_SomeI)

lemma find_slot_lease:
  assumes "reg_ok r"
  shows "find_slot r k = Some sid \<longleftrightarrow> (sid, k) \<in> set (leases r)"
proof (cases "map_of (shards r (shard_index k)) k")
  case None
  then show ?thesis using shard_get [OF assms, of k sid] by (simp add: find_slot_def)
next
  case (Some s)
  then have "(s, k) \<in> set (leases r)" using shard_get [OF assms] by simp
  then have "upgrade r s" by (auto simp: upgrade_def intro: rev_image_eqI)
  then show ?thesis using Some shard_get [OF assms, of k sid] by (simp add: find_slot_def)
qed

lemma lease_key_unique:
  assumes "reg_ok r" "(s1, k) \<in> set (leases r)" "(s2, k) \<in> set (leases r)"
  shows "s1 = s2"
  using assms shard_get [OF assms(1), of k] by (metis option.inject)

lemma lease_sid_unique:
  assumes "reg_ok r" "(sid, k1) \<in> set (leases r)" "(sid, k2) \<in> set (leases r)"
  shows "k1 = k2"
  using assms reg_okD(3) [OF assms(1)] by (metis eq_key_imp_eq_value)

lemma fst_image_iff: "s \<in> fst ` set xs \<longleftrightarrow> (\<exists>k. (s, k) \<in> set xs)"
  by force

lemma lease_fst: "(sid, k) \<in> set (leases r) \<Longrightarrow> sid \<in> fst ` set (leases r)"
  by (metis fst_conv image_eqI)

lemma register_ok:
  assumes ok: "reg_ok r"
  shows "reg_ok (snd (register r k))"
proof (cases "find_slot r k = None")
  case True
  then have new: "(sid, k) \<notin> set (leases r)" for sid
    using find_slot_lease [OF ok, of k sid] by simp
  have fr: "fresh r \<notin> fst ` set (leases r)" using reg_okD(4) [OF ok] by blast
  let ?r = "snd (register r k)"
  have r: "shards ?r = (shards r)(shard_index k := (k, fresh r) #
      filter (\<lambda>e. fst e \<noteq> k) (shards r (shard_index k)))"
    "leases ?r = (fresh r, k) # leases r" "fresh ?r = fresh r + 1" "held ?r = held r"
    "slot_of ?r = (slot_of r)(fresh r := \<lparr>active = True, content = None\<rparr>)"
    using True by (simp_all add: register_def set_slot_def shard_insert_def)
  show ?thesis
    unfolding reg_ok_def r
  proof (intro conjI allI)
    fix i k' sid
    show "(k', sid) \<in> set (((shards r)(shard_index k := (k, fresh r) #
        filter (\<lambda>e. fst e \<noteq> k) (shards r (shard_index k)))) i) \<longleftrightarrow>
        i = shard_index k' \<and> (sid, k') \<in> set ((fresh r, k) # leases r)"
      using reg_okD(1) [OF ok, of k' sid i] new [of sid]
      by (cases "k' = k"; cases "i = shard_index k") simp_all
  next
    fix i
    show "distinct (map fst (((shards r)(shard_index k := (k, fresh r) #
        filter (\<lambda>e. fst e \<noteq> k) (shards r (shard_index k)))) i))"
      using reg_okD(2) [OF ok, of i] distinct_map_filter [OF reg_okD(2) [OF ok, of i]] by auto
  next
    show "distinct (map fst ((fresh r, k) # leases r))" using reg_okD(3) [OF ok] fr by simp
  next
    show "\<forall>sid\<in>fst ` set ((fresh r, k) # leases r) \<union> set (held r). sid < fresh r + 1"
    proof
      fix s
      assume "s \<in> fst ` set ((fresh r, k) # leases r) \<union> set (held r)"
      then have "s = fresh r \<or> s \<in> fst ` set (leases r) \<or> s \<in> set (held r)" by simp
      then show "s < fresh r + 1" using reg_okD(4,5) [OF ok, of s] by linarith
    qed
  next
    fix sid
    show "sid \<notin> fst ` set ((fresh r, k) # leases r) \<longrightarrow>
        ((slot_of r)(fresh r := \<lparr>active = True, content = None\<rparr>)) sid = \<lparr>active = False, content = None\<rparr>"
      using reg_okD(6) [OF ok, of sid] by simp
    show "content (((slot_of r)(fresh r := \<lparr>active = True, content = None\<rparr>)) sid) \<noteq> None \<longrightarrow>
        active (((slot_of r)(fresh r := \<lparr>active = True, content = None\<rparr>)) sid)"
      using reg_okD(7) [OF ok, of sid] by simp
  qed
next
  case False
  then show ?thesis using ok by (simp add: register_def)
qed

lemma set_slot_ok:
  assumes "reg_ok r" "sid \<in> fst ` set (leases r) \<or> s = \<lparr>active = False, content = None\<rparr>"
    "content s \<noteq> None \<longrightarrow> active s"
  shows "reg_ok (set_slot r sid s)"
  using assms unfolding reg_ok_def set_slot_def by auto

lemma held_ok:
  assumes "reg_ok r" "\<forall>sid\<in>set hs. sid < fresh r"
  shows "reg_ok (r\<lparr>held := hs\<rparr>)"
  using assms unfolding reg_ok_def by auto

lemma release_ok: "reg_ok r \<Longrightarrow> reg_ok (release r sid)"
  unfolding release_def by (rule held_ok) (auto dest: reg_okD(5) notin_set_remove1 set_remove1_subset [THEN subsetD])

lemma publish_slot_ok:
  assumes "reg_ok r"
  shows "reg_ok (snd (publish_slot r sid v))"
proof (cases "sid \<in> fst ` set (leases r)")
  case True
  then show ?thesis using assms by (auto simp: publish_slot_def Let_def intro!: set_slot_ok)
next
  case False
  then show ?thesis using reg_okD(6) [OF assms] assms by (simp add: publish_slot_def)
qed

lemma take_slot_ok: "reg_ok r \<Longrightarrow> reg_ok (snd (take_slot r sid))"
  by (auto simp: take_slot_def intro!: set_slot_ok)

lemma drop_lease_ok:
  assumes ok: "reg_ok r" and l: "(sid, k) \<in> set (leases r)"
  shows "reg_ok (drop_lease r sid k)"
proof -
  let ?r = "drop_lease r sid k"
  have g: "map_of (shards r (shard_index k)) k = Some sid" using shard_get [OF ok] l by simp
  have r: "shards ?r = (shards r)(shard_index k := filter (\<lambda>e. fst e \<noteq> k) (shards r (shard_index k)))"
    "leases ?r = filter (\<lambda>l. l \<noteq> (sid, k)) (leases r)" "fresh ?r = fresh r" "held ?r = held r"
    "slot_of ?r = (slot_of r)(sid := \<lparr>active = False, content = None\<rparr>)"
    using g by (simp_all add: drop_lease_def Let_def set_slot_def shard_remove_def)
  have ls: "(s, k') \<in> set (leases ?r) \<longleftrightarrow> (s, k') \<in> set (leases r) \<and> k' \<noteq> k" for s k'
  proof -
    have "(s, k) \<in> set (leases r) \<Longrightarrow> s = sid" using lease_key_unique [OF ok _ l] by simp
    then show ?thesis by (auto simp: r)
  qed
  have fsts: "s \<in> fst ` set (leases ?r) \<longleftrightarrow> s \<in> fst ` set (leases r) \<and> s \<noteq> sid" for s
  proof -
    have "(s, k') \<in> set (leases ?r) \<longleftrightarrow> (s, k') \<in> set (leases r) \<and> s \<noteq> sid" for k'
    proof -
      have "(sid, k') \<in> set (leases r) \<Longrightarrow> k' = k" by (rule lease_sid_unique [OF ok _ l])
      then show ?thesis unfolding r set_filter mem_Collect_eq by blast
    qed
    then show ?thesis unfolding fst_image_iff by blast
  qed
  have "(k', s) \<in> set (shards ?r i) \<longleftrightarrow> i = shard_index k' \<and> (s, k') \<in> set (leases ?r)" for i k' s
    unfolding ls r(1) using reg_okD(1) [OF ok, of k' s i]
    by (cases "i = shard_index k"; cases "k' = k") simp_all
  moreover have "distinct (map fst (shards ?r i))" for i
    using reg_okD(2) [OF ok, of i] distinct_map_filter [OF reg_okD(2) [OF ok, of i]] by (auto simp: r)
  moreover have "distinct (map fst (leases ?r))"
    using reg_okD(3) [OF ok] unfolding r by (rule distinct_map_filter)
  moreover have "\<forall>s \<in> fst ` set (leases ?r) \<union> set (held ?r). s < fresh ?r"
    using reg_okD(4,5) [OF ok] fsts unfolding r(3,4) by blast
  moreover have "s \<notin> fst ` set (leases ?r) \<longrightarrow> slot_of ?r s = \<lparr>active = False, content = None\<rparr>" for s
    using reg_okD(6) [OF ok, of s] fsts [of s] by (simp add: r(5))
  moreover have "content (slot_of ?r s) \<noteq> None \<longrightarrow> active (slot_of ?r s)" for s
    using reg_okD(7) [OF ok, of s] by (simp add: r(5))
  ultimately show ?thesis
    unfolding reg_ok_def by blast
qed

lemma reg_step_ok: "reg_ok r \<Longrightarrow> reg_ok (reg_step r p)"
proof (cases p)
  case (Begin k)
  assume ok: "reg_ok r"
  show ?thesis
  proof (cases "find_slot r k")
    case None
    with ok Begin show ?thesis by simp
  next
    case (Some sid)
    then have "(sid, k) \<in> set (leases r)" by (simp add: find_slot_lease [OF ok])
    then have "sid < fresh r" by (rule reg_okD(4) [OF ok lease_fst])
    then have "\<forall>s\<in>set (sid # held r). s < fresh r"
      using reg_okD(5) [OF ok] by simp
    with held_ok [OF ok this] Begin Some show ?thesis by simp
  qed
next
  case (Register k)
  assume "reg_ok r"
  with Register show ?thesis by (simp add: register_ok)
next
  case (Publish sid v)
  assume "reg_ok r"
  with Publish show ?thesis by (simp add: release_ok publish_slot_ok)
next
  case (Take sid)
  assume "reg_ok r"
  with Take show ?thesis by (simp add: release_ok take_slot_ok)
next
  case (Drop sid k)
  assume "reg_ok r"
  with Drop show ?thesis by (simp add: drop_lease_ok)
qed

interpretation registry: total_machine reg_step reg_ok
  by unfold_locales (rule reg_step_ok)

lemma registry_new_ok: "reg_ok registry_new"
  by (simp add: reg_ok_def registry_new_def)


section \<open>Counting\<close>

lemma set_live_slots:
  assumes "reg_ok r"
  shows "set (live_slots r) = fst ` set (leases r)"
proof -
  have idx: "shard_index k < 32" for k
  proof -
    have m: "(31 :: u64) = mask 5" by (simp add: mask_eq_exp_minus_1)
    have "unat (take_bit 5 x) < 32" for x :: u64
      using take_bit_nat_less_exp [of 5 "unat x"] by (simp add: unsigned_take_bit_eq)
    then show ?thesis unfolding shard_index_def m take_bit_eq_mask [symmetric] by blast
  qed
  have "sid \<in> set (live_slots r) \<longleftrightarrow> (\<exists>k. (sid, k) \<in> set (leases r))" for sid
  proof
    assume "sid \<in> set (live_slots r)"
    then obtain i k where "(k, sid) \<in> set (shards r i)" by (auto simp: live_slots_def)
    then show "\<exists>k. (sid, k) \<in> set (leases r)" using reg_okD(1) [OF assms] by blast
  next
    assume "\<exists>k. (sid, k) \<in> set (leases r)"
    then obtain k where k: "(sid, k) \<in> set (leases r)" by blast
    then have "(k, sid) \<in> set (shards r (shard_index k))" using reg_okD(1) [OF assms] by blast
    moreover have "upgrade r sid" using lease_fst [OF k] by (simp add: upgrade_def)
    ultimately show "sid \<in> set (live_slots r)"
      using idx [of k] by (force simp: live_slots_def)
  qed
  then show ?thesis unfolding set_eq_iff fst_image_iff by blast
qed


lemma distinct_live_slots:
  assumes ok: "reg_ok r"
  shows "distinct (live_slots r)"
proof -
  let ?f = "\<lambda>i. filter (upgrade r) (map snd (shards r i))"
  have inj: "inj_on snd (set (shards r i))" for i
  proof (rule inj_onI)
    fix x y
    assume a: "x \<in> set (shards r i)" "y \<in> set (shards r i)" "snd x = snd y"
    obtain k1 s1 where x: "x = (k1, s1)" by (rule prod.exhaust)
    obtain k2 s2 where y: "y = (k2, s2)" by (rule prod.exhaust)
    have s: "s2 = s1" using a(3) by (simp add: x y)
    have "(s1, k1) \<in> set (leases r)" using a(1) reg_okD(1) [OF ok, of k1 s1 i] by (simp only: x)
    moreover have "(s1, k2) \<in> set (leases r)"
      using a(2) reg_okD(1) [OF ok, of k2 s1 i] by (simp only: y s)
    ultimately have "k1 = k2" by (rule lease_sid_unique [OF ok])
    then show "x = y" by (simp add: x y s)
  qed
  have d: "distinct (?f i)" for i
    using reg_okD(2) [OF ok, of i] inj [of i] by (simp add: distinct_map)
  have disj: "set (?f i) \<inter> set (?f j) = {}" if "i \<noteq> j" for i j
  proof -
    have False if "(k1, s) \<in> set (shards r i)" "(k2, s) \<in> set (shards r j)" for k1 k2 s
    proof -
      have "i = shard_index k1" "j = shard_index k2" "(s, k1) \<in> set (leases r)" "(s, k2) \<in> set (leases r)"
        using reg_okD(1) [OF ok] that by blast+
      with lease_sid_unique [OF ok] \<open>i \<noteq> j\<close> show False by metis
    qed
    moreover have "set (?f i') \<subseteq> {s. \<exists>k. (k, s) \<in> set (shards r i')}" for i'
      by (auto simp del: split_paired_Ex)
    ultimately show ?thesis by blast
  qed
  have "distinct (concat (map ?f is))" if "distinct is" for "is"
    using that
  proof (induction "is")
    case (Cons i "is")
    then have "set (?f i) \<inter> set (?f j) = {}" if "j \<in> set is" for j
      using disj [of i j] that by (metis distinct.simps(2))
    then have "set (?f i) \<inter> set (concat (map ?f is)) = {}"
      unfolding set_concat set_map by blast
    moreover have "distinct (concat (map ?f is))" using Cons by simp
    ultimately show ?case using d [of i] unfolding list.map concat.simps distinct_append by blast
  qed simp
  then show ?thesis unfolding live_slots_def by simp
qed

lemma counts_eq:
  "counts r = (length (filter (\<lambda>s. active (slot_of r s) \<and> content (slot_of r s) = None) (live_slots r)),
     length (filter (\<lambda>s. active (slot_of r s) \<and> content (slot_of r s) \<noteq> None) (live_slots r)))"
proof -
  have "foldl (\<lambda>(waiting, ready) sid.
        if active (slot_of r sid)
        then (if content (slot_of r sid) \<noteq> None then (waiting, ready + 1) else (waiting + 1, ready))
        else (waiting, ready)) (w, d) ss =
      (w + length (filter (\<lambda>s. active (slot_of r s) \<and> content (slot_of r s) = None) ss),
       d + length (filter (\<lambda>s. active (slot_of r s) \<and> content (slot_of r s) \<noteq> None) ss))" for w d ss
    by (induction ss arbitrary: w d) auto
  then show ?thesis by (simp add: counts_def)
qed

lemma option_ext: "(\<And>x. a = Some x \<longleftrightarrow> b = Some x) \<Longrightarrow> a = b"
  by (cases a; cases b) auto

section \<open>The life of a slot\<close>

text \<open>A slot only moves forward: waiting (2), ready (1), finished (0).\<close>

definition slot_rank :: "'a registry \<Rightarrow> nat \<Rightarrow> nat" where
  "slot_rank r sid =
     (if fresh r \<le> sid then 2
      else if active (slot_of r sid) then (if content (slot_of r sid) = None then 2 else 1) else 0)"

lemma slot_rank_step:
  assumes "reg_ok r"
  shows "slot_rank (reg_step r p) sid \<le> slot_rank r sid"
proof -
  have inactive: "\<not> active (slot_of r sid) \<Longrightarrow> content (slot_of r sid) = None"
    using reg_okD(7) [OF assms] by blast
  show ?thesis
    using inactive reg_okD(5) [OF assms]
    by (cases p) (auto simp: slot_rank_def register_def set_slot_def shard_insert_def shard_remove_def
        release_def publish_slot_def take_slot_def drop_lease_def Let_def split: option.splits)
qed

text \<open>The \<open>Publish\<close> steps on a slot that answer true, the \<open>Take\<close> steps that return a reply.\<close>

fun published :: "'a registry \<Rightarrow> 'a reg_op list \<Rightarrow> nat \<Rightarrow> nat" where
  "published r [] sid = 0"
| "published r (p # ps) sid =
     (case p of Publish s v \<Rightarrow> if s = sid \<and> s \<in> set (held r) \<and> fst (publish_slot r s v) then 1 else 0
      | _ \<Rightarrow> 0) + published (reg_step r p) ps sid"

fun taken :: "'a registry \<Rightarrow> 'a reg_op list \<Rightarrow> nat \<Rightarrow> nat" where
  "taken r [] sid = 0"
| "taken r (p # ps) sid =
     (case p of Take s \<Rightarrow> if s = sid \<and> s \<in> set (held r) \<and> fst (take_slot r s) \<noteq> None then 1 else 0
      | _ \<Rightarrow> 0) + taken (reg_step r p) ps sid"

lemma published_bound:
  "reg_ok r \<Longrightarrow> published r ps sid \<le> (if slot_rank r sid = 2 then 1 else 0)"
proof (induction ps arbitrary: r)
  case (Cons p ps)
  note IH = Cons.IH [OF reg_step_ok [OF Cons.prems], of p]
  note le = slot_rank_step [OF Cons.prems, of p sid]
  have r2: "slot_rank r s \<le> 2" for s by (simp add: slot_rank_def)
  show ?case
  proof (cases "\<exists>v. p = Publish sid v \<and> sid \<in> set (held r) \<and> fst (publish_slot r sid v)")
    case True
    then obtain v where p: "p = Publish sid v" "sid \<in> set (held r)" "fst (publish_slot r sid v)" by blast
    then have "slot_rank r sid = 2" "slot_rank (reg_step r p) sid = 1"
      using reg_okD(5) [OF Cons.prems, of sid]
      by (auto simp: publish_slot_def Let_def slot_rank_def release_def set_slot_def split: if_splits)
    with IH p show ?thesis by simp
  next
    case False
    then have "published r (p # ps) sid = published (reg_step r p) ps sid"
      by (cases p) auto
    with IH le r2 [of sid] show ?thesis by (auto split: if_splits)
  qed
qed simp

lemma taken_bound:
  "reg_ok r \<Longrightarrow> taken r ps sid \<le> (if slot_rank r sid = 1 then 1 else 0) + published r ps sid"
proof (induction ps arbitrary: r)
  case (Cons p ps)
  note IH = Cons.IH [OF reg_step_ok [OF Cons.prems], of p]
  note le = slot_rank_step [OF Cons.prems, of p sid]
  show ?case
  proof (cases "\<exists>v. p = Publish sid v \<and> sid \<in> set (held r) \<and> fst (publish_slot r sid v)")
    case True
    then show ?thesis using IH by (auto split: if_splits)
  next
    case nopub: False
    show ?thesis
    proof (cases "p = Take sid \<and> sid \<in> set (held r) \<and> fst (take_slot r sid) \<noteq> None")
      case True
      then have "slot_rank r sid = 1" "slot_rank (reg_step r p) sid = 0"
        using reg_okD(5,7) [OF Cons.prems, of sid]
        by (auto simp: take_slot_def slot_rank_def release_def set_slot_def)
      with IH True show ?thesis by simp
    next
      case False
      have up: "slot_rank (reg_step r p) sid = 1 \<longrightarrow> slot_rank r sid = 1"
      proof (cases "slot_rank r sid = 2")
        case True
        show ?thesis
          using nopub True reg_okD(4-7) [OF Cons.prems, of sid]
          by (cases p) (auto simp: slot_rank_def register_def set_slot_def shard_insert_def
              shard_remove_def release_def publish_slot_def take_slot_def drop_lease_def Let_def
              split: option.splits if_splits)
      next
        case False
        then show ?thesis using le by (auto simp: slot_rank_def split: if_splits)
      qed
      have "taken r (p # ps) sid = taken (reg_step r p) ps sid"
        "published r (p # ps) sid = published (reg_step r p) ps sid"
        using False nopub by (cases p; auto)+
      with IH up show ?thesis by (auto split: if_splits)
    qed
  qed
qed simp


lemma reg_run_ok: "reg_ok r \<Longrightarrow> reg_ok (foldl reg_step r ps)"
  by (rule registry.runs_keep)

lemma no_lease_stays:
  assumes "reg_ok r" "sid \<notin> fst ` set (leases r)" "sid < fresh r"
  shows "sid \<notin> fst ` set (leases (reg_step r p)) \<and> sid < fresh (reg_step r p)"
  using assms
  by (cases p) (auto simp: register_def set_slot_def shard_insert_def shard_remove_def
      release_def publish_slot_def take_slot_def drop_lease_def Let_def split: option.splits)

lemma no_lease_stays_run:
  "reg_ok r \<Longrightarrow> sid \<notin> fst ` set (leases r) \<Longrightarrow> sid < fresh r \<Longrightarrow>
    sid \<notin> fst ` set (leases (foldl reg_step r ps))"
proof (induction ps arbitrary: r)
  case (Cons p ps)
  then show ?case using no_lease_stays [of r sid p] reg_step_ok [of r p] by simp
qed simp

section \<open>Properties\<close>

text \<open>
  C4. The registry under every interleaving of registrations, lookups, deliveries and drops: each
  key has at most one live lease and is found exactly while that lease lives, the two counts
  add up to the leases still active, and once all leases are dropped nothing is left: every
  shard is empty, every slot is inactive and empty, and both counts are zero.
\<close>

theorem registry_tracks_leases:
  assumes "r = foldl reg_step registry_new ps"
  shows "(\<forall>k sid sid'. (sid, k) \<in> set (leases r) \<and> (sid', k) \<in> set (leases r) \<longrightarrow> sid = sid') \<and>
    (\<forall>k sid. find_slot r k = Some sid \<longleftrightarrow> (sid, k) \<in> set (leases r)) \<and>
    fst (counts r) + snd (counts r) =
      length (filter (\<lambda>s. active (slot_of r s)) (map fst (leases r))) \<and>
    (leases r = [] \<longrightarrow> (\<forall>i. shards r i = []) \<and> counts r = (0, 0) \<and>
       (\<forall>sid. slot_of r sid = \<lparr>active = False, content = None\<rparr>))"
proof -
  have ok: "reg_ok r" unfolding assms by (rule reg_run_ok [OF registry_new_ok])
  have "mset (live_slots r) = mset (map fst (leases r))"
    using set_live_slots [OF ok] distinct_live_slots [OF ok] reg_okD(3) [OF ok]
    by (metis set_eq_iff_mset_eq_distinct list.set_map)
  then have len: "length (filter P (live_slots r)) = length (filter P (map fst (leases r)))" for P
    by (metis mset_filter size_mset)
  have part: "length (filter (\<lambda>s. A s \<and> B s) xs) + length (filter (\<lambda>s. A s \<and> \<not> B s) xs) =
      length (filter A xs)" for A B and xs :: "nat list"
    by (induction xs) auto
  have sum: "fst (counts r) + snd (counts r) =
      length (filter (\<lambda>s. active (slot_of r s)) (map fst (leases r)))"
    unfolding counts_eq len fst_conv snd_conv by (rule part)
  have empty: "shards r i = []" if "leases r = []" for i
  proof (rule ccontr)
    assume "shards r i \<noteq> []"
    then obtain k s where "(k, s) \<in> set (shards r i)" by (cases "shards r i") auto
    with reg_okD(1) [OF ok, of k s i] that show False by simp
  qed
  have "slot_of r sid = \<lparr>active = False, content = None\<rparr>" if "leases r = []" for sid
    using reg_okD(6) [OF ok, of sid] that by simp
  moreover have "counts r = (0, 0)" if "leases r = []"
    using sum that by (cases "counts r") simp
  ultimately show ?thesis
    using lease_key_unique [OF ok] find_slot_lease [OF ok] sum empty by blast
qed

definition demo_ops :: "nat reg_op list" where
  "demo_ops = [Register (1, 2), Begin (1, 2), Register (1, 2), Publish 0 7, Drop 0 (1, 2)]"

theorem registry_tracks_leases_witness:
  "counts (foldl reg_step registry_new demo_ops) = (0, 0)"
proof -
  have "leases (foldl reg_step registry_new demo_ops) = []"
    by (simp add: demo_ops_def registry_new_def register_def find_slot_def shard_insert_def
        set_slot_def upgrade_def publish_slot_def release_def drop_lease_def shard_remove_def Let_def)
  then show ?thesis
    using registry_tracks_leases [OF refl, of demo_ops] by simp
qed

lemma slot_rank_new: "slot_rank registry_new sid = 2"
  by (simp add: slot_rank_def registry_new_def)

text \<open>
  Replies are one-shot: in any interleaving at most one \<open>publish\<close> for a lease answers true and
  at most one \<open>take\<close> returns its reply, and none does without a publication.
\<close>

theorem registry_one_shot:
  "published registry_new ps sid \<le> 1 \<and> taken registry_new ps sid \<le> published registry_new ps sid"
  using published_bound [OF registry_new_ok, of ps sid] taken_bound [OF registry_new_ok, of ps sid]
  by (simp add: slot_rank_new)

theorem registry_one_shot_witness: "published registry_new demo_ops 0 \<le> 1"
  using registry_one_shot [of demo_ops 0] by (rule conjunct1)

text \<open>
  A stale reply never reaches a later waiter: once a lease is dropped, whatever happens
  afterwards (its key may be registered again), a worker that had already found its slot gets
  false, leaves every slot as it was, and a taker of that slot gets nothing.
\<close>

theorem registry_no_stale_delivery:
  assumes "reg_ok r" and "(sid, k) \<in> set (leases r)"
    and "r' = foldl reg_step (reg_step r (Drop sid k)) ps"
  shows "publish_slot r' sid v = (False, r') \<and> fst (take_slot r' sid) = None \<and>
    (\<forall>k' sid'. find_slot r' k' = Some sid' \<longrightarrow> sid' \<noteq> sid)"
proof -
  let ?r1 = "reg_step r (Drop sid k)"
  have ok1: "reg_ok ?r1" by (rule reg_step_ok [OF assms(1)])
  have lt: "sid < fresh r" by (rule reg_okD(4) [OF assms(1) lease_fst [OF assms(2)]])
  have fr: "fresh ?r1 = fresh r"
    using assms(2) by (simp add: drop_lease_def Let_def set_slot_def shard_remove_def)
  have "leases ?r1 = filter (\<lambda>l. l \<noteq> (sid, k)) (leases r)"
    using assms(2) by (simp add: drop_lease_def Let_def set_slot_def shard_remove_def)
  then have "(sid, k1) \<notin> set (leases ?r1)" for k1
    using lease_sid_unique [OF assms(1,2), of k1] by auto
  then have "sid \<notin> fst ` set (leases ?r1)" unfolding fst_image_iff by blast
  then have nl: "sid \<notin> fst ` set (leases r')"
    unfolding assms(3) using no_lease_stays_run [OF ok1] lt fr by simp
  have ok': "reg_ok r'" unfolding assms(3) by (rule reg_run_ok [OF ok1])
  have "slot_of r' sid = \<lparr>active = False, content = None\<rparr>" by (rule reg_okD(6) [OF ok' nl])
  moreover have "find_slot r' k' = Some sid' \<Longrightarrow> sid' \<noteq> sid" for k' sid'
    using find_slot_lease [OF ok'] nl lease_fst by metis
  ultimately show ?thesis by (auto simp: publish_slot_def take_slot_def)
qed

theorem registry_no_stale_delivery_witness:
  "\<exists>r :: nat registry. publish_slot r 0 7 = (False, r) \<and> find_slot r (1, 2) = Some 1"
proof -
  let ?r = "foldl reg_step registry_new [Register (1, 2), Begin (1, 2)] :: nat registry"
  let ?r' = "foldl reg_step (reg_step ?r (Drop 0 (1, 2))) [Register (1, 2)]"
  have "(0, (1, 2)) \<in> set (leases ?r)"
    by (simp add: registry_new_def register_def find_slot_def shard_insert_def set_slot_def upgrade_def)
  from registry_no_stale_delivery [OF reg_run_ok [OF registry_new_ok] this refl, of "[Register (1, 2)]" 7]
  have "publish_slot ?r' 0 7 = (False, ?r')" by blast
  moreover have "find_slot ?r' (1, 2) = Some 1"
    by (simp add: registry_new_def register_def find_slot_def shard_insert_def set_slot_def
        upgrade_def drop_lease_def shard_remove_def Let_def)
  ultimately show ?thesis by blast
qed

text \<open>
  The protocol of one call: a free key can be registered, a second registration is refused, the
  first publication is accepted and taken, a second one is refused, a second \<open>take\<close> finds
  nothing, and dropping the lease frees the key and leaves the other keys as they were.
\<close>

theorem registry_protocol:
  assumes "reg_ok r" and "find_slot r k = None"
  shows "\<exists>sid r1. register r k = (Inr sid, r1) \<and> fst (register r1 k) \<noteq> Inr sid' \<and>
    (let r2 = snd (publish r1 k v); r3 = snd (take_response r2 k); r4 = drop_lease r3 sid k in
      fst (publish r1 k v) \<and> \<not> fst (publish r2 k w) \<and> fst (take_response r2 k) = Some v \<and>
      fst (take_response r3 k) = None \<and> \<not> fst (publish r3 k w) \<and> find_slot r4 k = None \<and>
      (\<forall>k'. k' \<noteq> k \<longrightarrow> find_slot r4 k' = find_slot r k'))"
proof -
  let ?r1 = "snd (register r k)"
  have reg: "register r k = (Inr (fresh r), ?r1)" using assms(2) by (simp add: register_def)
  have ok1: "reg_ok ?r1" by (rule register_ok [OF assms(1)])
  have ls: "leases ?r1 = (fresh r, k) # leases r" and sl: "slot_of ?r1 (fresh r) = \<lparr>active = True, content = None\<rparr>"
    using assms(2) by (simp_all add: register_def set_slot_def shard_insert_def)
  have f1: "find_slot ?r1 k = Some (fresh r)" using find_slot_lease [OF ok1] ls by simp
  let ?r2 = "set_slot ?r1 (fresh r) \<lparr>active = True, content = Some v\<rparr>"
  let ?r3 = "set_slot ?r2 (fresh r) \<lparr>active = False, content = None\<rparr>"
  have fs: "find_slot (set_slot x s y) k' = find_slot x k'" for x :: "'a registry" and s y k'
    by (simp add: find_slot_def set_slot_def upgrade_def split: option.splits)
  have p1: "publish ?r1 k v = (True, ?r2)"
    using f1 sl by (simp add: publish_def publish_slot_def)
  have t2: "take_response ?r2 k = (Some v, ?r3)"
    using f1 by (simp add: take_response_def take_slot_def fs) (simp add: set_slot_def)
  have rest: "\<not> fst (publish ?r2 k w)" "fst (take_response ?r3 k) = None" "\<not> fst (publish ?r3 k w)"
    using f1 by (simp_all add: publish_def publish_slot_def take_response_def take_slot_def fs)
      (simp_all add: set_slot_def)
  have ok3: "reg_ok ?r3"
    using ok1 ls by (intro set_slot_ok) (auto simp: set_slot_def)
  have l3: "(fresh r, k) \<in> set (leases ?r3)" using ls by (simp add: set_slot_def)
  have ok4: "reg_ok (drop_lease ?r3 (fresh r) k)" by (rule drop_lease_ok [OF ok3 l3])
  have nl: "(s, k) \<notin> set (leases r)" for s using find_slot_lease [OF assms(1), of k s] assms(2) by simp
  have "leases (drop_lease ?r3 (fresh r) k) = filter (\<lambda>l. l \<noteq> (fresh r, k)) (leases r)"
    using ls by (simp add: drop_lease_def Let_def set_slot_def shard_remove_def)
  then have l4: "(s, k') \<in> set (leases (drop_lease ?r3 (fresh r) k)) \<longleftrightarrow> (s, k') \<in> set (leases r)" for s k'
    using nl by auto
  have f4: "find_slot (drop_lease ?r3 (fresh r) k) k' = find_slot r k'" for k'
    by (rule option_ext) (simp only: find_slot_lease [OF ok4] find_slot_lease [OF assms(1)] l4)
  have again: "fst (register ?r1 k) \<noteq> Inr sid'" using f1 by (simp add: register_def)
  have "find_slot (drop_lease ?r3 (fresh r) k) k = None" using f4 assms(2) by metis
  then show ?thesis
    using reg again p1 t2 rest f4 unfolding Let_def by (metis fst_conv snd_conv)
qed

theorem registry_protocol_witness:
  "\<exists>sid (r1 :: nat registry). register registry_new (3, 4) = (Inr sid, r1) \<and> fst (publish r1 (3, 4) 9)"
  using registry_protocol [OF registry_new_ok, of "(3, 4)" 0 9 9]
  by (auto simp: find_slot_def registry_new_def Let_def)

end
