(* ===== verification/PgDatetime.thy ===== *)
theory PgDatetime
  imports Prelude
begin

text \<open>
  The PostgreSQL binary temporal values of \<open>crates/libs/lib-lualib/src/sqlx_pg_datetime.rs\<close>:
  days and microseconds since 2000-01-01 as text. The numbers are \<open>int\<close>; \<open>civil_bounds\<close> shows
  that every intermediate value fits an \<open>i64\<close>, and for the operands that occur (never negative
  where \<open>/\<close> and \<open>%\<close> are used) HOL's \<open>div\<close> and \<open>mod\<close> agree with Rust's.
\<close>

section \<open>The code\<close>

definition day_us :: int where "day_us = 86400000000"

text \<open>The year, month and day that \<open>civil_date\<close> computes before formatting.\<close>

definition civil_ymd :: "int \<Rightarrow> int \<times> int \<times> int" where
  "civil_ymd pg_days =
     (let z = pg_days + 10957 + 719468;
          era = z div 146097;
          doe = z mod 146097;
          yoe = (doe - doe div 1460 + doe div 36524 - doe div 146096) div 365;
          year = yoe + era * 400;
          doy = doe - (365 * yoe + yoe div 4 - yoe div 100);
          mp = (5 * doy + 2) div 153;
          day = doy - (153 * mp + 2) div 5 + 1;
          month = mp + (if mp < 10 then 3 else -9)
      in (year + (if month \<le> 2 then 1 else 0), month, day))"

definition show_pad :: "nat \<Rightarrow> int \<Rightarrow> string" where
  "show_pad w n = pad0 w (show_int n)"

definition civil_date :: "int \<Rightarrow> string" where
  "civil_date pg_days =
     (case civil_ymd pg_days of (year, month, day) \<Rightarrow>
        (if 0 \<le> year \<and> year \<le> 9999 then show_pad 4 year
         else if year < 0 then ''-'' @ show_pad 4 (- year)
         else ''+'' @ show_int year) @ ''-'' @ show_pad 2 month @ ''-'' @ show_pad 2 day)"

definition pg_date :: "int \<Rightarrow> string" where
  "pg_date days =
     (if days = i32_max then ''infinity'' else if days = i32_min then ''-infinity''
      else civil_date days)"

definition pg_time :: "int \<Rightarrow> string + string" where
  "pg_time micros =
     (if \<not> (0 \<le> micros \<and> micros \<le> day_us)
      then Inl ''PostgreSQL TIME is outside 00:00:00..24:00:00''
      else let seconds = micros div 1000000; fraction = micros mod 1000000 in
        Inr (show_pad 2 (seconds div 3600) @ '':'' @ show_pad 2 (seconds div 60 mod 60) @ '':'' @
          show_pad 2 (seconds mod 60) @
          (if fraction \<noteq> 0
           then (if fraction mod 1000 = 0 then ''.'' @ show_pad 3 (fraction div 1000)
                 else ''.'' @ show_pad 6 fraction)
           else [])))"

definition pg_timestamp :: "int \<Rightarrow> bool \<Rightarrow> string + string" where
  "pg_timestamp micros utc =
     (if micros = i64_max then Inr ''infinity'' else if micros = i64_min then Inr ''-infinity''
      else ebind (pg_time (micros mod day_us)) (\<lambda>t.
        Inr (civil_date (micros div day_us) @ (if utc then ''T'' else '' '') @ t @
          (if utc then ''Z'' else []))))"

definition pg_timetz :: "int \<Rightarrow> int \<Rightarrow> string + string" where
  "pg_timetz micros seconds_west =
     (if \<not> (-57599 \<le> seconds_west \<and> seconds_west \<le> 57599)
      then Inl ''PostgreSQL TIMETZ timezone offset is out of range''
      else let offset = \<bar>seconds_west\<bar> in
        ebind (pg_time micros) (\<lambda>t.
          Inr (t @ (if seconds_west > 0 then ''-'' else ''+'') @ show_pad 2 (offset div 3600) @ '':'' @
            show_pad 2 (offset div 60 mod 60) @
            (if offset mod 60 \<noteq> 0 then '':'' @ show_pad 2 (offset mod 60) else []))))"

section \<open>The Gregorian calendar\<close>

text \<open>The specification: leap years, month lengths and the number of days before a date.\<close>

definition leap :: "int \<Rightarrow> bool" where
  "leap y \<longleftrightarrow> y mod 4 = 0 \<and> (y mod 100 \<noteq> 0 \<or> y mod 400 = 0)"

definition month_days :: "int \<Rightarrow> int \<Rightarrow> int" where
  "month_days y m =
     (if m = 2 then (if leap y then 29 else 28) else if m \<in> {4, 6, 9, 11} then 30 else 31)"

definition valid_date :: "int \<times> int \<times> int \<Rightarrow> bool" where
  "valid_date d = (case d of (y, m, dd) \<Rightarrow> 1 \<le> m \<and> m \<le> 12 \<and> 1 \<le> dd \<and> dd \<le> month_days y m)"

text \<open>The day after a date.\<close>

definition next_day :: "int \<times> int \<times> int \<Rightarrow> int \<times> int \<times> int" where
  "next_day d = (case d of (y, m, dd) \<Rightarrow>
     if dd < month_days y m then (y, m, dd + 1)
     else if m < 12 then (y, m + 1, 1) else (y + 1, 1, 1))"

text \<open>The first and the last day of the March-based year \<open>y\<close> of an era.\<close>

definition year_start :: "int \<Rightarrow> int" where
  "year_start y = 365 * y + y div 4 - y div 100"

definition year_end :: "int \<Rightarrow> int" where
  "year_end y = (if y = 399 then 146096 else year_start (y + 1) - 1)"

text \<open>The correction that makes a division by 365 find the year, and the calendar of one year.\<close>

definition month_day :: "int \<Rightarrow> int \<times> int" where
  "month_day doy =
     (let mp = (5 * doy + 2) div 153 in
      (mp + (if mp < 10 then 3 else -9), doy - (153 * mp + 2) div 5 + 1))"

definition guess :: "int \<Rightarrow> int" where
  "guess doe = doe - doe div 1460 + doe div 36524 - doe div 146096"


lemma div_eqI: "x = k * q + r \<Longrightarrow> 0 \<le> r \<Longrightarrow> r < k \<Longrightarrow> x div k = (q :: int)"
  by (rule int_div_pos_eq)

lemma year_split:
  fixes y :: int
  assumes "0 \<le> y" "y \<le> 399"
  obtains c a b where "y = 100 * c + 4 * a + b" "0 \<le> c" "c \<le> 3" "0 \<le> a" "a \<le> 24" "0 \<le> b" "b \<le> 3"
    "year_start y = 36524 * c + 1461 * a + 365 * b"
proof -
  define c where "c = y div 100"
  define a where "a = y mod 100 div 4"
  define b where "b = y mod 100 mod 4"
  have y1: "y = 100 * c + 4 * a + b"
    using mult_div_mod_eq [of 100 y] mult_div_mod_eq [of 4 "y mod 100"]
    unfolding a_def b_def c_def by linarith
  have y2: "0 \<le> c" "c \<le> 3" "0 \<le> b" "b \<le> 3" using assms by (simp_all add: b_def c_def)
  have y3: "0 \<le> y mod 100" "y mod 100 < 100" by simp_all
  then have "0 \<le> a" "a \<le> 24" unfolding a_def by linarith+
  note y = y1 y2(1,2) this y2(3,4)
  have "y div 4 = 25 * c + a" using y by (intro div_eqI [of _ _ _ b]) simp_all
  moreover have "y div 100 = c" by (simp add: c_def)
  ultimately have "year_start y = 36524 * c + 1461 * a + 365 * b"
    using y by (simp add: year_start_def)
  with y show ?thesis by (rule that)
qed

lemma guess_start:
  assumes "0 \<le> y" "y \<le> 399"
  shows "guess (year_start y) = 365 * y"
proof -
  obtain c a b where s: "y = 100 * c + 4 * a + b" "0 \<le> c" "c \<le> 3" "0 \<le> a" "a \<le> 24" "0 \<le> b" "b \<le> 3"
    "year_start y = 36524 * c + 1461 * a + 365 * b"
    using year_split [OF assms] by blast
  have "year_start y div 1460 = 25 * c + a"
    using s by (intro div_eqI [of _ _ _ "24 * c + a + 365 * b"]) simp_all
  moreover have "year_start y div 36524 = c"
    using s by (intro div_eqI [of _ _ _ "1461 * a + 365 * b"]) simp_all
  moreover have "year_start y div 146096 = 0"
    using s by (intro div_eqI [of _ _ _ "year_start y"]) simp_all
  ultimately show ?thesis using s by (simp add: guess_def)
qed

lemma guess_end:
  assumes "0 \<le> y" "y \<le> 399"
  shows "guess (year_end y) < 365 * (y + 1)"
proof (cases "y = 399")
  case True
  then show ?thesis by (simp add: guess_def year_end_def)
next
  case False
  then obtain c a b where s: "y + 1 = 100 * c + 4 * a + b" "0 \<le> c" "c \<le> 3" "0 \<le> a" "a \<le> 24"
    "0 \<le> b" "b \<le> 3" "year_start (y + 1) = 36524 * c + 1461 * a + 365 * b"
    using year_split [of "y + 1"] assms by auto
  have pos: "1 \<le> 24 * c + a + 365 * b" using s assms by linarith
  have e: "year_end y = 36524 * c + 1461 * a + 365 * b - 1" using False s by (simp add: year_end_def)
  have "year_end y div 1460 = 25 * c + a"
    using s e pos by (intro div_eqI [of _ _ _ "24 * c + a + 365 * b - 1"]) simp_all
  moreover have "year_end y div 36524 \<le> c"
  proof -
    have "year_end y div 36524 \<le> (36524 * c + 36523) div 36524"
      using s e by (intro zdiv_mono1) simp_all
    also have "\<dots> = c" by (rule div_eqI [of _ _ _ 36523]) simp_all
    finally show ?thesis .
  qed
  moreover have "year_end y div 146096 \<ge> 0"
    using s e pos by (intro pos_imp_zdiv_nonneg_iff [THEN iffD2]) simp_all
  ultimately show ?thesis using s e by (simp add: guess_def)
qed

lemma sub_div_mono:
  fixes x y k :: int
  assumes "x \<le> y" "0 < k"
  shows "x - x div k \<le> y - y div k"
proof -
  have "(y - x) * 1 \<le> (y - x) * k" using assms by (intro mult_left_mono) simp_all
  then have "y \<le> x + (y - x) * k" by simp
  then have "y div k \<le> (x + (y - x) * k) div k" using assms(2) by (rule zdiv_mono1)
  also have "\<dots> = x div k + (y - x)" using assms(2) by simp
  finally show ?thesis by simp
qed

lemma guess_mono:
  assumes "x \<le> y"
  shows "guess x \<le> guess y"
proof -
  have q: "z div 146096 = z div 36524 div 4" for z :: int
    using zdiv_zmult2_eq [of 4 z 36524] by simp
  have "x - x div 1460 \<le> y - y div 1460" by (rule sub_div_mono [OF assms]) simp
  moreover have "x div 36524 - x div 36524 div 4 \<le> y div 36524 - y div 36524 div 4"
    by (rule sub_div_mono) (simp_all add: zdiv_mono1 assms)
  ultimately show ?thesis unfolding guess_def q by linarith
qed

lemma year_exists:
  assumes "0 \<le> doe" "doe \<le> 146096"
  shows "\<exists>y. 0 \<le> y \<and> y \<le> 399 \<and> year_start y \<le> doe \<and> doe \<le> year_end y"
proof (cases "year_start 399 \<le> doe")
  case True
  then show ?thesis using assms by (intro exI [of _ 399]) (simp add: year_end_def)
next
  case False
  have "doe < year_start (int n) \<Longrightarrow> n \<le> 399 \<Longrightarrow>
      \<exists>y. 0 \<le> y \<and> y \<le> 399 \<and> year_start y \<le> doe \<and> doe \<le> year_end y" for n
  proof (induction n)
    case 0
    then show ?case using assms by (simp add: year_start_def)
  next
    case (Suc n)
    show ?case
    proof (cases "doe < year_start (int n)")
      case True
      with Suc show ?thesis by simp
    next
      case False
      with Suc.prems show ?thesis
        by (intro exI [of _ "int n"]) (simp add: year_end_def add.commute)
    qed
  qed
  from this [of 399] False show ?thesis by simp
qed

lemma guess_year:
  assumes "0 \<le> y" "y \<le> 399" "year_start y \<le> doe" "doe \<le> year_end y"
  shows "guess doe div 365 = y"
proof -
  have "365 * y \<le> guess doe" "guess doe < 365 * (y + 1)"
    using guess_mono [OF assms(3)] guess_mono [OF assms(4)] guess_start [OF assms(1,2)]
      guess_end [OF assms(1,2)] by linarith+
  then show ?thesis by (intro div_eqI [of _ _ _ "guess doe - 365 * y"]) simp_all
qed

lemma div_step:
  fixes y k :: int
  assumes "1 < k"
  shows "(y + 1) div k = y div k + (if (y + 1) mod k = 0 then 1 else 0)"
proof (cases "(y + 1) mod k = 0")
  case True
  then have "y + 1 = k * ((y + 1) div k)" using mult_div_mod_eq [of k "y + 1"] by simp
  then have "y div k = (y + 1) div k - 1"
    using assms by (intro div_eqI [of _ _ _ "k - 1"]) (simp_all add: algebra_simps)
  with True show ?thesis by simp
next
  case False
  have "y = k * ((y + 1) div k) + ((y + 1) mod k - 1)" using mult_div_mod_eq [of k "y + 1"] by linarith
  moreover have m: "0 \<le> (y + 1) mod k" "(y + 1) mod k < k" using assms by simp_all
  moreover have "0 \<le> (y + 1) mod k - 1" "(y + 1) mod k - 1 < k" using m False by linarith+
  ultimately have "y div k = (y + 1) div k" by (metis div_eqI)
  with False show ?thesis by simp
qed

lemma year_length:
  assumes "0 \<le> y" "y \<le> 399"
  shows "year_end y - year_start y = (if leap (y + 1) then 365 else 364)"
proof (cases "y = 399")
  case True
  then show ?thesis by (simp add: year_end_def year_start_def leap_def)
next
  case False
  then have "(y + 1) mod 400 = y + 1" using assms by (intro mod_pos_pos_trivial) simp_all
  moreover have "(y + 1) mod 4 = 0" if "(y + 1) mod 100 = 0" using that by presburger
  moreover have "year_start (y + 1) = year_start y + 365 + (if (y + 1) mod 4 = 0 then 1 else 0) -
      (if (y + 1) mod 100 = 0 then 1 else 0)"
  proof -
    have "(y + 1) div 4 = y div 4 + (if (y + 1) mod 4 = 0 then 1 else 0)" by (rule div_step) simp
    moreover have "(y + 1) div 100 = y div 100 + (if (y + 1) mod 100 = 0 then 1 else 0)"
      by (rule div_step) simp
    ultimately show ?thesis unfolding year_start_def by simp
  qed
  ultimately show ?thesis
    unfolding year_end_def leap_def using False assms
    by (cases "(y + 1) mod 4 = 0"; cases "(y + 1) mod 100 = 0") simp_all
qed

lemma leap_era: "leap (x + e * 400) = leap x"
proof -
  have "(x + (e * 100) * 4) mod 4 = x mod 4" "(x + (e * 4) * 100) mod 100 = x mod 100"
    "(x + e * 400) mod 400 = x mod 400"
    by (rule mod_mult_self1)+
  then show ?thesis by (simp add: leap_def mult.commute [of e])
qed

lemma month_day_valid_table:
  "list_all (\<lambda>doy. case month_day doy of (m, d) \<Rightarrow> 1 \<le> m \<and> m \<le> 12 \<and> 1 \<le> d \<and>
     d \<le> (if m = 2 then (if doy = 365 then 29 else 28) else month_days 1 m)) [0..365]"
  by code_simp

lemma month_day_step_table:
  "list_all (\<lambda>doy. case month_day doy of (m, d) \<Rightarrow>
     month_day (doy + 1) =
       (if d < month_days 1 m then (m, d + 1) else if m < 12 then (m + 1, 1) else (1, 1)) \<and>
     (m = 2 \<longrightarrow> d < 28)) [0..363]"
  by code_simp


text \<open>The date of day \<open>doy\<close> of the March-based year \<open>y\<close>.\<close>

definition march_date :: "int \<Rightarrow> int \<Rightarrow> int \<times> int \<times> int" where
  "march_date y doy =
     (case month_day doy of (m, d) \<Rightarrow> (y + (if m \<le> 2 then 1 else 0), m, d))"

lemma civil_decompose:
  obtains e y doy where "pg_days + 730425 = e * 146097 + year_start y + doy" "0 \<le> y" "y \<le> 399"
    "0 \<le> doy" "doy \<le> (if leap (y + 1) then 365 else 364)"
    "civil_ymd pg_days = march_date (y + e * 400) doy"
proof -
  define z where "z = pg_days + 730425"
  define e where "e = z div 146097"
  define doe where "doe = z mod 146097"
  have doe: "0 \<le> doe" "doe \<le> 146096" unfolding doe_def
    using pos_mod_bound [of 146097 z] by simp_all
  then obtain y where y: "0 \<le> y" "y \<le> 399" "year_start y \<le> doe" "doe \<le> year_end y"
    using year_exists by blast
  define doy where "doy = doe - year_start y"
  have g: "guess doe div 365 = y" by (rule guess_year [OF y])
  have ze: "z = e * 146097 + year_start y + doy"
    using mult_div_mod_eq [of 146097 z] unfolding e_def doy_def doe_def by linarith
  have le: "0 \<le> doy" "doy \<le> (if leap (y + 1) then 365 else 364)"
    using y year_length [OF y(1,2)] unfolding doy_def by linarith+
  have hz: "pg_days + 10957 + 719468 = z" by (simp add: z_def)
  have "doe - (365 * y + y div 4 - y div 100) = doy" by (simp add: doy_def year_start_def)
  then have "civil_ymd pg_days = march_date (y + e * 400) doy"
    unfolding civil_ymd_def Let_def hz e_def [symmetric] doe_def [symmetric]
      g [unfolded guess_def] march_date_def month_day_def prod.case by simp
  with ze y le show ?thesis by (intro that [of e y doy]) (simp_all add: z_def)
qed

lemma civil_at:
  assumes "pg_days + 730425 = e * 146097 + year_start y + doy" "0 \<le> y" "y \<le> 399"
    "0 \<le> doy" "doy \<le> (if leap (y + 1) then 365 else 364)"
  shows "civil_ymd pg_days = march_date (y + e * 400) doy"
proof -
  define doe where "doe = year_start y + doy"
  have d: "year_start y \<le> doe" "doe \<le> year_end y"
    using assms year_length [OF assms(2,3)] unfolding doe_def by linarith+
  have "year_end y \<le> 146096"
  proof (cases "y = 399")
    case False
    then have "y + 1 \<le> 399" "0 \<le> y + 1" using assms by simp_all
    then obtain c a b where "year_start (y + 1) = 36524 * c + 1461 * a + 365 * b" "c \<le> 3" "a \<le> 24" "b \<le> 3"
      using year_split [of "y + 1"] by blast
    then show ?thesis using False by (simp add: year_end_def)
  qed (simp add: year_end_def)
  moreover have "0 \<le> year_start y"
    using year_split [OF assms(2,3)] by (metis add_nonneg_nonneg mult_nonneg_nonneg zero_le_numeral)
  ultimately have b: "0 \<le> doe" "doe < 146097" using d by linarith+
  have z: "pg_days + 730425 = 146097 * e + doe" using assms(1) by (simp add: doe_def)
  have "(pg_days + 730425) div 146097 = e" by (rule div_eqI [OF z b])
  moreover from this have "(pg_days + 730425) mod 146097 = doe"
    using mult_div_mod_eq [of 146097 "pg_days + 730425"] z by linarith
  moreover have g: "guess doe div 365 = y" by (rule guess_year [OF assms(2,3) d])
  moreover have hz: "pg_days + 10957 + 719468 = pg_days + 730425" by simp
  moreover have "doe - (365 * y + y div 4 - y div 100) = doy" by (simp add: doe_def year_start_def)
  ultimately show ?thesis
    unfolding civil_ymd_def Let_def hz march_date_def month_day_def prod.case
    by (simp only: g [unfolded guess_def])
qed


lemma month_day_valid:
  assumes "0 \<le> doy" "doy \<le> 365"
  shows "1 \<le> fst (month_day doy) \<and> fst (month_day doy) \<le> 12 \<and> 1 \<le> snd (month_day doy) \<and>
    snd (month_day doy) \<le> (if fst (month_day doy) = 2 then (if doy = 365 then 29 else 28)
      else month_days 1 (fst (month_day doy)))"
proof -
  have "doy \<in> set [0..365]" unfolding set_upto using assms by simp
  then show ?thesis
    by (rule bspec [OF month_day_valid_table [unfolded list_all_iff], unfolded case_prod_beta])
qed

lemma month_day_step:
  assumes "0 \<le> doy" "doy \<le> 363"
  shows "month_day (doy + 1) =
      (if snd (month_day doy) < month_days 1 (fst (month_day doy))
       then (fst (month_day doy), snd (month_day doy) + 1)
       else if fst (month_day doy) < 12 then (fst (month_day doy) + 1, 1) else (1, 1)) \<and>
    (fst (month_day doy) = 2 \<longrightarrow> snd (month_day doy) < 28)"
proof -
  have "doy \<in> set [0..363]" unfolding set_upto using assms by simp
  then show ?thesis
    by (rule bspec [OF month_day_step_table [unfolded list_all_iff], unfolded case_prod_beta])
qed

lemma month_day_ends: "month_day 0 = (3, 1)" "month_day 364 = (2, 28)" "month_day 365 = (2, 29)"
  by (simp_all add: month_day_def)

lemma leap_march: "leap (y + e * 400 + 1) = leap (y + 1)"
  using leap_era [of "y + 1" e] by (simp add: algebra_simps)

lemma month_days_other: "m \<noteq> 2 \<Longrightarrow> month_days y m = month_days 1 m"
  by (simp add: month_days_def)

lemma march_date_valid:
  assumes "0 \<le> doy" "doy \<le> (if leap (y + 1) then 365 else 364)"
  shows "valid_date (march_date y doy)"
proof -
  obtain m d where md: "month_day doy = (m, d)" by (cases "month_day doy")
  have "doy \<le> 365" using assms(2) by (simp split: if_splits)
  note v = month_day_valid [OF assms(1) this, unfolded md fst_conv snd_conv]
  show ?thesis
  proof (cases "m = 2")
    case True
    with v assms md show ?thesis
      by (auto simp: valid_date_def march_date_def month_days_def split: if_splits)
  next
    case False
    with v md show ?thesis
      by (auto simp: valid_date_def march_date_def month_days_other [of m y] month_days_other [of m "y + 1"])
  qed
qed

lemma march_date_next:
  assumes "0 \<le> doy" "doy < (if leap (y + 1) then 365 else 364)"
  shows "march_date y (doy + 1) = next_day (march_date y doy)"
proof (cases "doy = 364")
  case True
  then have "leap (y + 1)" using assms by (simp split: if_splits)
  with True show ?thesis
    by (simp add: march_date_def month_day_ends next_day_def month_days_def)
next
  case False
  then have "doy \<le> 363" using assms by (auto split: if_splits)
  obtain m d where md: "month_day doy = (m, d)" by (cases "month_day doy")
  note s = month_day_step [OF assms(1) \<open>doy \<le> 363\<close>, unfolded md fst_conv snd_conv]
  note v = month_day_valid [OF assms(1), unfolded md fst_conv snd_conv]
  show ?thesis
  proof (cases "m = 2")
    case True
    with s md show ?thesis by (simp add: march_date_def next_day_def month_days_def)
  next
    case False
    with s v md \<open>doy \<le> 363\<close> show ?thesis
      by (auto simp: march_date_def next_day_def month_days_other [of m y] month_days_other [of m "y + 1"])
  qed
qed

lemma march_date_last:
  "march_date (y + 1) 0 = next_day (march_date y (if leap (y + 1) then 365 else 364))"
  by (simp add: march_date_def month_day_ends next_day_def month_days_def)

section \<open>Properties\<close>

text \<open>
  C34. The calendar is right for every day, without limit: day 0 is 2000-01-01, every day is a
  valid Gregorian date (proleptic, with a year 0), and the next day is the calendar's next day.
\<close>

theorem civil_date_calendar:
  "civil_ymd 0 = (2000, 1, 1) \<and> valid_date (civil_ymd n) \<and> civil_ymd (n + 1) = next_day (civil_ymd n)"
proof (intro conjI)
  show "civil_ymd 0 = (2000, 1, 1)" by code_simp
  obtain e y doy where d: "n + 730425 = e * 146097 + year_start y + doy" "0 \<le> y" "y \<le> 399"
    "0 \<le> doy" "doy \<le> (if leap (y + 1) then 365 else 364)" "civil_ymd n = march_date (y + e * 400) doy"
    by (rule civil_decompose)
  show "valid_date (civil_ymd n)"
    unfolding d(6) by (rule march_date_valid) (use d leap_march in auto)
  show "civil_ymd (n + 1) = next_day (civil_ymd n)"
  proof (cases "doy < (if leap (y + 1) then 365 else 364)")
    case True
    have "civil_ymd (n + 1) = march_date (y + e * 400) (doy + 1)"
      by (rule civil_at) (use d True in \<open>auto split: if_splits\<close>)
    also have "\<dots> = next_day (march_date (y + e * 400) doy)"
      by (rule march_date_next) (use d True in \<open>simp_all add: leap_march\<close>)
    finally show ?thesis by (simp add: d(6))
  next
    case False
    then have last: "doy = (if leap (y + e * 400 + 1) then 365 else 364)"
      using d(5) by (simp add: leap_march)
    have len: "doy = year_end y - year_start y"
      using last year_length [OF d(2,3)] by (simp add: leap_march)
    have "civil_ymd (n + 1) = march_date (y + e * 400 + 1) 0"
    proof (cases "y = 399")
      case True
      have "civil_ymd (n + 1) = march_date (0 + (e + 1) * 400) 0"
        by (rule civil_at) (use d(1) len True in \<open>simp_all add: year_end_def year_start_def\<close>)
      then show ?thesis using True by (simp add: algebra_simps)
    next
      case False
      have "civil_ymd (n + 1) = march_date (y + 1 + e * 400) 0"
        by (rule civil_at) (use d(1-3) len False in \<open>simp_all add: year_end_def\<close>)
      then show ?thesis by (simp add: algebra_simps)
    qed
    then show ?thesis using last march_date_last [of "y + e * 400"] by (simp add: d(6))
  qed
qed

theorem civil_date_calendar_witness: "civil_ymd (59 + 1) = next_day (2000, 2, 29)"
proof -
  have "civil_ymd 59 = (2000, 2, 29)" by code_simp
  then show ?thesis using civil_date_calendar [of 59] by simp
qed


lemma show_pad_nat: "0 \<le> n \<Longrightarrow> show_pad w n = pad0 w (show_nat (nat n))"
  by (simp add: show_pad_def show_int_def)

lemma digits_val_zeros: "digits_val (replicate k (CHR ''0'') @ s) = digits_val s"
  by (induction k) (simp_all add: digits_val_def digit_val_def)

lemma digits_val_pad: "0 \<le> n \<Longrightarrow> digits_val (show_pad w n) = nat n"
  by (simp add: show_pad_nat pad0_def digits_val_zeros digits_val_show_nat)

lemma show_nat_length: "n < 10 ^ k \<Longrightarrow> 0 < k \<Longrightarrow> length (show_nat n) \<le> k"
proof (induction k arbitrary: n)
  case (Suc k)
  show ?case
  proof (cases "n < 10")
    case True
    then show ?thesis by (subst show_nat.simps) simp
  next
    case False
    then have "k \<noteq> 0" using Suc.prems by (cases k) auto
    moreover have "n div 10 < 10 ^ k" using Suc.prems by (simp add: less_mult_imp_div_less mult.commute)
    ultimately show ?thesis using Suc.IH [of "n div 10"] False by (subst show_nat.simps) simp
  qed
qed simp

lemma show_pad_length: "0 \<le> n \<Longrightarrow> n < 10 ^ w \<Longrightarrow> 0 < w \<Longrightarrow> length (show_pad w n) = w"
proof -
  assume a: "0 \<le> n" "n < 10 ^ w" "0 < w"
  then have "nat n < 10 ^ w" by (simp add: nat_less_iff)
  then show ?thesis using a show_nat_length [of "nat n" w] by (simp add: show_pad_nat pad0_def)
qed

lemma show_pad_inj:
  "show_pad w n = show_pad w m \<Longrightarrow> 0 \<le> n \<Longrightarrow> 0 \<le> m \<Longrightarrow> n = m"
  using digits_val_pad [of n w] digits_val_pad [of m w] by simp

definition time_text :: "int \<Rightarrow> int \<Rightarrow> int \<Rightarrow> int \<Rightarrow> string" where
  "time_text h m s f = show_pad 2 h @ '':'' @ show_pad 2 m @ '':'' @ show_pad 2 s @
     (if f = 0 then [] else if f mod 1000 = 0 then ''.'' @ show_pad 3 (f div 1000) else ''.'' @ show_pad 6 f)"

lemma time_text_inj:
  assumes "time_text h m s f = time_text h' m' s' f'"
    and "0 \<le> h \<and> h \<le> 24 \<and> 0 \<le> m \<and> m < 60 \<and> 0 \<le> s \<and> s < 60 \<and> 0 \<le> f \<and> f < 1000000"
    and "0 \<le> h' \<and> h' \<le> 24 \<and> 0 \<le> m' \<and> m' < 60 \<and> 0 \<le> s' \<and> s' < 60 \<and> 0 \<le> f' \<and> f' < 1000000"
  shows "h = h' \<and> m = m' \<and> s = s' \<and> f = f'"
proof -
  have len: "length (show_pad 2 x) = 2" if "0 \<le> x" "x < 60" for x
    using show_pad_length [of x 2] that by simp
  have eqs: "show_pad 2 h = show_pad 2 h'" "show_pad 2 m = show_pad 2 m'" "show_pad 2 s = show_pad 2 s'"
    "(if f = 0 then [] else if f mod 1000 = 0 then ''.'' @ show_pad 3 (f div 1000) else ''.'' @ show_pad 6 f) =
     (if f' = 0 then [] else if f' mod 1000 = 0 then ''.'' @ show_pad 3 (f' div 1000) else ''.'' @ show_pad 6 f')"
    using assms len [of h] len [of h'] len [of m] len [of m'] len [of s] len [of s']
    unfolding time_text_def by (simp_all only: append_eq_append_conv append_Cons append_Nil list.inject) auto
  have l3: "length (show_pad 3 (x div 1000)) = 3" if "0 \<le> x" "x < 1000000" for x
    using show_pad_length [of "x div 1000" 3] that by simp
  have l6: "length (show_pad 6 x) = 6" if "0 \<le> x" "x < 1000000" for x
    using show_pad_length [of x 6] that by simp
  have "f = f'"
  proof (cases "f = 0 \<or> f' = 0")
    case True
    then show ?thesis using eqs(4) by (auto split: if_splits)
  next
    case False
    then show ?thesis
      using eqs(4) assms l3 [of f] l3 [of f'] l6 [of f] l6 [of f'] show_pad_inj [of 6 f f']
        show_pad_inj [of 3 "f div 1000" "f' div 1000"] mult_div_mod_eq [of 1000 f] mult_div_mod_eq [of 1000 f']
      by (auto split: if_splits)
  qed
  then show ?thesis using eqs(1-3) assms show_pad_inj [of 2] by blast
qed

lemma hms_split: "((q div 3600) * 60 + q div 60 mod 60) * 60 + q mod 60 = (q::int)"
proof -
  have "q div 3600 = q div 60 div 60" by (simp add: zdiv_zmult2_eq [symmetric])
  then show ?thesis using mult_div_mod_eq [of 60 q] mult_div_mod_eq [of 60 "q div 60"] by simp
qed

lemma sixty_mod: "0 \<le> x mod (60::int)" "x mod (60::int) < 60"
  by simp_all

lemma pg_time_fields:
  assumes "0 \<le> u" "u \<le> day_us"
  defines "q \<equiv> u div 1000000"
  shows "pg_time u = Inr (time_text (q div 3600) (q div 60 mod 60) (q mod 60) (u mod 1000000))"
  using assms(1,2) by (simp add: pg_time_def Let_def time_text_def q_def)

lemma pg_time_form:
  assumes "0 \<le> u" "u \<le> day_us"
  shows "\<exists>h m s f. pg_time u = Inr (time_text h m s f) \<and> u = ((h * 60 + m) * 60 + s) * 1000000 + f \<and>
      0 \<le> h \<and> h \<le> 24 \<and> 0 \<le> m \<and> m < 60 \<and> 0 \<le> s \<and> s < 60 \<and> 0 \<le> f \<and> f < 1000000"
proof -
  define q f where "q = u div 1000000" and "f = u mod 1000000"
  define h m s where "h = q div 3600" and "m = q div 60 mod 60" and "s = q mod 60"
  have uq: "u = q * 1000000 + f" by (simp add: q_def f_def)
  have fb: "0 \<le> f" "f < 1000000" by (simp_all add: f_def)
  have "q \<le> 86400" using assms uq fb unfolding day_us_def by linarith
  moreover have "0 \<le> q" using assms unfolding q_def by simp
  ultimately have h: "0 \<le> h" "h \<le> 24" unfolding h_def by linarith+
  have ms: "0 \<le> m" "m < 60" "0 \<le> s" "s < 60" unfolding m_def s_def by (rule sixty_mod)+
  have val: "u = ((h * 60 + m) * 60 + s) * 1000000 + f"
    unfolding h_def m_def s_def using hms_split [of q] uq by metis
  have "pg_time u = Inr (time_text h m s f)"
    unfolding h_def m_def s_def q_def f_def by (rule pg_time_fields [OF assms])
  with val h ms fb show ?thesis by blast
qed

lemma pg_time_refused: "\<not> (0 \<le> u \<and> u \<le> day_us) \<Longrightarrow> \<exists>e. pg_time u = Inl e"
  by (simp add: pg_time_def)

text \<open>
  A PostgreSQL TIME is refused exactly outside 00:00:00..24:00:00; otherwise its text has a
  fixed-width hour, minute and second that with the microseconds add up to the value, the end
  of the day included as 24:00:00, and different times have different texts.
\<close>

theorem pg_time_exact:
  "(\<not> (0 \<le> t \<and> t \<le> day_us) \<longrightarrow> (\<exists>e. pg_time t = Inl e)) \<and>
   (0 \<le> t \<and> t \<le> day_us \<longrightarrow> (\<exists>h m s f. pg_time t = Inr (time_text h m s f) \<and>
      t = ((h * 60 + m) * 60 + s) * 1000000 + f \<and>
      0 \<le> h \<and> h \<le> 24 \<and> 0 \<le> m \<and> m < 60 \<and> 0 \<le> s \<and> s < 60 \<and> 0 \<le> f \<and> f < 1000000)) \<and>
   (pg_time t = Inr x \<and> pg_time t' = Inr x \<longrightarrow> t = t')"
proof -
  have "t = t'" if e: "pg_time t = Inr x" "pg_time t' = Inr x"
  proof -
    have "0 \<le> t \<and> t \<le> day_us" "0 \<le> t' \<and> t' \<le> day_us" using e pg_time_refused [of t] pg_time_refused [of t'] by force+
    then obtain h m s f h' m' s' f' where
      "pg_time t = Inr (time_text h m s f)" "t = ((h * 60 + m) * 60 + s) * 1000000 + f"
      "0 \<le> h \<and> h \<le> 24 \<and> 0 \<le> m \<and> m < 60 \<and> 0 \<le> s \<and> s < 60 \<and> 0 \<le> f \<and> f < 1000000"
      "pg_time t' = Inr (time_text h' m' s' f')" "t' = ((h' * 60 + m') * 60 + s') * 1000000 + f'"
      "0 \<le> h' \<and> h' \<le> 24 \<and> 0 \<le> m' \<and> m' < 60 \<and> 0 \<le> s' \<and> s' < 60 \<and> 0 \<le> f' \<and> f' < 1000000"
      using pg_time_form [of t] pg_time_form [of t'] by metis
    with e time_text_inj [of h m s f h' m' s' f'] show ?thesis by simp
  qed
  with pg_time_form [of t] pg_time_refused [of t] show ?thesis by blast
qed

theorem pg_time_exact_witness:
  "\<exists>h m s f. pg_time 12345000 = Inr (time_text h m s f) \<and> 12345000 = ((h * 60 + m) * 60 + s) * 1000000 + f"
  proof -
  have "0 \<le> (12345000::int) \<and> 12345000 \<le> day_us" by (simp add: day_us_def)
  with pg_time_exact [of 12345000] show ?thesis by blast
qed

lemma pg_timestamp_form:
  assumes "micros \<noteq> i64_max" "micros \<noteq> i64_min"
  shows "\<exists>d r t. pg_time r = Inr t \<and> 0 \<le> r \<and> r < day_us \<and> micros = d * day_us + r \<and>
      pg_timestamp micros utc =
        Inr (civil_date d @ (if utc then ''T'' else '' '') @ t @ (if utc then ''Z'' else []))"
proof -
  define d r where "d = micros div day_us" and "r = micros mod day_us"
  have r: "0 \<le> r" "r < day_us" by (simp_all add: r_def day_us_def)
  obtain t where t: "pg_time r = Inr t" using pg_time_form [of r] r by force
  have "micros = d * day_us + r" by (simp add: d_def r_def)
  moreover have "pg_timestamp micros utc =
      Inr (civil_date d @ (if utc then ''T'' else '' '') @ t @ (if utc then ''Z'' else []))"
    using assms t by (simp add: pg_timestamp_def d_def r_def)
  ultimately show ?thesis using r t by blast
qed

lemma pg_timetz_form:
  assumes t: "pg_time r = Inr t" and w: "\<bar>w\<bar> \<le> 57599"
  shows "\<exists>h m s. \<bar>w\<bar> = (h * 60 + m) * 60 + s \<and> 0 \<le> h \<and> h \<le> 15 \<and> 0 \<le> m \<and> m < 60 \<and> 0 \<le> s \<and> s < 60 \<and>
      pg_timetz r w = Inr (t @ (if 0 < w then ''-'' else ''+'') @ show_pad 2 h @ '':'' @ show_pad 2 m @
           (if s = 0 then [] else '':'' @ show_pad 2 s))"
proof -
  define q where "q = \<bar>w\<bar>"
  define h m s where "h = q div 3600" and "m = q div 60 mod 60" and "s = q mod 60"
  have "0 \<le> q" "q \<le> 57599" using w unfolding q_def by simp_all
  then have h: "0 \<le> h" "h \<le> 15" unfolding h_def by linarith+
  have ms: "0 \<le> m" "m < 60" "0 \<le> s" "s < 60" unfolding m_def s_def by (rule sixty_mod)+
  have val: "\<bar>w\<bar> = (h * 60 + m) * 60 + s" unfolding h_def m_def s_def hms_split q_def ..
  have range: "- 57599 \<le> w" "w \<le> 57599" using w by linarith+
  have "pg_timetz r w = Inr (t @ (if 0 < w then ''-'' else ''+'') @ show_pad 2 h @ '':'' @ show_pad 2 m @
           (if s = 0 then [] else '':'' @ show_pad 2 s))"
    using t range unfolding pg_timetz_def Let_def h_def m_def s_def q_def by simp
  with val h ms show ?thesis by blast
qed

lemma pg_timetz_refused: "pg_time r = Inr t \<Longrightarrow> pg_timetz r w = Inl x \<Longrightarrow> 57599 < \<bar>w\<bar>"
  by (auto simp: pg_timetz_def Let_def split: if_splits)

text \<open>
  Timestamps and times with a zone: every 64-bit timestamp has a text (the two extreme values
  are the infinities), made of the day's date and a time of that day strictly before 24:00:00
  that add up to it; a zone offset is accepted exactly within 15:59:59, and its printed hours,
  minutes and seconds add up to it, with the sign turned around (PostgreSQL counts west).
\<close>

theorem pg_timestamp_total:
  "(micros \<noteq> i64_max \<and> micros \<noteq> i64_min \<longrightarrow> (\<exists>d r t. pg_time r = Inr t \<and> 0 \<le> r \<and> r < day_us \<and>
      micros = d * day_us + r \<and>
      pg_timestamp micros utc =
        Inr (civil_date d @ (if utc then ''T'' else '' '') @ t @ (if utc then ''Z'' else [])))) \<and>
   (\<forall>t. pg_time r = Inr t \<longrightarrow> (pg_timetz r w = Inl x \<longrightarrow> 57599 < \<bar>w\<bar>) \<and>
      (\<bar>w\<bar> \<le> 57599 \<longrightarrow> (\<exists>h m s. \<bar>w\<bar> = (h * 60 + m) * 60 + s \<and> 0 \<le> h \<and> h \<le> 15 \<and> 0 \<le> m \<and> m < 60 \<and>
         0 \<le> s \<and> s < 60 \<and>
         pg_timetz r w = Inr (t @ (if 0 < w then ''-'' else ''+'') @ show_pad 2 h @ '':'' @ show_pad 2 m @
           (if s = 0 then [] else '':'' @ show_pad 2 s)))))"
  using pg_timestamp_form [of micros utc] pg_timetz_form [of r _ w] pg_timetz_refused [of r _ w x] by blast

theorem pg_timestamp_total_witness:
  "\<exists>d r t. pg_time r = Inr t \<and> 0 \<le> r \<and> r < day_us \<and> - 1 = d * day_us + r \<and>
     pg_timestamp (- 1) True = Inr (civil_date d @ ''T'' @ t @ ''Z'')"
proof -
  have "(- 1 :: int) \<noteq> i64_max \<and> (- 1 :: int) \<noteq> i64_min" by (simp add: i64_max_def i64_min_def)
  from conjunct1 [OF pg_timestamp_total [of "- 1" True 0 0], rule_format, OF this] show ?thesis
    by (simp only: if_True)
qed

text \<open>
  No overflow: for every day count that a date (32 bits) or a timestamp (64-bit microseconds)
  can carry, the year, the era and all intermediate values stay far below 64 bits, and the
  values to which the truncating \<open>/\<close> is applied are never negative.
\<close>

theorem civil_no_overflow:
  assumes "- (2 ^ 31) \<le> n" and "n \<le> 2 ^ 31"
  shows "\<exists>e doe yoe doy mp. n + 730425 = e * 146097 + doe \<and> \<bar>e\<bar> < 2 ^ 15 \<and> 0 \<le> doe \<and> doe < 146097 \<and>
     0 \<le> guess doe \<and> yoe = guess doe div 365 \<and> 0 \<le> yoe \<and> yoe < 400 \<and> doy = doe - year_start yoe \<and>
     0 \<le> doy \<and> doy < 366 \<and> mp = (5 * doy + 2) div 153 \<and> 0 \<le> mp \<and> mp < 12 \<and>
     \<bar>fst (civil_ymd n)\<bar> < 2 ^ 23"
proof -
  define z where "z = n + 730425"
  define e where "e = z div 146097"
  define doe where "doe = z mod 146097"
  have z: "z = e * 146097 + doe" unfolding e_def doe_def by simp
  have doe: "0 \<le> doe" "doe \<le> 146096" unfolding doe_def
    using pos_mod_bound [of 146097 z] by simp_all
  then obtain y where y: "0 \<le> y" "y \<le> 399" "year_start y \<le> doe" "doe \<le> year_end y"
    using year_exists by blast
  have g: "guess doe div 365 = y" by (rule guess_year [OF y])
  have g0: "0 \<le> guess doe" using guess_mono [OF y(3)] guess_start [OF y(1,2)] y(1) by linarith
  have len: "year_end y - year_start y \<le> 365" using year_length [OF y(1,2)] by simp
  define doy where "doy = doe - year_start y"
  have doy: "0 \<le> doy" "doy < 366" using y len unfolding doy_def by linarith+
  have eb: "\<bar>e\<bar> < 2 ^ 15" using z doe assms unfolding z_def by simp
  have "doy \<le> (if leap (y + 1) then 365 else 364)"
    using y year_length [OF y(1,2)] unfolding doy_def by linarith
  then have "civil_ymd n = march_date (y + e * 400) doy"
    using z doy(1) y by (intro civil_at) (simp_all add: z_def doy_def)
  then have "\<bar>fst (civil_ymd n)\<bar> \<le> 400 * \<bar>e\<bar> + 400"
    using y by (auto simp: march_date_def split: prod.splits)
  then have "\<bar>fst (civil_ymd n)\<bar> < 2 ^ 24" using eb by simp
  moreover have "\<bar>fst (civil_ymd n)\<bar> < 2 ^ 23"
  proof -
    have "\<bar>e\<bar> \<le> 14705" using z doe assms unfolding z_def by simp
    then show ?thesis using \<open>\<bar>fst (civil_ymd n)\<bar> \<le> 400 * \<bar>e\<bar> + 400\<close> by simp
  qed
  moreover have "0 \<le> (5 * doy + 2) div 153" "(5 * doy + 2) div 153 < 12" using doy by linarith+
  ultimately have "\<bar>fst (civil_ymd n)\<bar> < 2 ^ 23" "0 \<le> (5 * doy + 2) div 153" "(5 * doy + 2) div 153 < 12"
    by blast+
  moreover have "n + 730425 = e * 146097 + doe" "doe < 146097" using z doe unfolding z_def by linarith+
  moreover note doe(1) g [symmetric] g0 y(1) doy eb
  moreover have "y < 400" using y by linarith
  ultimately show ?thesis using doy_def by blast
qed

theorem civil_no_overflow_witness: "\<exists>e doe. (100 :: int) + 730425 = e * 146097 + doe \<and> 0 \<le> doe \<and> doe < 146097"
  using civil_no_overflow [of 100] by (force simp del: One_nat_def)

end
