(* ===== verification/SqlxParams.thy ===== *)
theory SqlxParams
  imports JsonDecode
begin

text \<open>
  Query parameters of \<open>crates/libs/lib-lualib/src/lua_sqlx.rs\<close>: the argument checks, the typed
  wrappers \<open>sqlx.null/text/bytes/json/array\<close>, and the conversion of Lua values to JSON and to
  PostgreSQL arrays. The text of a UTF-8 error, trimming, and the numeric casts are Rust's own
  and written out; \<open>Uuid::parse_str\<close> is a parameter.
\<close>

section \<open>Data\<close>

datatype null_type =
    NBool | NInt16 | NInt32 | NInt64 | NFloat32 | NFloat64 | NText | NBytes | NJson | NUuid
  | NDate | NTimestamp | NTimestampTz | NTime | NTimeTz

type_synonym f32 = "32 word" \<comment> \<open>the IEEE bit pattern\<close>
type_synonym i16 = "16 word"
type_synonym uuid = "128 word"

datatype query_params =
    PNull null_type | PBool bool | PInt i64 | PFloat f64 | PText string | PJson json_value | PBytes bytes
  | PgBoolArray "bool option list" | PgInt2Array "i16 option list" | PgInt4Array "i32 option list"
  | PgInt8Array "i64 option list" | PgFloat4Array "f32 option list" | PgFloat8Array "f64 option list"
  | PgTextArray "string option list" | PgBytesArray "bytes option list"
  | PgUuidArray "uuid option list" | PgJsonArray "json_value option list"

record db_query =
  sql :: string
  binds :: "query_params list"

section \<open>UTF-8\<close>

definition utf8_error :: "bytes \<Rightarrow> string option" where
  "utf8_error s =
     (case utf8_check 0 (map of_char s) of
        None \<Rightarrow> None
      | Some (i, Some n) \<Rightarrow> Some (''invalid utf-8 sequence of '' @ show_nat n @ '' bytes from index '' @ show_nat i)
      | Some (i, None) \<Rightarrow> Some (''incomplete utf-8 byte sequence from index '' @ show_nat i))"

definition utf8_string :: "bytes \<Rightarrow> string \<Rightarrow> string + string" where
  "utf8_string s ctx =
     (case utf8_error s of None \<Rightarrow> Inr s | Some e \<Rightarrow> Inl (ctx @ '' must be valid UTF-8: '' @ e))"

text \<open>\<open>String::from_utf8_lossy\<close> puts one replacement character for each invalid sequence.\<close>

definition replacement_char :: bytes where
  "replacement_char = map char_of [0xEF, 0xBF, 0xBD :: nat]"

function (sequential) utf8_lossy_from :: "nat list \<Rightarrow> bytes" where
  "utf8_lossy_from [] = []"
| "utf8_lossy_from (a # bs) =
     (case utf8_first a bs of
        Inr w \<Rightarrow> map char_of (take w (a # bs)) @ utf8_lossy_from (drop w (a # bs))
      | Inl None \<Rightarrow> replacement_char
      | Inl (Some n) \<Rightarrow> replacement_char @ utf8_lossy_from (drop (max 1 n) (a # bs)))"
  by pat_completeness auto
termination
  by (relation "measure length") (auto dest: utf8_first_pos)

definition utf8_lossy :: "bytes \<Rightarrow> string" where
  "utf8_lossy s = utf8_lossy_from (map of_char s)"

text \<open>Valid text is unchanged.\<close>

lemma utf8_lossy_from_valid: "utf8_check i bs = None \<Longrightarrow> utf8_lossy_from bs = map char_of bs"
proof (induction i bs rule: utf8_check.induct)
  case (2 i a bs)
  then obtain w where w: "utf8_first a bs = Inr w" "utf8_check (i + w) (drop w (a # bs)) = None"
    by (auto split: sum.splits)
  have "map char_of (take w (a # bs)) @ map char_of (drop w (a # bs)) = map char_of (a # bs)"
    by (simp only: map_append [symmetric] append_take_drop_id)
  with 2 w show ?case by simp
qed simp

lemma utf8_lossy_valid: "utf8_error s = None \<Longrightarrow> utf8_lossy s = s"
proof -
  assume "utf8_error s = None"
  then have "utf8_check 0 (map of_char s) = None"
    unfolding utf8_error_def by (auto split: option.splits prod.splits)
  from utf8_lossy_from_valid [OF this] show ?thesis by (simp add: utf8_lossy_def comp_def)
qed

text \<open>\<open>str::trim\<close> removes the encoded Unicode white space at both ends.\<close>

definition white_space :: "nat list list" where
  "white_space = map (\<lambda>b. [b]) [9, 10, 11, 12, 13, 32] @ [[0xC2, 0x85], [0xC2, 0xA0], [0xE1, 0x9A, 0x80]] @
     map (\<lambda>b. [0xE2, 0x80, b]) [0x80..<0x8B] @
     [[0xE2, 0x80, 0xA8], [0xE2, 0x80, 0xA9], [0xE2, 0x80, 0xAF], [0xE2, 0x81, 0x9F], [0xE3, 0x80, 0x80]]"

definition starts_with :: "'a list \<Rightarrow> 'a list \<Rightarrow> bool" where
  "starts_with p s \<longleftrightarrow> take (length p) s = p"

fun strip_any :: "nat \<Rightarrow> bytes list \<Rightarrow> bytes \<Rightarrow> bytes" where
  "strip_any 0 ws s = s"
| "strip_any (Suc n) ws s =
     (case find (\<lambda>w. starts_with w s) ws of None \<Rightarrow> s | Some w \<Rightarrow> strip_any n ws (drop (length w) s))"

definition trim_text :: "bytes \<Rightarrow> bytes" where
  "trim_text s =
     (let ws = map (map char_of) white_space;
          front = strip_any (length s) ws s
      in rev (strip_any (length front) (map rev ws) (rev front)))"

definition ascii_lower :: "char \<Rightarrow> char" where
  "ascii_lower c = (let n = of_char c :: nat in if 65 \<le> n \<and> n \<le> 90 then char_of (n + 32) else c)"

definition to_ascii_lowercase :: "bytes \<Rightarrow> bytes" where
  "to_ascii_lowercase s = map ascii_lower s"

definition strip_suffix_or :: "bytes \<Rightarrow> bytes \<Rightarrow> bytes" where
  "strip_suffix_or suf s =
     (if starts_with (rev suf) (rev s) then take (length s - length suf) s else s)"

section \<open>Numeric casts\<close>

text \<open>
  The bit pattern nearest to \<open>m * 2 ^ e\<close> with \<open>eb\<close> exponent bits and \<open>mb\<close> fraction bits, ties to
  even; a carry out of the fraction moves on to the next exponent and finally to infinity.
\<close>

fun bit_length :: "nat \<Rightarrow> nat" where
  "bit_length n = (if n = 0 then 0 else Suc (bit_length (n div 2)))"

declare bit_length.simps [simp del]

definition round_shift :: "nat \<Rightarrow> nat \<Rightarrow> nat" where
  "round_shift m k =
     (let q = m div 2 ^ k; r = 2 * (m mod 2 ^ k)
      in if 2 ^ k < r \<or> (r = 2 ^ k \<and> odd q) then Suc q else q)"

definition ieee_magnitude :: "nat \<Rightarrow> nat \<Rightarrow> nat \<Rightarrow> int \<Rightarrow> nat" where
  "ieee_magnitude eb mb m e =
     (if m = 0 then 0
      else let emin = 2 - 2 ^ (eb - 1);
               top = max (e + int (bit_length m) - 1) emin;
               q = top - int mb;
               r = (if q \<le> e then m * 2 ^ nat (e - q) else round_shift m (nat (q - e)))
           in min (nat (top - emin) * 2 ^ mb + r) ((2 ^ eb - 1) * 2 ^ mb))"

definition i64_to_f64 :: "i64 \<Rightarrow> f64" where
  "i64_to_f64 n = (if sint n < 0 then 2 ^ 63 else 0) + word_of_nat (ieee_magnitude 11 52 (nat \<bar>sint n\<bar>) 0)"

definition i64_to_f32 :: "i64 \<Rightarrow> f32" where
  "i64_to_f32 n = (if sint n < 0 then 2 ^ 31 else 0) + word_of_nat (ieee_magnitude 8 23 (nat \<bar>sint n\<bar>) 0)"

definition f64_exponent :: "f64 \<Rightarrow> nat" where
  "f64_exponent x = unat x div 2 ^ 52 mod 2 ^ 11"

definition f64_fraction :: "f64 \<Rightarrow> nat" where
  "f64_fraction x = unat x mod 2 ^ 52"

definition f64_finite :: "f64 \<Rightarrow> bool" where
  "f64_finite x \<longleftrightarrow> f64_exponent x \<noteq> 2047"

text \<open>A NaN stays a quiet NaN with the upper part of its payload.\<close>

definition f64_to_f32 :: "f64 \<Rightarrow> f32" where
  "f64_to_f32 x =
     (let sign = unat x div 2 ^ 63 * 2 ^ 31; ex = f64_exponent x; fr = f64_fraction x;
          mag = (if ex = 2047
                 then 255 * 2 ^ 23 + (if fr = 0 then 0 else 2 ^ 22 + fr div 2 ^ 29 mod 2 ^ 22)
                 else if ex = 0 then ieee_magnitude 8 23 fr (- 1074)
                 else ieee_magnitude 8 23 (2 ^ 52 + fr) (int ex - 1075))
      in word_of_nat (sign + mag))"

text \<open>A checked cast to a narrower integer (\<open>try_from\<close>).\<close>

definition try_narrow :: "i64 \<Rightarrow> 'w::len word option" where
  "try_narrow n = (if sint (word_of_int (sint n) :: 'w word) = sint n then Some (word_of_int (sint n)) else None)"

section \<open>Argument checks\<close>

text \<open>
  \<open>lua_tointegerx\<close> (which also accepts integral floats and numeric strings) is the parameter
  \<open>toint\<close>; the target type is given by its \<open>try_from\<close>.
\<close>

definition try_unsigned :: "i64 \<Rightarrow> 'w::len word option" where
  "try_unsigned n =
     (if 0 \<le> sint n \<and> sint n < 2 ^ LENGTH('w) then Some (word_of_int (sint n)) else None)"

definition sqlx_checked_integer ::
  "(lua_value \<Rightarrow> i64 option) \<Rightarrow> (i64 \<Rightarrow> 't option) \<Rightarrow> lua_stack \<Rightarrow> nat \<Rightarrow> string + 't" where
  "sqlx_checked_integer toint narrow s index =
     (case toint (lua_at s (int index)) of
        None \<Rightarrow> Inl (''SQLx argument #'' @ show_nat index @ '' must be an integer'')
      | Some n \<Rightarrow> (case narrow n of
            None \<Rightarrow> Inl (''SQLx argument #'' @ show_nat index @ '' is out of range'')
          | Some t \<Rightarrow> Inr t))"

definition sqlx_checked_string :: "lua_stack \<Rightarrow> nat \<Rightarrow> string + string" where
  "sqlx_checked_string s index =
     (case lua_at s (int index) of
        LString b \<Rightarrow> utf8_string b ''SQLx string''
      | _ \<Rightarrow> Inl (''SQLx argument #'' @ show_nat index @ '' must be a string''))"

definition bounded_option ::
  "(lua_value \<Rightarrow> i64 option) \<Rightarrow> lua_stack \<Rightarrow> nat \<Rightarrow> int \<Rightarrow> int \<Rightarrow> int \<Rightarrow> string + int" where
  "bounded_option toint s index dflt lo hi =
     ebind (if lua_at s (int index) = LNone \<or> lua_at s (int index) = LNil then Inr dflt
            else ebind (sqlx_checked_integer toint Some s index) (\<lambda>n. Inr (sint n)))
       (\<lambda>v. if v < lo \<or> hi < v
            then Inl (''SQLx option #'' @ show_nat index @ '' must be between '' @ show_int lo @ '' and '' @ show_int hi)
            else Inr v)"

definition positive_option ::
  "(lua_value \<Rightarrow> i64 option) \<Rightarrow> lua_stack \<Rightarrow> nat \<Rightarrow> int \<Rightarrow> int \<Rightarrow> string + int" where
  "positive_option toint s index dflt hi = bounded_option toint s index dflt 1 hi"

section \<open>Typed nulls\<close>

definition parse_null_type :: "string \<Rightarrow> string + null_type" where
  "parse_null_type type_name =
     (let t = to_ascii_lowercase (trim_text type_name) in
      if t \<in> set [''bool'', ''boolean''] then Inr NBool
      else if t \<in> set [''int2'', ''smallint''] then Inr NInt16
      else if t \<in> set [''int4'', ''int'', ''integer''] then Inr NInt32
      else if t \<in> set [''int8'', ''bigint''] then Inr NInt64
      else if t \<in> set [''float4'', ''real''] then Inr NFloat32
      else if t \<in> set [''float8'', ''double'', ''double precision''] then Inr NFloat64
      else if t \<in> set [''text'', ''string'', ''varchar'', ''char''] then Inr NText
      else if t \<in> set [''bytes'', ''bytea'', ''blob'', ''binary''] then Inr NBytes
      else if t \<in> set [''json'', ''jsonb''] then Inr NJson
      else if t = ''uuid'' then Inr NUuid
      else if t = ''date'' then Inr NDate
      else if t \<in> set [''timestamp'', ''datetime''] then Inr NTimestamp
      else if t \<in> set [''timestamptz'', ''timestamp with time zone''] then Inr NTimestampTz
      else if t = ''time'' then Inr NTime
      else if t \<in> set [''timetz'', ''time with time zone''] then Inr NTimeTz
      else Inl (''sqlx.null unsupported SQL type: '' @ type_name))"

section \<open>Lua values as JSON\<close>

text \<open>
  A \<open>serde_json\<close> map is ordered by key, and inserting replaces. \<open>room d\<close> says whether
  \<open>lua_checkstack\<close> still finds six slots at depth \<open>d\<close>.
\<close>

definition bytes_less :: "bytes \<Rightarrow> bytes \<Rightarrow> bool" where
  "bytes_less a b \<longleftrightarrow> ord_class.lexordp (map of_char a :: nat list) (map of_char b)"

fun map_insert :: "bytes \<Rightarrow> 'v \<Rightarrow> (bytes \<times> 'v) list \<Rightarrow> (bytes \<times> 'v) list" where
  "map_insert k v [] = [(k, v)]"
| "map_insert k v ((k', v') # ms) =
     (if k = k' then (k, v) # ms
      else if bytes_less k k' then (k, v) # (k', v') # ms
      else (k', v') # map_insert k v ms)"

definition integer_number :: "i64 \<Rightarrow> jnumber" where
  "integer_number n = (if sint n < 0 then NegInt n else PosInt n)"

definition json_object_key :: "lua_value \<Rightarrow> string + bytes" where
  "json_object_key k =
     (case k of
        LString s \<Rightarrow> utf8_string s ''SQL JSON object key''
      | LInteger n \<Rightarrow> Inr (show_int (sint n))
      | _ \<Rightarrow> Inl ''SQL JSON object keys must be strings or integers'')"

function (sequential)
  lua_value_to_json :: "lua_heap \<Rightarrow> (nat \<Rightarrow> bool) \<Rightarrow> lua_value \<Rightarrow> nat \<Rightarrow> string + json_value" and
  lua_table_to_json :: "lua_heap \<Rightarrow> (nat \<Rightarrow> bool) \<Rightarrow> nat \<Rightarrow> nat \<Rightarrow> string + json_value" and
  json_items :: "lua_heap \<Rightarrow> (nat \<Rightarrow> bool) \<Rightarrow> lua_value list \<Rightarrow> nat \<Rightarrow> string + json_value list" and
  json_members :: "lua_heap \<Rightarrow> (nat \<Rightarrow> bool) \<Rightarrow> (lua_value \<times> lua_value) list \<Rightarrow> nat \<Rightarrow>
    (bytes \<times> json_value) list \<Rightarrow> string + (bytes \<times> json_value) list"
where
  "lua_value_to_json h room v depth =
     (case v of
        LNil \<Rightarrow> Inr VNull
      | LLightUserData p \<Rightarrow>
          if p = 0 then Inr VNull else Inl (''SQL JSON unsupported value type: '' @ lua_value_name v)
      | LBoolean b \<Rightarrow> Inr (VBool b)
      | LInteger n \<Rightarrow> Inr (VNumber (integer_number n))
      | LNumber x \<Rightarrow> if f64_finite x then Inr (VNumber (FloatNum x)) else Inl ''SQL JSON number must be finite''
      | LString s \<Rightarrow> ebind (utf8_string s ''SQL JSON string'') (\<lambda>t. Inr (VString t))
      | LTable a \<Rightarrow> lua_table_to_json h room a depth
      | _ \<Rightarrow> Inl (''SQL JSON unsupported value type: '' @ lua_value_name v))"
| "lua_table_to_json h room a depth =
     (if 64 \<le> depth then Inl ''SQL JSON table nesting exceeds 64 levels (possibly cyclic)''
      else if \<not> room depth then Inl ''SQLx JSON traversal exhausted Lua stack''
      else let (is_array, len) = lua_array_size (h a) in
        if is_array
        then ebind (json_items h room (array_values (h a) len) (depth + 1)) (\<lambda>vs. Inr (VArray vs))
        else ebind (json_members h room (entries (h a)) (depth + 1) []) (\<lambda>ms.
               Inr (if ms = [] then VArray [] else VObject ms)))"
| "json_items h room [] depth = Inr []"
| "json_items h room (v # vs) depth =
     ebind (lua_value_to_json h room v depth) (\<lambda>x.
     ebind (json_items h room vs depth) (\<lambda>xs. Inr (x # xs)))"
| "json_members h room [] depth ms = Inr ms"
| "json_members h room ((k, v) # es) depth ms =
     ebind (json_object_key k) (\<lambda>key.
     ebind (lua_value_to_json h room v depth) (\<lambda>x.
       json_members h room es depth (map_insert key x ms)))"
  by pat_completeness auto
termination
  by (relation "measures [(\<lambda>x. case x of Inl (Inl (h, r, v, d)) \<Rightarrow> 65 - d | Inl (Inr (h, r, a, d)) \<Rightarrow> 65 - d
        | Inr (Inl (h, r, vs, d)) \<Rightarrow> 65 - d | Inr (Inr (h, r, es, d, ms)) \<Rightarrow> 65 - d),
      (\<lambda>x. case x of Inl (Inl (h, r, v, d)) \<Rightarrow> 1 | Inl (Inr (h, r, a, d)) \<Rightarrow> 0
        | Inr (Inl (h, r, vs, d)) \<Rightarrow> 2 + length vs | Inr (Inr (h, r, es, d, ms)) \<Rightarrow> 2 + length es)]") auto

section \<open>PostgreSQL arrays\<close>

text \<open>The loop of \<open>collect_pg_array\<close>, with the number of the next element.\<close>

fun collect_elements :: "string \<Rightarrow> (lua_value \<Rightarrow> 't option) \<Rightarrow> nat \<Rightarrow> lua_value list \<Rightarrow> string + 't option list" where
  "collect_elements expected conv n [] = Inr []"
| "collect_elements expected conv n (v # vs) =
     ebind (if v = LLightUserData 0 then Inr None
            else case conv v of
              Some x \<Rightarrow> Inr (Some x)
            | None \<Rightarrow> Inl (''sqlx.array element '' @ show_nat n @ '' must be '' @ expected)) (\<lambda>x.
     ebind (collect_elements expected conv (Suc n) vs) (\<lambda>xs. Inr (x # xs)))"

definition collect_pg_array ::
  "lua_heap \<Rightarrow> nat \<Rightarrow> string \<Rightarrow> (lua_value \<Rightarrow> 't option) \<Rightarrow> string + 't option list" where
  "collect_pg_array h a expected conv =
     (let (is_array, len) = lua_array_size (h a) in
      if \<not> is_array \<and> entries (h a) \<noteq> [] then Inl ''sqlx.array values must be a Lua sequence''
      else collect_elements expected conv 1 (array_values (h a) len))"

definition conv_bool :: "lua_value \<Rightarrow> bool option" where
  "conv_bool v = (case v of LBoolean b \<Rightarrow> Some b | _ \<Rightarrow> None)"

definition conv_int :: "lua_value \<Rightarrow> 'w::len word option" where
  "conv_int v = (case v of LInteger n \<Rightarrow> try_narrow n | _ \<Rightarrow> None)"

definition conv_i64 :: "lua_value \<Rightarrow> i64 option" where
  "conv_i64 v = (case v of LInteger n \<Rightarrow> Some n | _ \<Rightarrow> None)"

definition conv_f32 :: "lua_value \<Rightarrow> f32 option" where
  "conv_f32 v = (case v of LInteger n \<Rightarrow> Some (i64_to_f32 n) | LNumber x \<Rightarrow> Some (f64_to_f32 x) | _ \<Rightarrow> None)"

definition conv_f64 :: "lua_value \<Rightarrow> f64 option" where
  "conv_f64 v = (case v of LInteger n \<Rightarrow> Some (i64_to_f64 n) | LNumber x \<Rightarrow> Some x | _ \<Rightarrow> None)"

definition conv_text :: "lua_value \<Rightarrow> string option" where
  "conv_text v = (case v of LString s \<Rightarrow> if utf8_error s = None then Some s else None | _ \<Rightarrow> None)"

definition conv_bytes :: "lua_value \<Rightarrow> bytes option" where
  "conv_bytes v = (case v of LString s \<Rightarrow> Some s | _ \<Rightarrow> None)"

definition conv_uuid :: "(string \<Rightarrow> uuid option) \<Rightarrow> lua_value \<Rightarrow> uuid option" where
  "conv_uuid parse_uuid v = Option.bind (conv_text v) parse_uuid"

definition conv_json :: "lua_heap \<Rightarrow> (nat \<Rightarrow> bool) \<Rightarrow> lua_value \<Rightarrow> json_value option" where
  "conv_json h room v = (case lua_value_to_json h room v 0 of Inl _ \<Rightarrow> None | Inr j \<Rightarrow> Some j)"

definition get_pg_array_param ::
  "lua_heap \<Rightarrow> (nat \<Rightarrow> bool) \<Rightarrow> (string \<Rightarrow> uuid option) \<Rightarrow> nat \<Rightarrow> string + query_params" where
  "get_pg_array_param h room parse_uuid w =
     ebind (case rawget (h w) (LString ''type'') of
              LString s \<Rightarrow> utf8_string s ''sqlx.array type''
            | _ \<Rightarrow> Inl ''sqlx.array type must be a string'') (\<lambda>type_name.
     ebind (case rawget (h w) (LString ''values'') of
              LTable a \<Rightarrow> Inr a
            | _ \<Rightarrow> Inl ''sqlx.array values must be a table'') (\<lambda>a.
       let t = strip_suffix_or ''[]'' (to_ascii_lowercase (trim_text type_name)) in
       if t \<in> set [''bool'', ''boolean'']
       then ebind (collect_pg_array h a ''a boolean'' conv_bool) (\<lambda>xs. Inr (PgBoolArray xs))
       else if t \<in> set [''int2'', ''smallint'']
       then ebind (collect_pg_array h a ''an int2 integer'' conv_int) (\<lambda>xs. Inr (PgInt2Array xs))
       else if t \<in> set [''int4'', ''integer'', ''int'']
       then ebind (collect_pg_array h a ''an int4 integer'' conv_int) (\<lambda>xs. Inr (PgInt4Array xs))
       else if t \<in> set [''int8'', ''bigint'']
       then ebind (collect_pg_array h a ''an int8 integer'' conv_i64) (\<lambda>xs. Inr (PgInt8Array xs))
       else if t \<in> set [''float4'', ''real'']
       then ebind (collect_pg_array h a ''a number'' conv_f32) (\<lambda>xs. Inr (PgFloat4Array xs))
       else if t \<in> set [''float8'', ''double'', ''double precision'']
       then ebind (collect_pg_array h a ''a number'' conv_f64) (\<lambda>xs. Inr (PgFloat8Array xs))
       else if t \<in> set [''text'', ''varchar'', ''char'', ''character varying'', ''name'']
       then ebind (collect_pg_array h a ''a string'' conv_text) (\<lambda>xs. Inr (PgTextArray xs))
       else if t \<in> set [''bytea'', ''bytes'']
       then ebind (collect_pg_array h a ''a string'' conv_bytes) (\<lambda>xs. Inr (PgBytesArray xs))
       else if t = ''uuid''
       then ebind (collect_pg_array h a ''a UUID string'' (conv_uuid parse_uuid)) (\<lambda>xs. Inr (PgUuidArray xs))
       else if t \<in> set [''json'', ''jsonb'']
       then ebind (collect_pg_array h a ''a JSON value'' (conv_json h room)) (\<lambda>xs. Inr (PgJsonArray xs))
       else Inl (''sqlx.array unsupported PostgreSQL element type: '' @ type_name)))"

section \<open>One parameter\<close>

definition get_typed_query_param ::
  "lua_heap \<Rightarrow> (nat \<Rightarrow> bool) \<Rightarrow> nat \<Rightarrow> string + query_params option" where
  "get_typed_query_param h room w =
     (let kind = (case rawget (h w) (LString ''__sqlx_param'') of
            LNil \<Rightarrow> Inr None
          | LNone \<Rightarrow> Inr None
          | LString s \<Rightarrow> ebind (utf8_string s ''sqlx parameter kind'') (\<lambda>k. Inr (Some k))
          | _ \<Rightarrow> Inl ''sqlx parameter kind must be a string'') in
      ebind kind (\<lambda>k. case k of None \<Rightarrow> Inr None | Some k' \<Rightarrow>
        if k' = ''null'' then
          ebind (case rawget (h w) (LString ''type'') of
                   LNil \<Rightarrow> Inr ''text''
                 | LNone \<Rightarrow> Inr ''text''
                 | LString s \<Rightarrow> utf8_string s ''sqlx.null type''
                 | _ \<Rightarrow> Inl ''sqlx.null type must be a string'') (\<lambda>type_name.
          ebind (parse_null_type type_name) (\<lambda>t. Inr (Some (PNull t))))
        else if k' = ''text'' then
          (case rawget (h w) (LString ''value'') of
             LString s \<Rightarrow> ebind (utf8_string s ''sqlx.text value'') (\<lambda>t. Inr (Some (PText t)))
           | _ \<Rightarrow> Inl ''sqlx.text value must be a string'')
        else if k' = ''bytes'' then
          (case rawget (h w) (LString ''value'') of
             LString s \<Rightarrow> Inr (Some (PBytes s))
           | _ \<Rightarrow> Inl ''sqlx.bytes value must be a string'')
        else if k' = ''json'' then
          ebind (lua_value_to_json h room (rawget (h w) (LString ''value'')) 0) (\<lambda>j. Inr (Some (PJson j)))
        else Inl (''unknown sqlx parameter kind: '' @ k')))"

text \<open>The names of \<open>lua_typename\<close>.\<close>

definition lua_typename :: "ltype \<Rightarrow> string" where
  "lua_typename t =
     (let c = lua_type_code t in
      if c < 0 then ''no value''
      else [''nil'', ''boolean'', ''userdata'', ''number'', ''string'', ''table'', ''function'', ''userdata'',
            ''thread''] ! nat c)"

definition is_array_wrapper :: "lua_heap \<Rightarrow> nat \<Rightarrow> bool" where
  "is_array_wrapper h w \<longleftrightarrow>
     rawget (h w) (LString ''__sqlx_array'') = LBoolean True \<or> metafield (h w) ''__sqlx_array'' \<noteq> LNil"

definition get_query_param ::
  "lua_heap \<Rightarrow> (nat \<Rightarrow> bool) \<Rightarrow> (string \<Rightarrow> uuid option) \<Rightarrow> lua_value \<Rightarrow> string + query_params" where
  "get_query_param h room parse_uuid v =
     (case v of
        LNil \<Rightarrow> Inr (PNull NText)
      | LLightUserData p \<Rightarrow>
          if p = 0 then Inr (PNull NText)
          else Inl (''get_query_param: unsupport value type :'' @ lua_typename (lua_type v))
      | LBoolean b \<Rightarrow> Inr (PBool b)
      | LNumber x \<Rightarrow> Inr (PFloat x)
      | LInteger n \<Rightarrow> Inr (PInt n)
      | LString s \<Rightarrow> ebind (utf8_string s ''SQL text parameter'') (\<lambda>t. Inr (PText t))
      | LTable w \<Rightarrow>
          ebind (get_typed_query_param h room w) (\<lambda>param. case param of
            Some p \<Rightarrow> Inr p
          | None \<Rightarrow>
              if is_array_wrapper h w then get_pg_array_param h room parse_uuid w
              else ebind (lua_table_to_json h room w 0) (\<lambda>j. Inr (PJson j)))
      | _ \<Rightarrow> Inl (''get_query_param: unsupport value type :'' @ lua_typename (lua_type v)))"

text \<open>The parameters of a statement are the arguments from \<open>first\<close> to the top of the stack.\<close>

definition get_query_params ::
  "lua_heap \<Rightarrow> (nat \<Rightarrow> bool) \<Rightarrow> (string \<Rightarrow> uuid option) \<Rightarrow> lua_stack \<Rightarrow> nat \<Rightarrow> string + query_params list" where
  "get_query_params h room parse_uuid s first =
     emapM (\<lambda>i. get_query_param h room parse_uuid (lua_at s (int i))) [first..<Suc (length s)]"

end
