(* ===== verification/SqlxBackend.thy ===== *)
theory SqlxBackend
  imports SqlxParams
begin

text \<open>
  \<open>DatabaseBackend\<close> of \<open>crates/libs/lib-lualib/src/lua_sqlx.rs\<close>: connecting, binding parameters,
  and the four operations on a live connection. The drivers of the \<open>sqlx\<close> crate are a parameter:
  a record of functions on an unspecified world, one per await point. Every await may also be the
  point where the deadline of the request expires (\<open>Elapsed\<close>): then nothing after it runs. What
  is sent to the driver is recorded in the order of the calls.
\<close>

section \<open>Errors, responses and the driver\<close>

record db_error =
  db_message :: string
  db_error_kind :: string
  db_code :: "string option"
  db_constraint :: "string option"
  db_table :: "string option"

text \<open>The errors of \<open>sqlx::Error\<close> that the code tells apart; \<open>EOther\<close> is any other one.\<close>

datatype sqlx_error =
    EIo string | ETls string | EProtocol string | EPoolTimedOut | EPoolClosed | EWorkerCrashed
  | EConfiguration string | EDatabase db_error | EOther string

datatype db_kind = MySql | Postgres | Sqlite

text \<open>A connection handed to Lua is named by its number; rows are the driver's.\<close>

datatype 'r db_response =
    RConnect nat | RClosed | RPgRows "'r list" | RMysqlRows "'r list" | RSqliteRows "'r list"
  | RError sqlx_error | RErrorBeforeExecution sqlx_error
  | RConnectFailed sqlx_error u64 | RReconnectCooldown u64 | RDisconnectedError sqlx_error
  | RTimeout string | RTimeoutBeforeExecution string | RRowLimitExceeded nat
  | RExecute u64 "u64 option" | RTransaction u64

datatype 'a polled = Elapsed | Failed sqlx_error | Ready 'a

text \<open>A bound argument; a null carries the Rust type it is bound as.\<close>

datatype bound =
    BoundNone string | BoundBool bool | BoundInt i64 | BoundFloat f64 | BoundText string
  | BoundJson json_value | BoundBytes bytes | BoundArray query_params

datatype drv_call =
    CallConnect db_kind string | CallBegin | CallFetch string "bound list" | CallNext
  | CallExecute string "bound list" | CallRaw string | CallCommit | CallRollback | CallClose

text \<open>
  Connecting has a deadline of its own, reported as \<open>None\<close>. An execution reports the affected
  rows and the last inserted id.
\<close>

record ('w, 'r) driver =
  d_connect :: "db_kind \<Rightarrow> string \<Rightarrow> 'w \<Rightarrow> unit polled option \<times> 'w"
  d_begin :: "'w \<Rightarrow> unit polled \<times> 'w"
  d_fetch :: "string \<Rightarrow> bound list \<Rightarrow> 'w \<Rightarrow> 'w"
  d_next :: "'w \<Rightarrow> 'r option polled \<times> 'w"
  d_execute :: "string \<Rightarrow> bound list \<Rightarrow> 'w \<Rightarrow> (u64 \<times> u64) polled \<times> 'w"
  d_raw :: "string \<Rightarrow> 'w \<Rightarrow> (u64 \<times> u64) polled \<times> 'w"
  d_commit :: "'w \<Rightarrow> unit polled \<times> 'w"
  d_rollback :: "'w \<Rightarrow> unit polled \<times> 'w"
  d_close :: "'w \<Rightarrow> 'w"
  d_now :: "'w \<Rightarrow> nat \<times> 'w"

text \<open>The state of one request: the world, \<open>execution_started\<close>, and the calls so far.\<close>

record 'w io =
  world :: 'w
  started :: bool
  calls :: "drv_call list"

definition call :: "drv_call \<Rightarrow> ('w \<Rightarrow> 'a \<times> 'w) \<Rightarrow> 'w io \<Rightarrow> 'a \<times> 'w io" where
  [actor_simps]: "call c f s =
     (case f (world s) of (r, w) \<Rightarrow> (r, s\<lparr>world := w, calls := calls s @ [c]\<rparr>))"

definition mark_started :: "'w io \<Rightarrow> 'w io" where
  [actor_simps]: "mark_started s = s\<lparr>started := True\<rparr>"

text \<open>Sequencing: \<open>?\<close> and a passed deadline both leave at once.\<close>

definition abind :: "'a polled \<times> 's \<Rightarrow> ('a \<Rightarrow> 's \<Rightarrow> 'b polled \<times> 's) \<Rightarrow> 'b polled \<times> 's" where
  "abind m f = (case m of (Ready a, s) \<Rightarrow> f a s | (Failed e, s) \<Rightarrow> (Failed e, s) | (Elapsed, s) \<Rightarrow> (Elapsed, s))"

lemma abind_simps [simp]:
  "abind (Ready a, s) f = f a s" "abind (Failed e, s) f = (Failed e, s)" "abind (Elapsed, s) f = (Elapsed, s)"
  by (simp_all add: abind_def)

lemma abind_cong [fundef_cong]:
  assumes "m = m'" and "\<And>a s. m' = (Ready a, s) \<Longrightarrow> f a s = f' a s"
  shows "abind m f = abind m' f'"
  using assms by (auto simp: abind_def split: prod.splits polled.splits)

lemma abind_split:
  "P (abind m f) \<longleftrightarrow> (\<forall>a s. m = (Ready a, s) \<longrightarrow> P (f a s)) \<and>
     (\<forall>e s. m = (Failed e, s) \<longrightarrow> P (Failed e, s)) \<and> (\<forall>s. m = (Elapsed, s) \<longrightarrow> P (Elapsed, s))"
  by (cases m; cases "fst m") (auto simp: abind_def)

definition lift_error :: "sqlx_error + 'a \<Rightarrow> 's \<Rightarrow> 'a polled \<times> 's" where
  "lift_error r s = (case r of Inl e \<Rightarrow> (Failed e, s) | Inr a \<Rightarrow> (Ready a, s))"

section \<open>Connecting\<close>

text \<open>The scheme of the URL chooses the driver.\<close>

definition url_kind :: "string \<Rightarrow> db_kind option" where
  "url_kind url =
     (if starts_with ''mysql://'' url then Some MySql
      else if starts_with ''postgres://'' url \<or> starts_with ''postgresql://'' url then Some Postgres
      else if starts_with ''sqlite:'' url then Some Sqlite
      else None)"

definition backend_connect ::
  "('w, 'r) driver \<Rightarrow> string \<Rightarrow> 'w io \<Rightarrow> db_kind polled \<times> 'w io" where
  "backend_connect d url s =
     (case url_kind url of
        None \<Rightarrow> (Failed (EConfiguration ''Unsupported database type''), s)
      | Some k \<Rightarrow>
          (case call (CallConnect k url) (d_connect d k url) s of
             (None, s') \<Rightarrow> (Failed (EIo ''Connection error: deadline has elapsed''), s')
           | (Some r, s') \<Rightarrow> abind (r, s') (\<lambda>_ s''. (Ready k, s''))))"

section \<open>Binding\<close>

fun null_rust_type :: "null_type \<Rightarrow> string" where
  "null_rust_type NBool = ''bool''"
| "null_rust_type NInt16 = ''i16''"
| "null_rust_type NInt32 = ''i32''"
| "null_rust_type NInt64 = ''i64''"
| "null_rust_type NFloat32 = ''f32''"
| "null_rust_type NFloat64 = ''f64''"
| "null_rust_type NText = ''&str''"
| "null_rust_type NBytes = ''&Vec<u8>''"
| "null_rust_type NJson = ''serde_json::Value''"
| "null_rust_type NUuid = ''Uuid''"
| "null_rust_type NDate = ''NaiveDate''"
| "null_rust_type NTimestamp = ''NaiveDateTime''"
| "null_rust_type NTimestampTz = ''DateTime<Utc>''"
| "null_rust_type NTime = ''NaiveTime''"
| "null_rust_type NTimeTz = ''PgTimeTz<NaiveTime, FixedOffset>''"

fun bind_one :: "query_params \<Rightarrow> sqlx_error + bound" where
  "bind_one (PNull k) =
     (if k = NTimestampTz \<or> k = NTimeTz
      then Inl (EConfiguration ''timezone-aware null is only supported by PostgreSQL'')
      else Inr (BoundNone (null_rust_type k)))"
| "bind_one (PBool b) = Inr (BoundBool b)"
| "bind_one (PInt n) = Inr (BoundInt n)"
| "bind_one (PFloat x) = Inr (BoundFloat x)"
| "bind_one (PText t) = Inr (BoundText t)"
| "bind_one (PJson j) = Inr (BoundJson j)"
| "bind_one (PBytes b) = Inr (BoundBytes b)"
| "bind_one _ = Inl (EConfiguration ''PostgreSQL array parameter used with a non-PostgreSQL connection'')"

definition make_query :: "query_params list \<Rightarrow> sqlx_error + bound list" where
  "make_query ps = emapM bind_one ps"

fun pg_bind_one :: "query_params \<Rightarrow> bound" where
  "pg_bind_one (PNull k) = BoundNone (null_rust_type k)"
| "pg_bind_one (PBool b) = BoundBool b"
| "pg_bind_one (PInt n) = BoundInt n"
| "pg_bind_one (PFloat x) = BoundFloat x"
| "pg_bind_one (PText t) = BoundText t"
| "pg_bind_one (PJson j) = BoundJson j"
| "pg_bind_one (PBytes b) = BoundBytes b"
| "pg_bind_one p = BoundArray p"

definition make_pg_query :: "query_params list \<Rightarrow> sqlx_error + bound list" where
  "make_pg_query ps = Inr (map pg_bind_one ps)"

definition make_query_for :: "db_kind \<Rightarrow> query_params list \<Rightarrow> sqlx_error + bound list" where
  "make_query_for k ps = (if k = Postgres then make_pg_query ps else make_query ps)"

section \<open>Operations\<close>

text \<open>The rows of a stream; \<open>None\<close> when one more than \<open>max_rows\<close> arrives.\<close>

function fetch_rows :: "('w, 'r) driver \<Rightarrow> nat \<Rightarrow> 'r list \<Rightarrow> 'w io \<Rightarrow> 'r list option polled \<times> 'w io" where
  "fetch_rows d max_rows rows s =
     abind (call CallNext (d_next d) s) (\<lambda>next s'. case next of
         None \<Rightarrow> (Ready (Some rows), s')
       | Some row \<Rightarrow>
           if max_rows \<le> length rows then (Ready None, s')
           else fetch_rows d max_rows (rows @ [row]) s')"
  by pat_completeness auto
termination
  by (relation "measure (\<lambda>(d, max_rows, rows, s). max_rows - length rows)") auto

declare fetch_rows.simps [simp del]

definition rows_response :: "db_kind \<Rightarrow> nat \<Rightarrow> 'r list option \<Rightarrow> 'r db_response" where
  "rows_response k max_rows r =
     (case r of None \<Rightarrow> RRowLimitExceeded max_rows
      | Some rows \<Rightarrow> (case k of MySql \<Rightarrow> RMysqlRows rows | Postgres \<Rightarrow> RPgRows rows | Sqlite \<Rightarrow> RSqliteRows rows))"

definition backend_query ::
  "('w, 'r) driver \<Rightarrow> db_kind \<Rightarrow> db_query \<Rightarrow> nat \<Rightarrow> 'w io \<Rightarrow> 'r db_response polled \<times> 'w io" where
  "backend_query d k request max_rows s =
     abind (lift_error (make_query_for k (binds request)) s) (\<lambda>bs s.
     let s = mark_started s;
         s = snd (call (CallFetch (sql request) bs) (\<lambda>w. ((), d_fetch d (sql request) bs w)) s)
     in abind (fetch_rows d max_rows [] s) (\<lambda>r s. (Ready (rows_response k max_rows r), s)))"

definition execute_response :: "db_kind \<Rightarrow> u64 \<times> u64 \<Rightarrow> 'r db_response" where
  "execute_response k r =
     RExecute (fst r)
       (case k of MySql \<Rightarrow> Some (snd r) | Postgres \<Rightarrow> None
        | Sqlite \<Rightarrow> (if 0 \<le> sint (snd r) then Some (snd r) else None))"

definition backend_execute ::
  "('w, 'r) driver \<Rightarrow> db_kind \<Rightarrow> db_query \<Rightarrow> 'w io \<Rightarrow> 'r db_response polled \<times> 'w io" where
  "backend_execute d k request s =
     abind (lift_error (make_query_for k (binds request)) s) (\<lambda>bs s.
     abind (call (CallExecute (sql request) bs) (d_execute d (sql request) bs) (mark_started s)) (\<lambda>r s.
       (Ready (execute_response k r), s)))"

definition backend_batch ::
  "('w, 'r) driver \<Rightarrow> db_kind \<Rightarrow> string \<Rightarrow> 'w io \<Rightarrow> 'r db_response polled \<times> 'w io" where
  "backend_batch d k raw s =
     abind (call (CallRaw raw) (d_raw d raw) (mark_started s)) (\<lambda>r s. (Ready (execute_response k r), s))"

definition saturating_add_u64 :: "u64 \<Rightarrow> u64 \<Rightarrow> u64" where
  "saturating_add_u64 a b = (if unat a + unat b < 2 ^ 64 then a + b else - 1)"

text \<open>The loop over the statements of a transaction.\<close>

fun execute_all ::
  "('w, 'r) driver \<Rightarrow> db_kind \<Rightarrow> db_query list \<Rightarrow> u64 \<Rightarrow> 'w io \<Rightarrow> u64 polled \<times> 'w io" where
  "execute_all d k [] n s = (Ready n, s)"
| "execute_all d k (q # qs) n s =
     abind (lift_error (make_query_for k (binds q)) s) (\<lambda>bs s.
     abind (call (CallExecute (sql q) bs) (d_execute d (sql q) bs) (mark_started s)) (\<lambda>r s.
       execute_all d k qs (saturating_add_u64 n (fst r)) s))"

definition backend_transaction ::
  "('w, 'r) driver \<Rightarrow> db_kind \<Rightarrow> db_query list \<Rightarrow> 'w io \<Rightarrow> 'r db_response polled \<times> 'w io" where
  "backend_transaction d k requests s =
     abind (call CallBegin (d_begin d) s) (\<lambda>_ s.
     case execute_all d k requests 0 s of
       (Elapsed, s) \<Rightarrow> (Elapsed, s)
     | (Failed e, s) \<Rightarrow>
         (case call CallRollback (d_rollback d) s of
            (Elapsed, s) \<Rightarrow> (Elapsed, s)
          | (Failed e', s) \<Rightarrow> (Ready (RDisconnectedError e'), s)
          | (Ready _, s) \<Rightarrow> (Failed e, s))
     | (Ready n, s) \<Rightarrow>
         (case call CallCommit (d_commit d) s of
            (Elapsed, s) \<Rightarrow> (Elapsed, s)
          | (Failed e', s) \<Rightarrow> (Ready (RDisconnectedError e'), s)
          | (Ready _, s) \<Rightarrow> (Ready (RTransaction n), s)))"

definition backend_close :: "('w, 'r) driver \<Rightarrow> 'w io \<Rightarrow> 'w io" where
  "backend_close d s = snd (call CallClose (\<lambda>w. ((), d_close d w)) s)"

section \<open>What the operations send\<close>

text \<open>A statement as the driver sees it.\<close>

definition stmt_binds :: "db_kind \<Rightarrow> db_query \<Rightarrow> bound list" where
  "stmt_binds k q = (case make_query_for k (binds q) of Inr bs \<Rightarrow> bs | Inl _ \<Rightarrow> [])"

definition stmt_call :: "db_kind \<Rightarrow> db_query \<Rightarrow> drv_call" where
  "stmt_call k q = CallExecute (sql q) (stmt_binds k q)"

definition is_statement :: "drv_call \<Rightarrow> bool" where
  "is_statement c \<longleftrightarrow> (case c of CallFetch _ _ \<Rightarrow> True | CallExecute _ _ \<Rightarrow> True | CallRaw _ \<Rightarrow> True | _ \<Rightarrow> False)"

lemma is_statement_simps [simp]:
  "is_statement (CallFetch t bs)" "is_statement (CallExecute t bs)" "is_statement (CallRaw t)"
  "\<not> is_statement CallBegin" "\<not> is_statement CallNext" "\<not> is_statement CallCommit"
  "\<not> is_statement CallRollback" "\<not> is_statement CallClose" "\<not> is_statement (CallConnect k u)"
  by (simp_all add: is_statement_def)

lemma call_calls:
  "call c f s = (r, s') \<Longrightarrow> calls s' = calls s @ [c] \<and> started s' = started s"
  by (auto simp: actor_simps split: prod.splits)

lemma stmt_call_statement [simp]: "is_statement (stmt_call k q)"
  by (simp add: stmt_call_def)

lemma lift_error_cases:
  obtains (bad) e where "lift_error r s = (Failed e, s)" "r = Inl e"
    | (good) a where "lift_error r s = (Ready a, s)" "r = Inr a"
  by (cases r) (auto simp: lift_error_def)

lemma abind_cases:
  assumes "abind m f = (r, s')"
  obtains (step) a t where "m = (Ready a, t)" "f a t = (r, s')"
    | (fail) e where "m = (Failed e, s')" "r = Failed e"
    | (late) "m = (Elapsed, s')" "r = Elapsed"
  using assms by (cases m; cases "fst m") (auto simp: abind_def)

lemma execute_all_calls:
  assumes "execute_all d k qs n s = (r, s')"
  shows "\<exists>m\<le>length qs. calls s' = calls s @ map (stmt_call k) (take m qs) \<and>
     (r = Elapsed \<or> (\<exists>e. r = Failed e) \<or> m = length qs) \<and> (started s' \<longleftrightarrow> started s \<or> 0 < m)"
  using assms
proof (induction qs arbitrary: n s)
  case Nil
  then show ?case by auto
next
  case (Cons q qs)
  show ?case
  proof (cases "make_query_for k (binds q)")
    case (Inl e)
    then show ?thesis using Cons.prems by (auto simp: lift_error_def intro: exI [of _ 0])
  next
    case (Inr bs)
    then have sc: "stmt_call k q = CallExecute (sql q) bs" by (simp add: stmt_call_def stmt_binds_def)
    obtain p t where c: "call (CallExecute (sql q) bs) (d_execute d (sql q) bs) (mark_started s) = (p, t)"
      by (cases "call (CallExecute (sql q) bs) (d_execute d (sql q) bs) (mark_started s)")
    have t: "calls t = calls s @ [stmt_call k q]" "started t"
      using call_calls [OF c] sc by (simp_all add: mark_started_def)
    have one: "\<exists>m\<le>length (q # qs). calls t = calls s @ map (stmt_call k) (take m (q # qs)) \<and>
        (started t \<longleftrightarrow> started s \<or> 0 < m)"
      using t by (intro exI [of _ "Suc 0"]) simp
    show ?thesis
    proof (cases p)
      case (Ready a)
      then have "execute_all d k qs (saturating_add_u64 n (fst a)) t = (r, s')"
        using Cons.prems Inr c by (simp add: lift_error_def)
      from Cons.IH [OF this] t show ?thesis by (auto intro: exI [of _ "Suc m" for m])
    next
      case Elapsed
      then show ?thesis using Cons.prems Inr c one by (auto simp: lift_error_def)
    next
      case (Failed e)
      then show ?thesis using Cons.prems Inr c one by (auto simp: lift_error_def)
    qed
  qed
qed

lemma fetch_rows_calls:
  "fetch_rows d max_rows rows s = (r, s') \<Longrightarrow>
     (\<exists>n. calls s' = calls s @ replicate n CallNext \<and> n \<le> Suc (max_rows - length rows)) \<and> started s' = started s \<and>
     (length rows \<le> max_rows \<longrightarrow> (\<forall>rs. r = Ready (Some rs) \<longrightarrow> length rs \<le> max_rows))"
proof (induction d max_rows rows s arbitrary: r s' rule: fetch_rows.induct)
  case (1 d max_rows rows s)
  obtain p t where c: "call CallNext (d_next d) s = (p, t)" by (cases "call CallNext (d_next d) s")
  note t = call_calls [OF c]
  have one: "\<exists>n. calls t = calls s @ replicate n CallNext \<and> n \<le> Suc (max_rows - length rows)"
    using t by (intro exI [of _ "Suc 0"]) simp
  show ?case
  proof (cases "\<exists>row. p = Ready (Some row) \<and> length rows < max_rows")
    case True
    then obtain row where p: "p = Ready (Some row)" "length rows < max_rows" by blast
    then have "fetch_rows d max_rows (rows @ [row]) t = (r, s')"
      using "1.prems" c by (simp add: fetch_rows.simps [of d max_rows rows s])
    from "1.IH" [OF c [unfolded p(1)] refl _ this] p obtain n where
      n: "calls s' = calls t @ replicate n CallNext" "n \<le> Suc (max_rows - Suc (length rows))"
        "started s' = started t" "\<forall>rs. r = Ready (Some rs) \<longrightarrow> length rs \<le> max_rows"
      by auto
    have "calls s' = calls s @ replicate (Suc n) CallNext" using n(1) t by simp
    then show ?thesis using n t p by (auto intro!: exI [of _ "Suc n"])
  next
    case False
    then show ?thesis using "1.prems" c t one
      by (auto simp: fetch_rows.simps [of d max_rows rows s] split: polled.splits option.splits if_splits
          elim!: abind_cases)
  qed
qed

lemma call_obtain:
  obtains r s' where "call c f s = (r, s')" "calls s' = calls s @ [c]" "started s' = started s"
  using that call_calls [of c f s] by (cases "call c f s") blast

lemma transaction_shape:
  assumes "backend_transaction d k qs s = (r, s')"
  shows "\<exists>m\<le>length qs. \<exists>fin. calls s' = calls s @ CallBegin # map (stmt_call k) (take m qs) @ fin \<and>
     (fin = [] \<or> fin = [CallRollback] \<or> fin = [CallCommit] \<and> m = length qs) \<and>
     (started s' \<longleftrightarrow> started s \<or> 0 < m) \<and>
     (case r of
        Ready (RTransaction n) \<Rightarrow> fin = [CallCommit] \<and>
          fst (execute_all d k qs 0 (snd (call CallBegin (d_begin d) s))) = Ready n
      | Ready (RDisconnectedError e) \<Rightarrow> fin \<noteq> []
      | Ready _ \<Rightarrow> False
      | Failed e \<Rightarrow> fin = [CallRollback] \<or> (m = 0 \<and> fin = [] \<and> fst (call CallBegin (d_begin d) s) = Failed e)
      | Elapsed \<Rightarrow> True)"
proof -
  obtain b s1 where b: "call CallBegin (d_begin d) s = (b, s1)" "calls s1 = calls s @ [CallBegin]" "started s1 = started s"
    by (rule call_obtain)
  show ?thesis
  proof (cases "\<exists>u. b = Ready u")
    case False
    then show ?thesis using assms b
      by (intro exI [of _ 0] conjI exI [of _ "[]"])
        (auto simp: backend_transaction_def abind_def split: polled.splits)
  next
    case True
    obtain x s2 where x: "execute_all d k qs 0 s1 = (x, s2)" by (cases "execute_all d k qs 0 s1")
    obtain m where m: "m \<le> length qs" "calls s2 = calls s @ CallBegin # map (stmt_call k) (take m qs)"
      "x = Elapsed \<or> (\<exists>e. x = Failed e) \<or> m = length qs" "started s2 \<longleftrightarrow> started s \<or> 0 < m"
      using execute_all_calls [OF x] b by auto
    obtain rb s3 where rb: "call CallRollback (d_rollback d) s2 = (rb, s3)" "calls s3 = calls s2 @ [CallRollback]"
      "started s3 = started s2" by (rule call_obtain)
    obtain co s4 where co: "call CallCommit (d_commit d) s2 = (co, s4)" "calls s4 = calls s2 @ [CallCommit]"
      "started s4 = started s2" by (rule call_obtain)
    have all: "fst (execute_all d k qs 0 (snd (call CallBegin (d_begin d) s))) = x"
      using x b by simp
    have run: "backend_transaction d k qs s =
       (case x of Elapsed \<Rightarrow> (Elapsed, s2)
        | Failed e \<Rightarrow> (case rb of Elapsed \<Rightarrow> (Elapsed, s3) | Failed e' \<Rightarrow> (Ready (RDisconnectedError e'), s3)
            | Ready _ \<Rightarrow> (Failed e, s3))
        | Ready n \<Rightarrow> (case co of Elapsed \<Rightarrow> (Elapsed, s4) | Failed e' \<Rightarrow> (Ready (RDisconnectedError e'), s4)
            | Ready _ \<Rightarrow> (Ready (RTransaction n), s4)))"
      using True b x rb co by (auto simp: backend_transaction_def split: polled.splits)
    show ?thesis
    proof (cases x)
      case Elapsed
      then show ?thesis using assms run m by (intro exI [of _ m] conjI exI [of _ "[]"]) auto
    next
      case (Failed e)
      then show ?thesis using assms run m rb
        by (intro exI [of _ m] conjI exI [of _ "[CallRollback]"]) (auto split: polled.splits)
    next
      case (Ready n)
      then show ?thesis using assms run m co all
        by (intro exI [of _ m] conjI exI [of _ "[CallCommit]"]) (auto split: polled.splits)
    qed
  qed
qed

section \<open>What the driver answered\<close>

text \<open>
  The calls of a request, made again on the driver from the world in which the request began:
  what each was answered (with the affected rows of a statement), and the world at the end.
\<close>

datatype verdict = Went u64 | Broke sqlx_error | Late

fun verdict_of :: "('a \<Rightarrow> u64) \<Rightarrow> 'a polled \<Rightarrow> verdict" where
  "verdict_of f (Ready a) = Went (f a)"
| "verdict_of f (Failed e) = Broke e"
| "verdict_of f Elapsed = Late"

fun call_verdict :: "('w, 'r) driver \<Rightarrow> drv_call \<Rightarrow> 'w \<Rightarrow> verdict \<times> 'w" where
  "call_verdict d (CallConnect k u) w =
     (case d_connect d k u w of (None, w') \<Rightarrow> (Late, w') | (Some r, w') \<Rightarrow> (verdict_of (\<lambda>_. 0) r, w'))"
| "call_verdict d CallBegin w = map_prod (verdict_of (\<lambda>_. 0)) (\<lambda>w. w) (d_begin d w)"
| "call_verdict d (CallFetch t bs) w = (Went 0, d_fetch d t bs w)"
| "call_verdict d CallNext w = map_prod (verdict_of (\<lambda>_. 0)) (\<lambda>w. w) (d_next d w)"
| "call_verdict d (CallExecute t bs) w = map_prod (verdict_of fst) (\<lambda>w. w) (d_execute d t bs w)"
| "call_verdict d (CallRaw t) w = map_prod (verdict_of fst) (\<lambda>w. w) (d_raw d t w)"
| "call_verdict d CallCommit w = map_prod (verdict_of (\<lambda>_. 0)) (\<lambda>w. w) (d_commit d w)"
| "call_verdict d CallRollback w = map_prod (verdict_of (\<lambda>_. 0)) (\<lambda>w. w) (d_rollback d w)"
| "call_verdict d CallClose w = (Went 0, d_close d w)"

fun replay :: "('w, 'r) driver \<Rightarrow> drv_call list \<Rightarrow> 'w \<Rightarrow> (drv_call \<times> verdict) list \<times> 'w" where
  "replay d [] w = ([], w)"
| "replay d (c # cs) w =
     (case call_verdict d c w of (v, w1) \<Rightarrow> (case replay d cs w1 of (vs, w2) \<Rightarrow> ((c, v) # vs, w2)))"

lemma replay_append:
  "replay d (xs @ ys) w =
     (case replay d xs w of (vs, w1) \<Rightarrow> (case replay d ys w1 of (us, w2) \<Rightarrow> (vs @ us, w2)))"
  by (induction xs arbitrary: w) (auto split: prod.splits)

text \<open>One request's calls and their answers, as an extension of its record.\<close>

definition answered :: "('w, 'r) driver \<Rightarrow> 'w io \<Rightarrow> (drv_call \<times> verdict) list \<Rightarrow> 'w io \<Rightarrow> bool" where
  "answered d s vs s' \<longleftrightarrow> calls s' = calls s @ map fst vs \<and> replay d (map fst vs) (world s) = (vs, world s') \<and>
     (started s' \<longleftrightarrow> started s \<or> (\<exists>c\<in>set (map fst vs). is_statement c))"

lemma answered_refl: "answered d s [] s"
  by (simp add: answered_def)

lemma answered_trans: "answered d s vs t \<Longrightarrow> answered d t us u \<Longrightarrow> answered d s (vs @ us) u"
  by (auto simp: answered_def replay_append)

lemma answered_begin: "call CallBegin (d_begin d) s = (r, s') \<Longrightarrow> answered d s [(CallBegin, verdict_of (\<lambda>_. 0) r)] s'"
  and answered_commit: "call CallCommit (d_commit d) s = (r, s') \<Longrightarrow> answered d s [(CallCommit, verdict_of (\<lambda>_. 0) r)] s'"
  and answered_rollback: "call CallRollback (d_rollback d) s = (r, s') \<Longrightarrow> answered d s [(CallRollback, verdict_of (\<lambda>_. 0) r)] s'"
  by (auto simp: answered_def actor_simps split: prod.splits)

lemma answered_execute:
  "call (CallExecute t bs) (d_execute d t bs) (mark_started s) = (x, s') \<Longrightarrow>
    answered d s [(CallExecute t bs, verdict_of fst x)] s'"
  by (auto simp: answered_def actor_simps split: prod.splits)

text \<open>Statements that all went through, and a run of them that stopped at one with an error.\<close>

definition all_went :: "db_kind \<Rightarrow> db_query list \<Rightarrow> u64 list \<Rightarrow> (drv_call \<times> verdict) list" where
  "all_went k qs rows = map2 (\<lambda>q n. (stmt_call k q, Went n)) qs rows"

definition stopped_at :: "db_kind \<Rightarrow> db_query list \<Rightarrow> (drv_call \<times> verdict) list \<Rightarrow> sqlx_error \<Rightarrow> bool" where
  "stopped_at k qs vs e \<longleftrightarrow> (\<exists>m<length qs. \<exists>rows. length rows = m \<and>
     (case make_query_for k (binds (qs ! m)) of
        Inl e' \<Rightarrow> e' = e \<and> vs = all_went k (take m qs) rows
      | Inr bs \<Rightarrow> vs = all_went k (take m qs) rows @ [(stmt_call k (qs ! m), Broke e)]))"

text \<open>
  What a transaction may answer after these calls and answers: success after a COMMIT that went
  through, with the rows of all statements; an error after a BEGIN that broke with it, or
  after statements stopped with it and a ROLLBACK that went through; a lost connection after a
  COMMIT or a ROLLBACK that broke; and a passed deadline after the call that did not return.
\<close>

definition rolled_back :: "db_kind \<Rightarrow> db_query list \<Rightarrow> (drv_call \<times> verdict) list \<Rightarrow> sqlx_error \<Rightarrow> verdict \<Rightarrow> bool" where
  "rolled_back k qs vs e v \<longleftrightarrow>
     (\<exists>body. vs = (CallBegin, Went 0) # body @ [(CallRollback, v)] \<and> stopped_at k qs body e)"

definition committed :: "db_kind \<Rightarrow> db_query list \<Rightarrow> (drv_call \<times> verdict) list \<Rightarrow> u64 list \<Rightarrow> verdict \<Rightarrow> bool" where
  "committed k qs vs rows v \<longleftrightarrow> length rows = length qs \<and>
     vs = (CallBegin, Went 0) # all_went k qs rows @ [(CallCommit, v)]"

definition late_statement :: "db_kind \<Rightarrow> db_query list \<Rightarrow> (drv_call \<times> verdict) list \<Rightarrow> bool" where
  "late_statement k qs vs \<longleftrightarrow> (\<exists>m<length qs. \<exists>rows. length rows = m \<and>
     vs = (CallBegin, Went 0) # all_went k (take m qs) rows @ [(stmt_call k (qs ! m), Late)])"

fun transaction_told :: "db_kind \<Rightarrow> db_query list \<Rightarrow> (drv_call \<times> verdict) list \<Rightarrow> 'r db_response polled \<Rightarrow> bool" where
  "transaction_told k qs vs (Ready (RTransaction n)) \<longleftrightarrow>
     (\<exists>rows. committed k qs vs rows (Went 0) \<and> n = foldl saturating_add_u64 0 rows)"
| "transaction_told k qs vs (Ready (RDisconnectedError e)) \<longleftrightarrow>
     (\<exists>rows. committed k qs vs rows (Broke e)) \<or> (\<exists>e'. rolled_back k qs vs e' (Broke e))"
| "transaction_told k qs vs (Ready _) \<longleftrightarrow> False"
| "transaction_told k qs vs (Failed e) \<longleftrightarrow> vs = [(CallBegin, Broke e)] \<or> rolled_back k qs vs e (Went 0)"
| "transaction_told k qs vs Elapsed \<longleftrightarrow> vs = [(CallBegin, Late)] \<or> late_statement k qs vs \<or>
     (\<exists>rows. committed k qs vs rows Late) \<or> (\<exists>e. rolled_back k qs vs e Late)"

text \<open>The loop over the statements, against the answers.\<close>

lemma all_went_Cons: "all_went k (q # qs) (n # rows) = (stmt_call k q, Went n) # all_went k qs rows"
  and all_went_Nil: "all_went k [] rows = []"
  by (simp_all add: all_went_def)

lemma stopped_at_Cons: "stopped_at k qs vs e \<Longrightarrow> stopped_at k (q # qs) ((stmt_call k q, Went n) # vs) e"
  unfolding stopped_at_def
  by (elim exE conjE, rule_tac x = "Suc m" in exI, rule conjI, simp, rule_tac x = "n # rows" in exI)
    (auto simp: all_went_Cons split: sum.splits)

fun execute_told :: "db_kind \<Rightarrow> db_query list \<Rightarrow> u64 \<Rightarrow> (drv_call \<times> verdict) list \<Rightarrow> u64 polled \<Rightarrow> bool" where
  "execute_told k qs n vs (Ready n') \<longleftrightarrow>
     (\<exists>rows. length rows = length qs \<and> vs = all_went k qs rows \<and> n' = foldl saturating_add_u64 n rows)"
| "execute_told k qs n vs (Failed e) \<longleftrightarrow> stopped_at k qs vs e"
| "execute_told k qs n vs Elapsed \<longleftrightarrow> (\<exists>m<length qs. \<exists>rows. length rows = m \<and>
     vs = all_went k (take m qs) rows @ [(stmt_call k (qs ! m), Late)])"

lemma execute_told_Cons:
  assumes "execute_told k qs (saturating_add_u64 n a) vs r"
  shows "execute_told k (q # qs) n ((stmt_call k q, Went a) # vs) r"
proof (cases r)
  case (Ready n')
  with assms obtain rows where "length rows = length qs" "vs = all_went k qs rows"
    "n' = foldl saturating_add_u64 (saturating_add_u64 n a) rows" by auto
  then show ?thesis using Ready by (auto simp: all_went_Cons intro!: exI [of _ "a # rows"])
next
  case (Failed e)
  then show ?thesis using assms stopped_at_Cons by simp
next
  case Elapsed
  with assms obtain rows where "length rows < length qs"
    "vs = all_went k (take (length rows) qs) rows @ [(stmt_call k (qs ! length rows), Late)]" by auto
  then show ?thesis using Elapsed
    by (auto simp: all_went_Cons intro!: exI [of _ "Suc (length rows)"] exI [of _ "a # rows"])
qed

lemma execute_all_told:
  "execute_all d k qs n s = (r, s') \<Longrightarrow> \<exists>vs. answered d s vs s' \<and> execute_told k qs n vs r"
proof (induction qs arbitrary: n s)
  case Nil
  then show ?case using answered_refl by (auto simp: all_went_Nil intro!: exI [of _ "[]"])
next
  case (Cons q qs)
  show ?case
  proof (cases "make_query_for k (binds q)")
    case (Inl e)
    then have "stopped_at k (q # qs) [] e" by (auto simp: stopped_at_def all_went_Nil intro!: exI [of _ 0])
    then show ?thesis using Cons.prems Inl answered_refl by (auto simp: lift_error_def intro!: exI [of _ "[]"])
  next
    case (Inr bs)
    then have sc: "stmt_call k q = CallExecute (sql q) bs" by (simp add: stmt_call_def stmt_binds_def)
    obtain x t where c: "call (CallExecute (sql q) bs) (d_execute d (sql q) bs) (mark_started s) = (x, t)"
      by (cases "call (CallExecute (sql q) bs) (d_execute d (sql q) bs) (mark_started s)")
    have t: "answered d s [(stmt_call k q, verdict_of fst x)] t" using answered_execute [OF c] sc by simp
    show ?thesis
    proof (cases x)
      case (Ready a)
      then have "execute_all d k qs (saturating_add_u64 n (fst a)) t = (r, s')"
        using Cons.prems Inr c by (simp add: lift_error_def)
      from Cons.IH [OF this] obtain vs where vs: "answered d t vs s'"
        "execute_told k qs (saturating_add_u64 n (fst a)) vs r" by blast
      from answered_trans [OF t vs(1)] execute_told_Cons [OF vs(2)] Ready show ?thesis by auto
    next
      case Elapsed
      then have "(r, s') = (Elapsed, t)" using Cons.prems Inr c by (simp add: lift_error_def)
      then show ?thesis using t Elapsed
        by (auto simp: all_went_Nil intro!: exI [of _ "[(stmt_call k q, Late)]"] exI [of _ 0])
    next
      case (Failed e)
      then have "(r, s') = (Failed e, t)" using Cons.prems Inr c by (simp add: lift_error_def)
      moreover have "stopped_at k (q # qs) [(stmt_call k q, Broke e)] e"
        using Inr by (auto simp: stopped_at_def all_went_Nil intro!: exI [of _ 0])
      ultimately show ?thesis using t Failed by (auto intro!: exI [of _ "[(stmt_call k q, Broke e)]"])
    qed
  qed
qed

lemma transaction_told_correct:
  assumes "backend_transaction d k qs s = (r, s')"
  shows "\<exists>vs. answered d s vs s' \<and> transaction_told k qs vs r"
proof -
  obtain b s1 where b: "call CallBegin (d_begin d) s = (b, s1)" by (rule call_obtain)
  note ab = answered_begin [OF b]
  show ?thesis
  proof (cases b)
    case (Ready u)
    obtain x s2 where x: "execute_all d k qs 0 s1 = (x, s2)" by (cases "execute_all d k qs 0 s1")
    obtain body where body: "answered d s1 body s2" "execute_told k qs 0 body x" using execute_all_told [OF x] by blast
    from answered_trans [OF ab body(1)] Ready have a2: "answered d s ((CallBegin, Went 0) # body) s2" by simp
    obtain rb s3 where rb: "call CallRollback (d_rollback d) s2 = (rb, s3)" by (rule call_obtain)
    obtain co s4 where co: "call CallCommit (d_commit d) s2 = (co, s4)" by (rule call_obtain)
    from answered_trans [OF a2 answered_rollback [OF rb]] answered_trans [OF a2 answered_commit [OF co]]
    have a: "answered d s ((CallBegin, Went 0) # body @ [(CallRollback, verdict_of (\<lambda>_. 0) rb)]) s3"
      "answered d s ((CallBegin, Went 0) # body @ [(CallCommit, verdict_of (\<lambda>_. 0) co)]) s4" by simp_all
    have run: "(r, s') =
       (case x of Elapsed \<Rightarrow> (Elapsed, s2)
        | Failed e \<Rightarrow> (case rb of Elapsed \<Rightarrow> (Elapsed, s3) | Failed e' \<Rightarrow> (Ready (RDisconnectedError e'), s3)
            | Ready _ \<Rightarrow> (Failed e, s3))
        | Ready n \<Rightarrow> (case co of Elapsed \<Rightarrow> (Elapsed, s4) | Failed e' \<Rightarrow> (Ready (RDisconnectedError e'), s4)
            | Ready _ \<Rightarrow> (Ready (RTransaction n), s4)))"
      using assms Ready b x rb co by (auto simp: backend_transaction_def split: polled.splits)
    show ?thesis
    proof (cases x)
      case (Ready n)
      then obtain rows where rows: "length rows = length qs" "body = all_went k qs rows" "n = foldl saturating_add_u64 0 rows"
        using body(2) by auto
      then have c: "committed k qs ((CallBegin, Went 0) # body @ [(CallCommit, v)]) rows v" for v
        by (simp add: committed_def)
      show ?thesis using run Ready a(2) c [of Late] c [of "Went 0"] c [of "Broke e" for e] rows(3)
        by (cases co) (auto intro!: exI [of _ "(CallBegin, Went 0) # body @ [(CallCommit, verdict_of (\<lambda>_. 0) co)]"] exI [of _ rows])
    next
      case (Failed e)
      then have c: "\<forall>v. rolled_back k qs ((CallBegin, Went 0) # body @ [(CallRollback, v)]) e v"
        using body(2) by (auto simp: rolled_back_def)
      then have "\<forall>v. \<exists>e'. rolled_back k qs ((CallBegin, Went 0) # body @ [(CallRollback, v)]) e' v" by blast
      with c show ?thesis using run Failed a(1)
        by (cases rb) (auto intro!: exI [of _ "(CallBegin, Went 0) # body @ [(CallRollback, verdict_of (\<lambda>_. 0) rb)]"])
    next
      case Elapsed
      then have "late_statement k qs ((CallBegin, Went 0) # body)" using body(2) by (auto simp: late_statement_def)
      then show ?thesis using run Elapsed a2 by auto
    qed
  next
    case (Failed e)
    then show ?thesis using ab assms b by (auto simp: backend_transaction_def intro!: exI [of _ "[(CallBegin, Broke e)]"])
  next
    case Elapsed
    then show ?thesis using ab assms b by (auto simp: backend_transaction_def intro!: exI [of _ "[(CallBegin, Late)]"])
  qed
qed

text \<open>
  C15. A transaction is atomic as far as the driver answers. Made again on the driver, the
  calls of the request give the answers from which its result follows: \<open>RTransaction\<close> only when BEGIN,
  every statement in order and COMMIT all went through, with the sum of the affected rows; an error
  only when BEGIN broke with it, or the statements went through up to one that broke with it, or
  whose arguments could not be bound, and the ROLLBACK sent next went through; \<open>RDisconnectedError\<close>
  only when the COMMIT or that ROLLBACK broke, with its error; and a passed deadline only when
  the last call was the one that did not return. No other call is made.
\<close>

theorem transaction_atomic:
  assumes "backend_transaction d k qs s = (r, s')"
  shows "\<exists>new. calls s' = calls s @ new \<and> snd (replay d new (world s)) = world s' \<and>
     (started s' \<longleftrightarrow> started s \<or> (\<exists>c\<in>set new. is_statement c)) \<and>
     transaction_told k qs (fst (replay d new (world s))) r"
proof -
  obtain vs where "answered d s vs s'" "transaction_told k qs vs r" using transaction_told_correct [OF assms] by blast
  then show ?thesis by (intro exI [of _ "map fst vs"]) (auto simp: answered_def)
qed

text \<open>A driver that answers every statement with one row affected.\<close>

definition easy_driver :: "(nat, 'r) driver" where
  "easy_driver = \<lparr>d_connect = (\<lambda>k u w. (Some (Ready ()), w)), d_begin = (\<lambda>w. (Ready (), w)),
     d_fetch = (\<lambda>t bs w. w), d_next = (\<lambda>w. (Ready None, w)), d_execute = (\<lambda>t bs w. (Ready (1, 7), Suc w)),
     d_raw = (\<lambda>t w. (Ready (1, 7), w)), d_commit = (\<lambda>w. (Ready (), w)), d_rollback = (\<lambda>w. (Ready (), w)),
     d_close = (\<lambda>w. w), d_now = (\<lambda>w. (w, Suc w))\<rparr>"

definition demo_query :: db_query where
  "demo_query = \<lparr>sql = ''DELETE FROM t'', binds = [PInt 1]\<rparr>"

text \<open>A driver whose second statement breaks, and whose ROLLBACK does when the world says so.\<close>

definition breaking_driver :: "(nat, 'r) driver" where
  "breaking_driver = easy_driver\<lparr>
     d_execute := (\<lambda>t bs w. (if w mod 10 = 1 then Failed (EOther ''duplicate key'') else Ready (1, 7), Suc w)),
     d_rollback := (\<lambda>w. (if 10 \<le> w then Failed (EIo ''broken pipe'') else Ready (), w))\<rparr>"

theorem transaction_atomic_witness:
  "transaction_told MySql [demo_query, demo_query]
     [(CallBegin, Went 0), (stmt_call MySql demo_query, Went 1), (stmt_call MySql demo_query, Broke (EOther ''duplicate key'')),
      (CallRollback, Went 0)] (Failed (EOther ''duplicate key'') :: nat db_response polled) \<and>
   transaction_told MySql [demo_query, demo_query]
     [(CallBegin, Went 0), (stmt_call MySql demo_query, Went 1), (stmt_call MySql demo_query, Broke (EOther ''duplicate key'')),
      (CallRollback, Broke (EIo ''broken pipe''))] (Ready (RDisconnectedError (EIo ''broken pipe'')) :: nat db_response polled) \<and>
   transaction_told MySql [demo_query, demo_query]
     [(CallBegin, Went 0), (stmt_call MySql demo_query, Went 1), (stmt_call MySql demo_query, Went 1), (CallCommit, Went 0)]
     (Ready (RTransaction 2) :: nat db_response polled)"
proof -
  let ?s = "\<lambda>w. \<lparr>world = w, started = False, calls = []\<rparr> :: nat io"
  let ?c = "stmt_call MySql demo_query"
  have c: "?c = CallExecute ''DELETE FROM t'' [BoundInt 1]"
    by (simp add: stmt_call_def stmt_binds_def make_query_for_def make_query_def demo_query_def)
  have r: "backend_transaction (breaking_driver :: (nat, nat) driver) MySql [demo_query, demo_query] (?s 0) =
      (Failed (EOther ''duplicate key''), \<lparr>world = 2, started = True, calls = [CallBegin, ?c, ?c, CallRollback]\<rparr>)"
    "backend_transaction (breaking_driver :: (nat, nat) driver) MySql [demo_query, demo_query] (?s 10) =
      (Ready (RDisconnectedError (EIo ''broken pipe'')), \<lparr>world = 12, started = True, calls = [CallBegin, ?c, ?c, CallRollback]\<rparr>)"
    "backend_transaction (easy_driver :: (nat, nat) driver) MySql [demo_query, demo_query] (?s 0) =
      (Ready (RTransaction 2), \<lparr>world = 2, started = True, calls = [CallBegin, ?c, ?c, CallCommit]\<rparr>)"
    unfolding c
    by (simp_all add: backend_transaction_def breaking_driver_def easy_driver_def demo_query_def make_query_for_def
        make_query_def lift_error_def actor_simps saturating_add_u64_def)
  show ?thesis
    using transaction_atomic [OF r(1)] transaction_atomic [OF r(2)] transaction_atomic [OF r(3)]
    unfolding c by (simp add: breaking_driver_def easy_driver_def)
qed

end
