(* ===== verification/SqlxActor.thy ===== *)
theory SqlxActor
  imports SqlxRetry SqlxBackend
begin

text \<open>
  What the connection actor of \<open>crates/libs/lib-lualib/src/lua_sqlx.rs\<close> does with one request:
  the reconnect cooldown, connecting, running the operation under the deadline, classifying the
  answer, retiring the connection and finishing the request. The channel around it is in
  \<open>SqlxSystem\<close>.
\<close>

section \<open>Requests and classification\<close>

type_synonym owner = u32
type_synonym session = i64

datatype db_request =
    ReqQuery owner session db_query | ReqExecute owner session db_query | ReqBatch owner session string
  | ReqTransaction owner session "db_query list" | ReqClose

fun connection_error :: "sqlx_error \<Rightarrow> bool" where
  "connection_error (EIo _) = True"
| "connection_error (ETls _) = True"
| "connection_error (EProtocol _) = True"
| "connection_error EPoolTimedOut = True"
| "connection_error EPoolClosed = True"
| "connection_error EWorkerCrashed = True"
| "connection_error _ = False"

fun as_database_error :: "sqlx_error \<Rightarrow> db_error option" where
  "as_database_error (EDatabase e) = Some e"
| "as_database_error _ = None"

definition fatal_code :: "string \<Rightarrow> bool" where
  "fatal_code code \<longleftrightarrow> starts_with ''08'' code \<or> code \<in> set [''57P01'', ''57P02'', ''57P03'']"

definition fatal_error :: "sqlx_error \<Rightarrow> bool" where
  "fatal_error e \<longleftrightarrow> connection_error e \<or>
     (case Option.bind (as_database_error e) db_code of None \<Rightarrow> False | Some code \<Rightarrow> fatal_code code)"

fun requires_disconnect :: "'r db_response \<Rightarrow> bool" where
  "requires_disconnect (RTimeout _) = True"
| "requires_disconnect (RTimeoutBeforeExecution _) = True"
| "requires_disconnect (RRowLimitExceeded _) = True"
| "requires_disconnect (RDisconnectedError _) = True"
| "requires_disconnect (RError e) = fatal_error e"
| "requires_disconnect (RErrorBeforeExecution e) = fatal_error e"
| "requires_disconnect _ = False"

definition classify_execution :: "'r db_response \<Rightarrow> bool \<Rightarrow> 'r db_response" where
  "classify_execution resp executed =
     (if executed then resp
      else case resp of
        RError e \<Rightarrow> RErrorBeforeExecution e
      | RTimeout m \<Rightarrow> RTimeoutBeforeExecution m
      | _ \<Rightarrow> resp)"

section \<open>The actor\<close>

record handler_ctx =
  connection_name :: string
  database_url :: string
  request_timeout_ms :: nat
  ctx_max_rows :: nat
  reconnect_initial_delay :: nat
  reconnect_max_delay :: nat
  reconnect_log_interval :: nat

text \<open>What a finished request leaves behind: an answer for the waiting session, or a log line.\<close>

datatype 'r effect = Send owner session "'r db_response" | LogError owner string

record ('w, 'r) actor =
  actor_backend :: "db_kind option"
  actor_backoff :: backoff
  actor_gate :: log_gate
  actor_counter :: i64
  actor_effects :: "'r effect list"
  actor_world :: 'w
  actor_calls :: "drv_call list"

definition actor_new :: "handler_ctx \<Rightarrow> db_kind \<Rightarrow> 'w \<Rightarrow> ('w, 'r) actor" where
  "actor_new ctx k w = \<lparr>actor_backend = Some k,
     actor_backoff = backoff_new (reconnect_initial_delay ctx) (reconnect_max_delay ctx),
     actor_gate = log_gate_new (reconnect_log_interval ctx), actor_counter = 0, actor_effects = [],
     actor_world = w, actor_calls = []\<rparr>"

definition actor_now :: "('w, 'r) driver \<Rightarrow> ('w, 'r) actor \<Rightarrow> nat \<times> ('w, 'r) actor" where
  [actor_simps]: "actor_now d a = (case d_now d (actor_world a) of (t, w) \<Rightarrow> (t, a\<lparr>actor_world := w\<rparr>))"

text \<open>The message logged for a request nobody waits for.\<close>

definition show_u64 :: "u64 \<Rightarrow> string" where
  "show_u64 n = show_nat (unat n)"

definition unheard_message :: "(sqlx_error \<Rightarrow> string) \<Rightarrow> 'r db_response \<Rightarrow> string option" where
  "unheard_message show_error resp =
     (case resp of
        RError e \<Rightarrow> Some (show_error e)
      | RErrorBeforeExecution e \<Rightarrow> Some (show_error e)
      | RDisconnectedError e \<Rightarrow> Some (show_error e)
      | RTimeout m \<Rightarrow> Some m
      | RTimeoutBeforeExecution m \<Rightarrow> Some m
      | RConnectFailed e ms \<Rightarrow>
          Some (''connection failed: '' @ show_error e @ ''; retry after '' @ show_u64 ms @ '' ms (SQL not submitted)'')
      | RReconnectCooldown ms \<Rightarrow>
          Some (''reconnect cooldown: retry after '' @ show_u64 ms @ '' ms (SQL not submitted)'')
      | RRowLimitExceeded n \<Rightarrow> Some (''query result exceeded max_rows ('' @ show_nat n @ '')'')
      | _ \<Rightarrow> None)"

definition connect_problem :: "'r db_response \<Rightarrow> bool" where
  "connect_problem resp \<longleftrightarrow>
     (case resp of RConnectFailed _ _ \<Rightarrow> True | RReconnectCooldown _ \<Rightarrow> True | _ \<Rightarrow> False)"

definition log_unheard ::
  "(sqlx_error \<Rightarrow> string) \<Rightarrow> handler_ctx \<Rightarrow> owner \<Rightarrow> 'r db_response \<Rightarrow> u64 \<Rightarrow> ('w, 'r) actor \<Rightarrow> ('w, 'r) actor" where
  "log_unheard show_error ctx owner resp hidden a =
     (case unheard_message show_error resp of
        None \<Rightarrow> a
      | Some m \<Rightarrow> a\<lparr>actor_effects := actor_effects a @ [LogError owner
          (''Database '' @ [CHR 0x27] @ connection_name ctx @ [CHR 0x27] @ '' error: '' @ m @
           ''; suppressed connection errors: '' @ show_u64 hidden)]\<rparr>)"

definition finish_request ::
  "(sqlx_error \<Rightarrow> string) \<Rightarrow> handler_ctx \<Rightarrow> ('w, 'r) driver \<Rightarrow> owner \<Rightarrow> session \<Rightarrow> 'r db_response \<Rightarrow>
     ('w, 'r) actor \<Rightarrow> ('w, 'r) actor outcome" where
  "finish_request show_error ctx d owner session resp a0 =
     (let a = a0\<lparr>actor_counter := actor_counter a0 - 1\<rparr> in
      if session = 0 then
        if connect_problem resp then
          (case actor_now d a of (now, a) \<Rightarrow>
             obind (log_gate_take (actor_gate a) now) (\<lambda>(count, gate).
               let a = a\<lparr>actor_gate := gate\<rparr> in
               case count of None \<Rightarrow> Done a | Some n \<Rightarrow> Done (log_unheard show_error ctx owner resp n a)))
        else Done (log_unheard show_error ctx owner resp 0 a)
      else Done (a\<lparr>actor_effects := actor_effects a @ [Send owner session resp]\<rparr>))"

section \<open>One request\<close>

fun request_origin :: "db_request \<Rightarrow> (owner \<times> session \<times> string) option" where
  "request_origin (ReqQuery ow se _) = Some (ow, se, ''query'')"
| "request_origin (ReqExecute ow se _) = Some (ow, se, ''execute'')"
| "request_origin (ReqBatch ow se _) = Some (ow, se, ''batch'')"
| "request_origin (ReqTransaction ow se _) = Some (ow, se, ''transaction'')"
| "request_origin ReqClose = None"

fun run_operation ::
  "handler_ctx \<Rightarrow> ('w, 'r) driver \<Rightarrow> db_kind \<Rightarrow> db_request \<Rightarrow> 'w io \<Rightarrow> 'r db_response polled outcome \<times> 'w io" where
  "run_operation ctx d k (ReqQuery _ _ q) s = (case backend_query d k q (ctx_max_rows ctx) s of (r, s) \<Rightarrow> (Done r, s))"
| "run_operation ctx d k (ReqExecute _ _ q) s = (case backend_execute d k q s of (r, s) \<Rightarrow> (Done r, s))"
| "run_operation ctx d k (ReqBatch _ _ t) s = (case backend_batch d k t s of (r, s) \<Rightarrow> (Done r, s))"
| "run_operation ctx d k (ReqTransaction _ _ qs) s = (case backend_transaction d k qs s of (r, s) \<Rightarrow> (Done r, s))"
| "run_operation ctx d k ReqClose s = (Panic ''close is handled before execution'', s)"

text \<open>
  The future under the request deadline: its result, whether it was still connecting, and the
  actor and the request state at that point.
\<close>

definition attempt ::
  "handler_ctx \<Rightarrow> ('w, 'r) driver \<Rightarrow> db_request \<Rightarrow> ('w, 'r) actor \<Rightarrow>
     'r db_response polled outcome \<times> bool \<times> ('w, 'r) actor \<times> bool" where
  "attempt ctx d op a =
     (let s = \<lparr>world = actor_world a, started = False, calls = actor_calls a\<rparr>;
          leave = (\<lambda>s a. a\<lparr>actor_world := world s, actor_calls := calls s\<rparr>);
          go = (\<lambda>k s. let a = a\<lparr>actor_backend := Some k, actor_backoff := backoff_reset (actor_backoff a)\<rparr> in
                 case run_operation ctx d k op s of (r, s) \<Rightarrow> (r, False, leave s a, started s))
      in case actor_backend a of
           Some k \<Rightarrow> go k s
         | None \<Rightarrow>
             (case backend_connect d (database_url ctx) s of
                (Ready k, s) \<Rightarrow> go k s
              | (Failed e, s) \<Rightarrow> (Done (Failed e), True, leave s a, started s)
              | (Elapsed, s) \<Rightarrow> (Done Elapsed, True, leave s a, started s)))"

definition retire :: "'r db_response \<Rightarrow> ('w, 'r) actor \<Rightarrow> ('w, 'r) actor" where
  "retire resp a = (if requires_disconnect resp then a\<lparr>actor_backend := None\<rparr> else a)"

definition connect_failure :: "'a polled \<Rightarrow> sqlx_error outcome" where
  "connect_failure r =
     (case r of
        Failed e \<Rightarrow> Done e
      | Elapsed \<Rightarrow> Done (EIo ''request timed out while reconnecting'')
      | Ready _ \<Rightarrow> Panic ''successful reconnect clears connecting'')"

definition operation_response :: "handler_ctx \<Rightarrow> string \<Rightarrow> 'r db_response polled \<Rightarrow> 'r db_response" where
  "operation_response ctx operation r =
     (case r of
        Ready resp \<Rightarrow> resp
      | Failed e \<Rightarrow> RError e
      | Elapsed \<Rightarrow> RTimeout (operation @ '' timed out after '' @ show_nat (request_timeout_ms ctx) @ '' ms''))"

definition process_request ::
  "handler_ctx \<Rightarrow> ('w, 'r) driver \<Rightarrow> string \<Rightarrow> db_request \<Rightarrow> ('w, 'r) actor \<Rightarrow>
     ('r db_response \<times> ('w, 'r) actor) outcome" where
  "process_request ctx d operation op a =
     (case actor_now d a of (now, a) \<Rightarrow>
        let wait = retry_after_ms (actor_backoff a) now in
        if actor_backend a = None \<and> 0 < wait then Done (RReconnectCooldown wait, a)
        else
          (case attempt ctx d op a of (result, connecting, a, executed) \<Rightarrow>
             obind result (\<lambda>r.
             obind (if connecting then
                      (case actor_now d a of (now, a) \<Rightarrow>
                         obind (backoff_failed (actor_backoff a) now) (\<lambda>b.
                         obind (connect_failure r) (\<lambda>e.
                           case actor_now d (a\<lparr>actor_backoff := b\<rparr>) of (now, a) \<Rightarrow>
                             Done (RConnectFailed e (retry_after_ms b now), a))))
                    else Done (operation_response ctx operation r, a)) (\<lambda>(resp, a).
               let resp = classify_execution resp executed in Done (resp, retire resp a)))))"

definition handle_request ::
  "(sqlx_error \<Rightarrow> string) \<Rightarrow> handler_ctx \<Rightarrow> ('w, 'r) driver \<Rightarrow> db_request \<Rightarrow> ('w, 'r) actor \<Rightarrow>
     ('w, 'r) actor outcome" where
  "handle_request show_error ctx d op a =
     (case request_origin op of
        None \<Rightarrow> Panic ''close is handled before execution''
      | Some (owner, session, operation) \<Rightarrow>
          obind (process_request ctx d operation op a) (\<lambda>(resp, a).
            finish_request show_error ctx d owner session resp a))"

section \<open>What a request sends\<close>

fun request_statements :: "db_kind \<Rightarrow> db_request \<Rightarrow> drv_call list" where
  "request_statements k (ReqQuery _ _ q) = [CallFetch (sql q) (stmt_binds k q)]"
| "request_statements k (ReqExecute _ _ q) = [stmt_call k q]"
| "request_statements k (ReqBatch _ _ t) = [CallRaw t]"
| "request_statements k (ReqTransaction _ _ qs) = map (stmt_call k) qs"
| "request_statements k ReqClose = []"

definition is_connect :: "drv_call \<Rightarrow> bool" where
  "is_connect c \<longleftrightarrow> (case c of CallConnect _ _ \<Rightarrow> True | _ \<Rightarrow> False)"

lemma is_connect_simps [simp]:
  "is_connect (CallConnect k u)" "\<not> is_connect (CallFetch t bs)" "\<not> is_connect (CallExecute t bs)"
  "\<not> is_connect (CallRaw t)" "\<not> is_connect CallBegin" "\<not> is_connect CallNext" "\<not> is_connect CallCommit"
  "\<not> is_connect CallRollback" "\<not> is_connect CallClose"
  by (simp_all add: is_connect_def)

text \<open>The answers that \<open>decode\<close> marks with \<open>not_executed\<close>.\<close>

definition not_executed :: "'r db_response \<Rightarrow> bool" where
  "not_executed resp \<longleftrightarrow>
     (case resp of
        RErrorBeforeExecution _ \<Rightarrow> True
      | RTimeoutBeforeExecution _ \<Rightarrow> True
      | RConnectFailed _ _ \<Rightarrow> True
      | RReconnectCooldown _ \<Rightarrow> True
      | _ \<Rightarrow> False)"

text \<open>The answers of the operations themselves.\<close>

definition plain_response :: "'r db_response \<Rightarrow> bool" where
  "plain_response resp \<longleftrightarrow>
     (case resp of
        RPgRows _ \<Rightarrow> True | RMysqlRows _ \<Rightarrow> True | RSqliteRows _ \<Rightarrow> True | RRowLimitExceeded _ \<Rightarrow> True
      | RExecute _ _ \<Rightarrow> True | RTransaction _ \<Rightarrow> True | RDisconnectedError _ \<Rightarrow> True | _ \<Rightarrow> False)"

text \<open>
  An answer of an operation that sent no statement: a transaction without statements that was
  committed, or one whose COMMIT, there being no statements, or whose ROLLBACK broke.
\<close>

definition silent_transaction :: "db_request \<Rightarrow> 'r db_response \<Rightarrow> drv_call list \<Rightarrow> bool" where
  "silent_transaction op resp new \<longleftrightarrow>
     (case op of
        ReqTransaction ow se qs \<Rightarrow> (qs = [] \<and> resp = RTransaction 0) \<or>
          (\<exists>e. resp = RDisconnectedError e \<and> (qs = [] \<and> CallCommit \<in> set new \<or> CallRollback \<in> set new))
      | _ \<Rightarrow> False)"

lemma silent_transaction_mono: "silent_transaction op resp new \<Longrightarrow> silent_transaction op resp (pre @ new)"
  by (auto simp: silent_transaction_def split: db_request.splits)

text \<open>The effect of an operation: new calls, of which the statements are a prefix of its own.\<close>

definition sends :: "db_kind \<Rightarrow> db_request \<Rightarrow> 'w io \<Rightarrow> 'r db_response polled \<times> 'w io \<Rightarrow> bool" where
  "sends k op s x \<longleftrightarrow>
     (\<exists>new m. calls (snd x) = calls s @ new \<and> m \<le> length (request_statements k op) \<and>
        filter is_statement new = take m (request_statements k op) \<and> filter is_connect new = [] \<and>
        (started (snd x) \<longleftrightarrow> started s \<or> 0 < m) \<and> (\<forall>resp. fst x = Ready resp \<longrightarrow> plain_response resp \<and> (m = 0 \<longrightarrow> silent_transaction op resp new)))"

lemma sendsI:
  assumes "calls s' = calls s @ new" "m \<le> length (request_statements k op)"
    "filter is_statement new = take m (request_statements k op)" "filter is_connect new = []"
    "started s' \<longleftrightarrow> started s \<or> 0 < m" "\<And>resp. r = Ready resp \<Longrightarrow> plain_response resp"
    "\<And>resp. r = Ready resp \<Longrightarrow> m = 0 \<Longrightarrow> silent_transaction op resp new"
  shows "sends k op s (r, s')"
  using assms unfolding sends_def fst_conv snd_conv by blast

lemma filter_stmt_calls [simp]:
  "filter is_statement (map (stmt_call k) qs) = map (stmt_call k) qs"
  "filter is_connect (map (stmt_call k) qs) = []"
  by (induction qs) (simp_all add: stmt_call_def)

lemma sends_query: "sends k (ReqQuery ow se q) s (backend_query d k q n s)"
proof (cases "make_query_for k (binds q)")
  case (Inl e)
  then show ?thesis
    by (auto simp: backend_query_def lift_error_def intro!: sendsI [where new = "[]" and m = 0])
next
  case (Inr bs)
  define s1 where "s1 = snd (call (CallFetch (sql q) bs) (\<lambda>w. ((), d_fetch d (sql q) bs w)) (mark_started s))"
  have s1: "calls s1 = calls s @ [CallFetch (sql q) bs]" "started s1"
    by (simp_all add: s1_def actor_simps)
  obtain r s2 where f: "fetch_rows d n [] s1 = (r, s2)" by (cases "fetch_rows d n [] s1")
  from fetch_rows_calls [OF f] obtain j where
    s2: "calls s2 = calls s1 @ replicate j CallNext" "started s2 = started s1" by blast
  have "backend_query d k q n s = abind (r, s2) (\<lambda>r s. (Ready (rows_response k n r), s))"
    using Inr f by (simp add: backend_query_def lift_error_def s1_def Let_def)
  then obtain p where p: "backend_query d k q n s = (p, s2)" "\<forall>resp. p = Ready resp \<longrightarrow> plain_response resp"
    by (cases r) (auto simp: rows_response_def plain_response_def split: option.splits db_kind.splits)
  have "stmt_binds k q = bs" using Inr by (simp add: stmt_binds_def)
  then show ?thesis unfolding p(1)
    using s1 s2 p(2) by (intro sendsI [where new = "CallFetch (sql q) bs # replicate j CallNext" and m = 1]) auto
qed

lemma sends_execute: "sends k (ReqExecute ow se q) s (backend_execute d k q s)"
proof (cases "make_query_for k (binds q)")
  case (Inl e)
  then show ?thesis
    by (auto simp: backend_execute_def lift_error_def intro!: sendsI [where new = "[]" and m = 0])
next
  case (Inr bs)
  obtain r s1 where c: "call (CallExecute (sql q) bs) (d_execute d (sql q) bs) (mark_started s) = (r, s1)"
    "calls s1 = calls (mark_started s) @ [CallExecute (sql q) bs]" "started s1 = started (mark_started s)"
    by (rule call_obtain)
  then obtain p where p: "backend_execute d k q s = (p, s1)" "\<forall>resp. p = Ready resp \<longrightarrow> plain_response resp"
    using Inr by (cases r) (auto simp: backend_execute_def lift_error_def execute_response_def plain_response_def)
  have "stmt_call k q = CallExecute (sql q) bs" using Inr by (simp add: stmt_call_def stmt_binds_def)
  then show ?thesis unfolding p(1)
    using c p(2) by (intro sendsI [where new = "[CallExecute (sql q) bs]" and m = 1]) (auto simp: mark_started_def)
qed

lemma sends_batch: "sends k (ReqBatch ow se t) s (backend_batch d k t s)"
proof -
  obtain r s1 where c: "call (CallRaw t) (d_raw d t) (mark_started s) = (r, s1)"
    "calls s1 = calls (mark_started s) @ [CallRaw t]" "started s1 = started (mark_started s)"
    by (rule call_obtain)
  then obtain p where p: "backend_batch d k t s = (p, s1)" "\<forall>resp. p = Ready resp \<longrightarrow> plain_response resp"
    by (cases r) (auto simp: backend_batch_def execute_response_def plain_response_def)
  then show ?thesis unfolding p(1)
    using c p(2) by (intro sendsI [where new = "[CallRaw t]" and m = 1]) (auto simp: mark_started_def)
qed

text \<open>The shape of a transaction's calls, shared with \<open>SqlxBackend.transaction_atomic\<close>.\<close>

lemma transaction_plain: "backend_transaction d k qs s = (Ready resp, s') \<Longrightarrow> plain_response resp"
  by (auto simp: backend_transaction_def plain_response_def abind_def split: polled.splits prod.splits)

lemma sends_transaction: "sends k (ReqTransaction ow se qs) s (backend_transaction d k qs s)"
proof -
  obtain r s' where x: "backend_transaction d k qs s = (r, s')" by (cases "backend_transaction d k qs s")
  obtain m fin where m: "m \<le> length qs" "calls s' = calls s @ CallBegin # map (stmt_call k) (take m qs) @ fin"
    "fin = [] \<or> fin = [CallRollback] \<or> fin = [CallCommit] \<and> m = length qs" "started s' \<longleftrightarrow> started s \<or> 0 < m"
    "case r of
        Ready (RTransaction n) \<Rightarrow> fin = [CallCommit] \<and>
          fst (execute_all d k qs 0 (snd (call CallBegin (d_begin d) s))) = Ready n
      | Ready (RDisconnectedError e) \<Rightarrow> fin \<noteq> []
      | Ready _ \<Rightarrow> False
      | Failed e \<Rightarrow> fin = [CallRollback] \<or> (m = 0 \<and> fin = [] \<and> fst (call CallBegin (d_begin d) s) = Failed e)
      | Elapsed \<Rightarrow> True"
    using transaction_shape [OF x] by blast
  then have shape: "\<forall>n. r = Ready (RTransaction n) \<longrightarrow> fin = [CallCommit] \<and>
       fst (execute_all d k qs 0 (snd (call CallBegin (d_begin d) s))) = Ready n"
    "\<forall>e. r = Ready (RDisconnectedError e) \<longrightarrow> fin \<noteq> []"
    "\<forall>resp. r = Ready resp \<longrightarrow> (\<exists>n. resp = RTransaction n) \<or> (\<exists>e. resp = RDisconnectedError e)"
    by (auto split: polled.splits db_response.splits)
  have silent: "silent_transaction (ReqTransaction ow se qs) resp (CallBegin # map (stmt_call k) (take m qs) @ fin)"
    if "r = Ready resp" "m = 0" for resp
  proof -
    from shape(3) that(1) consider n where "resp = RTransaction n" | e where "resp = RDisconnectedError e" by blast
    then show ?thesis
    proof cases
      case 1
      with that m(3) shape(1) have "qs = []" by auto
      moreover from this have "n = 0" using shape(1) that 1 by simp
      ultimately show ?thesis using 1 by (simp add: silent_transaction_def)
    next
      case 2
      then show ?thesis using that m(3) shape(2) by (auto simp: silent_transaction_def)
    qed
  qed
  have plain: "plain_response resp" if "r = Ready resp" for resp
    using transaction_plain x that by blast
  show ?thesis unfolding x
    using m(1-4) plain silent by (intro sendsI [where new = "CallBegin # map (stmt_call k) (take m qs) @ fin" and m = m])
      (auto simp: take_map)
qed

lemma run_operation_sends:
  assumes "op \<noteq> ReqClose"
  shows "\<exists>r s'. run_operation ctx d k op s = (Done r, s') \<and> sends k op s (r, s')"
  using assms
proof (cases op)
  case (ReqQuery ow se q)
  then show ?thesis using sends_query [of k ow se q s d "ctx_max_rows ctx"]
    by (cases "backend_query d k q (ctx_max_rows ctx) s") auto
next
  case (ReqExecute ow se q)
  then show ?thesis using sends_execute [of k ow se q s d] by (cases "backend_execute d k q s") auto
next
  case (ReqBatch ow se t)
  then show ?thesis using sends_batch [of k ow se t s d] by (cases "backend_batch d k t s") auto
next
  case (ReqTransaction ow se qs)
  then show ?thesis using sends_transaction [of k ow se qs s d] by (cases "backend_transaction d k qs s") auto
qed simp

lemma connect_sends:
  assumes "backend_connect d url s = (r, s')"
  shows "\<exists>new. calls s' = calls s @ new \<and> filter is_statement new = [] \<and> length (filter is_connect new) \<le> 1 \<and>
     started s' = started s \<and> (\<forall>k. r = Ready k \<longrightarrow> url_kind url = Some k)"
proof (cases "url_kind url")
  case None
  then show ?thesis using assms by (intro exI [of _ "[]"]) (auto simp: backend_connect_def)
next
  case (Some k)
  obtain p s1 where c: "call (CallConnect k url) (d_connect d k url) s = (p, s1)"
    "calls s1 = calls s @ [CallConnect k url]" "started s1 = started s" by (rule call_obtain)
  then have "s' = s1" "\<forall>k'. r = Ready k' \<longrightarrow> k' = k"
    using assms Some by (auto simp: backend_connect_def abind_def split: option.splits polled.splits)
  then show ?thesis using c Some by (intro exI [of _ "[CallConnect k url]"]) auto
qed

text \<open>One attempt: what was sent, and where the actor stands.\<close>

definition attempted ::
  "handler_ctx \<Rightarrow> db_request \<Rightarrow> ('w, 'r) actor \<Rightarrow>
     'r db_response polled \<times> bool \<times> ('w, 'r) actor \<times> bool \<Rightarrow> bool" where
  "attempted ctx op a x \<longleftrightarrow>
     (case x of (r, connecting, a', executed) \<Rightarrow>
       \<exists>new m k. actor_calls a' = actor_calls a @ new \<and> m \<le> length (request_statements k op) \<and>
         filter is_statement new = take m (request_statements k op) \<and>
         length (filter is_connect new) \<le> (if actor_backend a = None then 1 else 0) \<and>
         (executed \<longleftrightarrow> 0 < m) \<and>
         (connecting \<longrightarrow> actor_backend a = None \<and> actor_backend a' = None \<and> m = 0 \<and> (\<forall>y. r \<noteq> Ready y) \<and>
            actor_backoff a' = actor_backoff a) \<and>
         (\<not> connecting \<longrightarrow> actor_backend a' = Some k \<and> (actor_backend a = Some k \<or> url_kind (database_url ctx) = Some k) \<and>
            (\<forall>resp. r = Ready resp \<longrightarrow> plain_response resp \<and> (m = 0 \<longrightarrow> silent_transaction op resp new)) \<and> actor_backoff a' = backoff_reset (actor_backoff a)) \<and>
         actor_counter a' = actor_counter a \<and> actor_effects a' = actor_effects a \<and> actor_gate a' = actor_gate a)"

lemma attempt_go:
  assumes op: "op \<noteq> ReqClose" and s: "\<not> started s" "calls s = actor_calls a @ pre" "filter is_statement pre = []"
    "length (filter is_connect pre) \<le> (if actor_backend a = None then 1 else 0)"
    and k: "actor_backend a = Some k \<or> url_kind (database_url ctx) = Some k"
  shows "\<exists>r a' x. (case run_operation ctx d k op s of (r, s) \<Rightarrow>
       (r, False, a\<lparr>actor_backend := Some k, actor_backoff := backoff_reset (actor_backoff a),
                     actor_world := world s, actor_calls := calls s\<rparr>, started s)) = (Done r, False, a', x) \<and>
     attempted ctx op a (r, False, a', x)"
proof -
  obtain r s' where r: "run_operation ctx d k op s = (Done r, s')" "sends k op s (r, s')"
    using run_operation_sends [OF op] by blast
  then obtain new m where m: "calls s' = calls s @ new" "m \<le> length (request_statements k op)"
    "filter is_statement new = take m (request_statements k op)" "filter is_connect new = []"
    "started s' \<longleftrightarrow> 0 < m" "\<forall>resp. r = Ready resp \<longrightarrow> plain_response resp \<and> (m = 0 \<longrightarrow> silent_transaction op resp new)"
    using s(1) by (auto simp: sends_def)
  have "attempted ctx op a (r, False, a\<lparr>actor_backend := Some k, actor_backoff := backoff_reset (actor_backoff a),
      actor_world := world s', actor_calls := calls s'\<rparr>, started s')"
    unfolding attempted_def using m s k
    by (auto intro!: exI [of _ "pre @ new"] exI [of _ m] exI [of _ k] silent_transaction_mono)
  then show ?thesis using r by simp
qed

lemma attempt_attempted:
  assumes op: "op \<noteq> ReqClose"
  shows "\<exists>r c a' x. attempt ctx d op a = (Done r, c, a', x) \<and> attempted ctx op a (r, c, a', x)"
proof -
  define s where "s = \<lparr>world = actor_world a, started = False, calls = actor_calls a\<rparr>"
  have s: "\<not> started s" "calls s = actor_calls a" by (simp_all add: s_def)
  show ?thesis
  proof (cases "actor_backend a")
    case (Some k)
    then show ?thesis
      using attempt_go [OF op s(1), of a "[]" k ctx d] s(2) by (simp add: attempt_def s_def [symmetric] Let_def) blast
  next
    case None
    obtain p s' where c: "backend_connect d (database_url ctx) s = (p, s')"
      by (cases "backend_connect d (database_url ctx) s")
    obtain new where new: "calls s' = actor_calls a @ new" "filter is_statement new = []"
      "length (filter is_connect new) \<le> 1" "\<not> started s'" "\<forall>k. p = Ready k \<longrightarrow> url_kind (database_url ctx) = Some k"
      using connect_sends [OF c] s by auto
    show ?thesis
    proof (cases "\<exists>k. p = Ready k")
      case True
      then obtain k where "p = Ready k" by blast
      then show ?thesis
        using attempt_go [OF op new(4), of a new k ctx d] new None c
        by (simp add: attempt_def s_def [symmetric] Let_def) blast
    next
      case False
      define q :: "'a db_response polled" where "q = (case p of Failed e \<Rightarrow> Failed e | _ \<Rightarrow> Elapsed)"
      have "attempt ctx d op a = (Done q, True, a\<lparr>actor_world := world s', actor_calls := calls s'\<rparr>, started s')"
        using False None c
        by (cases p) (simp_all add: attempt_def s_def [symmetric] Let_def q_def)
      moreover have "attempted ctx op a (q, True, a\<lparr>actor_world := world s', actor_calls := calls s'\<rparr>, started s')"
        unfolding attempted_def using new None False
        by (auto simp: q_def intro!: exI [of _ new] exI [of _ 0] split: polled.splits)
      ultimately show ?thesis by blast
    qed
  qed
qed

section \<open>Properties\<close>

text \<open>What has to hold of an answer and the actor after one request.\<close>

definition request_done ::
  "handler_ctx \<Rightarrow> db_request \<Rightarrow> ('w, 'r) actor \<Rightarrow> 'r db_response \<Rightarrow> ('w, 'r) actor \<Rightarrow> bool" where
  "request_done ctx op a resp a' \<longleftrightarrow>
     (\<exists>new m k. actor_calls a' = actor_calls a @ new \<and> m \<le> length (request_statements k op) \<and>
        filter is_statement new = take m (request_statements k op) \<and>
        length (filter is_connect new) \<le> (if actor_backend a = None then 1 else 0) \<and>
        (new \<noteq> [] \<longrightarrow> actor_backend a = Some k \<or> url_kind (database_url ctx) = Some k \<or> m = 0) \<and>
        (not_executed resp \<longrightarrow> m = 0) \<and>
        (m = 0 \<longrightarrow> not_executed resp \<or> plain_response resp \<and> silent_transaction op resp new)) \<and>
     (requires_disconnect resp \<longrightarrow> actor_backend a' = None) \<and>
     actor_counter a' = actor_counter a \<and> actor_effects a' = actor_effects a \<and> actor_gate a' = actor_gate a \<and>
     (\<forall>i x. backoff_ok i x (actor_backoff a) \<longrightarrow> backoff_ok i x (actor_backoff a'))"

lemma backoff_kept:
  "backoff_ok i m b \<Longrightarrow> backoff_ok i m (backoff_reset b)"
  "backoff_ok i m b \<Longrightarrow> backoff_failed b now = Done b' \<Longrightarrow> backoff_ok i m b'"
  using backoff_machine.step_inv [of i m b Reset] backoff_machine.step_inv [of i m b "backoff_op.Failed now" b']
  by simp_all

lemma plain_not: "plain_response resp \<Longrightarrow> \<not> not_executed resp"
  by (auto simp: plain_response_def not_executed_def split: db_response.splits)

lemma classify_plain [simp]: "plain_response resp \<Longrightarrow> classify_execution resp x = resp"
  by (auto simp: plain_response_def classify_execution_def split: db_response.splits)

lemma operation_classified:
  assumes "\<forall>resp. r = Ready resp \<longrightarrow> plain_response resp \<and> (\<not> x \<longrightarrow> P resp)"
  shows "(not_executed (classify_execution (operation_response ctx o' r) x) \<longrightarrow> \<not> x) \<and>
    (\<not> x \<longrightarrow> not_executed (classify_execution (operation_response ctx o' r) x) \<or>
       plain_response (classify_execution (operation_response ctx o' r) x) \<and>
       P (classify_execution (operation_response ctx o' r) x))"
  using assms by (cases r) (auto simp: operation_response_def plain_not, auto simp: classify_execution_def not_executed_def)

lemma actor_now_same:
  "actor_now d a = (t, a') \<Longrightarrow> \<exists>w. a' = a\<lparr>actor_world := w\<rparr>"
  by (auto simp: actor_simps split: prod.splits)

lemma retire_fields [simp]:
  "actor_calls (retire resp a) = actor_calls a" "actor_counter (retire resp a) = actor_counter a"
  "actor_effects (retire resp a) = actor_effects a" "actor_backoff (retire resp a) = actor_backoff a"
  "actor_gate (retire resp a) = actor_gate a"
  "actor_backend (retire resp a) = (if requires_disconnect resp then None else actor_backend a)"
  by (simp_all add: retire_def)

lemma backoff_failed_cases:
  "(\<exists>b'. backoff_failed b now = Done b') \<or> backoff_failed b now = Panic ''overflow when adding duration to instant''"
  by (auto simp: backoff_failed_def instant_add_def Let_def)

lemma process_request_cases:
  assumes op: "op \<noteq> ReqClose"
  shows "(\<exists>resp a'. process_request ctx d o' op a = Done (resp, a') \<and> request_done ctx op a resp a') \<or>
     process_request ctx d o' op a = Panic ''overflow when adding duration to instant'' \<and>
       (\<exists>b w e. backoff_failed b (fst (d_now d w)) = Panic e \<and>
          (\<forall>i y. backoff_ok i y (actor_backoff a) \<longrightarrow> backoff_ok i y b))"
proof -
  obtain now a1 where n: "actor_now d a = (now, a1)" by (cases "actor_now d a")
  from actor_now_same [OF n] obtain w where a1: "a1 = a\<lparr>actor_world := w\<rparr>" ..
  define wait where "wait = retry_after_ms (actor_backoff a1) now"
  show ?thesis
  proof (cases "actor_backend a1 = None \<and> 0 < wait")
    case True
    have "request_done ctx op a (RReconnectCooldown wait) a1"
      unfolding request_done_def a1 by (auto simp: not_executed_def intro!: exI [of _ 0])
    then show ?thesis using True n by (simp add: process_request_def wait_def Let_def)
  next
    case False
    obtain r c a2 x where at': "attempt ctx d op a1 = (Done r, c, a2, x)" "attempted ctx op a1 (r, c, a2, x)"
      using attempt_attempted [OF op] by blast
    obtain new m k where m: "actor_calls a2 = actor_calls a @ new" "m \<le> length (request_statements k op)"
      "filter is_statement new = take m (request_statements k op)"
      "length (filter is_connect new) \<le> (if actor_backend a = None then 1 else 0)" "x \<longleftrightarrow> 0 < m"
      "c \<longrightarrow> actor_backend a2 = None \<and> m = 0 \<and> (\<forall>y. r \<noteq> Ready y)"
      "\<not> c \<longrightarrow> (actor_backend a = Some k \<or> url_kind (database_url ctx) = Some k) \<and>
         (\<forall>resp. r = Ready resp \<longrightarrow> plain_response resp \<and> (m = 0 \<longrightarrow> silent_transaction op resp new))"
      "actor_counter a2 = actor_counter a" "actor_effects a2 = actor_effects a" "actor_gate a2 = actor_gate a"
      "actor_backoff a2 = actor_backoff a \<or> actor_backoff a2 = backoff_reset (actor_backoff a)"
      using at'(2) a1 by (auto simp: attempted_def)
    have bo: "backoff_ok i y (actor_backoff a2)" if "backoff_ok i y (actor_backoff a)" for i y
      using m(11) backoff_kept(1) [OF that] that by auto
    show ?thesis
    proof (cases c)
      case False
      define resp where "resp = classify_execution (operation_response ctx o' r) x"
      have "process_request ctx d o' op a = Done (resp, retire resp a2)"
        using \<open>\<not> (actor_backend a1 = None \<and> 0 < wait)\<close> n at'(1) False
        by (auto simp: process_request_def wait_def resp_def Let_def simp del: not_gr_zero)
      moreover have "(not_executed resp \<longrightarrow> \<not> x) \<and>
          (\<not> x \<longrightarrow> not_executed resp \<or> plain_response resp \<and> silent_transaction op resp new)"
        unfolding resp_def using m(5,7) False by (intro operation_classified) simp
      then have "request_done ctx op a resp (retire resp a2)"
        unfolding request_done_def using m False bo
        by (intro conjI exI [of _ new] exI [of _ m] exI [of _ k]) auto
      ultimately show ?thesis by blast
    next
      case True
      obtain now2 a3 where n2: "actor_now d a2 = (now2, a3)" by (cases "actor_now d a2")
      from actor_now_same [OF n2] obtain w3 where a3: "a3 = a2\<lparr>actor_world := w3\<rparr>" ..
      obtain e where e: "connect_failure r = Done e" using m(6) True by (cases r) (auto simp: connect_failure_def)
      show ?thesis
      proof (cases "\<exists>b'. backoff_failed (actor_backoff a3) now2 = Done b'")
        case True
        then obtain b' where b': "backoff_failed (actor_backoff a3) now2 = Done b'" ..
        obtain now4 a4 where n4: "actor_now d (a3\<lparr>actor_backoff := b'\<rparr>) = (now4, a4)"
          by (cases "actor_now d (a3\<lparr>actor_backoff := b'\<rparr>)")
        from actor_now_same [OF n4] obtain w4 where a4: "a4 = a3\<lparr>actor_backoff := b', actor_world := w4\<rparr>" by auto
        define resp :: "'a db_response" where "resp = RConnectFailed e (retry_after_ms b' now4)"
        have cl: "classify_execution resp x = resp" by (simp add: resp_def classify_execution_def)
        have "process_request ctx d o' op a = Done (resp, retire resp a4)"
          using \<open>\<not> (actor_backend a1 = None \<and> 0 < wait)\<close> n at'(1) \<open>c\<close> n2 b' e n4 cl
          by (auto simp: process_request_def wait_def resp_def Let_def simp del: not_gr_zero)
        moreover have "request_done ctx op a resp (retire resp a4)"
          unfolding request_done_def a4 a3 using m(1-10) \<open>c\<close> bo backoff_kept(2) [OF bo b' [unfolded a3, simplified]]
          by (auto simp: resp_def not_executed_def intro!: exI [of _ new] exI [of _ 0])
        ultimately show ?thesis by blast
      next
        case False
        then have "backoff_failed (actor_backoff a3) now2 = Panic ''overflow when adding duration to instant''"
          using backoff_failed_cases by blast

        moreover have "now2 = fst (d_now d (actor_world a2))" "actor_backoff a3 = actor_backoff a2"
          using n2 a3 by (auto simp: actor_simps split: prod.splits)
        ultimately have "\<exists>b w e. backoff_failed b (fst (d_now d w)) = Panic e \<and>
            (\<forall>i y. backoff_ok i y (actor_backoff a) \<longrightarrow> backoff_ok i y b)"
          using bo by metis
        then show ?thesis
          using \<open>\<not> (actor_backend a1 = None \<and> 0 < wait)\<close> n at'(1) \<open>c\<close> n2
            \<open>backoff_failed (actor_backoff a3) now2 = Panic ''overflow when adding duration to instant''\<close>
          by (auto simp: process_request_def wait_def Let_def simp del: not_gr_zero)
      qed
    qed
  qed
qed

definition clock_sane :: "handler_ctx \<Rightarrow> ('w, 'r) driver \<Rightarrow> bool" where
  "clock_sane ctx d \<longleftrightarrow>
     (\<forall>w. fst (d_now d w) + max (reconnect_initial_delay ctx) (max (reconnect_max_delay ctx) (reconnect_log_interval ctx))
        \<le> instant_max)"

definition actor_ok :: "handler_ctx \<Rightarrow> ('w, 'r) actor \<Rightarrow> bool" where
  "actor_ok ctx a \<longleftrightarrow>
     backoff_ok (reconnect_initial_delay ctx) (reconnect_max_delay ctx) (actor_backoff a) \<and>
     interval (actor_gate a) = reconnect_log_interval ctx"

lemma backoff_failed_total:
  assumes "backoff_ok i m b" "now + max i m \<le> instant_max"
  shows "backoff_failed b now \<noteq> Panic e"
  using assms by (auto simp: backoff_failed_def instant_add_def backoff_ok_def Let_def)

lemma process_request_total:
  assumes "op \<noteq> ReqClose" "actor_ok ctx a" "clock_sane ctx d"
  shows "\<exists>resp a'. process_request ctx d o' op a = Done (resp, a') \<and> request_done ctx op a resp a' \<and> actor_ok ctx a'"
proof -
  have "False" if "backoff_failed b (fst (d_now d w)) = Panic e"
      "\<forall>i y. backoff_ok i y (actor_backoff a) \<longrightarrow> backoff_ok i y b" for b w e
  proof -
    have "fst (d_now d w) + max (reconnect_initial_delay ctx) (reconnect_max_delay ctx) \<le> instant_max"
      using assms(3) unfolding clock_sane_def by (meson add_left_mono le_trans max.mono max.cobounded1 order_refl)
    then show False using backoff_failed_total that assms(2) unfolding actor_ok_def by blast
  qed
  with process_request_cases [OF assms(1), of ctx d o' a] obtain resp a' where
    "process_request ctx d o' op a = Done (resp, a')" "request_done ctx op a resp a'" by blast
  then show ?thesis using assms(2) unfolding actor_ok_def request_done_def by auto
qed

definition is_log :: "'r effect \<Rightarrow> bool" where
  "is_log e \<longleftrightarrow> (case e of LogError _ _ \<Rightarrow> True | Send _ _ _ \<Rightarrow> False)"

text \<open>The effects a request with this answer may leave.\<close>

definition finished_with :: "owner \<Rightarrow> session \<Rightarrow> 'r db_response \<Rightarrow> 'r effect list \<Rightarrow> bool" where
  "finished_with ow se resp es \<longleftrightarrow>
     (if se = 0 then length es \<le> 1 \<and> list_all is_log es else es = [Send ow se resp])"

lemma finish_request_total:
  assumes "actor_ok ctx a" "clock_sane ctx d"
  shows "\<exists>a' es. finish_request show_error ctx d ow se resp a = Done a' \<and> actor_ok ctx a' \<and>
     actor_counter a' = actor_counter a - 1 \<and> actor_effects a' = actor_effects a @ es \<and>
     finished_with ow se resp es \<and> actor_calls a' = actor_calls a \<and> actor_backend a' = actor_backend a"
proof -
  have log: "\<exists>es. actor_ok ctx (log_unheard show_error ctx ow resp n a1) \<and>
      actor_counter (log_unheard show_error ctx ow resp n a1) = actor_counter a1 \<and>
      actor_effects (log_unheard show_error ctx ow resp n a1) = actor_effects a1 @ es \<and> length es \<le> 1 \<and>
      list_all is_log es \<and> actor_calls (log_unheard show_error ctx ow resp n a1) = actor_calls a1 \<and>
      actor_backend (log_unheard show_error ctx ow resp n a1) = actor_backend a1" if "actor_ok ctx a1" for n a1
    using that by (auto simp: log_unheard_def actor_ok_def is_log_def split: option.splits)
  define a1 where "a1 = a\<lparr>actor_counter := actor_counter a - 1\<rparr>"
  have a1: "actor_ok ctx a1" using assms(1) by (simp add: a1_def actor_ok_def)
  show ?thesis
  proof (cases "se = 0 \<and> connect_problem resp")
    case False
    then show ?thesis using log [OF a1, of 0] a1
      by (auto simp: finish_request_def a1_def [symmetric] Let_def finished_with_def)
        (auto simp: a1_def actor_ok_def)
  next
    case True
    obtain now a2 where n: "actor_now d a1 = (now, a2)" by (cases "actor_now d a1")
    from actor_now_same [OF n] obtain w where a2: "a2 = a1\<lparr>actor_world := w\<rparr>" ..
    have "now = fst (d_now d (actor_world a1))" using n by (auto simp: actor_simps split: prod.splits)
    then have le: "now + interval (actor_gate a2) \<le> instant_max"
      using assms a1 a2 unfolding clock_sane_def actor_ok_def
      by simp (meson add_left_mono le_trans max.cobounded2)
    have "\<exists>count gate. log_gate_take (actor_gate a2) now = Done (count, gate) \<and> interval gate = interval (actor_gate a2)"
      using le by (auto simp: log_gate_take_def instant_add_def)
    then obtain count gate where g: "log_gate_take (actor_gate a2) now = Done (count, gate)"
      "interval gate = interval (actor_gate a2)" by blast
    define a3 where "a3 = a2\<lparr>actor_gate := gate\<rparr>"
    have a3: "actor_ok ctx a3" "actor_counter a3 = actor_counter a - 1" "actor_effects a3 = actor_effects a"
      "actor_calls a3 = actor_calls a" "actor_backend a3 = actor_backend a"
      using a1 a2 g(2) by (simp_all add: a3_def a1_def actor_ok_def)
    have "finish_request show_error ctx d ow se resp a =
        (case count of None \<Rightarrow> Done a3 | Some n \<Rightarrow> Done (log_unheard show_error ctx ow resp n a3))"
      using True n g(1) by (simp add: finish_request_def a1_def [symmetric] Let_def a3_def split: option.split)
    then show ?thesis
      using True a3 log [OF a3(1)] by (cases count) (auto simp: finished_with_def)
  qed
qed

text \<open>
  The answer tells the truth about what was sent: whatever the driver does and wherever the
  deadline strikes, the statements sent for a request are an initial part of its own, each once
  (nothing is replayed), at most one connection is opened and only when there was none; an
  answer that will be reported as \<open>not_executed\<close> means that no statement was sent, and when none
  was sent an error answer is reported so; and after an answer that requires it the actor holds
  no connection.
\<close>

theorem not_executed_sound:
  assumes "op \<noteq> ReqClose" and "process_request ctx d name op a = Done (resp, a')"
  shows "\<exists>new m k. actor_calls a' = actor_calls a @ new \<and>
     filter is_statement new = take m (request_statements k op) \<and>
     length (filter is_connect new) \<le> (if actor_backend a = None then 1 else 0) \<and>
     (not_executed resp \<longrightarrow> filter is_statement new = []) \<and>
     (filter is_statement new = [] \<longrightarrow> not_executed resp \<or> plain_response resp) \<and>
     (requires_disconnect resp \<longrightarrow> actor_backend a' = None)"
proof -
  have "request_done ctx op a resp a'"
    using process_request_cases [OF assms(1), of ctx d name a] assms(2) by auto
  then obtain new m k where "actor_calls a' = actor_calls a @ new" "m \<le> length (request_statements k op)"
    "filter is_statement new = take m (request_statements k op)"
    "length (filter is_connect new) \<le> (if actor_backend a = None then 1 else 0)"
    "not_executed resp \<longrightarrow> m = 0" "m = 0 \<longrightarrow> not_executed resp \<or> plain_response resp \<and> silent_transaction op resp new"
    "requires_disconnect resp \<longrightarrow> actor_backend a' = None"
    unfolding request_done_def by blast
  then show ?thesis by (intro exI [of _ new] exI [of _ m] exI [of _ k]) auto
qed

definition demo_ctx :: handler_ctx where
  "demo_ctx = \<lparr>connection_name = ''main'', database_url = ''mysql://h/db'', request_timeout_ms = 30000,
     ctx_max_rows = 10, reconnect_initial_delay = 250000000, reconnect_max_delay = 5000000000,
     reconnect_log_interval = 5000000000\<rparr>"

text \<open>A driver whose connection attempts fail, with a clock that stands still.\<close>

definition down_driver :: "(nat, 'r) driver" where
  "down_driver = easy_driver\<lparr>d_connect := (\<lambda>k u w. (Some (Failed EPoolClosed), w)), d_now := (\<lambda>w. (5, w))\<rparr>"

definition demo_actor :: "(nat, nat) actor" where
  "demo_actor = (actor_new demo_ctx MySql 0)\<lparr>actor_backend := None\<rparr>"

lemma down_driver_clock: "clock_sane demo_ctx down_driver"
  by (simp add: clock_sane_def down_driver_def demo_ctx_def instant_max_def)

lemma demo_actor_ok: "actor_ok demo_ctx demo_actor"
  by (simp add: actor_ok_def demo_actor_def actor_new_def backoff_ok_def backoff_new_def log_gate_new_def)

theorem not_executed_sound_witness:
  "\<exists>resp a' new. process_request demo_ctx down_driver ''execute'' (ReqExecute 1 2 demo_query) demo_actor = Done (resp, a') \<and>
     actor_calls a' = new \<and> (not_executed resp \<longrightarrow> filter is_statement new = [])"
proof -
  obtain resp a' where
    p: "process_request demo_ctx down_driver ''execute'' (ReqExecute 1 2 demo_query) demo_actor = Done (resp, a')"
    using process_request_total [OF _ demo_actor_ok down_driver_clock] by blast
  have "actor_calls demo_actor = []" by (simp add: demo_actor_def actor_new_def)
  with not_executed_sound [OF _ p] p show ?thesis by auto
qed

lemma request_finished:
  assumes "request_origin op = Some (ow, se, name)" and "actor_ok ctx a" and "clock_sane ctx d"
  shows "\<exists>a' resp es. handle_request show_error ctx d op a = Done a' \<and> actor_ok ctx a' \<and>
     actor_counter a' = actor_counter a - 1 \<and> actor_effects a' = actor_effects a @ es \<and>
     finished_with ow se resp es"
proof -
  have "op \<noteq> ReqClose" using assms(1) by auto
  then obtain resp a1 where r: "process_request ctx d name op a = Done (resp, a1)" "request_done ctx op a resp a1"
    "actor_ok ctx a1" using process_request_total assms(2,3) by blast
  obtain a' es where "finish_request show_error ctx d ow se resp a1 = Done a'" "actor_ok ctx a'"
    "actor_counter a' = actor_counter a1 - 1" "actor_effects a' = actor_effects a1 @ es" "finished_with ow se resp es"
    using finish_request_total [OF r(3) assms(3)] by blast
  then show ?thesis using r assms(1) by (auto simp: handle_request_def request_done_def)
qed

text \<open>
  C17. A request is finished exactly once: for every driver whose clock stays in range, handling a
  request returns, takes one from the counter of pending requests, and leaves exactly one answer
  for the waiting session, or at most one log line when nobody waits; the backoff and the log
  gate keep their configuration.
\<close>

theorem request_finished_once:
  assumes "request_origin op = Some (ow, se, name)" and "actor_ok ctx a" and "clock_sane ctx d"
  shows "\<exists>a' resp es. handle_request show_error ctx d op a = Done a' \<and> actor_ok ctx a' \<and>
     actor_counter a' = actor_counter a - 1 \<and> actor_effects a' = actor_effects a @ es \<and>
     finished_with ow se resp es"
  by (rule request_finished [OF assms])

theorem request_finished_once_witness:
  "\<exists>a' resp es. handle_request (\<lambda>_. ''down'') demo_ctx down_driver (ReqBatch 1 2 ''VACUUM'') demo_actor = Done a' \<and>
     actor_effects a' = actor_effects demo_actor @ es \<and> finished_with 1 2 resp es"
  using request_finished_once [of "ReqBatch 1 2 ''VACUUM''", OF _ demo_actor_ok down_driver_clock] by fastforce

end
