(* ===== verification/SqlxSystem.thy ===== *)
theory SqlxSystem
  imports SqlxActor SqlxResponse
begin

text \<open>
  A connection as Lua and the runtime see it (\<open>crates/libs/lib-lualib/src/lua_sqlx.rs\<close>): the bounded
  channel to the actor, the entry points that submit requests and close it, the loop of
  \<open>database_handler\<close>, and the delivery of answers through the response registry. Everything that
  tasks on other threads can interleave is a separate step of \<open>conn_step\<close>.
\<close>

section \<open>Connection state\<close>

text \<open>
  \<open>chan\<close> to \<open>senders\<close> are the \<open>tokio\<close> channel; \<open>closing\<close> and \<open>closed_flag\<close> the shared flag and the
  watch; \<open>close_pending\<close> the spawned tasks that still have to send \<open>Close\<close>; \<open>waiters\<close> the callers of
  \<open>close\<close> still waiting. \<open>accepted\<close>, \<open>answered\<close> and \<open>sent\<close> record the history: the requests the
  channel took, those finished, and the sessions an answer was sent to.
\<close>

record ('w, 'r) conn =
  chan :: "db_request list"
  chan_capacity :: nat
  rx_open :: bool
  senders :: nat
  current :: "db_request option"
  running :: bool
  closing :: bool
  close_pending :: nat
  closed_flag :: bool
  waiters :: "(owner \<times> session) list"
  act :: "('w, 'r) actor"
  accepted :: "db_request list"
  answered :: "db_request list"
  sent :: "(owner \<times> session) list"

type_synonym 'r responses = "'r db_response registry"

definition business :: "db_request \<Rightarrow> bool" where
  "business req \<longleftrightarrow> req \<noteq> ReqClose"

definition conn_new :: "handler_ctx \<Rightarrow> nat \<Rightarrow> db_kind \<Rightarrow> 'w \<Rightarrow> ('w, 'r) conn" where
  "conn_new ctx cap k w = \<lparr>chan = [], chan_capacity = cap, rx_open = True, senders = 1, current = None,
     running = True, closing = False, close_pending = 0, closed_flag = False, waiters = [],
     act = actor_new ctx k w, accepted = [], answered = [], sent = []\<rparr>"

definition add_counter :: "i64 \<Rightarrow> ('w, 'r) conn \<Rightarrow> ('w, 'r) conn" where
  "add_counter n c = c\<lparr>act := (act c)\<lparr>actor_counter := actor_counter (act c) + n\<rparr>\<rparr>"

text \<open>
  \<open>try_send\<close> of the channel. A permit that has just become free may already belong to a task
  waiting to send \<open>Close\<close>; then the channel is reported full (\<open>contended\<close>).
\<close>

datatype send_result = SendOk | SendFull | SendClosed

definition try_send :: "bool \<Rightarrow> db_request \<Rightarrow> ('w, 'r) conn \<Rightarrow> send_result \<times> ('w, 'r) conn" where
  "try_send contended req c =
     (if \<not> rx_open c \<or> \<not> running c then (SendClosed, c)
      else if chan_capacity c \<le> length (chan c) \<or> contended \<and> 0 < close_pending c then (SendFull, c)
      else (SendOk, c\<lparr>chan := chan c @ [req], accepted := accepted c @ [req]\<rparr>))"

section \<open>The response guard\<close>

text \<open>On the targets the code supports \<open>isize\<close> has 64 bits, so only the sign is checked.\<close>

definition response_guard :: "owner \<Rightarrow> session \<Rightarrow> 'r responses \<Rightarrow> (string + nat option) \<times> 'r responses" where
  "response_guard owner session r =
     (if session = 0 then (Inr None, r)
      else if sint session < 0 then (Inl ''SQLx session must be a positive native integer'', r)
      else case register r (owner, session) of
             (Inl e, r) \<Rightarrow> (Inl e, r)
           | (Inr sid, r) \<Rightarrow> (Inr (Some sid), r))"

definition abandon_guard :: "owner \<Rightarrow> session \<Rightarrow> nat option \<Rightarrow> 'r responses \<Rightarrow> 'r responses" where
  "abandon_guard owner session guard r =
     (case guard of None \<Rightarrow> r | Some sid \<Rightarrow> drop_lease r sid (owner, session))"

text \<open>
  What an entry point returns to Lua: the session and its lease, or a table with a kind and a
  message that is marked \<open>not_executed\<close>.
\<close>

datatype answer = ASession session "nat option" | ARefused string string

definition return_session :: "session \<Rightarrow> nat option \<Rightarrow> answer" where
  "return_session session guard = ASession session guard"

definition closing_answer :: answer where
  "closing_answer = ARefused ''CLOSED'' ''database connection is closing''"

text \<open>The text of a \<open>TrySendError\<close>.\<close>

fun send_error_text :: "send_result \<Rightarrow> string" where
  "send_error_text SendFull = ''no available capacity''"
| "send_error_text SendClosed = ''channel closed''"
| "send_error_text SendOk = []"

definition refusal :: "send_result \<Rightarrow> answer" where
  "refusal res = ARefused (if res = SendFull then ''BUSY'' else ''CLOSED'') (send_error_text res)"

section \<open>Submitting\<close>

text \<open>The common end of the entry points: count the request, send it, or undo both.\<close>

definition send_counted ::
  "bool \<Rightarrow> owner \<Rightarrow> session \<Rightarrow> nat option \<Rightarrow> db_request \<Rightarrow> ('w, 'r) conn \<Rightarrow> 'r responses \<Rightarrow>
     bool \<times> answer \<times> ('w, 'r) conn \<times> 'r responses" where
  "send_counted contended owner session guard req c r =
     (case try_send contended req (add_counter 1 c) of
        (SendOk, c) \<Rightarrow> (True, return_session session guard, c, r)
      | (res, c) \<Rightarrow> (False, refusal res, add_counter (- 1) c, abandon_guard owner session guard r))"

definition submit ::
  "bool \<Rightarrow> owner \<Rightarrow> session \<Rightarrow> db_request \<Rightarrow> ('w, 'r) conn \<Rightarrow> 'r responses \<Rightarrow>
     (string + answer) \<times> ('w, 'r) conn \<times> 'r responses" where
  "submit contended owner session req c r =
     (case response_guard owner session r of
        (Inl e, r) \<Rightarrow> (Inl e, c, r)
      | (Inr guard, r) \<Rightarrow>
          (case send_counted contended owner session guard req c r of (_, ans, c, r) \<Rightarrow> (Inr ans, c, r)))"

text \<open>Userdata arguments: of another type, already collected, or live.\<close>

datatype 't udata = Foreign | Collected | Live 't

definition connection_arg :: "'t udata \<Rightarrow> string + 't" where
  "connection_arg u =
     (case u of
        Foreign \<Rightarrow> Inl ''invalid SQLx userdata type or size''
      | Collected \<Rightarrow> Inl ''SQLx connection has been collected''
      | Live c \<Rightarrow> Inr c)"

record lua_env =
  env_toint :: "lua_value \<Rightarrow> i64 option"
  env_heap :: lua_heap
  env_room :: "nat \<Rightarrow> bool"
  env_uuid :: "string \<Rightarrow> uuid option"

definition arg_owner :: "lua_env \<Rightarrow> lua_stack \<Rightarrow> nat \<Rightarrow> string + owner" where
  "arg_owner env s i = sqlx_checked_integer (env_toint env) try_unsigned s i"

definition arg_session :: "lua_env \<Rightarrow> lua_stack \<Rightarrow> nat \<Rightarrow> string + session" where
  "arg_session env s i = sqlx_checked_integer (env_toint env) Some s i"

text \<open>
  The entry points take the arguments on the stack \<open>s\<close> and, for the first one, what \<open>test_userdata\<close>
  finds there. Lua code cannot run between the check of \<open>closing\<close> and \<open>try_send\<close>, but the flag can
  be raised by another thread; the model of the interleavings below does not rely on the check.
\<close>

definition enqueue_query ::
  "lua_env \<Rightarrow> bool \<Rightarrow> bool \<Rightarrow> ('w, 'r) conn udata \<Rightarrow> lua_stack \<Rightarrow> 'r responses \<Rightarrow>
     string + (string + answer) \<times> ('w, 'r) conn \<times> 'r responses" where
  "enqueue_query env contended execute_only u s r =
     ebind (connection_arg u) (\<lambda>c.
     ebind (arg_owner env s 2) (\<lambda>owner.
     ebind (arg_session env s 3) (\<lambda>session.
       if closing c then Inr (Inr closing_answer, c, r)
       else ebind (sqlx_checked_string s 4) (\<lambda>text'.
            ebind (get_query_params (env_heap env) (env_room env) (env_uuid env) s 5) (\<lambda>params.
              let query = \<lparr>sql = text', binds = params\<rparr>;
                  req = (if execute_only then ReqExecute owner session query else ReqQuery owner session query)
              in Inr (submit contended owner session req c r))))))"

definition batch_impl ::
  "lua_env \<Rightarrow> bool \<Rightarrow> ('w, 'r) conn udata \<Rightarrow> lua_stack \<Rightarrow> 'r responses \<Rightarrow>
     string + (string + answer) \<times> ('w, 'r) conn \<times> 'r responses" where
  "batch_impl env contended u s r =
     ebind (connection_arg u) (\<lambda>c.
     ebind (arg_owner env s 2) (\<lambda>owner.
     ebind (arg_session env s 3) (\<lambda>session.
     ebind (sqlx_checked_string s 4) (\<lambda>text'.
       if closing c then Inr (Inr closing_answer, c, r)
       else Inr (submit contended owner session (ReqBatch owner session text') c r)))))"

section \<open>Transactions\<close>

definition make_transaction :: "db_query list udata" where
  "make_transaction = Live []"

text \<open>Parameter conversion can run metamethods; the userdata is looked at again afterwards.\<close>

definition push_transaction_query ::
  "lua_env \<Rightarrow> db_query list udata \<Rightarrow> lua_stack \<Rightarrow> string + db_query list udata" where
  "push_transaction_query env u s =
     (if u = Foreign then Inl ''invalid SQLx userdata type or size''
      else ebind (sqlx_checked_string s 2) (\<lambda>text'.
           ebind (get_query_params (env_heap env) (env_room env) (env_uuid env) s 3) (\<lambda>params.
             case u of Live qs \<Rightarrow> Inr (Live (qs @ [\<lparr>sql = text', binds = params\<rparr>]))
             | _ \<Rightarrow> Inl ''SQLx transaction has been collected'')))"

text \<open>
  Creating the lease may run finalizers, which may change the transaction (\<open>finalizers\<close>); its
  statements are taken only afterwards, and put back when the channel refuses them.
\<close>

definition transaction_impl ::
  "lua_env \<Rightarrow> bool \<Rightarrow> (db_query list udata \<Rightarrow> db_query list udata) \<Rightarrow> ('w, 'r) conn udata \<Rightarrow> db_query list udata \<Rightarrow>
     lua_stack \<Rightarrow> 'r responses \<Rightarrow>
     string + (string + answer) \<times> ('w, 'r) conn \<times> 'r responses \<times> db_query list udata" where
  "transaction_impl env contended finalizers u tx s r =
     ebind (connection_arg u) (\<lambda>c.
     ebind (arg_owner env s 2) (\<lambda>owner.
     ebind (arg_session env s 3) (\<lambda>session.
       if tx = Foreign then Inl ''invalid SQLx userdata type or size''
       else if tx = Collected then Inl ''SQLx transaction has been collected''
       else if closing c then Inr (Inr closing_answer, c, r, tx)
       else case response_guard owner session r of
           (Inl e, r) \<Rightarrow> Inr (Inl e, c, r, tx)
         | (Inr guard, r) \<Rightarrow>
             (case (if guard = None then tx else finalizers tx) of
                Live qs \<Rightarrow>
                  (case send_counted contended owner session guard (ReqTransaction owner session qs) c r of
                     (ok, ans, c, r) \<Rightarrow> Inr (Inr ans, c, r, Live (if ok then [] else qs)))
              | tx' \<Rightarrow> Inr (Inl ''SQLx transaction has been collected'', c, abandon_guard owner session guard r, tx')))))"

section \<open>Closing\<close>

text \<open>
  \<open>close\<close> raises the flag; only the first caller's task sends \<open>Close\<close>, and every caller's task
  keeps a sender until then and waits for the handler.
\<close>

definition close_impl ::
  "lua_env \<Rightarrow> ('w, 'r) conn udata \<Rightarrow> lua_stack \<Rightarrow> 'r responses \<Rightarrow>
     string + (string + answer) \<times> ('w, 'r) conn \<times> 'r responses" where
  "close_impl env u s r =
     ebind (connection_arg u) (\<lambda>c.
     ebind (sqlx_checked_integer (env_toint env) try_unsigned s 2 :: string + 8 word) (\<lambda>protocol_type.
     ebind (arg_owner env s 3) (\<lambda>owner.
     ebind (arg_session env s 4) (\<lambda>session.
       case response_guard owner session r of
         (Inl e, r) \<Rightarrow> Inr (Inl e, c, r)
       | (Inr guard, r) \<Rightarrow>
           Inr (Inr (return_session session guard),
             c\<lparr>close_pending := close_pending c + (if closing c then 0 else 1), closing := True,
               waiters := waiters c @ [(owner, session)]\<rparr>, r)))))"

text \<open>The \<open>send(Close)\<close> of the task, which waits for room and gives up when the channel is closed.\<close>

definition deliver_close :: "('w, 'r) conn \<Rightarrow> ('w, 'r) conn" where
  "deliver_close c =
     (if close_pending c = 0 then c
      else if \<not> rx_open c \<or> \<not> running c then c\<lparr>close_pending := close_pending c - 1\<rparr>
      else if chan_capacity c \<le> length (chan c) then c
      else c\<lparr>close_pending := close_pending c - 1, chan := chan c @ [ReqClose]\<rparr>)"

definition send_response :: "owner \<Rightarrow> session \<Rightarrow> 'r db_response \<Rightarrow> 'r responses \<Rightarrow> bool \<times> 'r responses" where
  "send_response owner session resp r =
     (if session = 0 then (False, r) else publish r (owner, session) resp)"

text \<open>The answer to a waiting \<open>close\<close>: the watch says so, or its sender is gone.\<close>

definition notify_closed :: "('w, 'r) conn \<Rightarrow> 'r responses \<Rightarrow> ('w, 'r) conn \<times> 'r responses" where
  "notify_closed c r =
     (case waiters c of
        [] \<Rightarrow> (c, r)
      | (owner, session) # ws \<Rightarrow>
          if closed_flag c then (c\<lparr>waiters := ws\<rparr>, snd (send_response owner session RClosed r))
          else if \<not> running c then (c\<lparr>waiters := ws\<rparr>, snd (send_response owner session (RError EWorkerCrashed) r))
          else (c, r))"

section \<open>The handler task\<close>

text \<open>
  One \<open>recv\<close>: \<open>Close\<close> closes the channel to new requests but what was accepted is still
  processed; when the channel is closed (or has no sender left) and empty, the loop ends, the
  connection is closed and the watch is set.
\<close>

definition finish_loop :: "('w, 'r) driver \<Rightarrow> ('w, 'r) conn \<Rightarrow> ('w, 'r) conn" where
  "finish_loop d c =
     (let a = act c;
          s = (if actor_backend a = None then \<lparr>world = actor_world a, started = False, calls = actor_calls a\<rparr>
               else backend_close d \<lparr>world = actor_world a, started = False, calls = actor_calls a\<rparr>)
      in c\<lparr>running := False, closed_flag := True,
           act := a\<lparr>actor_backend := None, actor_world := world s, actor_calls := calls s\<rparr>\<rparr>)"

definition recv :: "('w, 'r) driver \<Rightarrow> ('w, 'r) conn \<Rightarrow> ('w, 'r) conn" where
  "recv d c =
     (if \<not> running c \<or> current c \<noteq> None then c
      else case chan c of
          req # rest \<Rightarrow>
            if req = ReqClose then c\<lparr>rx_open := False, chan := rest\<rparr>
            else c\<lparr>current := Some req, chan := rest\<rparr>
        | [] \<Rightarrow>
            if \<not> rx_open c \<or> senders c = 0 \<and> close_pending c = 0 then finish_loop d c else c)"

fun deliver_effect :: "'r effect \<Rightarrow> 'r responses \<Rightarrow> 'r responses" where
  "deliver_effect (Send owner session resp) r = snd (send_response owner session resp r)"
| "deliver_effect (LogError _ _) r = r"

fun reply_key :: "'r effect \<Rightarrow> (owner \<times> session) list" where
  "reply_key (Send owner session resp) = [(owner, session)]"
| "reply_key (LogError _ _) = []"

text \<open>The body of the loop; a panic ends the task, and the channel goes with it.\<close>

definition handle ::
  "(sqlx_error \<Rightarrow> string) \<Rightarrow> handler_ctx \<Rightarrow> ('w, 'r) driver \<Rightarrow> ('w, 'r) conn \<Rightarrow> 'r responses \<Rightarrow>
     ('w, 'r) conn \<times> 'r responses" where
  "handle show_error ctx d c r =
     (case current c of
        None \<Rightarrow> (c, r)
      | Some req \<Rightarrow>
          (case handle_request show_error ctx d req ((act c)\<lparr>actor_effects := []\<rparr>) of
             Done a \<Rightarrow>
               (c\<lparr>current := None, act := a, answered := answered c @ [req],
                  sent := sent c @ concat (map reply_key (actor_effects a))\<rparr>,
                fold deliver_effect (actor_effects a) r)
           | _ \<Rightarrow> (c\<lparr>running := False, current := None, chan := []\<rparr>, r)))"

section \<open>Interleavings\<close>

text \<open>
  \<open>OpSubmit\<close> is the effect of an entry point once its arguments are checked, whether or not the
  flag was raised in between; \<open>OpClone\<close> and \<open>OpDropSender\<close> are connections handed out and
  collected; \<open>OpTake\<close> and \<open>OpDropLease\<close> are the Lua waiters.
\<close>

datatype conn_op =
    OpSubmit bool owner session db_request | OpClose owner session "nat option" | OpDeliverClose | OpRecv | OpHandle
  | OpNotify | OpClone | OpDropSender | OpTake owner session | OpDropLease nat owner session

text \<open>The part of \<open>close_impl\<close> after its arguments and guard.\<close>

definition begin_close :: "owner \<Rightarrow> session \<Rightarrow> ('w, 'r) conn \<Rightarrow> ('w, 'r) conn" where
  "begin_close owner session c =
     c\<lparr>close_pending := close_pending c + (if closing c then 0 else 1), closing := True,
       waiters := waiters c @ [(owner, session)]\<rparr>"

fun conn_step ::
  "(sqlx_error \<Rightarrow> string) \<Rightarrow> handler_ctx \<Rightarrow> ('w, 'r) driver \<Rightarrow> ('w, 'r) conn \<times> 'r responses \<Rightarrow> conn_op \<Rightarrow>
     ('w, 'r) conn \<times> 'r responses" where
  "conn_step show_error ctx d (c, r) (OpSubmit contended owner session req) =
     (if request_origin req = None \<or> map_option fst (request_origin req) \<noteq> Some owner \<or>
         map_option (fst \<circ> snd) (request_origin req) \<noteq> Some session
      then (c, r)
      else case submit contended owner session req c r of (_, c, r) \<Rightarrow> (c, r))"
| "conn_step show_error ctx d (c, r) (OpClose owner session g) =
     (case response_guard owner session r of
        (Inl e, r) \<Rightarrow> (c, r) | (Inr guard, r) \<Rightarrow> (begin_close owner session c, r))"
| "conn_step show_error ctx d (c, r) OpDeliverClose = (deliver_close c, r)"
| "conn_step show_error ctx d (c, r) OpRecv = (recv d c, r)"
| "conn_step show_error ctx d (c, r) OpHandle = handle show_error ctx d c r"
| "conn_step show_error ctx d (c, r) OpNotify = notify_closed c r"
| "conn_step show_error ctx d (c, r) OpClone =
     (if 0 < senders c then (c\<lparr>senders := senders c + 1\<rparr>, r) else (c, r))"
| "conn_step show_error ctx d (c, r) OpDropSender = (c\<lparr>senders := senders c - 1\<rparr>, r)"
| "conn_step show_error ctx d (c, r) (OpTake owner session) = (c, snd (take_response r (owner, session)))"
| "conn_step show_error ctx d (c, r) (OpDropLease sid owner session) =
     (c, if (sid, owner, session) \<in> set (leases r) then drop_lease r sid (owner, session) else r)"

section \<open>The invariant\<close>

definition pending :: "('w, 'r) conn \<Rightarrow> db_request list" where
  "pending c = (case current c of None \<Rightarrow> [] | Some req \<Rightarrow> [req]) @ filter business (chan c)"

definition origin_keys :: "db_request list \<Rightarrow> (owner \<times> session) list" where
  "origin_keys reqs = concat (map (\<lambda>req. case request_origin req of
       Some (ow, se, _) \<Rightarrow> if se = 0 then [] else [(ow, se)] | None \<Rightarrow> []) reqs)"

text \<open>A close that has been asked for is on its way to the handler, or has arrived.\<close>

definition close_coming :: "('w, 'r) conn \<Rightarrow> bool" where
  "close_coming c \<longleftrightarrow> 0 < close_pending c \<or> ReqClose \<in> set (chan c) \<or> \<not> rx_open c"

definition conn_ok :: "handler_ctx \<Rightarrow> ('w, 'r) conn \<Rightarrow> bool" where
  "conn_ok ctx c \<longleftrightarrow>
     actor_ok ctx (act c) \<and>
     accepted c = answered c @ pending c \<and>
     actor_counter (act c) = word_of_nat (length (pending c)) \<and>
     sent c = origin_keys (answered c) \<and>
     length (chan c) \<le> chan_capacity c \<and>
     current c \<noteq> Some ReqClose \<and>
     (running c \<longleftrightarrow> \<not> closed_flag c) \<and>
     (closing c \<and> running c \<longrightarrow> close_coming c) \<and>
     (closed_flag c \<longrightarrow> chan c = [] \<and> current c = None)"

lemma conn_okD:
  assumes "conn_ok ctx c"
  shows "actor_ok ctx (act c)" "accepted c = answered c @ pending c"
    "actor_counter (act c) = word_of_nat (length (pending c))" "sent c = origin_keys (answered c)"
    "length (chan c) \<le> chan_capacity c" "current c \<noteq> Some ReqClose" "running c \<longleftrightarrow> \<not> closed_flag c"
    "closing c \<Longrightarrow> running c \<Longrightarrow> close_coming c"
    "closed_flag c \<Longrightarrow> chan c = []" "closed_flag c \<Longrightarrow> current c = None"
  using assms unfolding conn_ok_def by blast+

lemma conn_new_ok: "conn_ok ctx (conn_new ctx cap k w)"
  by (simp add: conn_ok_def conn_new_def actor_ok_def actor_new_def backoff_ok_def backoff_new_def
      log_gate_new_def pending_def origin_keys_def)

lemma actor_ok_counter [simp]:
  "actor_ok ctx (a\<lparr>actor_counter := n\<rparr>) = actor_ok ctx a" "actor_ok ctx (a\<lparr>actor_effects := es\<rparr>) = actor_ok ctx a"
  "actor_ok ctx (a\<lparr>actor_backend := b, actor_world := w, actor_calls := cs\<rparr>) = actor_ok ctx a"
  by (simp_all add: actor_ok_def)

lemma add_counter_undo [simp]: "add_counter (- 1) (add_counter 1 c) = c"
  by (simp add: add_counter_def)

text \<open>Submitting either appends one request and counts it, or changes nothing.\<close>

lemma try_send_cases:
  "(try_send contended req c = (SendOk, c\<lparr>chan := chan c @ [req], accepted := accepted c @ [req]\<rparr>) \<and>
      rx_open c \<and> running c \<and> length (chan c) < chan_capacity c) \<or>
   try_send contended req c = (SendFull, c) \<or> try_send contended req c = (SendClosed, c)"
  by (auto simp: try_send_def)

lemma add_counter_fields [simp]:
  "chan (add_counter n c) = chan c" "accepted (add_counter n c) = accepted c" "rx_open (add_counter n c) = rx_open c"
  "running (add_counter n c) = running c" "chan_capacity (add_counter n c) = chan_capacity c"
  "current (add_counter n c) = current c" "answered (add_counter n c) = answered c" "sent (add_counter n c) = sent c"
  "closed_flag (add_counter n c) = closed_flag c" "close_pending (add_counter n c) = close_pending c" "closing (add_counter n c) = closing c"
  "act (add_counter n c) = (act c)\<lparr>actor_counter := actor_counter (act c) + n\<rparr>"
  by (simp_all add: add_counter_def)

lemma send_counted_cases:
  "(send_counted contended ow se g req c r =
      (True, return_session se g, (add_counter 1 c)\<lparr>chan := chan c @ [req], accepted := accepted c @ [req]\<rparr>, r) \<and>
      rx_open c \<and> running c \<and> length (chan c) < chan_capacity c) \<or>
   (\<exists>res. send_counted contended ow se g req c r = (False, refusal res, c, abandon_guard ow se g r))"
  using try_send_cases [of contended req "add_counter 1 c"]
  by (elim disjE conjE) (simp_all add: send_counted_def, blast+)

lemma submit_cases:
  assumes "submit contended ow se req c r = (res, c', r')"
  obtains (sent) "c' = (add_counter 1 c)\<lparr>chan := chan c @ [req], accepted := accepted c @ [req]\<rparr>"
      "rx_open c" "running c" "length (chan c) < chan_capacity c" "\<exists>g. res = Inr (ASession se g)"
    | (refused) "c' = c" "\<not> (\<exists>s g. res = Inr (ASession s g))"
proof -
  obtain g r1 where g: "response_guard ow se r = (g, r1)" by (cases "response_guard ow se r")
  show thesis
  proof (cases g)
    case (Inl e)
    then have "c' = c" "res = Inl e" using assms g by (simp_all add: submit_def)
    then show thesis using refused by simp
  next
    case (Inr h)
    have no: "refusal x \<noteq> ASession s k" for x s k by (simp add: refusal_def)
    from send_counted_cases [of contended ow se h req c r1] show thesis
    proof (elim disjE conjE exE)
      assume "send_counted contended ow se h req c r1 = (True, return_session se h,
          (add_counter 1 c)\<lparr>chan := chan c @ [req], accepted := accepted c @ [req]\<rparr>, r1)"
        and "rx_open c" "running c" "length (chan c) < chan_capacity c"
      then show thesis using assms g Inr sent by (auto simp: submit_def return_session_def)
    next
      fix x
      assume "send_counted contended ow se h req c r1 = (False, refusal x, c, abandon_guard ow se h r1)"
      then show thesis using assms g Inr no refused by (auto simp: submit_def)
    qed
  qed
qed

lemma submit_ok:
  assumes ok: "conn_ok ctx c" and req: "business req" and s: "submit contended ow se req c r = (res, c', r')"
  shows "conn_ok ctx c'"
  using s
proof (cases rule: submit_cases)
  case sent
  then show ?thesis
    using conn_okD [OF ok] req by (auto simp: conn_ok_def pending_def close_coming_def add.commute)
next
  case refused
  then show ?thesis using ok by simp
qed

lemma begin_close_ok: "conn_ok ctx c \<Longrightarrow> conn_ok ctx (begin_close ow se c)"
  unfolding conn_ok_def by (auto simp: pending_def begin_close_def close_coming_def)

lemma conn_ok_flags [simp]:
  "conn_ok ctx (c\<lparr>senders := n\<rparr>) = conn_ok ctx c"
  "conn_ok ctx (c\<lparr>waiters := ws\<rparr>) = conn_ok ctx c"
  by (simp_all add: conn_ok_def pending_def close_coming_def)

lemma deliver_close_ok: "conn_ok ctx c \<Longrightarrow> conn_ok ctx (deliver_close c)"
  unfolding deliver_close_def conn_ok_def by (auto simp: pending_def business_def close_coming_def)

lemma notify_closed_ok: "conn_ok ctx c \<Longrightarrow> conn_ok ctx (fst (notify_closed c r))"
  by (simp add: notify_closed_def split: list.splits prod.splits)

lemma finish_loop_ok:
  assumes "conn_ok ctx c" "chan c = []" "current c = None"
  shows "conn_ok ctx (finish_loop d c)"
  using assms by (simp add: conn_ok_def finish_loop_def pending_def Let_def)

lemma recv_ok:
  assumes ok: "conn_ok ctx c"
  shows "conn_ok ctx (recv d c)"
proof (cases "running c \<and> current c = None")
  case False
  then show ?thesis using ok by (auto simp: recv_def)
next
  case True
  show ?thesis
  proof (cases "chan c")
    case Nil
    then show ?thesis using True ok finish_loop_ok [OF ok Nil, of d] by (simp add: recv_def)
  next
    case (Cons req rest)
    then show ?thesis using True conn_okD [OF ok]
      by (auto simp: recv_def conn_ok_def pending_def business_def close_coming_def)
  qed
qed

lemma finished_keys:
  assumes "finished_with ow se resp es" "request_origin req = Some (ow, se, name)"
  shows "concat (map reply_key es) = origin_keys [req]"
proof (cases "se = 0")
  case True
  have "reply_key e = []" if "is_log e" for e :: "'a effect" using that by (cases e) (simp_all add: is_log_def)
  then show ?thesis using assms True by (auto simp: finished_with_def origin_keys_def list_all_iff)
next
  case False
  then show ?thesis using assms by (simp add: finished_with_def origin_keys_def)
qed

text \<open>What handling the current request does, for a clock in range.\<close>

lemma handle_cases:
  assumes ok: "conn_ok ctx c" and clk: "clock_sane ctx d" and cur: "current c = Some req"
  obtains a es resp ow se name where "request_origin req = Some (ow, se, name)" "actor_ok ctx a"
    "finished_with ow se resp es" "actor_counter a = actor_counter (act c) - 1"
    "handle show_error ctx d c r =
       (c\<lparr>current := None, act := a, answered := answered c @ [req], sent := sent c @ origin_keys [req]\<rparr>,
        fold deliver_effect es r)"
proof -
  obtain ow se name where o': "request_origin req = Some (ow, se, name)"
    using conn_okD(6) [OF ok] cur by (cases req) auto
  have "actor_ok ctx ((act c)\<lparr>actor_effects := []\<rparr>)" using conn_okD(1) [OF ok] by simp
  from request_finished [OF o' this clk, of show_error] obtain a resp es where
    a: "handle_request show_error ctx d req ((act c)\<lparr>actor_effects := []\<rparr>) = Done a" "actor_ok ctx a"
    "actor_counter a = actor_counter (act c) - 1" "actor_effects a = es" "finished_with ow se resp es"
    by auto
  show thesis
    using that [OF o' a(2,5,3)] a cur finished_keys [OF a(5) o'] by (simp add: handle_def)
qed

lemma origin_keys_append: "origin_keys (xs @ ys) = origin_keys xs @ origin_keys ys"
  by (simp add: origin_keys_def)

lemma handle_ok:
  assumes ok: "conn_ok ctx c" and clk: "clock_sane ctx d"
  shows "conn_ok ctx (fst (handle show_error ctx d c r))"
proof (cases "current c")
  case None
  then show ?thesis using ok by (simp add: handle_def)
next
  case (Some req)
  from handle_cases [OF ok clk Some, of show_error r] obtain a es resp ow se name where
    a: "actor_ok ctx a" "actor_counter a = actor_counter (act c) - 1"
    "handle show_error ctx d c r =
       (c\<lparr>current := None, act := a, answered := answered c @ [req], sent := sent c @ origin_keys [req]\<rparr>,
        fold deliver_effect es r)" by blast
  then show ?thesis
    using conn_okD [OF ok] Some by (auto simp: conn_ok_def pending_def origin_keys_append close_coming_def)
qed

lemma conn_step_ok:
  assumes "conn_ok ctx (fst s)" "clock_sane ctx d"
  shows "conn_ok ctx (fst (conn_step show_error ctx d s p))"
proof (cases s)
  case (Pair c r)
  show ?thesis
  proof (cases p)
    case (OpSubmit contended ow se req)
    then show ?thesis
      using Pair assms submit_ok [of ctx c req contended ow se r]
      by (cases "req = ReqClose") (auto simp: business_def split: prod.splits)
  next
    case (OpClose ow se g)
    then show ?thesis using Pair assms begin_close_ok by (auto split: prod.splits sum.splits)
  qed (use Pair assms deliver_close_ok recv_ok handle_ok notify_closed_ok in auto)
qed

interpretation connection: total_machine "conn_step show_error ctx d" "\<lambda>s. conn_ok ctx (fst s) \<and> clock_sane ctx d"
  by unfold_locales (auto intro: conn_step_ok)

section \<open>Properties\<close>

lemma add_counter_cap: "chan_capacity (snd (try_send b req c)) = chan_capacity c"
  by (simp add: try_send_def)

lemma step_capacity: "chan_capacity (fst (conn_step show_error ctx d s p)) = chan_capacity (fst s)"
proof (cases s)
  case (Pair c r)
  show ?thesis
  proof (cases p)
    case (OpSubmit contended ow se req)
    obtain res c' r' where s: "submit contended ow se req c r = (res, c', r')" by (cases "submit contended ow se req c r")
    then have "chan_capacity c' = chan_capacity c" by (cases rule: submit_cases) simp_all
    then show ?thesis using Pair OpSubmit s by simp
  qed (use Pair in \<open>auto simp: begin_close_def deliver_close_def recv_def finish_loop_def handle_def notify_closed_def
      Let_def split: prod.splits sum.splits list.splits option.splits outcome.splits\<close>)
qed

lemma run_capacity: "chan_capacity (fst (foldl (conn_step show_error ctx d) s ops)) = chan_capacity (fst s)"
  by (induction ops arbitrary: s) (simp_all add: step_capacity)

lemma run_ok:
  "conn_ok ctx (fst s) \<Longrightarrow> clock_sane ctx d \<Longrightarrow> conn_ok ctx (fst (foldl (conn_step show_error ctx d) s ops))"
  using connection.runs_keep by blast

text \<open>
  C3. A connection is a first-in first-out server that loses nothing: under every interleaving of
  submitting, closing, collecting connections, taking answers and the handler's own steps, the
  requests the channel accepted are those already finished followed by those pending, in the
  order of submission; the shared counter is the number of pending requests; one answer has been
  sent, in order, for every finished request with a session; the channel stays within its
  capacity; and once the watch is set, every accepted request has been finished.
\<close>

theorem connection_fifo:
  assumes "clock_sane ctx d"
    and "(c, r) = foldl (conn_step show_error ctx d) (conn_new ctx cap k w, registry_new) ops"
  shows "accepted c = answered c @ pending c \<and> actor_counter (act c) = word_of_nat (length (pending c)) \<and>
     sent c = origin_keys (answered c) \<and> length (chan c) \<le> cap \<and> running c = (\<not> closed_flag c) \<and>
     (closed_flag c \<longrightarrow> accepted c = answered c)"
proof -
  have ok: "conn_ok ctx c"
    using run_ok [OF _ assms(1), of "(conn_new ctx cap k w, registry_new)" show_error ops]
      conn_new_ok [of ctx cap k w] assms(2) [symmetric] by simp
  have "chan_capacity c = cap"
    using run_capacity [of show_error ctx d "(conn_new ctx cap k w, registry_new)" ops] assms(2) [symmetric]
    by (simp add: conn_new_def)
  then show ?thesis using conn_okD [OF ok] by (auto simp: pending_def)
qed

definition demo_ops :: "conn_op list" where
  "demo_ops = [OpSubmit False 1 5 (ReqBatch 1 5 ''VACUUM''), OpClose 1 6 None, OpDeliverClose, OpRecv, OpHandle]"

theorem connection_fifo_witness:
  "\<exists>c r. (c, r) = foldl (conn_step (\<lambda>_. ''down'') demo_ctx (down_driver :: (nat, nat) driver))
      (conn_new demo_ctx 1 MySql 0, registry_new) demo_ops \<and>
    accepted c = answered c @ pending c \<and> actor_counter (act c) = word_of_nat (length (pending c))"
proof -
  let ?s = "foldl (conn_step (\<lambda>_. ''down'') demo_ctx (down_driver :: (nat, nat) driver))
      (conn_new demo_ctx 1 MySql 0, registry_new) demo_ops"
  have "(fst ?s, snd ?s) = ?s" by simp
  from connection_fifo [OF down_driver_clock this] this show ?thesis by blast
qed

text \<open>One round of the tasks: a waiting close task, one \<open>recv\<close>, one request.\<close>

definition round_ops :: "nat \<Rightarrow> conn_op list" where
  "round_ops n = concat (replicate n [OpDeliverClose, OpRecv, OpHandle])"

definition work_left :: "('w, 'r) conn \<Rightarrow> nat" where
  "work_left c = 2 * close_pending c + length (chan c) + (if current c = None then 0 else 1)"

lemma round_progress:
  assumes ok: "conn_ok ctx c" and clk: "clock_sane ctx d" and run: "running c" and cap: "0 < chan_capacity c"
    and coming: "close_coming c"
    and s: "foldl (conn_step show_error ctx d) (c, r) [OpDeliverClose, OpRecv, OpHandle] = (c', r')"
  shows "accepted c' = accepted c \<and> (closed_flag c' \<or> running c' \<and> close_coming c' \<and> work_left c' < work_left c)"
proof -
  define c1 where "c1 = deliver_close c"
  have ok1: "conn_ok ctx c1" unfolding c1_def by (rule deliver_close_ok [OF ok])
  have c1: "accepted c1 = accepted c" "running c1" "close_coming c1" "current c1 = current c" "work_left c1 \<le> work_left c"
    using run coming cap by (auto simp: c1_def deliver_close_def close_coming_def work_left_def)
  have room: "close_pending c1 = 0 \<or> \<not> rx_open c1" if "chan c1 = []"
    using that run cap unfolding c1_def deliver_close_def by (cases "chan c") (auto split: if_splits)
  have hs: "handle show_error ctx d (recv d c1) r = (c', r')" using s by (simp add: c1_def)
  show ?thesis
  proof (cases "current c1")
    case (Some req)
    have rc: "recv d c1 = c1" using Some by (simp add: recv_def)
    from handle_cases [OF ok1 clk Some, of show_error r] obtain a es where
      h: "handle show_error ctx d c1 r =
       (c1\<lparr>current := None, act := a, answered := answered c1 @ [req], sent := sent c1 @ origin_keys [req]\<rparr>,
        fold deliver_effect es r)" by blast
    then have "c' = c1\<lparr>current := None, act := a, answered := answered c1 @ [req],
        sent := sent c1 @ origin_keys [req]\<rparr>" using hs rc by simp
    moreover have "current c = Some req" using c1(4) Some by metis
    ultimately show ?thesis using c1 Some by (auto simp: close_coming_def work_left_def)
  next
    case None
    note cur = None
    show ?thesis
    proof (cases "chan c1")
      case Nil
      then have "\<not> rx_open c1" using c1(3) room by (auto simp: close_coming_def)
      then have "recv d c1 = finish_loop d c1" using Nil None c1(2) by (simp add: recv_def)
      moreover have "closed_flag (finish_loop d c1)" "accepted (finish_loop d c1) = accepted c1"
        "current (finish_loop d c1) = current c1" by (simp_all add: finish_loop_def Let_def)
      ultimately show ?thesis using hs c1 None by (simp add: handle_def)
    next
      case (Cons req rest)
      show ?thesis
      proof (cases "req = ReqClose")
        case True
        then have "recv d c1 = c1\<lparr>rx_open := False, chan := rest\<rparr>" using Cons None c1(2) by (simp add: recv_def)
        then have "c' = c1\<lparr>rx_open := False, chan := rest\<rparr>" using hs None by (simp add: handle_def)
        then show ?thesis using c1 None Cons by (simp add: close_coming_def work_left_def)
      next
        case False
        define c2 where "c2 = c1\<lparr>current := Some req, chan := rest\<rparr>"
        have rc: "recv d c1 = c2" using False Cons None c1(2) by (simp add: recv_def c2_def)
        have ok2: "conn_ok ctx c2" using recv_ok [OF ok1, of d] rc by simp
        have cur2: "current c2 = Some req" by (simp add: c2_def)
        from handle_cases [OF ok2 clk cur2, of show_error r] obtain a es where
          h: "handle show_error ctx d c2 r =
           (c2\<lparr>current := None, act := a, answered := answered c2 @ [req], sent := sent c2 @ origin_keys [req]\<rparr>,
            fold deliver_effect es r)" by blast
        then have "c' = c2\<lparr>current := None, act := a, answered := answered c2 @ [req],
            sent := sent c2 @ origin_keys [req]\<rparr>" using hs rc by simp
        then show ?thesis using c1 cur Cons False by (simp add: c2_def close_coming_def work_left_def)
      qed
    qed
  qed
qed

lemma closed_stays: "closed_flag (fst s) \<Longrightarrow> current (fst s) = None \<Longrightarrow> \<not> running (fst s) \<Longrightarrow> chan (fst s) = [] \<Longrightarrow>
  closed_flag (fst (foldl (conn_step show_error ctx d) s (round_ops n))) \<and>
  accepted (fst (foldl (conn_step show_error ctx d) s (round_ops n))) = accepted (fst s)"
proof (induction n arbitrary: s)
  case 0
  then show ?case by (simp add: round_ops_def)
next
  case (Suc n)
  obtain c r where s: "s = (c, r)" by (cases s)
  define c1 where "c1 = deliver_close c"
  have c1: "closed_flag c1" "current c1 = None" "\<not> running c1" "chan c1 = []" "accepted c1 = accepted c"
    using Suc.prems s by (auto simp: c1_def deliver_close_def)
  then have "foldl (conn_step show_error ctx d) s [OpDeliverClose, OpRecv, OpHandle] = (c1, r)"
    by (simp add: s c1_def [symmetric] recv_def handle_def)
  moreover have "round_ops (Suc n) = [OpDeliverClose, OpRecv, OpHandle] @ round_ops n" by (simp add: round_ops_def)
  ultimately show ?case using Suc.IH [of "(c1, r)"] c1 s by (simp only: foldl_append fst_conv) simp
qed

lemma rounds_close:
  assumes "conn_ok ctx (fst s)" and clk: "clock_sane ctx d" and "running (fst s)" "0 < chan_capacity (fst s)"
    "close_coming (fst s)" and "work_left (fst s) < n"
  shows "closed_flag (fst (foldl (conn_step show_error ctx d) s (round_ops n))) \<and>
    accepted (fst (foldl (conn_step show_error ctx d) s (round_ops n))) = accepted (fst s)"
  using assms(1,3-)
proof (induction n arbitrary: s)
  case 0
  then show ?case by simp
next
  case (Suc n)
  obtain c r where s: "s = (c, r)" by (cases s)
  obtain c' r' where c': "foldl (conn_step show_error ctx d) (c, r) [OpDeliverClose, OpRecv, OpHandle] = (c', r')"
    by (cases "foldl (conn_step show_error ctx d) (c, r) [OpDeliverClose, OpRecv, OpHandle]")
  have split: "foldl (conn_step show_error ctx d) s (round_ops (Suc n)) =
      foldl (conn_step show_error ctx d) (c', r') (round_ops n)"
    by (simp only: round_ops_def replicate_Suc concat.simps foldl_append s c')
  have ok': "conn_ok ctx c'"
    using run_ok [OF Suc.prems(1) clk, of show_error "[OpDeliverClose, OpRecv, OpHandle]"] s c' by simp
  have cap': "chan_capacity c' = chan_capacity c"
    using run_capacity [of show_error ctx d "(c, r)" "[OpDeliverClose, OpRecv, OpHandle]"] c' by simp
  have step: "accepted c' = accepted c" "closed_flag c' \<or> running c' \<and> close_coming c' \<and> work_left c' < work_left c"
    using round_progress [OF _ clk _ _ _ c'] Suc.prems s by auto
  show ?case
  proof (cases "closed_flag c'")
    case True
    then show ?thesis
      using closed_stays [of "(c', r')"] conn_okD [OF ok'] step split s by simp
  next
    case False
    then show ?thesis
      using Suc.IH [of "(c', r')"] ok' cap' step Suc.prems split s by simp
  qed
qed

text \<open>
  C16. Closing drains and ends: from any reachable state in which \<open>close\<close> has been called, on a
  channel with some capacity, the tasks of the connection alone reach the end of the handler in
  a bounded number of rounds; then every request accepted before has been finished, none was
  added or dropped, and the watch the closers wait for is set.
\<close>

theorem close_drains:
  assumes "clock_sane ctx d" and "0 < cap"
    and "s = foldl (conn_step show_error ctx d) (conn_new ctx cap k w, registry_new) ops"
    and "closing (fst s)" and "2 * close_pending (fst s) + length (chan (fst s)) + 1 < n"
    and "s' = foldl (conn_step show_error ctx d) s (round_ops n)"
  shows "closed_flag (fst s') \<and> \<not> running (fst s') \<and> answered (fst s') = accepted (fst s) \<and> pending (fst s') = []"
proof -
  have ok: "conn_ok ctx (fst s)"
    using run_ok [OF _ assms(1), of "(conn_new ctx cap k w, registry_new)" show_error ops]
      conn_new_ok [of ctx cap k w] assms(3) by simp
  have cap: "chan_capacity (fst s) = cap"
    using run_capacity [of show_error ctx d "(conn_new ctx cap k w, registry_new)" ops] assms(3)
    by (simp add: conn_new_def)
  have ok': "conn_ok ctx (fst s')" using run_ok [OF ok assms(1)] assms(6) by simp
  have "closed_flag (fst s') \<and> accepted (fst s') = accepted (fst s)"
  proof (cases "closed_flag (fst s)")
    case True
    then show ?thesis using closed_stays [of s] conn_okD [OF ok] assms(6) by simp
  next
    case False
    then have "running (fst s)" "close_coming (fst s)" using conn_okD(7,8) [OF ok] assms(4) by auto
    then show ?thesis
      using rounds_close [OF ok assms(1)] cap assms(2,5,6) by (simp add: work_left_def)
  qed
  then show ?thesis using conn_okD [OF ok'] by (simp add: pending_def)
qed

theorem close_drains_witness:
  "\<exists>s s'. s = foldl (conn_step (\<lambda>_. ''down'') demo_ctx (down_driver :: (nat, nat) driver))
      (conn_new demo_ctx 3 MySql 0, registry_new)
      [OpSubmit False 1 0 (ReqBatch 1 0 ''VACUUM''), OpClose 1 0 None] \<and>
    s' = foldl (conn_step (\<lambda>_. ''down'') demo_ctx (down_driver :: (nat, nat) driver)) s (round_ops 9) \<and>
    closed_flag (fst s') \<and> answered (fst s') = [ReqBatch 1 0 ''VACUUM'']"
proof -
  let ?step = "conn_step (\<lambda>_. ''down'') demo_ctx (down_driver :: (nat, nat) driver)"
  define s where "s = foldl ?step (conn_new demo_ctx 3 MySql 0, registry_new)
      [OpSubmit False 1 0 (ReqBatch 1 0 ''VACUUM''), OpClose 1 0 None]"
  have s: "closing (fst s)" "close_pending (fst s) = 1" "chan (fst s) = [ReqBatch 1 0 ''VACUUM'']"
    "accepted (fst s) = [ReqBatch 1 0 ''VACUUM'']"
    by (simp_all add: s_def submit_def response_guard_def send_counted_def try_send_def conn_new_def
        begin_close_def add_counter_def)
  have "0 < (3::nat)" "2 * close_pending (fst s) + length (chan (fst s)) + 1 < 9" using s by simp_all
  from close_drains [OF down_driver_clock this(1) s_def s(1) this(2) refl] s s_def show ?thesis by auto
qed

section \<open>What a refusal leaves behind\<close>

text \<open>Creating and abandoning a lease restores the registry's view.\<close>

lemma abandon_register:
  assumes ok: "reg_ok r" and g: "response_guard ow se r = (Inr guard, r1)"
  shows "leases (abandon_guard ow se guard r1) = leases r \<and> reg_ok (abandon_guard ow se guard r1) \<and>
    (\<forall>k. find_slot (abandon_guard ow se guard r1) k = find_slot r k)"
proof (cases "se = 0")
  case True
  then show ?thesis using g ok by (simp add: response_guard_def abandon_guard_def)
next
  case False
  then have reg: "register r (ow, se) = (Inr (fresh r), r1)" "guard = Some (fresh r)"
    using g by (auto simp: response_guard_def register_def split: if_splits sum.splits)
  have ls: "leases r1 = (fresh r, ow, se) # leases r"
    using reg(1) by (auto simp: register_def set_slot_def shard_insert_def split: if_splits)
  have notin: "(fresh r, k) \<notin> set (leases r)" for k
    using reg_okD(4) [OF ok] lease_fst by blast
  have ok1: "reg_ok r1" using register_ok [OF ok, of "(ow, se)"] reg(1) by simp
  define r2 where "r2 = drop_lease r1 (fresh r) (ow, se)"
  have ok2: "reg_ok r2" unfolding r2_def using drop_lease_ok [OF ok1] ls by simp
  have "leases r2 = filter (\<lambda>l. l \<noteq> (fresh r, ow, se)) (leases r1)"
    by (simp add: r2_def drop_lease_def Let_def set_slot_def shard_remove_def)
  also have "\<dots> = leases r" using ls notin by (simp add: filter_id_conv) blast
  finally have l2: "leases r2 = leases r" .
  have "find_slot r2 k = find_slot r k" for k
    using find_slot_lease [OF ok2, of k] find_slot_lease [OF ok, of k] l2
    by (cases "find_slot r2 k"; cases "find_slot r k") (metis option.distinct(1) option.inject)+
  then show ?thesis using l2 ok2 reg(2) by (simp add: abandon_guard_def r2_def)
qed

text \<open>The registry as its users see it.\<close>

definition same_view :: "'r responses \<Rightarrow> 'r responses \<Rightarrow> bool" where
  "same_view r r' \<longleftrightarrow> leases r' = leases r \<and> (\<forall>k. find_slot r' k = find_slot r k)"

lemma same_view_refl [simp]: "same_view r r"
  by (simp add: same_view_def)

lemma guard_error: "response_guard ow se r = (Inl e, r1) \<Longrightarrow> r1 = r"
  by (auto simp: response_guard_def register_def split: if_splits sum.splits)

definition is_session :: "string + answer \<Rightarrow> bool" where
  "is_session res \<longleftrightarrow> (case res of Inr (ASession _ _) \<Rightarrow> True | _ \<Rightarrow> False)"

lemma send_counted_refused:
  assumes ok: "reg_ok r" and g: "response_guard ow se r = (Inr guard, r1)"
    and s: "send_counted contended ow se guard req c r1 = (b, ans, c', r')" and no: "\<not> is_session (Inr ans)"
  shows "c' = c \<and> same_view r r' \<and> \<not> b"
  using send_counted_cases [of contended ow se guard req c r1] s no abandon_register [OF ok g]
  by (elim disjE exE conjE) (auto simp: is_session_def return_session_def same_view_def)

lemma submit_refused:
  assumes "reg_ok r" and "submit contended ow se req c r = (res, c', r')" and "\<not> is_session res"
  shows "c' = c \<and> same_view r r'"
proof (cases "response_guard ow se r")
  case (Pair g r1)
  show ?thesis
  proof (cases g)
    case (Inl e)
    then show ?thesis using assms Pair guard_error [of ow se r e r1] by (auto simp: submit_def)
  next
    case (Inr guard)
    then show ?thesis
      using assms Pair send_counted_refused [OF assms(1), of ow se guard r1 contended req c]
      by (auto simp: submit_def split: prod.splits)
  qed
qed

text \<open>
  C19. A request that is not accepted leaves nothing behind: when an entry point answers with an
  error, BUSY or CLOSED, the channel, the counter and the history are as before, no lease or
  entry of the registry has changed, and the statements collected in a transaction are still
  there (unless finalizers took them); when it answers with a session, exactly this request has
  been appended and counted.
\<close>

theorem refused_leaves_nothing:
  assumes "reg_ok r"
  shows "(enqueue_query env b eo (Live c) s r = Inr (res, c', r') \<and> \<not> is_session res \<longrightarrow> c' = c \<and> same_view r r') \<and>
    (batch_impl env b (Live c) s r = Inr (res, c', r') \<and> \<not> is_session res \<longrightarrow> c' = c \<and> same_view r r') \<and>
    (transaction_impl env b id (Live c) tx s r = Inr (res, c', r', tx') \<and> \<not> is_session res \<longrightarrow>
       c' = c \<and> same_view r r' \<and> tx' = tx) \<and>
    (transaction_impl env b id (Live c) tx s r = Inr (res, c', r', tx') \<and> is_session res \<longrightarrow>
       (\<exists>ow se qs. tx = Live qs \<and> tx' = Live [] \<and> accepted c' = accepted c @ [ReqTransaction ow se qs] \<and>
          actor_counter (act c') = actor_counter (act c) + 1))"
proof -
  have plain: "\<not> is_session (Inr closing_answer)" "\<not> is_session (Inl e)" for e
    by (simp_all add: is_session_def closing_answer_def)
  have q: "c' = c \<and> same_view r r'"
    if "enqueue_query env b eo (Live c) s r = Inr (res, c', r')" "\<not> is_session res"
    using that submit_refused [OF assms, of b _ _ _ c res c' r'] unfolding enqueue_query_def
    by (auto simp: connection_arg_def ebind_Inr_iff Let_def split: if_splits)
  have ba: "c' = c \<and> same_view r r'"
    if "batch_impl env b (Live c) s r = Inr (res, c', r')" "\<not> is_session res"
    using that submit_refused [OF assms, of b _ _ _ c res c' r'] unfolding batch_impl_def
    by (auto simp: connection_arg_def ebind_Inr_iff split: if_splits)
  have t: "(\<not> is_session res \<longrightarrow> c' = c \<and> same_view r r' \<and> tx' = tx) \<and>
      (is_session res \<longrightarrow> (\<exists>ow se qs. tx = Live qs \<and> tx' = Live [] \<and>
         accepted c' = accepted c @ [ReqTransaction ow se qs] \<and> actor_counter (act c') = actor_counter (act c) + 1))"
    if tr: "transaction_impl env b id (Live c) tx s r = Inr (res, c', r', tx')"
  proof -
    obtain ow se where args: "arg_owner env s 2 = Inr ow" "arg_session env s 3 = Inr se" "tx \<noteq> Foreign" "tx \<noteq> Collected"
      using tr by (auto simp: transaction_impl_def connection_arg_def ebind_Inr_iff split: if_splits)
    then obtain qs where qs: "tx = Live qs" by (cases tx) auto
    show ?thesis
    proof (cases "closing c")
      case True
      then show ?thesis using tr args qs plain
        by (auto simp: transaction_impl_def connection_arg_def)
    next
      case False
      obtain g r1 where g: "response_guard ow se r = (g, r1)" by (cases "response_guard ow se r")
      show ?thesis
      proof (cases g)
        case (Inl e)
        then show ?thesis using tr args qs False g guard_error [of ow se r e r1] plain
          by (auto simp: transaction_impl_def connection_arg_def)
      next
        case (Inr guard)
        obtain ok ans c2 r2 where sc: "send_counted b ow se guard (ReqTransaction ow se qs) c r1 = (ok, ans, c2, r2)"
          by (cases "send_counted b ow se guard (ReqTransaction ow se qs) c r1")
        then have res: "res = Inr ans" "c' = c2" "r' = r2" "tx' = Live (if ok then [] else qs)"
          using tr args qs False g Inr by (cases guard; auto simp: transaction_impl_def connection_arg_def)+
        have "\<not> is_session res \<longrightarrow> c' = c \<and> same_view r r' \<and> tx' = tx"
          using send_counted_refused [OF assms g [unfolded Inr] sc] res qs by auto
        moreover have "is_session res \<longrightarrow> ok \<and> accepted c' = accepted c @ [ReqTransaction ow se qs] \<and>
            actor_counter (act c') = actor_counter (act c) + 1"
          using send_counted_cases [of b ow se guard "ReqTransaction ow se qs" c r1] sc res
          by (elim disjE exE conjE) (auto simp: is_session_def refusal_def split: if_splits)
        ultimately show ?thesis using qs res by auto
      qed
    qed
  qed
  show ?thesis using q ba t by blast
qed

definition demo_env :: lua_env where
  "demo_env = \<lparr>env_toint = (\<lambda>v. case v of LInteger n \<Rightarrow> Some n | _ \<Rightarrow> None), env_heap = blank_heap,
     env_room = (\<lambda>_. True), env_uuid = (\<lambda>_. None)\<rparr>"

theorem refused_leaves_nothing_witness:
  "\<exists>res c' r'. batch_impl demo_env False (Live (conn_new demo_ctx 0 MySql (0::nat) :: (nat, nat) conn))
      [LUserData 1, LInteger 1, LInteger 7, LString ''VACUUM''] registry_new = Inr (res, c', r') \<and>
    \<not> is_session res \<and> c' = conn_new demo_ctx 0 MySql 0 \<and> same_view registry_new r'"
proof -
  let ?c = "conn_new demo_ctx 0 MySql (0::nat) :: (nat, nat) conn"
  let ?x = "batch_impl demo_env False (Live ?c) [LUserData 1, LInteger 1, LInteger 7, LString ''VACUUM''] registry_new"
  have "\<exists>res c' r'. ?x = Inr (res, c', r') \<and> \<not> is_session res"
    by (simp add: batch_impl_def connection_arg_def arg_owner_def arg_session_def sqlx_checked_integer_def
        sqlx_checked_string_def demo_env_def lua_at_def utf8_string_def utf8_error_def try_unsigned_def
        submit_def response_guard_def register_def find_slot_def registry_new_def send_counted_def try_send_def
        conn_new_def add_counter_def refusal_def is_session_def utf8_first_def)
  then show ?thesis using refused_leaves_nothing [OF registry_new_ok, of _ _ _ ?c] by blast
qed

section \<open>Named connections\<close>

record connect_args =
  ca_owner :: owner
  ca_session :: session
  ca_url :: string
  ca_name :: string
  ca_connect_timeout :: int
  ca_request_timeout :: int
  ca_max_rows :: int
  ca_capacity :: int
  ca_initial_delay :: int
  ca_max_delay :: int
  ca_log_interval :: int

definition parse_connect_args :: "lua_env \<Rightarrow> lua_stack \<Rightarrow> string + connect_args" where
  "parse_connect_args env s =
     (let toint = env_toint env in
      ebind (sqlx_checked_integer toint try_unsigned s 1 :: string + 8 word) (\<lambda>protocol_type.
      ebind (arg_owner env s 2) (\<lambda>owner.
      ebind (arg_session env s 3) (\<lambda>session.
      ebind (sqlx_checked_string s 4) (\<lambda>url.
      ebind (sqlx_checked_string s 5) (\<lambda>name.
      ebind (positive_option toint s 6 5000 u32_max) (\<lambda>connect_timeout.
      ebind (positive_option toint s 7 30000 u32_max) (\<lambda>request_timeout.
      ebind (positive_option toint s 8 100000 i32_max) (\<lambda>max_rows.
      ebind (positive_option toint s 9 100 i32_max) (\<lambda>queue_capacity.
      ebind (bounded_option toint s 10 250 0 u32_max) (\<lambda>initial_delay.
      ebind (positive_option toint s 11 5000 u32_max) (\<lambda>max_delay.
      ebind (bounded_option toint s 12 5000 0 u32_max) (\<lambda>log_interval.
        if max_delay < initial_delay
        then Inl ''SQLx reconnect_max_delay must be >= reconnect_initial_delay''
        else Inr \<lparr>ca_owner = owner, ca_session = session, ca_url = url, ca_name = name,
               ca_connect_timeout = connect_timeout, ca_request_timeout = request_timeout,
               ca_max_rows = max_rows, ca_capacity = queue_capacity, ca_initial_delay = initial_delay,
               ca_max_delay = max_delay, ca_log_interval = log_interval\<rparr>)))))))))))))"

text \<open>
  \<open>conns\<close> are the connections by identity, \<open>names\<close> the global \<open>DATABASE_CONNECTIONS\<close> (an association
  list for the concurrent map; \<open>stats\<close> lists it in an unspecified order). \<open>spawned\<close> are the tasks of
  \<open>connect\<close> that are still connecting, \<open>connecting\<close> those that have registered their connection and
  where they stand: before \<open>closing.swap\<close> on the registration they replaced, before the upgrade of its
  sender, before the answer, before the drop of their own sender.
\<close>

datatype connect_stage = Replacing "nat option" | Upgrading nat | Answering | Leaving

record ('w, 'r) server =
  conns :: "nat \<Rightarrow> ('w, 'r) conn"
  contexts :: "nat \<Rightarrow> handler_ctx"
  names :: "(string \<times> nat) list"
  responses :: "'r responses"
  next_id :: nat
  spawned :: "connect_args list"
  connecting :: "nat \<Rightarrow> (connect_args \<times> connect_stage) option"

definition connect_impl ::
  "lua_env \<Rightarrow> lua_stack \<Rightarrow> 'r responses \<Rightarrow> string + (string + answer \<times> connect_args) \<times> 'r responses" where
  "connect_impl env s r =
     ebind (parse_connect_args env s) (\<lambda>args.
       case response_guard (ca_owner args) (ca_session args) r of
         (Inl e, r) \<Rightarrow> Inr (Inl e, r)
       | (Inr guard, r) \<Rightarrow> Inr (Inr (return_session (ca_session args) guard, args), r))"

definition millis :: "int \<Rightarrow> nat" where
  "millis n = nat n * 1000000"

definition args_ctx :: "connect_args \<Rightarrow> handler_ctx" where
  "args_ctx a = \<lparr>connection_name = ca_name a, database_url = ca_url a,
     request_timeout_ms = nat (ca_request_timeout a), ctx_max_rows = nat (ca_max_rows a),
     reconnect_initial_delay = millis (ca_initial_delay a), reconnect_max_delay = millis (ca_max_delay a),
     reconnect_log_interval = millis (ca_log_interval a)\<rparr>"

text \<open>The call from Lua: its lease is registered and its task spawned, or it changes nothing else.\<close>

definition connect_call :: "lua_env \<Rightarrow> lua_stack \<Rightarrow> ('w, 'r) server \<Rightarrow> ('w, 'r) server" where
  "connect_call env s sv =
     (case connect_impl env s (responses sv) of
        Inl e \<Rightarrow> sv
      | Inr (Inl e, r) \<Rightarrow> sv\<lparr>responses := r\<rparr>
      | Inr (Inr (ans, args), r) \<Rightarrow> sv\<lparr>responses := r, spawned := spawned sv @ [args]\<rparr>)"

text \<open>
  The connection is there: the channel with two senders, the task's and the one in the connection to be
  answered, and the registration under its name, which returns the one it replaces.
\<close>

definition connect_insert :: "connect_args \<Rightarrow> db_kind \<Rightarrow> 'w \<Rightarrow> ('w, 'r) server \<Rightarrow> ('w, 'r) server" where
  "connect_insert args kind w sv =
     (let cid = next_id sv; name = ca_name args; ctx = args_ctx args;
          c = conn_new ctx (nat (ca_capacity args)) kind w
      in sv\<lparr>conns := (conns sv)(cid := c\<lparr>senders := 2\<rparr>), contexts := (contexts sv)(cid := ctx),
            names := AList.update name cid (names sv), next_id := cid + 1,
            connecting := (connecting sv)(cid := Some (args, Replacing (map_of (names sv) name)))\<rparr>)"

text \<open>
  A spawned task whose connection attempt has returned. A failed one is answered, and is over.
\<close>

definition connect_task :: "nat \<Rightarrow> sqlx_error + db_kind \<Rightarrow> 'w \<Rightarrow> ('w, 'r) server \<Rightarrow> ('w, 'r) server" where
  "connect_task i outcome w sv =
     (if length (spawned sv) \<le> i then sv
      else
        let args = spawned sv ! i; sv = sv\<lparr>spawned := take i (spawned sv) @ drop (Suc i) (spawned sv)\<rparr>
        in case outcome of
             Inr kind \<Rightarrow> connect_insert args kind w sv
           | Inl e \<Rightarrow>
               sv\<lparr>responses := snd (send_response (ca_owner args) (ca_session args) (RConnectFailed e 0) (responses sv))\<rparr>)"

definition set_conn :: "nat \<Rightarrow> ('w, 'r) conn \<Rightarrow> ('w, 'r) server \<Rightarrow> ('w, 'r) server" where
  "set_conn cid c sv = sv\<lparr>conns := (conns sv)(cid := c)\<rparr>"

definition set_stage :: "nat \<Rightarrow> (connect_args \<times> connect_stage) option \<Rightarrow> ('w, 'r) server \<Rightarrow> ('w, 'r) server" where
  "set_stage cid st sv = sv\<lparr>connecting := (connecting sv)(cid := st)\<rparr>"

text \<open>
  The rest of the task, one shared access at a time: \<open>swap\<close> of the replaced registration's flag; if it
  was not closing, the upgrade of its sender, and if it has one, a task that sends \<open>Close\<close>; the answer
  with the connection, which is dropped when nobody takes it; and the drop of the task's sender,
  after which the handler runs.
\<close>

definition connect_step :: "nat \<Rightarrow> ('w, 'r) server \<Rightarrow> ('w, 'r) server" where
  "connect_step cid sv =
     (case connecting sv cid of
        None \<Rightarrow> sv
      | Some (args, Replacing None) \<Rightarrow> set_stage cid (Some (args, Answering)) sv
      | Some (args, Replacing (Some prev)) \<Rightarrow>
          if closing (conns sv prev) then set_stage cid (Some (args, Answering)) sv
          else set_stage cid (Some (args, Upgrading prev)) (set_conn prev ((conns sv prev)\<lparr>closing := True\<rparr>) sv)
      | Some (args, Upgrading prev) \<Rightarrow>
          set_stage cid (Some (args, Answering))
            (if 0 < senders (conns sv prev)
             then set_conn prev ((conns sv prev)\<lparr>close_pending := close_pending (conns sv prev) + 1\<rparr>) sv else sv)
      | Some (args, Answering) \<Rightarrow>
          (case send_response (ca_owner args) (ca_session args) (RConnect cid) (responses sv) of (ok, r) \<Rightarrow>
             set_stage cid (Some (args, Leaving))
               (set_conn cid ((conns sv cid)\<lparr>senders := senders (conns sv cid) - (if ok then 0 else 1)\<rparr>) (sv\<lparr>responses := r\<rparr>)))
      | Some (args, Leaving) \<Rightarrow>
          set_stage cid None (set_conn cid ((conns sv cid)\<lparr>senders := senders (conns sv cid) - 1\<rparr>) sv))"

text \<open>The senders a task holds itself.\<close>

definition held :: "('w, 'r) server \<Rightarrow> nat \<Rightarrow> nat" where
  "held sv cid = (case connecting sv cid of None \<Rightarrow> 0 | Some (_, Leaving) \<Rightarrow> 1 | Some _ \<Rightarrow> 2)"

text \<open>\<open>remove_if\<close> with the identity of the connection.\<close>

definition remove_if :: "string \<Rightarrow> nat \<Rightarrow> ('w, 'r) server \<Rightarrow> ('w, 'r) server" where
  "remove_if name cid sv =
     (if map_of (names sv) name = Some cid then sv\<lparr>names := AList.delete name (names sv)\<rparr> else sv)"

definition find_connection :: "string \<Rightarrow> ('w, 'r) server \<Rightarrow> nat option \<times> ('w, 'r) server" where
  "find_connection name sv =
     (case map_of (names sv) name of
        None \<Rightarrow> (None, sv)
      | Some cid \<Rightarrow>
          if \<not> closing (conns sv cid) \<and> 0 < senders (conns sv cid)
          then (Some cid, sv\<lparr>conns := (conns sv)(cid := (conns sv cid)\<lparr>senders := senders (conns sv cid) + 1\<rparr>)\<rparr>)
          else (None, remove_if name cid sv))"

definition find_connection_impl ::
  "lua_stack \<Rightarrow> ('w, 'r) server \<Rightarrow> string + nat option \<times> ('w, 'r) server" where
  "find_connection_impl s sv = ebind (sqlx_checked_string s 1) (\<lambda>name. Inr (find_connection name sv))"

definition stats_impl :: "('w, 'r) server \<Rightarrow> (string \<times> i64) list" where
  "stats_impl sv = map (\<lambda>(name, cid). (name, actor_counter (act (conns sv cid)))) (names sv)"

definition response_stats_impl :: "('w, 'r) server \<Rightarrow> nat \<times> nat" where
  "response_stats_impl sv = counts (responses sv)"

text \<open>One step of one connection, with the end of its handler.\<close>

definition server_step ::
  "(sqlx_error \<Rightarrow> string) \<Rightarrow> ('w, 'r) driver \<Rightarrow> nat \<Rightarrow> conn_op \<Rightarrow> ('w, 'r) server \<Rightarrow> ('w, 'r) server" where
  "server_step show_error d cid p sv =
     (case conn_step show_error (contexts sv cid) d (conns sv cid, responses sv) p of
        (c, r) \<Rightarrow>
          (let sv' = sv\<lparr>conns := (conns sv)(cid := c), responses := r\<rparr> in
           if closed_flag c \<and> \<not> closed_flag (conns sv cid)
           then remove_if (connection_name (contexts sv cid)) cid sv' else sv'))"

text \<open>
  An interleaving: calls of \<open>connect\<close>, returns of connection attempts, steps of the tasks, lookups, steps of the
  connections. A lookup that saw the flag raised or no sender removes the registration a step later
  (\<open>SrvForget\<close>; both stay as they are). The handler does not receive before its task is over, and
  only senders that were handed out are dropped.
\<close>

datatype 'w server_op =
    SrvCall lua_env lua_stack | SrvConnected nat "sqlx_error + db_kind" 'w | SrvTask nat
  | SrvFind string | SrvForget string nat | SrvStep nat conn_op

definition step_allowed :: "('w, 'r) server \<Rightarrow> nat \<Rightarrow> conn_op \<Rightarrow> bool" where
  "step_allowed sv cid p \<longleftrightarrow> cid < next_id sv \<and>
     (p = OpRecv \<longrightarrow> connecting sv cid = None) \<and> (p = OpDropSender \<longrightarrow> held sv cid < senders (conns sv cid))"

fun server_run ::
  "(sqlx_error \<Rightarrow> string) \<Rightarrow> ('w, 'r) driver \<Rightarrow> ('w, 'r) server \<Rightarrow> 'w server_op \<Rightarrow> ('w, 'r) server" where
  "server_run show_error d sv (SrvCall env s) = connect_call env s sv"
| "server_run show_error d sv (SrvConnected i outcome w) = connect_task i outcome w sv"
| "server_run show_error d sv (SrvTask cid) = connect_step cid sv"
| "server_run show_error d sv (SrvFind name) = snd (find_connection name sv)"
| "server_run show_error d sv (SrvForget name cid) =
     (if closing (conns sv cid) \<or> senders (conns sv cid) = 0 then remove_if name cid sv else sv)"
| "server_run show_error d sv (SrvStep cid p) = (if step_allowed sv cid p then server_step show_error d cid p sv else sv)"

definition no_ctx :: handler_ctx where
  "no_ctx = \<lparr>connection_name = [], database_url = [], request_timeout_ms = 0, ctx_max_rows = 0,
     reconnect_initial_delay = 0, reconnect_max_delay = 0, reconnect_log_interval = 0\<rparr>"

definition server_new :: "'w \<Rightarrow> ('w, 'r) server" where
  "server_new w = \<lparr>conns = (\<lambda>_. conn_new no_ctx 0 MySql w), contexts = (\<lambda>_. no_ctx), names = [],
     responses = registry_new, next_id = 0, spawned = [], connecting = (\<lambda>_. None)\<rparr>"

text \<open>A connection that can still be handed out.\<close>

definition live :: "('w, 'r) conn \<Rightarrow> bool" where
  "live c \<longleftrightarrow> \<not> closing c \<and> 0 < senders c \<and> \<not> closed_flag c"

text \<open>
  Names lead to existing connections of that name, and a live connection is the one of its name, unless
  a task has just replaced it and is about to raise its flag.
\<close>

definition names_ok :: "('w, 'r) server \<Rightarrow> bool" where
  "names_ok sv \<longleftrightarrow> (\<forall>name cid. map_of (names sv) name = Some cid \<longrightarrow>
     cid < next_id sv \<and> connection_name (contexts sv cid) = name)"

definition tasks_ok :: "('w, 'r) server \<Rightarrow> bool" where
  "tasks_ok sv \<longleftrightarrow> (\<forall>c args st. connecting sv c = Some (args, st) \<longrightarrow> c < next_id sv \<and>
     (\<forall>p. st = Replacing (Some p) \<longrightarrow> p < c \<and> connection_name (contexts sv p) = ca_name args))"

definition being_replaced :: "('w, 'r) server \<Rightarrow> nat \<Rightarrow> bool" where
  "being_replaced sv cid \<longleftrightarrow> (\<exists>c args. connecting sv c = Some (args, Replacing (Some cid)))"

definition live_ok :: "('w, 'r) server \<Rightarrow> bool" where
  "live_ok sv \<longleftrightarrow> (\<forall>cid<next_id sv. live (conns sv cid) \<longrightarrow>
     map_of (names sv) (connection_name (contexts sv cid)) = Some cid \<or> being_replaced sv cid)"

definition server_ok :: "('w, 'r) server \<Rightarrow> bool" where
  "server_ok sv \<longleftrightarrow> names_ok sv \<and> tasks_ok sv \<and> live_ok sv"

lemmas server_ok_defs = server_ok_def names_ok_def tasks_ok_def live_ok_def

lemma submit_live:
  assumes "submit contended ow se req c r = (res, c', r')"
  shows "closing c' = closing c \<and> senders c' = senders c \<and> closed_flag c' = closed_flag c"
  using assms by (cases rule: submit_cases) (simp_all add: add_counter_def)

lemma step_live: "live (fst (conn_step show_error ctx d (c, r) p)) \<Longrightarrow> live c"
proof (cases p)
  case (OpSubmit contended ow se req)
  assume "live (fst (conn_step show_error ctx d (c, r) p))"
  then show ?thesis
    using OpSubmit submit_live [of contended ow se req c r]
    by (auto simp: live_def split: prod.splits if_splits)
qed (auto simp: live_def begin_close_def deliver_close_def recv_def finish_loop_def handle_def notify_closed_def
      Let_def split: prod.splits sum.splits list.splits option.splits outcome.splits if_splits)

lemma remove_if_ok:
  assumes "server_ok sv" and "cid < next_id sv \<Longrightarrow> \<not> live (conns sv cid)"
  shows "server_ok (remove_if name cid sv)"
proof (cases "map_of (names sv) name = Some cid")
  case True
  define sv1 where "sv1 = sv\<lparr>names := AList.delete name (names sv)\<rparr>"
  have f: "next_id sv1 = next_id sv" "conns sv1 = conns sv" "contexts sv1 = contexts sv" "connecting sv1 = connecting sv"
    "being_replaced sv1 = being_replaced sv"
    by (simp_all add: sv1_def being_replaced_def fun_eq_iff)
  have m: "map_of (names sv1) n = (if n = name then None else map_of (names sv) n)" for n
    by (simp add: sv1_def AList.delete_conv')
  have "names_ok sv1" using assms(1) unfolding server_ok_def names_ok_def f m by auto
  moreover have "tasks_ok sv1" using assms(1) unfolding server_ok_def tasks_ok_def f by blast
  moreover have "live_ok sv1"
    unfolding live_ok_def f m
  proof (intro allI impI)
    fix i
    assume i: "i < next_id sv" "live (conns sv i)"
    then have "map_of (names sv) (connection_name (contexts sv i)) = Some i \<or> being_replaced sv i"
      using assms(1) by (simp add: server_ok_def live_ok_def)
    moreover have "i \<noteq> cid" using assms(2) i by auto
    ultimately show "(if connection_name (contexts sv i) = name then None
        else map_of (names sv) (connection_name (contexts sv i))) = Some i \<or> being_replaced sv i"
      using True by auto
  qed
  ultimately show ?thesis using True by (simp add: remove_if_def sv1_def server_ok_def)
qed (simp add: remove_if_def assms(1))

lemma server_ok_irrelevant [simp]:
  "server_ok (sv\<lparr>responses := r\<rparr>) = server_ok sv" "server_ok (sv\<lparr>spawned := sp\<rparr>) = server_ok sv"
  by (simp_all add: server_ok_defs being_replaced_def)

lemma set_conn_ok:
  assumes "server_ok sv" and "live c \<Longrightarrow> live (conns sv cid)"
  shows "server_ok (set_conn cid c sv)"
proof -
  have "names_ok (set_conn cid c sv)" "tasks_ok (set_conn cid c sv)"
    using assms(1) by (simp_all add: server_ok_defs set_conn_def)
  moreover have "live_ok (set_conn cid c sv)"
    using assms by (simp add: server_ok_def live_ok_def set_conn_def being_replaced_def)
  ultimately show ?thesis by (simp add: server_ok_def)
qed

lemma update_conn_ok:
  assumes "server_ok sv" and "live c \<Longrightarrow> live (conns sv cid)"
  shows "server_ok (sv\<lparr>conns := (conns sv)(cid := c), responses := r\<rparr>)"
  using set_conn_ok [OF assms] server_ok_irrelevant(1) [of r "set_conn cid c sv"] by (simp add: set_conn_def)

text \<open>A task may go on once the connection it replaced is not live any more.\<close>

lemma set_stage_ok:
  assumes ok: "server_ok sv" and old: "\<And>args p. connecting sv cid = Some (args, Replacing (Some p)) \<Longrightarrow> \<not> live (conns sv p)"
    and new: "st = None \<or> (\<exists>args s0 s. connecting sv cid = Some (args, s0) \<and> st = Some (args, s) \<and> (\<forall>p. s \<noteq> Replacing p))"
  shows "server_ok (set_stage cid st sv)"
proof -
  have "names_ok (set_stage cid st sv)" using ok by (simp add: server_ok_def names_ok_def set_stage_def)
  moreover have "tasks_ok (set_stage cid st sv)"
    using ok new unfolding server_ok_def tasks_ok_def set_stage_def by (auto split: if_splits)
  moreover have "live_ok (set_stage cid st sv)"
    unfolding live_ok_def
  proof (intro allI impI)
    fix i
    assume i: "i < next_id (set_stage cid st sv)" "live (conns (set_stage cid st sv) i)"
    then have "map_of (names sv) (connection_name (contexts sv i)) = Some i \<or> being_replaced sv i"
      using ok by (simp add: server_ok_def live_ok_def set_stage_def)
    moreover have "being_replaced (set_stage cid st sv) i" if br: "being_replaced sv i"
    proof -
      obtain c args where c: "connecting sv c = Some (args, Replacing (Some i))"
        using br unfolding being_replaced_def by blast
      then have "c \<noteq> cid" using old i by (auto simp: set_stage_def)
      then show ?thesis using c unfolding being_replaced_def set_stage_def
        by (intro exI [of _ c] exI [of _ args]) simp
    qed
    ultimately show "map_of (names (set_stage cid st sv)) (connection_name (contexts (set_stage cid st sv) i)) = Some i \<or>
       being_replaced (set_stage cid st sv) i"
      by (auto simp: set_stage_def)
  qed
  ultimately show ?thesis by (simp add: server_ok_def)
qed

lemma server_step_ok:
  assumes "server_ok sv"
  shows "server_ok (server_step show_error d cid p sv)"
proof -
  obtain c r where x: "conn_step show_error (contexts sv cid) d (conns sv cid, responses sv) p = (c, r)"
    by (cases "conn_step show_error (contexts sv cid) d (conns sv cid, responses sv) p")
  have "live c \<Longrightarrow> live (conns sv cid)"
    using step_live [of show_error "contexts sv cid" d "conns sv cid" "responses sv" p] x by simp
  from update_conn_ok [OF assms this, where r = r] have ok: "server_ok (sv\<lparr>conns := (conns sv)(cid := c), responses := r\<rparr>)" .
  moreover have "server_ok (remove_if n cid (sv\<lparr>conns := (conns sv)(cid := c), responses := r\<rparr>))" if "closed_flag c" for n
    by (rule remove_if_ok [OF ok]) (simp add: live_def that)
  ultimately show ?thesis using x by (simp add: server_step_def Let_def)
qed

lemma find_connection_ok:
  assumes "server_ok sv"
  shows "server_ok (snd (find_connection name sv))"
proof (cases "map_of (names sv) name")
  case None
  then show ?thesis using assms by (simp add: find_connection_def)
next
  case (Some cid)
  have "server_ok (sv\<lparr>conns := (conns sv)(cid := (conns sv cid)\<lparr>senders := senders (conns sv cid) + 1\<rparr>)\<rparr>)"
    if "0 < senders (conns sv cid)"
    using update_conn_ok [OF assms, of "(conns sv cid)\<lparr>senders := senders (conns sv cid) + 1\<rparr>" cid "responses sv"] that
    by (simp add: live_def)
  moreover have "server_ok (remove_if name cid sv)" if "closing (conns sv cid) \<or> senders (conns sv cid) = 0"
    by (rule remove_if_ok [OF assms]) (use that in \<open>auto simp: live_def\<close>)
  ultimately show ?thesis using Some by (auto simp: find_connection_def)
qed

lemma connect_call_ok: "server_ok sv \<Longrightarrow> server_ok (connect_call env s sv)"
  by (auto simp: connect_call_def split: sum.splits prod.splits)

lemma connect_insert_ok:
  assumes ok: "server_ok sv"
  shows "server_ok (connect_insert args kind w sv)"
proof -
  define cid where "cid = next_id sv"
  define name where "name = ca_name args"
  let ?sv = "connect_insert args kind w sv"
  have nm: "connection_name (args_ctx args) = name" by (simp add: args_ctx_def name_def)
  have fields: "names ?sv = AList.update name cid (names sv)" "next_id ?sv = cid + 1"
    "contexts ?sv = (contexts sv)(cid := args_ctx args)"
    "connecting ?sv = (connecting sv)(cid := Some (args, Replacing (map_of (names sv) name)))"
    "\<And>i. i \<noteq> cid \<Longrightarrow> conns ?sv i = conns sv i"
    by (simp_all add: connect_insert_def Let_def cid_def name_def)
  have old: "map_of (names sv) n = Some i \<Longrightarrow> i < cid \<and> connection_name (contexts sv i) = n" for n i
    using ok by (auto simp: server_ok_defs cid_def)
  have "names_ok ?sv"
    unfolding names_ok_def fields(1-3)
  proof (intro allI impI)
    fix n i
    assume i: "map_of (AList.update name cid (names sv)) n = Some i"
    show "i < cid + 1 \<and> connection_name (((contexts sv)(cid := args_ctx args)) i) = n"
    proof (cases "n = name")
      case True
      then show ?thesis using i nm by (simp add: update_conv')
    next
      case False
      then have "map_of (names sv) n = Some i" using i by (simp add: update_conv')
      then show ?thesis using old [of n i] by simp
    qed
  qed
  moreover have "tasks_ok ?sv"
    unfolding tasks_ok_def fields(2-4)
  proof (intro allI impI)
    fix c args' st
    assume c: "((connecting sv)(cid := Some (args, Replacing (map_of (names sv) name)))) c = Some (args', st)"
    show "c < cid + 1 \<and> (\<forall>p. st = Replacing (Some p) \<longrightarrow> p < c \<and>
        connection_name (((contexts sv)(cid := args_ctx args)) p) = ca_name args')"
    proof (cases "c = cid")
      case True
      then show ?thesis using c old by (auto simp: name_def)
    next
      case False
      then have "connecting sv c = Some (args', st)" using c by simp
      then have "c < cid \<and> (\<forall>p. st = Replacing (Some p) \<longrightarrow> p < c \<and> connection_name (contexts sv p) = ca_name args')"
        using ok unfolding server_ok_def tasks_ok_def cid_def by blast
      then show ?thesis by auto
    qed
  qed
  moreover have "live_ok ?sv"
    unfolding live_ok_def fields(1-3)
  proof (intro allI impI)
    fix i
    assume i: "i < cid + 1" "live (conns ?sv i)"
    show "map_of (AList.update name cid (names sv)) (connection_name (((contexts sv)(cid := args_ctx args)) i)) = Some i \<or>
      being_replaced ?sv i"
    proof (cases "i = cid")
      case True
      then show ?thesis using nm by (simp add: update_conv')
    next
      case False
      then have "live (conns sv i)" "i < next_id sv" using i fields(5) by (simp_all add: cid_def)
      then consider "map_of (names sv) (connection_name (contexts sv i)) = Some i" | "being_replaced sv i"
        using ok unfolding server_ok_def live_ok_def by blast
      then show ?thesis
      proof cases
        case 1
        have "being_replaced ?sv i" if "connection_name (contexts sv i) = name"
          unfolding being_replaced_def fields(4) using 1 that by auto
        then show ?thesis using False 1 by (auto simp: update_conv')
      next
        case 2
        then obtain c args' where c: "connecting sv c = Some (args', Replacing (Some i))" unfolding being_replaced_def by blast
        then have "c < cid" using ok unfolding server_ok_def tasks_ok_def cid_def by blast
        then show ?thesis using c unfolding being_replaced_def fields(4)
          by (intro disjI2 exI [of _ c] exI [of _ args']) simp
      qed
    qed
  qed
  ultimately show ?thesis by (simp add: server_ok_def)
qed

lemma connect_task_ok: "server_ok sv \<Longrightarrow> server_ok (connect_task i outcome w sv)"
  by (cases outcome) (simp_all add: connect_task_def Let_def connect_insert_ok)

lemma set_conn_fields [simp]:
  "connecting (set_conn cid c sv) = connecting sv" "conns (set_conn cid c sv) = (conns sv)(cid := c)"
  by (simp_all add: set_conn_def)

lemma connect_step_ok:
  assumes ok: "server_ok sv"
  shows "server_ok (connect_step cid sv)"
proof (cases "connecting sv cid")
  case (Some x)
  then obtain args st where x: "connecting sv cid = Some (args, st)" by (cases x) auto
  note go = set_stage_ok [where cid = cid]
  show ?thesis
  proof (cases st)
    case (Replacing prev)
    show ?thesis
    proof (cases prev)
      case None
      then show ?thesis using x Replacing go [OF ok] by (simp add: connect_step_def)
    next
      case (Some p)
      show ?thesis
      proof (cases "closing (conns sv p)")
        case True
        then show ?thesis using x Replacing Some go [OF ok] by (simp add: connect_step_def live_def)
      next
        case False
        have "server_ok (set_conn p ((conns sv p)\<lparr>closing := True\<rparr>) sv)"
          by (rule set_conn_ok [OF ok]) (simp add: live_def)
        from go [OF this] False x Replacing Some show ?thesis by (simp add: connect_step_def live_def)
      qed
    qed
  next
    case (Upgrading p)
    have "server_ok (set_conn p ((conns sv p)\<lparr>close_pending := close_pending (conns sv p) + 1\<rparr>) sv)"
      by (rule set_conn_ok [OF ok]) (simp add: live_def)
    from go [OF this] go [OF ok] x Upgrading show ?thesis by (simp add: connect_step_def)
  next
    case Answering
    obtain b r where b: "send_response (ca_owner args) (ca_session args) (RConnect cid) (responses sv) = (b, r)"
      by (cases "send_response (ca_owner args) (ca_session args) (RConnect cid) (responses sv)")
    have "server_ok (set_conn cid ((conns sv cid)\<lparr>senders := senders (conns sv cid) - (if b then 0 else 1)\<rparr>) (sv\<lparr>responses := r\<rparr>))"
      by (rule set_conn_ok) (simp_all add: ok live_def split: if_splits)
    from go [OF this] x Answering b show ?thesis by (simp add: connect_step_def)
  next
    case Leaving
    have "server_ok (set_conn cid ((conns sv cid)\<lparr>senders := senders (conns sv cid) - 1\<rparr>) sv)"
      by (rule set_conn_ok [OF ok]) (simp add: live_def)
    from go [OF this] x Leaving show ?thesis by (simp add: connect_step_def)
  qed
qed (simp add: connect_step_def ok)

interpretation named_connections: total_machine "server_run show_error d" server_ok
proof
  fix sv :: "('a, 'b) server" and p
  assume ok: "server_ok sv"
  show "server_ok (server_run show_error d sv p)"
  proof (cases p)
    case (SrvForget n cid)
    have "server_ok (remove_if n cid sv)" if "closing (conns sv cid) \<or> senders (conns sv cid) = 0"
      by (rule remove_if_ok [OF ok]) (use that in \<open>auto simp: live_def\<close>)
    then show ?thesis using SrvForget ok by simp
  qed (simp_all add: ok connect_call_ok connect_task_ok connect_step_ok find_connection_ok server_step_ok)
qed

lemma server_new_ok: "server_ok (server_new w)"
  by (simp add: server_ok_defs server_new_def)

text \<open>
  C18. Names stay exact: whatever is connected from Lua (also again under the same name), found, used,
  closed and collected, and however the accesses to the shared map and flags interleave, a
  connection that is not closing, not ended and still has a sender is the one \<open>find_connection\<close>
  finds under its name, save one that a newer connection of the same name has just replaced, whose
  flag the next step of the newer one's task raises; and what \<open>find_connection\<close> finds carries the
  name, is not closing and has a sender.
\<close>

theorem names_exact:
  assumes "sv = foldl (server_run show_error d) (server_new w) ops"
  shows "(cid < next_id sv \<and> live (conns sv cid) \<longrightarrow>
       fst (find_connection (connection_name (contexts sv cid)) sv) = Some cid \<or>
       (\<exists>c args. cid < c \<and> connecting sv c = Some (args, Replacing (Some cid)) \<and>
          ca_name args = connection_name (contexts sv cid) \<and> \<not> live (conns (connect_step c sv) cid))) \<and>
     (fst (find_connection name sv) = Some cid' \<longrightarrow>
       cid' < next_id sv \<and> connection_name (contexts sv cid') = name \<and> \<not> closing (conns sv cid') \<and>
       0 < senders (conns sv cid'))"
proof (intro conjI impI)
  have ok: "server_ok sv" unfolding assms by (rule named_connections.runs_keep [OF server_new_ok])
  show "cid' < next_id sv" "connection_name (contexts sv cid') = name" "\<not> closing (conns sv cid')" "0 < senders (conns sv cid')"
    if "fst (find_connection name sv) = Some cid'"
    using ok that by (auto simp: server_ok_def names_ok_def find_connection_def split: option.splits if_splits)
  assume l: "cid < next_id sv \<and> live (conns sv cid)"
  then consider "map_of (names sv) (connection_name (contexts sv cid)) = Some cid"
    | c args where "connecting sv c = Some (args, Replacing (Some cid))"
    using ok unfolding server_ok_def live_ok_def being_replaced_def by blast
  then show "fst (find_connection (connection_name (contexts sv cid)) sv) = Some cid \<or>
       (\<exists>c args. cid < c \<and> connecting sv c = Some (args, Replacing (Some cid)) \<and>
          ca_name args = connection_name (contexts sv cid) \<and> \<not> live (conns (connect_step c sv) cid))"
  proof cases
    case 1
    then show ?thesis using l by (simp add: find_connection_def live_def)
  next
    case (2 c args)
    then have "cid < c \<and> connection_name (contexts sv cid) = ca_name args" using ok unfolding server_ok_def tasks_ok_def by auto
    moreover have "\<not> live (conns (connect_step c sv) cid)"
      using 2 l by (simp add: connect_step_def live_def set_stage_def)
    ultimately show ?thesis using 2 by auto
  qed
qed

text \<open>Lua calls \<open>connect\<close> for the name \<open>main\<close>; the session is the number given.\<close>

definition connect_args_of :: "64 word \<Rightarrow> lua_stack" where
  "connect_args_of se = [LInteger 1, LInteger 1, LInteger se, LString ''mysql://h/db'', LString ''main'']"

definition demo_connect :: "64 word \<Rightarrow> connect_args" where
  "demo_connect se = \<lparr>ca_owner = 1, ca_session = se, ca_url = ''mysql://h/db'', ca_name = ''main'',
     ca_connect_timeout = 5000, ca_request_timeout = 30000, ca_max_rows = 100000, ca_capacity = 100,
     ca_initial_delay = 250, ca_max_delay = 5000, ca_log_interval = 5000\<rparr>"

lemma demo_parse: "parse_connect_args demo_env (connect_args_of se) = Inr (demo_connect se)"
  by (simp add: parse_connect_args_def connect_args_of_def demo_connect_def demo_env_def arg_owner_def arg_session_def sqlx_checked_integer_def
        sqlx_checked_string_def lua_at_def utf8_string_def utf8_error_def try_unsigned_def utf8_first_def positive_option_def bounded_option_def
        i32_max_def u32_max_def)

lemma demo_call:
  assumes "se = 7 \<or> se = 8" "register (responses sv) (1, se) = (Inr sid, r)"
  shows "connect_call demo_env (connect_args_of se) sv = sv\<lparr>responses := r, spawned := spawned sv @ [demo_connect se]\<rparr>"
  using assms by (auto simp: connect_call_def connect_impl_def demo_parse response_guard_def demo_connect_def)

lemma reg1: "\<exists>sid r1 r2 sid' r3. register (registry_new :: nat responses) (1, 7) = (Inr sid, r1) \<and> publish r1 (1, 7) (RConnect 0) = (True, r2) \<and>
   register r2 (1, 8) = (Inr sid', r3)"
  by (simp add: register_def registry_new_def find_slot_def publish_def publish_slot_def Let_def shard_index_def set_slot_def shard_insert_def upgrade_def)

lemma demo_connect_fields [simp]:
  "ca_owner (demo_connect se) = 1" "ca_session (demo_connect se) = se" "ca_name (demo_connect se) = ''main''"
  by (simp_all add: demo_connect_def)

lemma set_fields [simp]:
  "names (set_conn cid c sv) = names sv" "responses (set_conn cid c sv) = responses sv" "next_id (set_conn cid c sv) = next_id sv"
  "spawned (set_conn cid c sv) = spawned sv"
  "names (set_stage cid st sv) = names sv" "responses (set_stage cid st sv) = responses sv" "next_id (set_stage cid st sv) = next_id sv"
  "spawned (set_stage cid st sv) = spawned sv" "conns (set_stage cid st sv) = conns sv"
  "connecting (set_stage cid st sv) = (connecting sv)(cid := st)"
  by (simp_all add: set_conn_def set_stage_def)

lemma insert_fields:
  "names (connect_insert args k w sv) = AList.update (ca_name args) (next_id sv) (names sv)"
  "responses (connect_insert args k w sv) = responses sv" "spawned (connect_insert args k w sv) = spawned sv"
  "next_id (connect_insert args k w sv) = next_id sv + 1"
  "connecting (connect_insert args k w sv) =
     (connecting sv)(next_id sv := Some (args, Replacing (map_of (names sv) (ca_name args))))"
  "i \<noteq> next_id sv \<Longrightarrow> conns (connect_insert args k w sv) i = conns sv i"
  "live (conns (connect_insert args k w sv) (next_id sv))"
  by (simp_all add: connect_insert_def Let_def live_def conn_new_def)

text \<open>
  The second connection of the name, registered while the first is live: the first is then found no more, and
  its flag is raised by the next step. Before that the first one is found.
\<close>

theorem names_exact_witness:
  "\<exists>sv1 sv2. sv1 = foldl (server_run (\<lambda>_. ''e'') (easy_driver :: (nat, nat) driver)) (server_new 0)
       [SrvCall demo_env (connect_args_of 7), SrvConnected 0 (Inr MySql) 0, SrvTask 0, SrvTask 0, SrvTask 0] \<and>
     live (conns sv1 0) \<and> fst (find_connection ''main'' sv1) = Some 0 \<and>
     sv2 = foldl (server_run (\<lambda>_. ''e'') (easy_driver :: (nat, nat) driver)) sv1
       [SrvCall demo_env (connect_args_of 8), SrvConnected 0 (Inr MySql) 0] \<and>
     live (conns sv2 0) \<and> live (conns sv2 1) \<and> fst (find_connection ''main'' sv2) = Some 1 \<and>
     \<not> live (conns (connect_step 1 sv2) 0)"
proof -
  obtain sid r1 r2 sid' r3 where r: "register (registry_new :: nat responses) (1, 7) = (Inr sid, r1)"
    "publish r1 (1, 7) (RConnect 0) = (True, r2)" "register r2 (1, 8) = (Inr sid', r3)" using reg1 by blast
  define a0 where "a0 = (server_new 0 :: (nat, nat) server)"
  define a1 where "a1 = a0\<lparr>responses := r1, spawned := [demo_connect 7]\<rparr>"
  define a2 where "a2 = connect_insert (demo_connect 7) MySql 0 (a1\<lparr>spawned := []\<rparr>)"
  define a3 where "a3 = connect_step 0 a2"
  define a4 where "a4 = connect_step 0 a3"
  define a5 where "a5 = connect_step 0 a4"
  define a6 where "a6 = a5\<lparr>responses := r3, spawned := [demo_connect 8]\<rparr>"
  define a7 where "a7 = connect_insert (demo_connect 8) MySql 0 (a6\<lparr>spawned := []\<rparr>)"
  have f0: "names a0 = []" "responses a0 = registry_new" "spawned a0 = []" "next_id a0 = 0" "connecting a0 = (\<lambda>_. None)"
    by (simp_all add: a0_def server_new_def)
  have s1: "connect_call demo_env (connect_args_of 7) a0 = a1"
    using demo_call [of 7 a0 sid r1] r(1) f0 by (simp add: a1_def)
  have f1: "names a1 = []" "responses a1 = r1" "next_id a1 = 0" "spawned a1 = [demo_connect 7]" "connecting a1 = (\<lambda>_. None)"
    by (simp_all add: a1_def f0)
  have s2: "connect_task 0 (Inr MySql) 0 a1 = a2" by (simp add: connect_task_def Let_def a2_def f1)
  have f2: "names a2 = [(''main'', 0)]" "responses a2 = r1" "next_id a2 = 1" "spawned a2 = []"
    "connecting a2 = (\<lambda>_. None)(0 := Some (demo_connect 7, Replacing None))" "senders (conns a2 0) = 2"
    "\<not> closing (conns a2 0)" "\<not> closed_flag (conns a2 0)"
    by (simp_all add: a2_def insert_fields f1) (simp_all add: connect_insert_def Let_def f1 conn_new_def)
  have f3: "a3 = set_stage 0 (Some (demo_connect 7, Answering)) a2" by (simp add: a3_def connect_step_def f2)
  have "send_response 1 7 (RConnect 0) r1 = (True, r2)" using r(2) by (simp add: send_response_def)
  then have f4: "a4 = set_stage 0 (Some (demo_connect 7, Leaving)) (set_conn 0 ((conns a2 0)\<lparr>senders := 2\<rparr>) (a3\<lparr>responses := r2\<rparr>))"
    by (simp add: a4_def f3 connect_step_def f2)
  have f5: "a5 = set_stage 0 None (set_conn 0 ((conns a2 0)\<lparr>senders := 1\<rparr>) a4)"
    by (simp add: a5_def connect_step_def f4)
  have g5: "names a5 = [(''main'', 0)]" "responses a5 = r2" "next_id a5 = 1" "spawned a5 = []" "connecting a5 = (\<lambda>_. None)"
    "live (conns a5 0)"
    by (simp_all add: f5 f4 f3 f2 live_def fun_eq_iff)
  have s6: "connect_call demo_env (connect_args_of 8) a5 = a6"
    using demo_call [of 8 a5 sid' r3] r(3) g5 by (simp add: a6_def)
  have s7: "connect_task 0 (Inr MySql) 0 a6 = a7" by (simp add: connect_task_def Let_def a7_def a6_def)
  have l7: "live (conns a7 0)" "live (conns a7 1)" "next_id a7 = 2" "connecting a7 1 = Some (demo_connect 8, Replacing (Some 0))"
    "connection_name (contexts a7 1) = ''main''"
    using insert_fields(6) [of 0 "a6\<lparr>spawned := []\<rparr>" "demo_connect 8" MySql 0]
      insert_fields(7) [of "demo_connect 8" MySql 0 "a6\<lparr>spawned := []\<rparr>"] g5
    by (simp_all add: a7_def a6_def insert_fields)
      (simp_all add: connect_insert_def Let_def args_ctx_def g5)
  let ?run = "foldl (server_run (\<lambda>_. ''e'') (easy_driver :: (nat, nat) driver))"
  have run1: "?run (server_new 0) [SrvCall demo_env (connect_args_of 7), SrvConnected 0 (Inr MySql) 0, SrvTask 0, SrvTask 0, SrvTask 0] = a5"
    using s1 s2 by (simp add: a0_def [symmetric] a3_def [symmetric] a4_def [symmetric] a5_def [symmetric])
  have run2: "?run a5 [SrvCall demo_env (connect_args_of 8), SrvConnected 0 (Inr MySql) 0] = a7"
    using s6 s7 by simp
  have c5: "connection_name (contexts a5 0) = ''main''"
    by (simp add: f5 f4 f3 a2_def set_stage_def set_conn_def connect_insert_def Let_def args_ctx_def f1)
  have c7: "connecting a7 c = Some (args, Replacing (Some p)) \<longleftrightarrow> c = 1 \<and> args = demo_connect 8 \<and> p = 0" for c args p
    by (simp add: a7_def a6_def insert_fields g5) auto
  have n7: "connection_name (contexts a7 0) = ''main''"
    using c5 by (simp add: a7_def a6_def connect_insert_def Let_def g5)
  have run7: "a7 = ?run (server_new 0) ([SrvCall demo_env (connect_args_of 7), SrvConnected 0 (Inr MySql) 0, SrvTask 0, SrvTask 0, SrvTask 0] @
      [SrvCall demo_env (connect_args_of 8), SrvConnected 0 (Inr MySql) 0])"
    by (simp only: foldl_append run1 run2)
  have find1: "fst (find_connection ''main'' a5) = Some 0"
    using names_exact [OF run1 [symmetric], of 0] g5 c5 by simp
  have find2: "fst (find_connection ''main'' a7) = Some 1"
    using names_exact [OF run7, of 1] l7 c7 by simp
  have "\<not> live (conns (connect_step 1 a7) 0)"
    using names_exact [OF run7, of 0] l7 c7 n7 find2 by auto
  with run1 run2 g5(6) l7(1,2) find1 find2 show ?thesis by (intro exI [of _ a5] exI [of _ a7]) simp
qed
end
