(* ===== verification/SqlxDecode.thy ===== *)
theory SqlxDecode
  imports SqlxSystem PgDatetime
begin

text \<open>
  From a finished response to Lua values: the second half of
  \<open>crates/libs/lib-lualib/src/lua_sqlx.rs\<close>. Tables are built in the heap as in \<open>JsonDecode\<close>
  (\<open>layout\<close>, \<open>alloc\<close>). Decoding a raw column value into a Rust value is the \<open>sqlx\<close> crate's and a
  parameter (\<open>codec\<close>), as is the text of the \<open>chrono\<close> types; everything after it is the code's.
\<close>

section \<open>Types of columns\<close>

datatype db_type =
    DInt8 | DUInt8 | DInt16 | DUInt16 | DInt32 | DUInt32 | DInt64 | DUInt64 | DFloat32 | DFloat64
  | DText | DBool | DTimestamp | DTimestampTz | DDate | DTime | DUuid | DBytes | DJson | DNull
  | DUnsupportedDecimal | DTimeTz | DUnknown

definition db_type_map :: "(string \<times> db_type) list" where
  "db_type_map =
    [(''INT4'', DInt32), (''INT'', DInt32), (''INTEGER'', DInt32), (''MEDIUMINT'', DInt32),
     (''INT8'', DInt64), (''BIGINT'', DInt64),
     (''INT2'', DInt16), (''SMALLINT'', DInt16),
     (''TINYINT'', DInt8),
     (''FLOAT8'', DFloat64), (''DOUBLE'', DFloat64),
     (''FLOAT4'', DFloat32), (''FLOAT'', DFloat32), (''REAL'', DFloat32),
     (''TEXT'', DText), (''VARCHAR'', DText), (''CHAR'', DText), (''BPCHAR'', DText), (''NAME'', DText),
     (''TINYTEXT'', DText), (''MEDIUMTEXT'', DText), (''LONGTEXT'', DText), (''NVARCHAR'', DText),
     (''NCHAR'', DText),
     (''BOOL'', DBool), (''BOOLEAN'', DBool),
     (''TIMESTAMP'', DTimestamp), (''TIMESTAMPTZ'', DTimestampTz), (''DATETIME'', DTimestamp),
     (''DATE'', DDate),
     (''TIME'', DTime),
     (''UUID'', DUuid),
     (''BYTEA'', DBytes), (''BLOB'', DBytes), (''VARBINARY'', DBytes), (''BINARY'', DBytes),
     (''TINYBLOB'', DBytes), (''MEDIUMBLOB'', DBytes), (''LONGBLOB'', DBytes),
     (''JSON'', DJson), (''JSONB'', DJson),
     (''NULL'', DNull),
     (''DECIMAL'', DUnsupportedDecimal), (''NUMERIC'', DUnsupportedDecimal), (''MONEY'', DUnsupportedDecimal),
     (''TIMETZ'', DTimeTz),
     (''TINYINT UNSIGNED'', DUInt8), (''SMALLINT UNSIGNED'', DUInt16), (''INT UNSIGNED'', DUInt32),
     (''MEDIUMINT UNSIGNED'', DUInt32), (''BIGINT UNSIGNED'', DUInt64)]"

definition from_name :: "string \<Rightarrow> db_type" where
  "from_name name = (case map_of db_type_map name of Some t \<Rightarrow> t | None \<Rightarrow> DUnknown)"

section \<open>Pushing values\<close>

definition sql_null :: lua_value where
  "sql_null = LLightUserData 0"

definition push_u64 :: "u64 \<Rightarrow> lua_value" where
  "push_u64 n = (if unat n < 2 ^ 63 then LInteger n else LString (show_nat (unat n)))"

text \<open>A new table takes the next address; it is filled when its contents are there.\<close>

definition out_table :: "layout \<Rightarrow> (alloc \<Rightarrow> (lua_value \<times> lua_value) list \<times> alloc) \<Rightarrow> alloc \<Rightarrow> lua_value \<times> alloc" where
  "out_table lay fill st =
     (case fill (fst st, snd st + 1) of (items, (h, n)) \<Rightarrow> (LTable (snd st), (h(snd st := lay items), n)))"

definition push_lua_table :: "layout \<Rightarrow> (string \<times> lua_value) list \<Rightarrow> alloc \<Rightarrow> lua_value \<times> alloc" where
  "push_lua_table lay members st = out_table lay (\<lambda>st. (map (\<lambda>(k, v). (LString k, v)) members, st)) st"

definition push_optional_array :: "layout \<Rightarrow> ('t \<Rightarrow> lua_value) \<Rightarrow> 't option list \<Rightarrow> alloc \<Rightarrow> lua_value \<times> alloc" where
  "push_optional_array lay push vs st =
     out_table lay (\<lambda>st. (map (\<lambda>(i, v). (int_key (i + 1), case v of Some x \<Rightarrow> push x | None \<Rightarrow> sql_null))
       (enumerate 0 vs), st)) st"

fun json_number :: "jnumber \<Rightarrow> lua_value" where
  "json_number (PosInt n) = (if unat n < 2 ^ 63 then LInteger n else push_u64 n)"
| "json_number (NegInt n) = LInteger n"
| "json_number (FloatNum x) = LNumber x"

fun push_json_value :: "layout \<Rightarrow> json_value \<Rightarrow> alloc \<Rightarrow> lua_value \<times> alloc"
  and push_json_elems :: "layout \<Rightarrow> nat \<Rightarrow> json_value list \<Rightarrow> alloc \<Rightarrow> (lua_value \<times> lua_value) list \<times> alloc"
  and push_json_members :: "layout \<Rightarrow> (bytes \<times> json_value) list \<Rightarrow> alloc \<Rightarrow> (lua_value \<times> lua_value) list \<times> alloc"
where
  "push_json_value lay VNull st = (sql_null, st)"
| "push_json_value lay (VBool b) st = (LBoolean b, st)"
| "push_json_value lay (VNumber n) st = (json_number n, st)"
| "push_json_value lay (VString s) st = (LString s, st)"
| "push_json_value lay (VArray vs) st =
     (case push_json_elems lay 0 vs (fst st, snd st + 1) of (items, (h, n)) \<Rightarrow>
        (LTable (snd st), (h(snd st := lay items), n)))"
| "push_json_value lay (VObject ms) st =
     (case push_json_members lay ms (fst st, snd st + 1) of (items, (h, n)) \<Rightarrow>
        (LTable (snd st), (h(snd st := lay items), n)))"
| "push_json_elems lay i [] st = ([], st)"
| "push_json_elems lay i (v # vs) st =
     (case push_json_value lay v st of (lv, st1) \<Rightarrow>
      case push_json_elems lay (i + 1) vs st1 of (items, st2) \<Rightarrow> ((int_key (i + 1), lv) # items, st2))"
| "push_json_members lay [] st = ([], st)"
| "push_json_members lay ((k, v) # ms) st =
     (case push_json_value lay v st of (lv, st1) \<Rightarrow>
      case push_json_members lay ms st1 of (items, st2) \<Rightarrow> ((LString k, lv) # items, st2))"

section \<open>Rows\<close>

text \<open>
  What the code asks of \<open>sqlx\<close> for a raw value: its type's name, whether it is null, and its
  decoding as each Rust type. Date and time values of the MySQL and SQLite drivers are given by
  the text \<open>chrono\<close> formats them to.
\<close>

record 'v codec =
  cv_null :: "'v \<Rightarrow> bool"
  cv_type :: "'v \<Rightarrow> string"
  cv_i8 :: "'v \<Rightarrow> string + 8 word"
  cv_u8 :: "'v \<Rightarrow> string + 8 word"
  cv_i16 :: "'v \<Rightarrow> string + i16"
  cv_u16 :: "'v \<Rightarrow> string + u16"
  cv_i32 :: "'v \<Rightarrow> string + i32"
  cv_u32 :: "'v \<Rightarrow> string + u32"
  cv_i64 :: "'v \<Rightarrow> string + i64"
  cv_u64 :: "'v \<Rightarrow> string + u64"
  cv_f32 :: "'v \<Rightarrow> string + f32"
  cv_f64 :: "'v \<Rightarrow> string + f64"
  cv_bool :: "'v \<Rightarrow> string + bool"
  cv_str :: "'v \<Rightarrow> string + string"
  cv_bytes :: "'v \<Rightarrow> string + bytes"
  cv_datetime :: "'v \<Rightarrow> string + string"
  cv_date :: "'v \<Rightarrow> string + string"
  cv_time :: "'v \<Rightarrow> string + string"
  cv_uuid :: "'v \<Rightarrow> string + string"
  cv_json :: "'v \<Rightarrow> string + json_value"
  cv_text_format :: "'v \<Rightarrow> bool"
  cv_array_bool :: "'v \<Rightarrow> string + bool option list"
  cv_array_i16 :: "'v \<Rightarrow> string + i16 option list"
  cv_array_i32 :: "'v \<Rightarrow> string + i32 option list"
  cv_array_i64 :: "'v \<Rightarrow> string + i64 option list"
  cv_array_f32 :: "'v \<Rightarrow> string + f32 option list"
  cv_array_f64 :: "'v \<Rightarrow> string + f64 option list"
  cv_array_str :: "'v \<Rightarrow> string + string option list"
  cv_array_bytes :: "'v \<Rightarrow> string + bytes option list"
  cv_array_uuid :: "'v \<Rightarrow> string + string option list"
  cv_array_json :: "'v \<Rightarrow> string + json_value option list"
  cv_parse_json :: "string \<Rightarrow> string + json_value"

text \<open>A row: the names and types of its columns, and the raw values (or why there is none).\<close>

record 'v db_row =
  row_columns :: "(string \<times> string) list"
  row_values :: "nat \<Rightarrow> string + 'v"

fun ensure_unique :: "string list \<Rightarrow> string list \<Rightarrow> string + unit" where
  "ensure_unique seen [] = Inr ()"
| "ensure_unique seen (name # ns) =
     (if name \<in> set seen
      then Inl (''duplicate result column '' @ [CHR 0x27] @ name @ [CHR 0x27] @ ''; use an explicit SQL alias'')
      else ensure_unique (name # seen) ns)"

definition ensure_unique_columns :: "string list \<Rightarrow> string + unit" where
  "ensure_unique_columns ns = ensure_unique [] ns"

text \<open>\<open>f32\<close> values are widened, narrower integers extended.\<close>

definition f32_to_f64 :: "f32 \<Rightarrow> f64" where
  "f32_to_f64 x =
     (let sign = unat x div 2 ^ 31 * 2 ^ 63; ex = unat x div 2 ^ 23 mod 2 ^ 8; fr = unat x mod 2 ^ 23;
          mag = (if ex = 255 then 2047 * 2 ^ 52 + (if fr = 0 then 0 else (fr mod 2 ^ 22 + 2 ^ 22) * 2 ^ 29)
                 else if ex = 0 then ieee_magnitude 11 52 fr (- 149)
                 else ieee_magnitude 11 52 (2 ^ 23 + fr) (int ex - 150))
      in word_of_nat (sign + mag))"

definition push_signed :: "'w::len word \<Rightarrow> lua_value" where
  "push_signed w = LInteger (scast w)"

definition push_unsigned :: "'w::len word \<Rightarrow> lua_value" where
  "push_unsigned w = LInteger (ucast w)"

definition decode_value :: "string \<Rightarrow> string + 't \<Rightarrow> string + 't" where
  "decode_value name r = (case r of Inl e \<Rightarrow> Inl (name @ '' decode error: '' @ e) | Inr x \<Rightarrow> Inr x)"

text \<open>Most columns push one value; only JSON builds tables.\<close>

definition scalar :: "string \<Rightarrow> string + 't \<Rightarrow> ('t \<Rightarrow> lua_value) \<Rightarrow> alloc \<Rightarrow> string + lua_value \<times> alloc" where
  "scalar name r push st = ebind (decode_value name r) (\<lambda>x. Inr (push x, st))"

definition column_quote :: "string \<Rightarrow> string" where
  "column_quote name = [CHR 0x27] @ name @ [CHR 0x27]"

fun column_value ::
  "'v codec \<Rightarrow> layout \<Rightarrow> bool \<Rightarrow> string \<Rightarrow> db_type \<Rightarrow> 'v \<Rightarrow> alloc \<Rightarrow> string + lua_value \<times> alloc" where
  "column_value cv lay is_sqlite name DInt8 v st =
     (if is_sqlite then scalar name (cv_i64 cv v) LInteger st else scalar name (cv_i8 cv v) push_signed st)"
| "column_value cv lay is_sqlite name DInt16 v st =
     (if is_sqlite then scalar name (cv_i64 cv v) LInteger st else scalar name (cv_i16 cv v) push_signed st)"
| "column_value cv lay is_sqlite name DInt32 v st =
     (if is_sqlite then scalar name (cv_i64 cv v) LInteger st else scalar name (cv_i32 cv v) push_signed st)"
| "column_value cv lay is_sqlite name DInt64 v st = scalar name (cv_i64 cv v) LInteger st"
| "column_value cv lay is_sqlite name DUInt8 v st = scalar name (cv_u8 cv v) push_unsigned st"
| "column_value cv lay is_sqlite name DUInt16 v st = scalar name (cv_u16 cv v) push_unsigned st"
| "column_value cv lay is_sqlite name DUInt32 v st = scalar name (cv_u32 cv v) push_unsigned st"
| "column_value cv lay is_sqlite name DUInt64 v st = scalar name (cv_u64 cv v) push_u64 st"
| "column_value cv lay is_sqlite name DFloat32 v st =
     (if is_sqlite then scalar name (cv_f64 cv v) LNumber st
      else scalar name (cv_f32 cv v) (\<lambda>x. LNumber (f32_to_f64 x)) st)"
| "column_value cv lay is_sqlite name DFloat64 v st = scalar name (cv_f64 cv v) LNumber st"
| "column_value cv lay is_sqlite name DText v st = scalar name (cv_str cv v) LString st"
| "column_value cv lay is_sqlite name DBool v st = scalar name (cv_bool cv v) LBoolean st"
| "column_value cv lay is_sqlite name DTimestamp v st = scalar name (cv_datetime cv v) LString st"
| "column_value cv lay is_sqlite name DTimestampTz v st =
     Inl (''unexpected timezone-aware timestamp for column '' @ column_quote name)"
| "column_value cv lay is_sqlite name DDate v st = scalar name (cv_date cv v) LString st"
| "column_value cv lay is_sqlite name DTime v st = scalar name (cv_time cv v) LString st"
| "column_value cv lay is_sqlite name DUuid v st = scalar name (cv_uuid cv v) LString st"
| "column_value cv lay is_sqlite name DBytes v st = scalar name (cv_bytes cv v) LString st"
| "column_value cv lay is_sqlite name DJson v st =
     ebind (decode_value name (cv_str cv v)) (\<lambda>s.
       case cv_parse_json cv s of
         Inl e \<Rightarrow> Inl (name @ '' JSON decode error: '' @ e)
       | Inr j \<Rightarrow> Inr (push_json_value lay j st))"
| "column_value cv lay is_sqlite name DNull v st = Inr (sql_null, st)"
| "column_value cv lay is_sqlite name DUnsupportedDecimal v st =
     Inl (''unsupported decimal type for column '' @ column_quote name)"
| "column_value cv lay is_sqlite name DTimeTz v st =
     Inl (''unexpected time with time zone type for column '' @ column_quote name)"
| "column_value cv lay is_sqlite name DUnknown v st = scalar name (cv_bytes cv v) LString st"

text \<open>One value, and one row, of the MySQL and SQLite drivers.\<close>

definition row_cell ::
  "'v codec \<Rightarrow> layout \<Rightarrow> bool \<Rightarrow> 'v db_row \<Rightarrow> nat \<times> string \<times> db_type \<Rightarrow> alloc \<Rightarrow> string + lua_value \<times> alloc" where
  "row_cell cv lay is_sqlite row col st =
     (case col of (index, name, t) \<Rightarrow>
        ebind (decode_value name (row_values row index)) (\<lambda>v.
          if cv_null cv v then Inr (sql_null, st)
          else column_value cv lay is_sqlite name (if is_sqlite then from_name (cv_type cv v) else t) v st))"

fun row_items ::
  "'v codec \<Rightarrow> layout \<Rightarrow> bool \<Rightarrow> 'v db_row \<Rightarrow> (nat \<times> string \<times> db_type) list \<Rightarrow> alloc \<Rightarrow>
     string + (lua_value \<times> lua_value) list \<times> alloc" where
  "row_items cv lay is_sqlite row [] st = Inr ([], st)"
| "row_items cv lay is_sqlite row (col # cols) st =
     ebind (row_cell cv lay is_sqlite row col st) (\<lambda>(lv, st).
     ebind (row_items cv lay is_sqlite row cols st) (\<lambda>(items, st). Inr ((LString (fst (snd col)), lv) # items, st)))"

definition column_info :: "'v db_row \<Rightarrow> (nat \<times> string \<times> db_type) list" where
  "column_info row = map (\<lambda>(i, name, t). (i, name, from_name t)) (enumerate 0 (row_columns row))"

text \<open>A table under construction: its address first, its contents when they are all there.\<close>

definition filled_table ::
  "layout \<Rightarrow> (alloc \<Rightarrow> string + (lua_value \<times> lua_value) list \<times> alloc) \<Rightarrow> alloc \<Rightarrow> string + lua_value \<times> alloc" where
  "filled_table lay fill st =
     ebind (fill (fst st, snd st + 1)) (\<lambda>(items, (h, n)). Inr (LTable (snd st), (h(snd st := lay items), n)))"

fun rows_items ::
  "layout \<Rightarrow> ('row \<Rightarrow> alloc \<Rightarrow> string + (lua_value \<times> lua_value) list \<times> alloc) \<Rightarrow> nat \<Rightarrow> 'row list \<Rightarrow> alloc \<Rightarrow>
     string + (lua_value \<times> lua_value) list \<times> alloc" where
  "rows_items lay fill i [] st = Inr ([], st)"
| "rows_items lay fill i (row # rows) st =
     ebind (filled_table lay (fill row) st) (\<lambda>(lv, st).
     ebind (rows_items lay fill (i + 1) rows st) (\<lambda>(items, st). Inr ((int_key (i + 1), lv) # items, st)))"

definition process_rows ::
  "'v codec \<Rightarrow> layout \<Rightarrow> bool \<Rightarrow> 'v db_row list \<Rightarrow> alloc \<Rightarrow> string + lua_value \<times> alloc" where
  "process_rows cv lay is_sqlite rows st =
     filled_table lay (\<lambda>st.
       case rows of
         [] \<Rightarrow> Inr ([], st)
       | row # _ \<Rightarrow>
           let info = column_info row in
           ebind (ensure_unique_columns (map (fst \<circ> snd) info)) (\<lambda>_.
             rows_items lay (\<lambda>row. row_items cv lay is_sqlite row info) 0 rows st)) st"

section \<open>PostgreSQL\<close>

text \<open>Arrays by the name of their type; \<open>None\<close> when it is not one of them.\<close>

definition pg_array ::
  "layout \<Rightarrow> string \<Rightarrow> string + 't option list \<Rightarrow> ('t \<Rightarrow> lua_value) \<Rightarrow> alloc \<Rightarrow> string + (lua_value \<times> alloc) option" where
  "pg_array lay name r push st =
     ebind (decode_value name r) (\<lambda>xs. Inr (Some (push_optional_array lay push xs st)))"

fun push_json_options :: "layout \<Rightarrow> nat \<Rightarrow> json_value option list \<Rightarrow> alloc \<Rightarrow> (lua_value \<times> lua_value) list \<times> alloc" where
  "push_json_options lay i [] st = ([], st)"
| "push_json_options lay i (v # vs) st =
     (case (case v of None \<Rightarrow> (sql_null, st) | Some j \<Rightarrow> push_json_value lay j st) of (lv, st1) \<Rightarrow>
      case push_json_options lay (i + 1) vs st1 of (items, st2) \<Rightarrow> ((int_key (i + 1), lv) # items, st2))"

definition process_pg_array_value ::
  "'v codec \<Rightarrow> layout \<Rightarrow> string \<Rightarrow> string \<Rightarrow> 'v \<Rightarrow> alloc \<Rightarrow> string + (lua_value \<times> alloc) option" where
  "process_pg_array_value cv lay name tn v st =
     (if tn = ''BOOL[]'' then pg_array lay name (cv_array_bool cv v) LBoolean st
      else if tn = ''INT2[]'' then pg_array lay name (cv_array_i16 cv v) push_signed st
      else if tn = ''INT4[]'' then pg_array lay name (cv_array_i32 cv v) push_signed st
      else if tn = ''INT8[]'' then pg_array lay name (cv_array_i64 cv v) LInteger st
      else if tn = ''FLOAT4[]'' then pg_array lay name (cv_array_f32 cv v) (\<lambda>x. LNumber (f32_to_f64 x)) st
      else if tn = ''FLOAT8[]'' then pg_array lay name (cv_array_f64 cv v) LNumber st
      else if tn \<in> set [''TEXT[]'', ''VARCHAR[]'', ''CHAR[]'', ''NAME[]'']
      then pg_array lay name (cv_array_str cv v) LString st
      else if tn = ''BYTEA[]'' then pg_array lay name (cv_array_bytes cv v) LString st
      else if tn = ''UUID[]'' then pg_array lay name (cv_array_uuid cv v) LString st
      else if tn \<in> set [''JSON[]'', ''JSONB[]'']
      then ebind (decode_value name (cv_array_json cv v)) (\<lambda>xs.
             Inr (Some (out_table lay (push_json_options lay 0 xs) st)))
      else Inr None)"

text \<open>Big-endian integers of exactly the expected length.\<close>

definition be_int :: "bytes \<Rightarrow> 'w::len word" where
  "be_int bs = word_of_nat (foldl (\<lambda>n b. 256 * n + of_char b) 0 bs)"

definition pg_int8 :: "bytes \<Rightarrow> string + int" where
  "pg_int8 bs =
     (if length bs = 8 then Inr (sint (be_int bs :: 64 word)) else Inl ''invalid PostgreSQL temporal int8 length'')"

definition pg_int4 :: "bytes \<Rightarrow> string + int" where
  "pg_int4 bs =
     (if length bs = 4 then Inr (sint (be_int bs :: 32 word)) else Inl ''invalid PostgreSQL temporal int4 length'')"

definition decode_pg_temporal :: "'v codec \<Rightarrow> db_type \<Rightarrow> 'v \<Rightarrow> string + string" where
  "decode_pg_temporal cv t v =
     ebind (cv_bytes cv v) (\<lambda>bs.
       if cv_text_format cv v then utf8_string bs ''PostgreSQL temporal value''
       else if t = DDate then ebind (pg_int4 bs) (\<lambda>n. Inr (pg_date n))
       else if t = DTimestamp then ebind (pg_int8 bs) (\<lambda>n. pg_timestamp n False)
       else if t = DTimestampTz then ebind (pg_int8 bs) (\<lambda>n. pg_timestamp n True)
       else if t = DTime then ebind (pg_int8 bs) pg_time
       else if t = DTimeTz \<and> length bs = 12
       then ebind (pg_int8 (take 8 bs)) (\<lambda>m. ebind (pg_int4 (drop 8 bs)) (\<lambda>z. pg_timetz m z))
       else Inl ''invalid PostgreSQL temporal type or length'')"

definition pg_temporal :: "'v codec \<Rightarrow> string \<Rightarrow> db_type \<Rightarrow> 'v \<Rightarrow> alloc \<Rightarrow> string + lua_value \<times> alloc" where
  "pg_temporal cv name t v st = scalar name (decode_pg_temporal cv t v) LString st"

definition no_unsigned :: string where
  "no_unsigned = ''PostgreSQL has no unsigned integer type''"

fun pg_scalar_value ::
  "'v codec \<Rightarrow> layout \<Rightarrow> string \<Rightarrow> db_type \<Rightarrow> 'v \<Rightarrow> alloc \<Rightarrow> string + lua_value \<times> alloc" where
  "pg_scalar_value cv lay name DInt8 v st = scalar name (cv_i8 cv v) push_signed st"
| "pg_scalar_value cv lay name DUInt8 v st = Inl no_unsigned"
| "pg_scalar_value cv lay name DInt16 v st = scalar name (cv_i16 cv v) push_signed st"
| "pg_scalar_value cv lay name DUInt16 v st = Inl no_unsigned"
| "pg_scalar_value cv lay name DInt32 v st = scalar name (cv_i32 cv v) push_signed st"
| "pg_scalar_value cv lay name DUInt32 v st = Inl no_unsigned"
| "pg_scalar_value cv lay name DInt64 v st = scalar name (cv_i64 cv v) LInteger st"
| "pg_scalar_value cv lay name DUInt64 v st = Inl no_unsigned"
| "pg_scalar_value cv lay name DFloat32 v st = scalar name (cv_f32 cv v) (\<lambda>x. LNumber (f32_to_f64 x)) st"
| "pg_scalar_value cv lay name DFloat64 v st = scalar name (cv_f64 cv v) LNumber st"
| "pg_scalar_value cv lay name DText v st = scalar name (cv_str cv v) LString st"
| "pg_scalar_value cv lay name DBool v st = scalar name (cv_bool cv v) LBoolean st"
| "pg_scalar_value cv lay name DTimestamp v st = pg_temporal cv name DTimestamp v st"
| "pg_scalar_value cv lay name DTimestampTz v st = pg_temporal cv name DTimestampTz v st"
| "pg_scalar_value cv lay name DDate v st = pg_temporal cv name DDate v st"
| "pg_scalar_value cv lay name DTime v st = pg_temporal cv name DTime v st"
| "pg_scalar_value cv lay name DTimeTz v st = pg_temporal cv name DTimeTz v st"
| "pg_scalar_value cv lay name DUuid v st = scalar name (cv_uuid cv v) LString st"
| "pg_scalar_value cv lay name DBytes v st = scalar name (cv_bytes cv v) LString st"
| "pg_scalar_value cv lay name DJson v st =
     ebind (decode_value name (cv_json cv v)) (\<lambda>j. Inr (push_json_value lay j st))"
| "pg_scalar_value cv lay name DNull v st = Inr (sql_null, st)"
| "pg_scalar_value cv lay name DUnsupportedDecimal v st =
     Inl (''Unsupported decimal type for column '' @ column_quote name)"
| "pg_scalar_value cv lay name DUnknown v st = scalar name (cv_bytes cv v) LString st"

definition pg_row_cell ::
  "'v codec \<Rightarrow> layout \<Rightarrow> 'v db_row \<Rightarrow> nat \<times> string \<times> string \<Rightarrow> alloc \<Rightarrow> string + lua_value \<times> alloc" where
  "pg_row_cell cv lay row col st =
     (case col of (index, name, tn) \<Rightarrow>
        ebind (decode_value name (row_values row index)) (\<lambda>v.
          if cv_null cv v then Inr (sql_null, st)
          else ebind (process_pg_array_value cv lay name tn v st) (\<lambda>arr.
            case arr of Some x \<Rightarrow> Inr x | None \<Rightarrow> pg_scalar_value cv lay name (from_name tn) v st)))"

fun pg_row_items ::
  "'v codec \<Rightarrow> layout \<Rightarrow> 'v db_row \<Rightarrow> (nat \<times> string \<times> string) list \<Rightarrow> alloc \<Rightarrow>
     string + (lua_value \<times> lua_value) list \<times> alloc" where
  "pg_row_items cv lay row [] st = Inr ([], st)"
| "pg_row_items cv lay row (col # cols) st =
     ebind (pg_row_cell cv lay row col st) (\<lambda>(lv, st).
     ebind (pg_row_items cv lay row cols st) (\<lambda>(items, st). Inr ((LString (fst (snd col)), lv) # items, st)))"

definition process_pg_rows :: "'v codec \<Rightarrow> layout \<Rightarrow> 'v db_row list \<Rightarrow> alloc \<Rightarrow> string + lua_value \<times> alloc" where
  "process_pg_rows cv lay rows st =
     filled_table lay (\<lambda>st.
       case rows of
         [] \<Rightarrow> Inr ([], st)
       | row # _ \<Rightarrow>
           let info = enumerate 0 (row_columns row) in
           ebind (ensure_unique_columns (map (fst \<circ> snd) info)) (\<lambda>_.
             rows_items lay (\<lambda>row. pg_row_items cv lay row info) 0 rows st)) st"

section \<open>Responses\<close>

text \<open>
  The fields of the error table for an error of the driver; a connection handed to Lua is a new
  userdata, whose address is a parameter.
\<close>

definition opt_member :: "string \<Rightarrow> string option \<Rightarrow> (string \<times> lua_value) list" where
  "opt_member k v = (case v of None \<Rightarrow> [] | Some s \<Rightarrow> [(k, LString s)])"

definition error_members :: "(sqlx_error \<Rightarrow> string) \<Rightarrow> sqlx_error \<Rightarrow> (string \<times> lua_value) list" where
  "error_members show_error e =
     (case as_database_error e of
        Some db \<Rightarrow>
          [(''kind'', LString ''DB''), (''message'', LString (db_message db)),
           (''error_kind'', LString (db_error_kind db))] @
          opt_member ''sqlstate'' (db_code db) @ opt_member ''constraint'' (db_constraint db) @
          opt_member ''table'' (db_table db)
      | None \<Rightarrow>
          [(''kind'', LString (if connection_error e then ''SOCKET'' else ''ERROR'')),
           (''message'', LString (show_error e))])"

definition connect_members :: "u64 \<Rightarrow> (string \<times> lua_value) list" where
  "connect_members ms = [(''connect_failed'', LBoolean True), (''retry_after_ms'', LInteger ms)]"

text \<open>The members of the table a response without rows is reported as.\<close>

definition response_members :: "(sqlx_error \<Rightarrow> string) \<Rightarrow> 'r db_response \<Rightarrow> (string \<times> lua_value) list" where
  "response_members show_error resp =
     (case resp of
        RExecute n ins \<Rightarrow>
          [(''message'', LString ''ok''), (''rows_affected'', push_u64 n)] @
          (case ins of None \<Rightarrow> [] | Some i \<Rightarrow> [(''last_insert_id'', push_u64 i)])
      | RTransaction n \<Rightarrow> [(''message'', LString ''ok''), (''rows_affected'', push_u64 n)]
      | RTimeout m \<Rightarrow> [(''kind'', LString ''TIMEOUT''), (''message'', LString m)]
      | RTimeoutBeforeExecution m \<Rightarrow> [(''kind'', LString ''TIMEOUT''), (''message'', LString m)]
      | RRowLimitExceeded n \<Rightarrow>
          [(''kind'', LString ''ERROR''),
           (''message'', LString (''query result exceeded max_rows ('' @ show_nat n @ '')''))]
      | RReconnectCooldown ms \<Rightarrow>
          [(''kind'', LString ''SOCKET''),
           (''message'', LString ''SQLx reconnect cooldown; SQL was not submitted'')] @ connect_members ms
      | RError e \<Rightarrow> error_members show_error e
      | RErrorBeforeExecution e \<Rightarrow> error_members show_error e
      | RDisconnectedError e \<Rightarrow> error_members show_error e
      | RConnectFailed e ms \<Rightarrow> error_members show_error e @ connect_members ms
      | _ \<Rightarrow> []) @
     (if not_executed resp then [(''not_executed'', LBoolean True)] else [])"

definition row_result :: "layout \<Rightarrow> string + lua_value \<times> alloc \<Rightarrow> alloc \<Rightarrow> lua_value \<times> alloc" where
  "row_result lay r st =
     (case r of
        Inr x \<Rightarrow> x
      | Inl e \<Rightarrow> push_lua_table lay [(''kind'', LString ''ERROR''), (''message'', LString e)] st)"

definition decode_response ::
  "(sqlx_error \<Rightarrow> string) \<Rightarrow> 'v codec \<Rightarrow> layout \<Rightarrow> (nat \<Rightarrow> u64) \<Rightarrow> 'v db_row db_response \<Rightarrow> alloc \<Rightarrow> lua_value \<times> alloc" where
  "decode_response show_error cv lay userdata resp st =
     (case resp of
        RPgRows rows \<Rightarrow> row_result lay (process_pg_rows cv lay rows st) st
      | RMysqlRows rows \<Rightarrow> row_result lay (process_rows cv lay False rows st) st
      | RSqliteRows rows \<Rightarrow> row_result lay (process_rows cv lay True rows st) st
      | RConnect cid \<Rightarrow> (LUserData (userdata cid), st)
      | RClosed \<Rightarrow> (LBoolean True, st)
      | _ \<Rightarrow> push_lua_table lay (response_members show_error resp) st)"

definition decode_impl ::
  "(sqlx_error \<Rightarrow> string) \<Rightarrow> 'v codec \<Rightarrow> layout \<Rightarrow> (nat \<Rightarrow> u64) \<Rightarrow> lua_env \<Rightarrow> lua_stack \<Rightarrow>
     'v db_row responses \<Rightarrow> alloc \<Rightarrow> string + (lua_value \<times> alloc) \<times> 'v db_row responses" where
  "decode_impl show_error cv lay userdata env s r st =
     ebind (arg_session env s 1) (\<lambda>session.
     ebind (arg_owner env s 2) (\<lambda>owner.
       case take_response r (owner, session) of
         (None, r) \<Rightarrow>
           Inr (push_lua_table lay [(''kind'', LString ''ERROR''),
             (''message'', LString ''invalid, already consumed, or expired SQLx response id'')] st, r)
       | (Some resp, r) \<Rightarrow> Inr (decode_response show_error cv lay userdata resp st, r)))"

section \<open>Reading the results\<close>

lemma layout_get_value:
  assumes "layout_ok lay" "list_all (\<lambda>x. plain_key (fst x) \<and> present (snd x)) items" "length items < 2 ^ 62"
  shows "rawget (lay items) k = (case map_of (rev items) k of None \<Rightarrow> LNil | Some v \<Rightarrow> v)"
  by (simp add: rawget_def layout_get(2) [OF assms])

text \<open>What Lua reads from a field of a result.\<close>

definition lua_field :: "lua_heap \<Rightarrow> lua_value \<Rightarrow> string \<Rightarrow> lua_value" where
  "lua_field h v k = (case v of LTable a \<Rightarrow> rawget (h a) (LString k) | _ \<Rightarrow> LNil)"

lemma present_simps [simp]:
  "present (LString s)" "present (LInteger n)" "present (LBoolean b)" "present (LNumber x)" "present (LTable a)"
  "present (LLightUserData p)" "present (LUserData p)" "present (push_u64 n)" "present sql_null" "present (int_key i)"
  by (simp_all add: present_def push_u64_def sql_null_def int_key_def)

lemma plain_key_simps [simp]: "plain_key (LString s)" "plain_key (LInteger n)" "plain_key (int_key i)"
  by (simp_all add: plain_key_def int_key_def)

lemma map_of_string_members:
  fixes ms :: "(string \<times> lua_value) list"
  shows "map_of (rev (map (\<lambda>(k, v). (LString k, v)) ms)) (LString k) = map_of (rev ms) k"
proof -
  have "map_of (map (\<lambda>(k, v). (LString k, v)) xs) (LString k) = map_of xs k" for xs :: "(string \<times> lua_value) list"
    by (induction xs) auto
  from this [of "rev ms"] show ?thesis by (simp only: rev_map)
qed

lemma lua_table_field:
  assumes "layout_ok lay" "push_lua_table lay ms st = (lv, st')" "list_all (\<lambda>m. present (snd m)) ms" "length ms < 2 ^ 62"
  shows "lua_field (fst st') lv k = (case map_of (rev ms) k of None \<Rightarrow> LNil | Some v \<Rightarrow> v)"
proof -
  define items where "items = map (\<lambda>(k, v). (LString k, v)) ms"
  have r: "lv = LTable (snd st)" "fst st' (snd st) = lay items"
    using assms(2) by (auto simp: push_lua_table_def out_table_def items_def)
  have good: "list_all (\<lambda>x. plain_key (fst x) \<and> present (snd x)) items"
    using assms(3) by (auto simp: items_def list_all_iff)
  have "length items < 2 ^ 62" using assms(4) by (simp add: items_def)
  from layout_get_value [OF assms(1) good this, of "LString k"] show ?thesis
    by (simp add: lua_field_def r) (simp add: items_def map_of_string_members)
qed

lemma filled_table_get:
  assumes "filled_table lay fill st = Inr (lv, st')"
  obtains items st1 where "fill (fst st, snd st + 1) = Inr (items, st1)" "lv = LTable (snd st)" "fst st' (snd st) = lay items"
  using assms by (auto simp: filled_table_def ebind_Inr_iff)

lemma rows_items_shape:
  "rows_items lay fill i rows st = Inr (items, st') \<Longrightarrow>
     map fst items = map int_key [Suc i..<Suc i + length rows] \<and> list_all (\<lambda>x. \<exists>a. snd x = LTable a) items"
proof (induction rows arbitrary: i st items st')
  case Nil
  then show ?case by simp
next
  case (Cons row rows)
  then obtain lv st1 items' where f: "filled_table lay (fill row) st = Inr (lv, st1)"
    "rows_items lay fill (i + 1) rows st1 = Inr (items', st')" "items = (int_key (i + 1), lv) # items'"
    by (auto simp: ebind_Inr_iff)
  have "\<exists>a. lv = LTable a" using f(1) by (elim filled_table_get) blast
  with Cons.IH [OF f(2)] f(3) show ?case by (simp add: upt_conv_Cons del: upt_Suc)
qed

lemma rows_table_field:
  assumes "layout_ok lay" "length rows < 2 ^ 62"
    and "filled_table lay (\<lambda>st. case rows of [] \<Rightarrow> Inr ([], st)
         | row # _ \<Rightarrow> ebind (check row) (\<lambda>_. rows_items lay (fill row) 0 rows st)) st = Inr (lv, st')"
  shows "lua_field (fst st') lv k = LNil"
proof -
  obtain items st1 where f: "(case rows of [] \<Rightarrow> Inr ([], (fst st, snd st + 1))
         | row # _ \<Rightarrow> ebind (check row) (\<lambda>_. rows_items lay (fill row) 0 rows (fst st, snd st + 1))) = Inr (items, st1)"
    "lv = LTable (snd st)" "fst st' (snd st) = lay items"
    using assms(3) by (rule filled_table_get)
  have sh: "map fst items = map int_key [Suc 0..<Suc (length rows)] \<and> list_all (\<lambda>x. \<exists>a. snd x = LTable a) items"
  proof (cases rows)
    case Nil
    then show ?thesis using f(1) by simp
  next
    case (Cons row rs)
    then obtain u where "rows_items lay (fill row) 0 rows (fst st, snd st + 1) = Inr (items, st1)"
      using f(1) by (auto simp: ebind_Inr_iff simp del: rows_items.simps)
    from rows_items_shape [OF this] show ?thesis by simp
  qed
  then have len: "length items < 2 ^ 62" using assms(2) by (metis length_map length_upt diff_Suc_Suc minus_nat.diff_0)
  have mem: "fst x \<in> range int_key \<and> present (snd x)" if "x \<in> set items" for x
  proof -
    have "fst x \<in> set (map fst items)" using that by simp
    then have "fst x \<in> range int_key" using sh by (auto simp del: upt_Suc)
    then show ?thesis using sh that by (auto simp: list_all_iff)
  qed
  have good: "list_all (\<lambda>x. plain_key (fst x) \<and> present (snd x)) items"
    using mem by (force simp: list_all_iff)
  have "LString k \<notin> fst ` set (rev items)" using mem by (force simp: int_key_def)
  then have "map_of (rev items) (LString k) = None" by (simp add: map_of_eq_None_iff)
  then show ?thesis using layout_get_value [OF assms(1) good len, of "LString k"] f by (simp add: lua_field_def)
qed

definition row_count :: "'r db_response \<Rightarrow> nat" where
  "row_count resp = (case resp of RPgRows rs \<Rightarrow> length rs | RMysqlRows rs \<Rightarrow> length rs | RSqliteRows rs \<Rightarrow> length rs | _ \<Rightarrow> 0)"

lemma row_result_field:
  assumes "layout_ok lay" "\<And>lv' st1. r = Inr (lv', st1) \<Longrightarrow> lua_field (fst st1) lv' ''not_executed'' = LNil"
    and "row_result lay r st = (lv, st')"
  shows "lua_field (fst st') lv ''not_executed'' = LNil"
proof (cases r)
  case (Inl e)
  then have "push_lua_table lay [(''kind'', LString ''ERROR''), (''message'', LString e)] st = (lv, st')"
    using assms(3) by (simp add: row_result_def)
  from lua_table_field [OF assms(1) this, of "''not_executed''"] show ?thesis by simp
next
  case (Inr x)
  then show ?thesis using assms(2,3) by (cases x) (auto simp: row_result_def)
qed

lemma response_members_flag:
  "map_of (rev (response_members show_error resp)) ''not_executed'' =
     (if not_executed resp then Some (LBoolean True) else None) \<and>
   list_all (\<lambda>m. present (snd m)) (response_members show_error resp) \<and>
   length (response_members show_error resp) < 2 ^ 62"
proof -
  have err: "map_of (rev (error_members show_error e)) ''not_executed'' = None \<and>
      list_all (\<lambda>m. present (snd m)) (error_members show_error e) \<and> length (error_members show_error e) \<le> 6" for e
    by (auto simp: error_members_def opt_member_def split: option.splits)
  have len: "length (error_members show_error e) < n" if "6 < n" for e n
    using err [of e] that by simp
  show ?thesis
    using err unfolding response_members_def not_executed_def connect_members_def
    by (cases resp) (auto simp: map_add_def intro!: len split: option.splits)
qed

text \<open>The flag Lua sees is the classification of the response.\<close>

lemma decode_response_flag:
  assumes lay: "layout_ok lay" and rows: "row_count resp < 2 ^ 62"
    and d: "decode_response show_error cv lay ud resp st = (lv, st')"
  shows "lua_field (fst st') lv ''not_executed'' = (if not_executed resp then LBoolean True else LNil)"
proof -
  have plain: "lua_field (fst st') lv ''not_executed'' = (if not_executed resp then LBoolean True else LNil)"
    if "push_lua_table lay (response_members show_error resp) st = (lv, st')"
    using lua_table_field [OF lay that, of "''not_executed''"] response_members_flag [of show_error resp] by simp
  have rowcase: "lua_field (fst st') lv ''not_executed'' = LNil"
    if "row_result lay (process_rows cv lay b rs st) st = (lv, st')" "length rs < 2 ^ 62" for b rs
  proof (rule row_result_field [OF lay _ that(1)])
    fix lv' st1
    assume "process_rows cv lay b rs st = Inr (lv', st1)"
    then show "lua_field (fst st1) lv' ''not_executed'' = LNil"
      unfolding process_rows_def Let_def by (rule rows_table_field [OF lay that(2)])
  qed
  have pgcase: "lua_field (fst st') lv ''not_executed'' = LNil"
    if "row_result lay (process_pg_rows cv lay rs st) st = (lv, st')" "length rs < 2 ^ 62" for rs
  proof (rule row_result_field [OF lay _ that(1)])
    fix lv' st1
    assume "process_pg_rows cv lay rs st = Inr (lv', st1)"
    then show "lua_field (fst st1) lv' ''not_executed'' = LNil"
      unfolding process_pg_rows_def Let_def by (rule rows_table_field [OF lay that(2)])
  qed
  show ?thesis
    using d rows plain rowcase pgcase
    by (cases resp) (auto simp: decode_response_def not_executed_def row_count_def lua_field_def)
qed

section \<open>Every row, every column\<close>

text \<open>What pushing a value may do to the heap: new tables only, above the old ones.\<close>

definition grows :: "alloc \<Rightarrow> alloc \<Rightarrow> bool" where
  "grows st st' \<longleftrightarrow> snd st \<le> snd st' \<and> frame (snd st) (fst st) (fst st')"

lemma grows_refl [simp]: "grows st st"
  by (simp add: grows_def frame_def)

lemma grows_trans: "grows st st1 \<Longrightarrow> grows st1 st2 \<Longrightarrow> grows st st2"
  by (auto simp: grows_def frame_def)

lemma grows_table:
  "grows (fst st, snd st + 1) (h1, n1) \<Longrightarrow> grows st (h1(snd st := t), n1)"
  by (auto simp: grows_def frame_def)

lemma push_json_grows:
  shows "push_json_value lay j st = (lv, st') \<Longrightarrow> present lv \<and> grows st st'"
    and "push_json_elems lay i js st = (items, st') \<Longrightarrow> grows st st'"
    and "push_json_members lay ms st = (items, st') \<Longrightarrow> grows st st'"
proof (induction lay j st and lay i js st and lay ms st arbitrary: lv st' and items st' and items st'
    rule: push_json_value_push_json_elems_push_json_members.induct)
  case (3 lay n st)
  then show ?case by (cases n) auto
next
  case (5 lay vs st)
  obtain items h1 n1 where d: "push_json_elems lay 0 vs (fst st, snd st + 1) = (items, (h1, n1))"
    by (cases "push_json_elems lay 0 vs (fst st, snd st + 1)") auto
  then show ?case using 5 grows_table [of st h1 n1] by auto
next
  case (6 lay ms st)
  obtain items h1 n1 where d: "push_json_members lay ms (fst st, snd st + 1) = (items, (h1, n1))"
    by (cases "push_json_members lay ms (fst st, snd st + 1)") auto
  then show ?case using 6 grows_table [of st h1 n1] by auto
next
  case (8 lay i v vs st)
  then show ?case by (auto split: prod.splits intro: grows_trans)
next
  case (10 lay k v ms st)
  then show ?case by (auto split: prod.splits intro: grows_trans)
qed auto

text \<open>
  The contract of a row loop: it pushes one cell per column and stores it under the column's
  name.
\<close>

locale row_builder =
  fixes items :: "'row \<Rightarrow> 'col list \<Rightarrow> alloc \<Rightarrow> string + (lua_value \<times> lua_value) list \<times> alloc"
    and name_of :: "'col \<Rightarrow> string"
    and cell :: "'row \<Rightarrow> 'col \<Rightarrow> alloc \<Rightarrow> string + lua_value \<times> alloc"
  assumes items_Nil: "items row [] st = Inr ([], st)"
    and items_Cons: "items row (c # cs) st =
      ebind (cell row c st) (\<lambda>(lv, st). ebind (items row cs st) (\<lambda>(xs, st). Inr ((LString (name_of c), lv) # xs, st)))"
    and cell_grows: "cell row c st = Inr (lv, st') \<Longrightarrow> present lv \<and> grows st st'"
begin

text \<open>What the cell of a column can push.\<close>

definition gives :: "'row \<Rightarrow> 'col \<Rightarrow> lua_value \<Rightarrow> bool" where
  "gives row c v \<longleftrightarrow> (\<exists>s0 s1. cell row c s0 = Inr (v, s1))"

lemma items_spec:
  "items row cs st = Inr (xs, st') \<Longrightarrow>
     map fst xs = map (\<lambda>c. LString (name_of c)) cs \<and> good_items xs \<and> grows st st' \<and>
     (\<forall>j<length cs. gives row (cs ! j) (snd (xs ! j)))"
proof (induction cs arbitrary: st xs)
  case Nil
  then show ?case by (simp add: items_Nil good_items_def)
next
  case (Cons c cs)
  then obtain lv st1 xs' where x: "cell row c st = Inr (lv, st1)" "items row cs st1 = Inr (xs', st')"
    "xs = (LString (name_of c), lv) # xs'" by (auto simp: items_Cons ebind_Inr_iff)
  note IH = Cons.IH [OF x(2)] and g = cell_grows [OF x(1)]
  have "gives row c lv" unfolding gives_def using x(1) by blast
  then have "gives row ((c # cs) ! j) (snd (xs ! j))" if "j < length (c # cs)" for j
    using that IH x by (cases j) auto
  then show ?case using IH g x grows_trans [of st st1 st'] by (auto simp: good_items_def)
qed

text \<open>A row's table holds, under the name of every column, what its cell pushed.\<close>

definition row_built :: "lua_tbl \<Rightarrow> 'row \<Rightarrow> 'col list \<Rightarrow> bool" where
  "row_built t row cs \<longleftrightarrow>
     (\<forall>j<length cs. gives row (cs ! j) (rawget t (LString (name_of (cs ! j)))))"

lemma row_table:
  assumes lay: "layout_ok lay" and cs: "distinct (map name_of cs)" "length cs < 2 ^ 62"
    and f: "filled_table lay (items row cs) st = Inr (lv, st')"
  shows "lv = LTable (snd st) \<and> grows st st' \<and> snd st < snd st' \<and> row_built (fst st' (snd st)) row cs"
proof -
  obtain xs h1 n1 where x: "items row cs (fst st, snd st + 1) = Inr (xs, (h1, n1))" "lv = LTable (snd st)"
    "st' = (h1(snd st := lay xs), n1)"
    using f by (auto simp: filled_table_def ebind_Inr_iff)
  note sp = items_spec [OF x(1)]
  have len: "length xs = length cs" using sp by (metis length_map)
  have good: "list_all (\<lambda>x. plain_key (fst x) \<and> present (snd x)) xs" using sp by (simp add: good_items_def)
  have "map fst xs = map LString (map name_of cs)" using sp by simp
  then have dist: "distinct (map fst (rev xs))"
    using cs(1) by (simp add: rev_map [symmetric] distinct_map inj_on_def)
  have "rawget (lay xs) (LString (name_of (cs ! j))) = snd (xs ! j)" if "j < length cs" for j
  proof -
    have "fst (xs ! j) = LString (name_of (cs ! j))" using sp that len by (metis nth_map)
    then have "(LString (name_of (cs ! j)), snd (xs ! j)) \<in> set (rev xs)"
      using that len by (metis nth_mem prod.collapse set_rev)
    then have "map_of (rev xs) (LString (name_of (cs ! j))) = Some (snd (xs ! j))"
      using dist by (metis map_of_is_SomeI)
    then show ?thesis using layout_get_value [OF lay good] len cs(2) by simp
  qed
  then have "row_built (lay xs) row cs" using sp by (simp add: row_built_def)
  moreover have "snd st + 1 \<le> n1" using sp by (simp add: grows_def)
  ultimately show ?thesis using x sp grows_table [of st h1 n1] by simp
qed

lemma rows_spec:
  assumes lay: "layout_ok lay" and cs: "distinct (map name_of cs)" "length cs < 2 ^ 62"
  shows "rows_items lay (\<lambda>row. items row cs) i rows st = Inr (xs, st') \<Longrightarrow>
     grows st st' \<and> length xs = length rows \<and>
     (\<forall>k<length rows. \<exists>b. snd (xs ! k) = LTable b \<and> snd st \<le> b \<and> b < snd st' \<and> row_built (fst st' b) (rows ! k) cs)"
proof (induction rows arbitrary: i st xs)
  case Nil
  then show ?case by simp
next
  case (Cons row rows)
  then obtain lv st1 xs' where x: "filled_table lay (items row cs) st = Inr (lv, st1)"
    "rows_items lay (\<lambda>row. items row cs) (i + 1) rows st1 = Inr (xs', st')" "xs = (int_key (i + 1), lv) # xs'"
    by (auto simp: ebind_Inr_iff)
  note r = row_table [OF lay cs x(1)] and IH = Cons.IH [OF x(2)]
  have keep: "fst st' b = fst st1 b" if "b < snd st1" for b
    using IH that by (auto simp: grows_def frame_def)
  have le: "snd st \<le> snd st1" "snd st1 \<le> snd st'" using r IH by (auto simp: grows_def)
  have "\<exists>b. snd (xs ! k) = LTable b \<and> snd st \<le> b \<and> b < snd st' \<and> row_built (fst st' b) ((row # rows) ! k) cs"
    if "k < length (row # rows)" for k
  proof (cases k)
    case 0
    then show ?thesis using r x keep [of "snd st"] le by auto
  next
    case (Suc k')
    have "k' < length rows" using that Suc by simp
    then obtain b where "snd (xs' ! k') = LTable b" "snd st1 \<le> b" "b < snd st'" "row_built (fst st' b) (rows ! k') cs"
      using IH by blast
    then show ?thesis using Suc x le by auto
  qed
  then show ?case using r IH x grows_trans [of st st1 st'] by auto
qed

text \<open>The whole result.\<close>

lemma result_spec:
  assumes lay: "layout_ok lay" and cs: "distinct (map name_of cs)" "length cs < 2 ^ 62" and rows: "length rows < 2 ^ 62"
    and f: "filled_table lay (rows_items lay (\<lambda>row. items row cs) 0 rows) st = Inr (lv, st')"
  shows "\<exists>a. lv = LTable a \<and>
    (\<forall>k<length rows. \<exists>b. rawgeti (fst st' a) (k + 1) = LTable b \<and> row_built (fst st' b) (rows ! k) cs)"
proof -
  obtain xs h1 n1 where x: "rows_items lay (\<lambda>row. items row cs) 0 rows (fst st, snd st + 1) = Inr (xs, (h1, n1))"
    "lv = LTable (snd st)" "st' = (h1(snd st := lay xs), n1)"
    using f by (auto simp: filled_table_def ebind_Inr_iff)
  note sp = rows_spec [OF lay cs x(1)]
  have sh: "map fst xs = map int_key [Suc 0..<Suc (length rows)]" "list_all (\<lambda>x. \<exists>a. snd x = LTable a) xs"
    using rows_items_shape [OF x(1)] by simp_all
  have good: "list_all (\<lambda>x. plain_key (fst x) \<and> present (snd x)) xs"
  proof -
    have "plain_key (fst x)" if "x \<in> set xs" for x
    proof -
      have "fst x \<in> set (map fst xs)" using that by simp
      then show ?thesis using sh by (auto simp del: upt_Suc)
    qed
    then show ?thesis using sh(2) by (force simp: list_all_iff)
  qed
  have dist: "distinct (map fst (rev xs))"
  proof -
    have "inj_on int_key {Suc 0..<Suc (length rows)}" using rows by (intro inj_onI int_key_inj) auto
    then show ?thesis by (simp add: rev_map [symmetric] sh(1) distinct_map del: upt_Suc)
  qed
  have get: "rawgeti (lay xs) (k + 1) = snd (xs ! k)" if k: "k < length rows" for k
  proof -
    have "fst (xs ! k) = int_key (k + 1)"
    proof -
      have "map fst xs ! k = map int_key [Suc 0..<Suc (length rows)] ! k" by (simp only: sh(1))
      then show ?thesis using k sp by (simp del: upt_Suc)
    qed
    then have "(int_key (k + 1), snd (xs ! k)) \<in> set (rev xs)"
      using k sp by (metis nth_mem prod.collapse set_rev)
    then have "map_of (rev xs) (int_key (k + 1)) = Some (snd (xs ! k))" using dist by (metis map_of_is_SomeI)
    then show ?thesis using layout_get_value [OF lay good] sp rows by (simp add: rawgeti_def)
  qed
  have "\<exists>b. rawgeti (fst st' (snd st)) (k + 1) = LTable b \<and> row_built (fst st' b) (rows ! k) cs"
    if k: "k < length rows" for k
  proof -
    obtain b where b: "snd (xs ! k) = LTable b" "snd st + 1 \<le> b" "row_built (h1 b) (rows ! k) cs"
      using sp k by auto
    then show ?thesis using get [OF k] x(3) by auto
  qed
  then show ?thesis using x(2) by blast
qed

end

lemma scalar_grows: "scalar name r push st = Inr (lv, st') \<Longrightarrow> (\<And>x. present (push x)) \<Longrightarrow> present lv \<and> grows st st'"
  by (auto simp: scalar_def ebind_Inr_iff)

lemma present_push [simp]: "present (push_signed w)" "present (push_unsigned w)"
  by (simp_all add: push_signed_def push_unsigned_def)

lemma column_value_grows:
  assumes "column_value cv lay b name t v st = Inr (lv, st')"
  shows "present lv \<and> grows st st'"
proof (cases "t = DJson")
  case True
  then obtain t' where "(case cv_parse_json cv t' of Inl e \<Rightarrow> Inl (name @ '' JSON decode error: '' @ e)
      | Inr j \<Rightarrow> Inr (push_json_value lay j st)) = Inr (lv, st')"
    using assms by (auto simp only: column_value.simps ebind_Inr_iff)
  then obtain j where "push_json_value lay j st = (lv, st')" by (cases "cv_parse_json cv t'") auto
  then show ?thesis by (rule push_json_grows(1))
next
  case False
  then show ?thesis using assms by (cases t) (auto split: if_splits dest!: scalar_grows)
qed

lemma out_table_grows:
  assumes "\<And>st items st1. fill st = (items, st1) \<Longrightarrow> grows st st1" and "out_table lay fill st = (lv, st')"
  shows "present lv \<and> grows st st'"
proof -
  obtain items h1 n1 where f: "fill (fst st, snd st + 1) = (items, (h1, n1))"
    by (cases "fill (fst st, snd st + 1)") auto
  then show ?thesis using assms(1) [OF f] assms(2) grows_table [of st h1 n1] by (auto simp: out_table_def)
qed

lemma optional_array_grows: "push_optional_array lay push xs st = (lv, st') \<Longrightarrow> present lv \<and> grows st st'"
  unfolding push_optional_array_def by (erule out_table_grows [rotated]) auto

lemma json_options_grows: "push_json_options lay i vs st = (items, st') \<Longrightarrow> grows st st'"
proof (induction vs arbitrary: i st items)
  case (Cons v vs)
  obtain lv st1 where v: "(case v of None \<Rightarrow> (sql_null, st) | Some j \<Rightarrow> push_json_value lay j st) = (lv, st1)"
    by (cases "case v of None \<Rightarrow> (sql_null, st) | Some j \<Rightarrow> push_json_value lay j st")
  then have g: "grows st st1" using push_json_grows(1) [of lay _ st lv st1] by (cases v) auto
  obtain items' where "push_json_options lay (i + 1) vs st1 = (items', st')"
    using Cons.prems v by (auto split: prod.splits)
  from grows_trans [OF g Cons.IH [OF this]] show ?case .
qed simp

lemma pg_array_grows:
  assumes "pg_array lay name r push st = Inr (Some (lv, st'))"
  shows "present lv \<and> grows st st'"
proof -
  obtain xs where "push_optional_array lay push xs st = (lv, st')"
    using assms by (auto simp: pg_array_def ebind_Inr_iff)
  then show ?thesis by (rule optional_array_grows)
qed

lemma pg_array_value_grows:
  assumes "process_pg_array_value cv lay name tn v st = Inr (Some (lv, st'))"
  shows "present lv \<and> grows st st'"
proof -
  have js: "present lv \<and> grows st st'"
    if h: "ebind r (\<lambda>xs. Inr (Some (out_table lay (push_json_options lay 0 xs) st))) = Inr (Some (lv, st'))"
    for r :: "string + json_value option list"
  proof -
    obtain xs where "out_table lay (push_json_options lay 0 xs) st = (lv, st')"
      using h by (auto simp: ebind_Inr_iff)
    then show ?thesis by (rule out_table_grows [rotated]) (rule json_options_grows)
  qed
  show ?thesis using assms unfolding process_pg_array_value_def
    by (simp only: split: if_split_asm) (erule pg_array_grows js | simp)+
qed

lemma pg_scalar_grows:
  assumes "pg_scalar_value cv lay name t v st = Inr (lv, st')"
  shows "present lv \<and> grows st st'"
proof (cases "t = DJson")
  case True
  then obtain j where "push_json_value lay j st = (lv, st')" using assms by (auto simp: ebind_Inr_iff)
  then show ?thesis by (rule push_json_grows(1))
next
  case False
  then show ?thesis using assms by (cases t) (auto simp: pg_temporal_def dest!: scalar_grows)
qed

lemma row_cell_grows: "row_cell cv lay b row col st = Inr (lv, st') \<Longrightarrow> present lv \<and> grows st st'"
  by (auto simp: row_cell_def ebind_Inr_iff split: prod.splits if_splits dest: column_value_grows)

lemma pg_row_cell_grows: "pg_row_cell cv lay row col st = Inr (lv, st') \<Longrightarrow> present lv \<and> grows st st'"
  by (auto simp: pg_row_cell_def ebind_Inr_iff split: prod.splits if_splits option.splits
      dest: pg_array_value_grows pg_scalar_grows)

interpretation plain_rows: row_builder "row_items cv lay b" "\<lambda>col. fst (snd col)" "row_cell cv lay b"
  by unfold_locales (simp_all add: row_cell_grows)

interpretation pg_rows: row_builder "pg_row_items cv lay" "\<lambda>col. fst (snd col)" "pg_row_cell cv lay"
  by unfold_locales (simp_all add: pg_row_cell_grows)

lemma ensure_unique_iff: "ensure_unique seen ns = Inr () \<longleftrightarrow> distinct ns \<and> set ns \<inter> set seen = {}"
  by (induction ns arbitrary: seen) auto

lemma ensure_unique_columns_iff: "ensure_unique_columns ns = Inr u \<longleftrightarrow> distinct ns"
  by (cases u) (simp add: ensure_unique_columns_def ensure_unique_iff)

section \<open>Properties\<close>

lemma filled_table_check:
  "filled_table lay (\<lambda>st. ebind c (\<lambda>_. f st)) st = ebind c (\<lambda>_. filled_table lay f st)"
  by (cases c) (simp_all add: filled_table_def)

lemma process_rows_Cons:
  "rows = row # rest \<Longrightarrow> process_rows cv lay b rows st =
     ebind (ensure_unique_columns (map (fst \<circ> snd) (column_info (hd rows)))) (\<lambda>_.
       filled_table lay (rows_items lay (\<lambda>row. row_items cv lay b row (column_info (hd rows))) 0 rows) st)"
  by (simp only: process_rows_def Let_def list.case filled_table_check list.sel)

lemma process_pg_rows_Cons:
  "rows = row # rest \<Longrightarrow> process_pg_rows cv lay rows st =
     ebind (ensure_unique_columns (map (fst \<circ> snd) (enumerate 0 (row_columns (hd rows))))) (\<lambda>_.
       filled_table lay (rows_items lay (\<lambda>row. pg_row_items cv lay row (enumerate 0 (row_columns (hd rows)))) 0 rows) st)"
  by (simp only: process_pg_rows_def Let_def list.case filled_table_check list.sel)

lemma enumerate_names: "map (\<lambda>col. fst (snd col)) (enumerate n xs) = map fst xs"
  by (induction xs arbitrary: n) simp_all

lemma column_info_names: "map (\<lambda>col. fst (snd col)) (column_info row) = map fst (row_columns row)"
  by (rule nth_equalityI) (simp_all add: column_info_def nth_enumerate_eq split_def)

lemma checked_columns:
  assumes "ebind (ensure_unique_columns (map (fst \<circ> snd) cs)) (\<lambda>_. r) = Inr v"
  shows "distinct (map (\<lambda>col. fst (snd col)) cs)" "r = Inr v"
  using assms by (auto simp only: ebind_Inr_iff ensure_unique_columns_iff comp_def)

lemma plain_rows_cases:
  assumes lay: "layout_ok lay" and small: "length rows < 2 ^ 62" "length (row_columns (hd rows)) < 2 ^ 62"
    and ne: "rows \<noteq> []" and p: "process_rows cv lay b rows st = Inr (lv, st')"
  shows "distinct (map fst (row_columns (hd rows))) \<and> (\<exists>a. lv = LTable a \<and> (\<forall>k<length rows. \<exists>t.
      rawgeti (fst st' a) (k + 1) = LTable t \<and>
      plain_rows.row_built cv lay b (fst st' t) (rows ! k) (column_info (hd rows))))"
proof -
  let ?info = "column_info (hd rows)"
  obtain row rest where rows: "rows = row # rest" using ne by (cases rows) auto
  have nm: "map (\<lambda>col. fst (snd col)) ?info = map fst (row_columns (hd rows))"
    by (rule column_info_names)
  have len: "length ?info < 2 ^ 62" using small(2) by (simp add: column_info_def)
  have d: "distinct (map (\<lambda>col. fst (snd col)) ?info)"
    "filled_table lay (rows_items lay (\<lambda>row. row_items cv lay b row ?info) 0 rows) st = Inr (lv, st')"
    using checked_columns [OF p [unfolded process_rows_Cons [OF rows]]] .
  from plain_rows.result_spec [OF lay d(1) len small(1) d(2)] show ?thesis using d(1) nm by simp
qed

lemma pg_rows_cases:
  assumes lay: "layout_ok lay" and small: "length rows < 2 ^ 62" "length (row_columns (hd rows)) < 2 ^ 62"
    and ne: "rows \<noteq> []" and p: "process_pg_rows cv lay rows st = Inr (lv, st')"
  shows "distinct (map fst (row_columns (hd rows))) \<and> (\<exists>a. lv = LTable a \<and> (\<forall>k<length rows. \<exists>t.
      rawgeti (fst st' a) (k + 1) = LTable t \<and>
      pg_rows.row_built cv lay (fst st' t) (rows ! k) (enumerate 0 (row_columns (hd rows)))))"
proof -
  let ?info = "enumerate 0 (row_columns (hd rows))"
  obtain row rest where rows: "rows = row # rest" using ne by (cases rows) auto
  have nm: "map (\<lambda>col. fst (snd col)) ?info = map fst (row_columns (hd rows))"
    by (rule enumerate_names)
  have len: "length ?info < 2 ^ 62" using small(2) by simp
  have d: "distinct (map (\<lambda>col. fst (snd col)) ?info)"
    "filled_table lay (rows_items lay (\<lambda>row. pg_row_items cv lay row ?info) 0 rows) st = Inr (lv, st')"
    using checked_columns [OF p [unfolded process_pg_rows_Cons [OF rows]]] .
  from pg_rows.result_spec [OF lay d(1) len small(1) d(2)] show ?thesis using d(1) nm by simp
qed

lemma column_info_nth: "j < length (row_columns row) \<Longrightarrow>
  column_info row ! j = (j, fst (row_columns row ! j), from_name (snd (row_columns row ! j)))"
  by (simp add: column_info_def nth_enumerate_eq split_def)

text \<open>
  C6. No row and no column is lost: when a result set is decoded, the column names are distinct, and
  the Lua result holds at every index from 1 a table for that row in which every column name
  leads to what its raw value decodes to (an SQL null to the null pointer), for the MySQL and
  SQLite drivers and for PostgreSQL alike, whatever tables JSON and array columns create on the
  way; with a duplicate column name nothing is decoded.
\<close>

theorem rows_faithful:
  assumes "layout_ok lay" and "rows \<noteq> []" and "length rows < 2 ^ 62" and "length (row_columns (hd rows)) < 2 ^ 62"
    and "cols = row_columns (hd rows)"
  shows "(process_rows cv lay b rows st = Inr (lv, st') \<longrightarrow> distinct (map fst cols) \<and>
      (\<exists>a. lv = LTable a \<and> (\<forall>k<length rows. \<exists>t. rawgeti (fst st' a) (k + 1) = LTable t \<and>
        (\<forall>j<length cols. \<exists>s0 s1. row_cell cv lay b (rows ! k) (j, fst (cols ! j), from_name (snd (cols ! j))) s0 =
           Inr (rawget (fst st' t) (LString (fst (cols ! j))), s1))))) \<and>
    (process_pg_rows cv lay rows st = Inr (lv, st') \<longrightarrow> distinct (map fst cols) \<and>
      (\<exists>a. lv = LTable a \<and> (\<forall>k<length rows. \<exists>t. rawgeti (fst st' a) (k + 1) = LTable t \<and>
        (\<forall>j<length cols. \<exists>s0 s1. pg_row_cell cv lay (rows ! k) (j, cols ! j) s0 =
           Inr (rawget (fst st' t) (LString (fst (cols ! j))), s1)))))"
proof -
  have plain: "\<exists>s0 s1. row_cell cv lay b row (j, fst (cols ! j), from_name (snd (cols ! j))) s0 =
      Inr (rawget tb (LString (fst (cols ! j))), s1)"
    if "plain_rows.row_built cv lay b tb row (column_info (hd rows))" "j < length cols" for tb row j
  proof -
    have "j < length (column_info (hd rows))" using that(2) assms(5) by (simp add: column_info_def)
    then have "plain_rows.gives cv lay b row (column_info (hd rows) ! j)
        (rawget tb (LString (fst (snd (column_info (hd rows) ! j)))))"
      using that(1) unfolding plain_rows.row_built_def by blast
    then show ?thesis
      using column_info_nth [of j "hd rows"] that(2) assms(5) by (simp add: plain_rows.gives_def del: split_paired_Ex)
  qed
  have pg: "\<exists>s0 s1. pg_row_cell cv lay row (j, cols ! j) s0 = Inr (rawget tb (LString (fst (cols ! j))), s1)"
    if "pg_rows.row_built cv lay tb row (enumerate 0 (row_columns (hd rows)))" "j < length cols" for tb row j
    using that assms(5) by (simp add: pg_rows.row_built_def pg_rows.gives_def nth_enumerate_eq del: split_paired_Ex)
  show ?thesis
  proof (intro conjI impI)
    assume p: "process_rows cv lay b rows st = Inr (lv, st')"
    let ?cell = "\<lambda>k j t. \<exists>s0 s1. row_cell cv lay b (rows ! k) (j, fst (cols ! j), from_name (snd (cols ! j))) s0 =
           Inr (rawget (fst st' t) (LString (fst (cols ! j))), s1)"
    note c = plain_rows_cases [OF assms(1,3,4,2) p]
    show "distinct (map fst cols)" using c assms(5) by simp
    show "\<exists>a. lv = LTable a \<and> (\<forall>k<length rows. \<exists>t. rawgeti (fst st' a) (k + 1) = LTable t \<and>
        (\<forall>j<length cols. \<exists>s0 s1. row_cell cv lay b (rows ! k) (j, fst (cols ! j), from_name (snd (cols ! j))) s0 =
           Inr (rawget (fst st' t) (LString (fst (cols ! j))), s1)))"
    proof -
      obtain a where a: "lv = LTable a" "\<forall>k<length rows. \<exists>t. rawgeti (fst st' a) (k + 1) = LTable t \<and>
          plain_rows.row_built cv lay b (fst st' t) (rows ! k) (column_info (hd rows))" using c by blast
      have "\<exists>t. rawgeti (fst st' a) (k + 1) = LTable t \<and> (\<forall>j<length cols. ?cell k j t)" if k: "k < length rows" for k
      proof -
        obtain t where "rawgeti (fst st' a) (k + 1) = LTable t"
          "plain_rows.row_built cv lay b (fst st' t) (rows ! k) (column_info (hd rows))" using a(2) k by blast
        then show ?thesis using plain by blast
      qed
      then show ?thesis using a(1) by blast
    qed
  next
    assume p: "process_pg_rows cv lay rows st = Inr (lv, st')"
    let ?cell = "\<lambda>k j t. \<exists>s0 s1. pg_row_cell cv lay (rows ! k) (j, cols ! j) s0 =
           Inr (rawget (fst st' t) (LString (fst (cols ! j))), s1)"
    note c = pg_rows_cases [OF assms(1,3,4,2) p]
    show "distinct (map fst cols)" using c assms(5) by simp
    show "\<exists>a. lv = LTable a \<and> (\<forall>k<length rows. \<exists>t. rawgeti (fst st' a) (k + 1) = LTable t \<and>
        (\<forall>j<length cols. \<exists>s0 s1. pg_row_cell cv lay (rows ! k) (j, cols ! j) s0 =
           Inr (rawget (fst st' t) (LString (fst (cols ! j))), s1)))"
    proof -
      obtain a where a: "lv = LTable a" "\<forall>k<length rows. \<exists>t. rawgeti (fst st' a) (k + 1) = LTable t \<and>
          pg_rows.row_built cv lay (fst st' t) (rows ! k) (enumerate 0 (row_columns (hd rows)))" using c by blast
      have "\<exists>t. rawgeti (fst st' a) (k + 1) = LTable t \<and> (\<forall>j<length cols. ?cell k j t)" if k: "k < length rows" for k
      proof -
        obtain t where "rawgeti (fst st' a) (k + 1) = LTable t"
          "pg_rows.row_built cv lay (fst st' t) (rows ! k) (enumerate 0 (row_columns (hd rows)))" using a(2) k by blast
        then show ?thesis using pg by blast
      qed
      then show ?thesis using a(1) by blast
    qed
  qed
qed

text \<open>A codec of text values, and one row of two columns.\<close>

definition text_codec :: "string codec" where
  "text_codec = \<lparr>cv_null = (\<lambda>v. v = []), cv_type = (\<lambda>_. ''TEXT''),
     cv_i8 = (\<lambda>_. Inl ''text''), cv_u8 = (\<lambda>_. Inl ''text''), cv_i16 = (\<lambda>_. Inl ''text''), cv_u16 = (\<lambda>_. Inl ''text''),
     cv_i32 = (\<lambda>_. Inl ''text''), cv_u32 = (\<lambda>_. Inl ''text''), cv_i64 = (\<lambda>_. Inl ''text''), cv_u64 = (\<lambda>_. Inl ''text''),
     cv_f32 = (\<lambda>_. Inl ''text''), cv_f64 = (\<lambda>_. Inl ''text''), cv_bool = (\<lambda>_. Inl ''text''),
     cv_str = Inr, cv_bytes = Inr,
     cv_datetime = (\<lambda>_. Inl ''text''), cv_date = (\<lambda>_. Inl ''text''), cv_time = (\<lambda>_. Inl ''text''),
     cv_uuid = (\<lambda>_. Inl ''text''), cv_json = (\<lambda>_. Inl ''text''), cv_text_format = (\<lambda>_. True),
     cv_array_bool = (\<lambda>_. Inl ''text''), cv_array_i16 = (\<lambda>_. Inl ''text''), cv_array_i32 = (\<lambda>_. Inl ''text''),
     cv_array_i64 = (\<lambda>_. Inl ''text''), cv_array_f32 = (\<lambda>_. Inl ''text''), cv_array_f64 = (\<lambda>_. Inl ''text''),
     cv_array_str = (\<lambda>_. Inl ''text''), cv_array_bytes = (\<lambda>_. Inl ''text''), cv_array_uuid = (\<lambda>_. Inl ''text''),
     cv_array_json = (\<lambda>_. Inl ''text''), cv_parse_json = (\<lambda>_. Inl ''text'')\<rparr>"

definition text_row :: "string db_row" where
  "text_row = \<lparr>row_columns = [(''id'', ''TEXT''), (''name'', ''TEXT'')],
     row_values = (\<lambda>i. Inr (if i = 0 then ''7'' else []))\<rparr>"

lemma text_row_cells:
  "row_cell text_codec lay b text_row (0, ''id'', t) st = Inr (lv, st1) \<Longrightarrow> t = DText \<Longrightarrow> lv = LString ''7''"
  "row_cell text_codec lay b text_row (1, ''name'', t) st = Inr (lv, st1) \<Longrightarrow> lv = sql_null"
  by (cases b; simp add: row_cell_def text_row_def text_codec_def decode_value_def scalar_def from_name_def db_type_map_def)+

theorem rows_faithful_witness:
  "\<exists>lv st' a t. process_rows text_codec simple_layout False [text_row] (blank_heap, 0) = Inr (lv, st') \<and>
     lv = LTable a \<and> rawgeti (fst st' a) 1 = LTable t \<and>
     rawget (fst st' t) (LString ''id'') = LString ''7'' \<and> rawget (fst st' t) (LString ''name'') = sql_null"
proof -
  let ?cols = "row_columns (hd [text_row])"
  have cols: "?cols = [(''id'', ''TEXT''), (''name'', ''TEXT'')]" by (simp add: text_row_def)
  obtain lv st' where p: "process_rows text_codec simple_layout False [text_row] (blank_heap, 0) = Inr (lv, st')"
    by (simp add: process_rows_def filled_table_def column_info_def text_row_def ensure_unique_columns_def
        row_cell_def text_codec_def decode_value_def scalar_def from_name_def db_type_map_def)
  have "\<exists>a. lv = LTable a \<and> (\<forall>k<length [text_row]. \<exists>t. rawgeti (fst st' a) (k + 1) = LTable t \<and>
      (\<forall>j<length ?cols. \<exists>s0 s1. row_cell text_codec simple_layout False ([text_row] ! k)
         (j, fst (?cols ! j), from_name (snd (?cols ! j))) s0 = Inr (rawget (fst st' t) (LString (fst (?cols ! j))), s1)))"
  proof -
    have small: "length [text_row] < 2 ^ 62" "length ?cols < 2 ^ 62" by (simp_all add: text_row_def)
    show ?thesis
      using rows_faithful [OF simple_layout_ok _ small refl, of text_codec False "(blank_heap, 0)" lv st'] p by blast
  qed
  then obtain a t where a: "lv = LTable a" "rawgeti (fst st' a) 1 = LTable t"
    and c: "\<forall>j<length ?cols. \<exists>s0 s1. row_cell text_codec simple_layout False text_row
         (j, fst (?cols ! j), from_name (snd (?cols ! j))) s0 = Inr (rawget (fst st' t) (LString (fst (?cols ! j))), s1)"
    by auto
  have "from_name ''TEXT'' = DText" by (simp add: from_name_def db_type_map_def)
  moreover have "\<exists>s0 s1. row_cell text_codec simple_layout False text_row (0, ''id'', from_name ''TEXT'') s0 =
      Inr (rawget (fst st' t) (LString ''id''), s1)"
    using c [rule_format, of 0] by (simp add: text_row_def)
  moreover have "\<exists>s0 s1. row_cell text_codec simple_layout False text_row (1, ''name'', from_name ''TEXT'') s0 =
      Inr (rawget (fst st' t) (LString ''name''), s1)"
    using c [rule_format, of 1] by (simp add: text_row_def)
  ultimately have "rawget (fst st' t) (LString ''id'') = LString ''7''" "rawget (fst st' t) (LString ''name'') = sql_null"
    using text_row_cells by blast+
  then show ?thesis using p a by blast
qed

end
