(* ===== verification/SqlxLua.thy ===== *)
theory SqlxLua
  imports JsonDecode
begin

text \<open>
  The Lua allocation boundary of the SQLx module, \<open>crates/libs/lib-lualib/src/sqlx_lua.rs\<close>, with
  \<open>run_entry\<close> of \<open>lua_sqlx.rs\<close>: every Lua operation that can raise an error runs in the protected
  \<open>dispatch\<close> frame; a failure unwinds to \<open>run_entry\<close>, which raises the original error. Output
  tables are built by single stores, input tables are read through views that restore the stack.
  A single raw store is the Lua library's (\<open>put\<close>, with the contract of the locale \<open>raw_store\<close>).
\<close>

section \<open>Values and operations\<close>

datatype sval = VInteger i64 | VNumberS f64 | VBoolean bool | VBytes bytes

text \<open>\<open>PushValue\<close>: integers of every width are cast to \<open>i64\<close>.\<close>

definition sval_signed :: "'w::len word \<Rightarrow> sval" where
  "sval_signed n = VInteger (scast n)"

definition sval_unsigned :: "'w::len word \<Rightarrow> sval" where
  "sval_unsigned n = VInteger (ucast n)"

fun push_raw :: "sval \<Rightarrow> lua_value" where
  "push_raw (VInteger n) = LInteger n"
| "push_raw (VNumberS x) = LNumber x"
| "push_raw (VBoolean b) = LBoolean b"
| "push_raw (VBytes s) = LString s"

text \<open>The userdata operation carries the registry key of its metatable and what the value needs.\<close>

datatype lua_op =
    OpPush sval | OpTable nat nat | OpInsert sval sval | OpSetValue sval | OpSetIndex i64 | OpGet sval
  | OpMeta string | OpShape | OpNext

datatype op_out = OutNone | OutShape bool nat | OutMore bool

text \<open>
  \<open>dispatch\<close> in its own frame: the operation itself at index 1, the inputs from index 2. The results
  are what it returns; the raw accesses presuppose a table at index 2.
\<close>

definition empty_table :: lua_tbl where
  "empty_table = \<lparr>entries = [], border = 0, metas = []\<rparr>"

text \<open>Nil and NaN are no keys.\<close>

definition f64_is_nan :: "f64 \<Rightarrow> bool" where
  "f64_is_nan x \<longleftrightarrow> 0x7FF0000000000000 < (x AND 0x7FFFFFFFFFFFFFFF)"

definition key_error :: "lua_value \<Rightarrow> string option" where
  "key_error k =
     (case k of LNil \<Rightarrow> Some ''table index is nil''
      | LNumber x \<Rightarrow> if f64_is_nan x then Some ''table index is NaN'' else None
      | _ \<Rightarrow> None)"

definition with_table ::
  "lua_stack \<Rightarrow> (nat \<Rightarrow> 'a outcome) \<Rightarrow> 'a outcome" where
  "with_table fr f = (case lua_at fr 2 of LTable a \<Rightarrow> f a | _ \<Rightarrow> UB ''raw access to a value that is not a table'')"

definition store_at ::
  "(lua_tbl \<Rightarrow> lua_value \<Rightarrow> lua_value \<Rightarrow> lua_tbl) \<Rightarrow> nat \<Rightarrow> lua_value \<Rightarrow> lua_value \<Rightarrow> alloc \<Rightarrow>
     string + lua_stack \<times> op_out \<times> alloc" where
  "store_at put a k v st =
     (case key_error k of
        Some m \<Rightarrow> Inl m
      | None \<Rightarrow> Inr ([], OutNone, ((fst st)(a := put (fst st a) k v), snd st)))"

definition dispatch ::
  "(lua_tbl \<Rightarrow> lua_value \<Rightarrow> lua_value \<Rightarrow> lua_tbl) \<Rightarrow> lua_op \<Rightarrow> lua_stack \<Rightarrow> alloc \<Rightarrow>
     (string + lua_stack \<times> op_out \<times> alloc) outcome" where
  "dispatch put op fr st =
     (case op of
        OpPush v \<Rightarrow> Done (Inr ([push_raw v], OutNone, st))
      | OpTable arr record' \<Rightarrow> Done (Inr ([LTable (snd st)], OutNone, ((fst st)(snd st := empty_table), snd st + 1)))
      | OpInsert k v \<Rightarrow> with_table fr (\<lambda>a. Done (store_at put a (push_raw k) (push_raw v) st))
      | OpSetValue k \<Rightarrow> with_table fr (\<lambda>a. Done (store_at put a (push_raw k) (lua_at fr 3) st))
      | OpSetIndex i \<Rightarrow> with_table fr (\<lambda>a.
          Done (Inr ([], OutNone, ((fst st)(a := put (fst st a) (LInteger i) (lua_at fr 3)), snd st))))
      | OpGet k \<Rightarrow> with_table fr (\<lambda>a. Done (Inr ([rawget (fst st a) (push_raw k)], OutNone, st)))
      | OpMeta name \<Rightarrow> with_table fr (\<lambda>a. Done (Inr ([metafield (fst st a) name], OutNone, st)))
      | OpShape \<Rightarrow> with_table fr (\<lambda>a.
          Done (ebind (lua_array_size_st (fst st a) fr) (\<lambda>((arr, len), _). Inr ([], OutShape arr len, st))))
      | OpNext \<Rightarrow> with_table fr (\<lambda>a.
          Done (ebind (lua_next (fst st a) (lua_push fr (lua_at fr 3))) (\<lambda>(more, fr').
            Inr (if more then drop (length fr' - 2) fr' else [], OutMore more, st)))))"

section \<open>Protection\<close>

text \<open>
  \<open>LuaFail True\<close> is the unwinding with the Lua error on top of the stack, \<open>LuaFail False\<close> the one
  without. What can go wrong is given from outside (\<open>trouble\<close>): no room on the stack, or an error
  raised inside the frame for want of memory, before the operation had an effect.
\<close>

datatype 'a guarded = Fine 'a | LuaFail bool

datatype trouble = NoTrouble | NoRoom | NoMemory lua_value

record lua_world =
  lw_stack :: lua_stack
  lw_alloc :: alloc

definition checkstack :: "trouble \<Rightarrow> lua_world \<Rightarrow> unit guarded \<times> lua_world" where
  "checkstack t w = (if t = NoRoom then (LuaFail False, w) else (Fine (), w))"

definition protect ::
  "(lua_tbl \<Rightarrow> lua_value \<Rightarrow> lua_value \<Rightarrow> lua_tbl) \<Rightarrow> trouble \<Rightarrow> lua_op \<Rightarrow> int list \<Rightarrow> lua_world \<Rightarrow>
     (op_out guarded \<times> lua_world) outcome" where
  "protect put t op inputs w =
     (case checkstack t w of
        (LuaFail b, w) \<Rightarrow> Done (LuaFail b, w)
      | (Fine _, w) \<Rightarrow>
          (let fail = (\<lambda>err. Done (LuaFail True, w\<lparr>lw_stack := lua_push (lw_stack w) err\<rparr>)) in
           case t of
             NoMemory err \<Rightarrow> fail err
           | _ \<Rightarrow> obind (dispatch put op (LLightUserData 1 # map (lua_at (lw_stack w)) inputs) (lw_alloc w)) (\<lambda>r.
               case r of
                 Inl m \<Rightarrow> fail (LString m)
               | Inr (results, out, st) \<Rightarrow> Done (Fine out, \<lparr>lw_stack = lw_stack w @ results, lw_alloc = st\<rparr>))))"

text \<open>Scalars are pushed without protection.\<close>

definition sqlx_push :: "(lua_tbl \<Rightarrow> lua_value \<Rightarrow> lua_value \<Rightarrow> lua_tbl) \<Rightarrow> trouble \<Rightarrow> sval \<Rightarrow> lua_world \<Rightarrow>
    (op_out guarded \<times> lua_world) outcome" where
  "sqlx_push put t v w =
     (case v of
        VBytes _ \<Rightarrow> protect put t (OpPush v) [] w
      | _ \<Rightarrow> (case checkstack t w of
                (LuaFail b, w) \<Rightarrow> Done (LuaFail b, w)
              | (Fine _, w) \<Rightarrow> Done (Fine OutNone, w\<lparr>lw_stack := lua_push (lw_stack w) (push_raw v)\<rparr>)))"

section \<open>Output tables\<close>

text \<open>Sequencing of guarded steps.\<close>

definition gbind ::
  "('a guarded \<times> lua_world) outcome \<Rightarrow> ('a \<Rightarrow> lua_world \<Rightarrow> ('b guarded \<times> lua_world) outcome) \<Rightarrow>
     ('b guarded \<times> lua_world) outcome" where
  "gbind r f = obind r (\<lambda>(g, w). case g of Fine x \<Rightarrow> f x w | LuaFail b \<Rightarrow> Done (LuaFail b, w))"

definition gpop :: "nat \<Rightarrow> lua_world \<Rightarrow> (unit guarded \<times> lua_world) outcome" where
  "gpop n w = Done (Fine (), w\<lparr>lw_stack := lua_pop (lw_stack w) n\<rparr>)"

text \<open>\<open>OutputTable::new\<close> returns the index of the table it leaves on the stack.\<close>

definition output_new ::
  "(lua_tbl \<Rightarrow> lua_value \<Rightarrow> lua_value \<Rightarrow> lua_tbl) \<Rightarrow> trouble \<Rightarrow> nat \<Rightarrow> nat \<Rightarrow> lua_world \<Rightarrow> (int guarded \<times> lua_world) outcome" where
  "output_new put t arr record' w =
     gbind (protect put t (OpTable (min arr (2 ^ 31 - 1)) (min record' (2 ^ 31 - 1))) [] w) (\<lambda>_ w.
       Done (Fine (int (length (lw_stack w))), w))"

definition output_insert ::
  "(lua_tbl \<Rightarrow> lua_value \<Rightarrow> lua_value \<Rightarrow> lua_tbl) \<Rightarrow> trouble \<Rightarrow> int \<Rightarrow> sval \<Rightarrow> sval \<Rightarrow> lua_world \<Rightarrow>
     (op_out guarded \<times> lua_world) outcome" where
  "output_insert put t index k v w = protect put t (OpInsert k v) [index] w"

text \<open>The closure pushes the value (\<open>push\<close>).\<close>

definition output_insert_x ::
  "(lua_tbl \<Rightarrow> lua_value \<Rightarrow> lua_value \<Rightarrow> lua_tbl) \<Rightarrow> trouble \<Rightarrow> int \<Rightarrow> sval \<Rightarrow>
     (lua_world \<Rightarrow> (unit guarded \<times> lua_world) outcome) \<Rightarrow> lua_world \<Rightarrow> (unit guarded \<times> lua_world) outcome" where
  "output_insert_x put t index k push w =
     gbind (push w) (\<lambda>_ w. gbind (protect put t (OpSetValue k) [index, -1] w) (\<lambda>_ w. gpop 1 w))"

definition output_rawseti ::
  "(lua_tbl \<Rightarrow> lua_value \<Rightarrow> lua_value \<Rightarrow> lua_tbl) \<Rightarrow> trouble \<Rightarrow> int \<Rightarrow> nat \<Rightarrow> lua_world \<Rightarrow> (unit guarded \<times> lua_world) outcome" where
  "output_rawseti put t index i w =
     gbind (protect put t (OpSetIndex (word_of_nat i)) [index, -1] w) (\<lambda>_ w. gpop 1 w)"

section \<open>Input views\<close>

text \<open>
  A view holds the height of the stack to restore when it is dropped; on the way to \<open>run_entry\<close> the
  stack is left alone. \<open>index\<close> is the table's.
\<close>

definition scope_drop :: "nat \<Rightarrow> bool \<Rightarrow> lua_world \<Rightarrow> lua_world" where
  "scope_drop height panicking w = (if panicking then w else w\<lparr>lw_stack := lua_settop (lw_stack w) height\<rparr>)"

definition raw_get ::
  "(lua_tbl \<Rightarrow> lua_value \<Rightarrow> lua_value \<Rightarrow> lua_tbl) \<Rightarrow> trouble \<Rightarrow> int \<Rightarrow> bytes \<Rightarrow> lua_world \<Rightarrow>
     ((lua_value \<times> nat) guarded \<times> lua_world) outcome" where
  "raw_get put t index key w =
     (let height = length (lw_stack w) in
      gbind (protect put t (OpGet (VBytes key)) [index] w) (\<lambda>_ w. Done (Fine (lua_at (lw_stack w) (-1), height), w)))"

text \<open>Without a field, the view is dropped at once.\<close>

definition meta_field ::
  "(lua_tbl \<Rightarrow> lua_value \<Rightarrow> lua_value \<Rightarrow> lua_tbl) \<Rightarrow> trouble \<Rightarrow> int \<Rightarrow> string \<Rightarrow> lua_world \<Rightarrow>
     ((lua_value \<times> nat) option guarded \<times> lua_world) outcome" where
  "meta_field put t index key w =
     (let height = length (lw_stack w) in
      gbind (protect put t (OpMeta key) [index] w) (\<lambda>_ w.
        let v = lua_at (lw_stack w) (-1) in
        if v = LNil then Done (Fine None, scope_drop height False w) else Done (Fine (Some (v, height)), w)))"

definition array_shape ::
  "(lua_tbl \<Rightarrow> lua_value \<Rightarrow> lua_value \<Rightarrow> lua_tbl) \<Rightarrow> trouble \<Rightarrow> int \<Rightarrow> lua_world \<Rightarrow> ((bool \<times> nat) guarded \<times> lua_world) outcome" where
  "array_shape put t index w =
     gbind (protect put t OpShape [index] w) (\<lambda>out w.
       case out of OutShape arr len \<Rightarrow> Done (Fine (arr, len), w) | _ \<Rightarrow> Panic ''internal error: entered unreachable code'')"

record pairs_view =
  pv_top :: nat
  pv_done :: bool

definition pairs_new :: "trouble \<Rightarrow> lua_world \<Rightarrow> (pairs_view guarded \<times> lua_world) outcome" where
  "pairs_new t w =
     (case checkstack t w of
        (LuaFail b, w) \<Rightarrow> Done (LuaFail b, w)
      | (Fine _, w) \<Rightarrow> Done (Fine \<lparr>pv_top = length (lw_stack w), pv_done = False\<rparr>, w\<lparr>lw_stack := lua_push (lw_stack w) LNil\<rparr>))"

definition pairs_next ::
  "(lua_tbl \<Rightarrow> lua_value \<Rightarrow> lua_value \<Rightarrow> lua_tbl) \<Rightarrow> trouble \<Rightarrow> int \<Rightarrow> pairs_view \<Rightarrow> lua_world \<Rightarrow>
     (((lua_value \<times> lua_value) option \<times> pairs_view) guarded \<times> lua_world) outcome" where
  "pairs_next put t index pv w =
     (if pv_done pv then Done (Fine (None, pv), w)
      else let w = w\<lparr>lw_stack := lua_settop (lw_stack w) (pv_top pv + 1)\<rparr> in
        gbind (protect put t OpNext [index, -1] w) (\<lambda>out w.
          if out = OutMore False then Done (Fine (None, pv\<lparr>pv_done := True\<rparr>), w)
          else let w = w\<lparr>lw_stack := lua_remove (lw_stack w) (pv_top pv + 1)\<rparr> in
            Done (Fine (Some (lua_at (lw_stack w) (-2), lua_at (lw_stack w) (-1)), pv), w)))"

record values_view =
  vv_top :: nat
  vv_position :: nat
  vv_len :: nat

definition values_new :: "trouble \<Rightarrow> nat \<Rightarrow> lua_world \<Rightarrow> (values_view guarded \<times> lua_world) outcome" where
  "values_new t len w =
     (case checkstack t w of
        (LuaFail b, w) \<Rightarrow> Done (LuaFail b, w)
      | (Fine _, w) \<Rightarrow> Done (Fine \<lparr>vv_top = length (lw_stack w), vv_position = 0, vv_len = len\<rparr>, w))"

definition values_next :: "nat \<Rightarrow> values_view \<Rightarrow> lua_world \<Rightarrow> (lua_value option \<times> values_view) \<times> lua_world" where
  "values_next a vv w =
     (let w = w\<lparr>lw_stack := lua_settop (lw_stack w) (vv_top vv)\<rparr> in
      if vv_position vv = vv_len vv then ((None, vv), w)
      else let pos' = vv_position vv + 1;
               w = w\<lparr>lw_stack := lua_push (lw_stack w) (rawgeti (fst (lw_alloc w) a) pos')\<rparr> in
        ((Some (lua_at (lw_stack w) (-1)), vv\<lparr>vv_position := pos'\<rparr>), w))"

section \<open>The entry\<close>

text \<open>
  How the body of an entry ends: with results, with an error, with a panic of its own, or with the
  unwinding of a Lua failure. \<open>push_lua_table!\<close> of the error report goes through the same
  protected operations and can fail like any of them; \<open>tr\<close> gives what goes wrong in its steps.
\<close>

datatype entry_end = EntryOk nat | EntryErr string | EntryPanic | EntryFail bool

datatype entry_result = Returns nat | Raises lua_value

definition error_report ::
  "(lua_tbl \<Rightarrow> lua_value \<Rightarrow> lua_value \<Rightarrow> lua_tbl) \<Rightarrow> (nat \<Rightarrow> trouble) \<Rightarrow> string \<Rightarrow> lua_world \<Rightarrow>
     (op_out guarded \<times> lua_world) outcome" where
  "error_report put tr m w =
     gbind (output_new put (tr 0) 0 6 w) (\<lambda>index w.
     gbind (output_insert put (tr 1) index (VBytes ''kind'') (VBytes ''ERROR'') w) (\<lambda>_ w.
       output_insert put (tr 2) index (VBytes ''message'') (VBytes m) w))"

definition panic_message :: string where
  "panic_message = ''SQLx internal panic; request was not replayed, write outcome may be unknown''"

definition rethrow :: "bool \<Rightarrow> lua_world \<Rightarrow> entry_result \<times> lua_world" where
  "rethrow on_stack w =
     (Raises (if on_stack then lua_at (lw_stack w) (-1) else LString ''SQLx Lua stack exhausted''), w)"

definition report_end :: "(op_out guarded \<times> lua_world) outcome \<Rightarrow> (entry_result \<times> lua_world) outcome" where
  "report_end r = obind r (\<lambda>(g, w). Done (case g of Fine _ \<Rightarrow> (Returns 1, w) | LuaFail b \<Rightarrow> rethrow b w))"

definition run_entry ::
  "(lua_tbl \<Rightarrow> lua_value \<Rightarrow> lua_value \<Rightarrow> lua_tbl) \<Rightarrow> bool \<Rightarrow> (nat \<Rightarrow> trouble) \<Rightarrow>
     (lua_world \<Rightarrow> entry_end \<times> lua_world) \<Rightarrow> lua_world \<Rightarrow> (entry_result \<times> lua_world) outcome" where
  "run_entry put room tr entry w0 =
     (if \<not> room then Done (Raises (LString ''stack overflow (sqlx entry)''), w0)
      else let height = length (lw_stack w0);
               restore = (\<lambda>w. w\<lparr>lw_stack := lua_settop (lw_stack w) height\<rparr>)
        in case entry w0 of
             (EntryOk n, w) \<Rightarrow> Done (Returns n, w)
           | (EntryErr m, w) \<Rightarrow> report_end (error_report put tr m (restore w))
           | (EntryPanic, w) \<Rightarrow> report_end (error_report put tr panic_message (restore w))
           | (EntryFail on_stack, w) \<Rightarrow> Done (rethrow on_stack w))"

section \<open>Protection keeps the stack\<close>

definition op_results :: "lua_op \<Rightarrow> op_out \<Rightarrow> nat" where
  "op_results op out =
     (case op of OpPush _ \<Rightarrow> 1 | OpTable _ _ \<Rightarrow> 1 | OpGet _ \<Rightarrow> 1 | OpMeta _ \<Rightarrow> 1
      | OpNext \<Rightarrow> (if out = OutMore True then 2 else 0) | _ \<Rightarrow> 0)"

text \<open>The operations on a table get it as their first input.\<close>

definition op_on_table :: "lua_op \<Rightarrow> bool" where
  "op_on_table op = (case op of OpPush _ \<Rightarrow> False | OpTable _ _ \<Rightarrow> False | _ \<Rightarrow> True)"

definition is_table :: "lua_value \<Rightarrow> bool" where
  "is_table v = (case v of LTable _ \<Rightarrow> True | _ \<Rightarrow> False)"

definition settled :: "lua_op \<Rightarrow> lua_world \<Rightarrow> op_out guarded \<times> lua_world \<Rightarrow> bool" where
  "settled op w r =
     (case r of
        (Fine out, w') \<Rightarrow> take (length (lw_stack w)) (lw_stack w') = lw_stack w \<and>
                         length (lw_stack w') = length (lw_stack w) + op_results op out
      | (LuaFail True, w') \<Rightarrow> (\<exists>err. lw_stack w' = lw_stack w @ [err]) \<and> lw_alloc w' = lw_alloc w
      | (LuaFail False, w') \<Rightarrow> w' = w)"

lemma gbind_simps [simp]:
  "gbind (Done (Fine x, w)) f = f x w" "gbind (Done (LuaFail b, w)) f = Done (LuaFail b, w)"
  "gbind (Panic m) f = Panic m" "gbind (UB m) f = UB m"
  by (simp_all add: gbind_def)

lemma lua_at_input: "lua_at (v # x # xs) 2 = x" "lua_at (v # x # y # ys) 3 = y"
  by (simp_all add: lua_at_def numeral_2_eq_2 numeral_3_eq_3)

lemma lua_next_results:
  assumes "lua_next t (s @ [k]) = Inr (found, s')"
  shows "length (if found then drop (length s' - 2) s' else []) = (if found then 2 else 0)"
  using assms by (auto simp: lua_next_def ebind_Inr_iff stack_simps split: option.splits)

text \<open>The frame of an operation: what \<open>dispatch\<close> returns has the announced number of results.\<close>

lemma dispatch_results:
  assumes "dispatch put op fr st = Done (Inr (results, out, st'))"
  shows "length results = op_results op out"
proof (cases op)
  case OpNext
  then obtain a found s' where next': "lua_next (fst st a) (lua_push fr (lua_at fr 3)) = Inr (found, s')"
    and r: "results = (if found then drop (length s' - 2) s' else [])" "out = OutMore found"
    using assms by (auto simp: dispatch_def with_table_def ebind_Inr_iff split: lua_value.splits)
  have "length results = (if found then 2 else 0)"
    unfolding r by (rule lua_next_results [of "fst st a" fr "lua_at fr 3"]) (use next' in \<open>simp add: lua_push_def\<close>)
  then show ?thesis using OpNext r(2) by (simp add: op_results_def)
qed (use assms in \<open>auto simp: dispatch_def with_table_def op_results_def store_at_def ebind_Inr_iff split: lua_value.splits option.splits\<close>)

lemma dispatch_runs:
  assumes "op_on_table op \<longrightarrow> is_table (lua_at fr 2)"
  shows "\<exists>r. dispatch put op fr st = Done r"
  using assms by (cases op) (auto simp: dispatch_def with_table_def op_on_table_def is_table_def split: lua_value.splits)

lemma protect_settled:
  assumes inputs: "op_on_table op \<longrightarrow> inputs \<noteq> [] \<and> is_table (lua_at (lw_stack w) (hd inputs))"
  shows "\<exists>r. protect put t op inputs w = Done r \<and> settled op w r"
proof -
  let ?fr = "LLightUserData 1 # map (lua_at (lw_stack w)) inputs"
  have "op_on_table op \<longrightarrow> is_table (lua_at ?fr 2)"
    using inputs by (cases inputs) (simp_all add: lua_at_input)
  then obtain r where run: "dispatch put op ?fr (lw_alloc w) = Done r" using dispatch_runs by blast
  show ?thesis
  proof (cases t)
    case NoTrouble
    show ?thesis
    proof (cases r)
      case (Inl m)
      then show ?thesis
        using run NoTrouble by (simp add: protect_def checkstack_def settled_def lua_push_def)
    next
      case (Inr x)
      then obtain results out st' where x: "r = Inr (results, out, st')" by (cases x) auto
      then show ?thesis
        using run NoTrouble dispatch_results [of put op ?fr "lw_alloc w" results out st']
        by (simp add: protect_def checkstack_def settled_def)
    qed
  qed (simp_all add: protect_def checkstack_def settled_def lua_push_def Let_def)
qed

section \<open>The contract of a single store\<close>

text \<open>
  What Lua documents of \<open>lua_rawset\<close> on a table, for a value that is not nil: the key has the new
  value, the other keys and the metatable are as before, the table stays a table.
\<close>

definition stores ::
  "(lua_tbl \<Rightarrow> lua_value \<Rightarrow> lua_value \<Rightarrow> lua_tbl) \<Rightarrow> (lua_value \<times> lua_value) list \<Rightarrow> lua_tbl \<Rightarrow> lua_tbl" where
  "stores put items t = foldl (\<lambda>t e. put t (fst e) (snd e)) t items"

lemma stores_simps [simp]:
  "stores put [] t = t" "stores put (e # items) t = stores put items (put t (fst e) (snd e))"
  by (simp_all add: stores_def)

abbreviation all_storable :: "(lua_value \<times> lua_value) list \<Rightarrow> bool" where
  "all_storable items \<equiv> list_all (\<lambda>x. plain_key (fst x) \<and> present (snd x)) items"

locale raw_store =
  fixes put :: "lua_tbl \<Rightarrow> lua_value \<Rightarrow> lua_value \<Rightarrow> lua_tbl"
  assumes put_ok: "table_ok t \<Longrightarrow> length (entries t) + 1 < 2 ^ 62 \<Longrightarrow> plain_key k \<Longrightarrow> present v \<Longrightarrow> table_ok (put t k v)"
    and put_find: "plain_key k \<Longrightarrow> present v \<Longrightarrow> map_of (entries (put t k v)) = (map_of (entries t))(k \<mapsto> v)"
    and put_metas: "metas (put t k v) = metas t"
    and put_length: "length (entries (put t k v)) \<le> length (entries t) + 1"
begin

lemma stores_ok:
  assumes "table_ok t" "all_storable items" "length (entries t) + length items < 2 ^ 62"
  shows "table_ok (stores put items t)"
  using assms
proof (induction items arbitrary: t)
  case (Cons e items)
  have "length (entries (put t (fst e) (snd e))) + length items < 2 ^ 62"
    using Cons.prems(3) put_length [of t "fst e" "snd e"] by simp
  then show ?case using Cons.prems by (simp add: Cons.IH put_ok)
qed simp

lemma stores_find:
  "all_storable items \<Longrightarrow> map_of (entries (stores put items t)) = map_of (entries t) ++ map_of (rev items)"
proof (induction items arbitrary: t)
  case (Cons e items)
  then show ?case by (cases e) (simp add: put_find map_add_def fun_eq_iff split: option.splits)
qed simp

lemma stores_metas: "metas (stores put items t) = metas t"
  by (induction items arbitrary: t) (simp_all add: put_metas)

lemma stores_layout_ok: "layout_ok (\<lambda>items. stores put items empty_table)"
  unfolding layout_ok_def
proof (intro allI impI)
  fix items
  assume items: "all_storable items \<and> length items < 2 ^ 62"
  have empty: "table_ok empty_table"
    by (simp add: table_ok_def empty_table_def is_border_def rawgeti_def rawget_def)
  have "table_ok (stores put items empty_table)"
    using items empty by (intro stores_ok) (simp_all add: empty_table_def)
  then show "table_ok (stores put items empty_table) \<and> metas (stores put items empty_table) = [] \<and>
      (\<forall>k. map_of (entries (stores put items empty_table)) k = map_of (rev items) k)"
    using items by (simp add: stores_metas stores_find) (simp add: empty_table_def)
qed

lemma get_put: "plain_key k \<Longrightarrow> present v \<Longrightarrow> rawget (put t k v) k' = (if k' = k then v else rawget t k')"
  by (simp add: rawget_def put_find)

end

text \<open>A store that satisfies it: the association list updated in place, the least border.\<close>

definition simple_put :: "lua_tbl \<Rightarrow> lua_value \<Rightarrow> lua_value \<Rightarrow> lua_tbl" where
  "simple_put t k v =
     (let t' = t\<lparr>entries := AList.update k v (entries t)\<rparr>
      in t'\<lparr>border := least_border t' (length (entries t'))\<rparr>)"

lemma length_update_le: "length (AList.update k v es) \<le> length es + 1"
  by (induction es) auto

lemma update_list_all:
  "list_all P es \<Longrightarrow> P (k, v) \<Longrightarrow> (\<And>v'. P (k, v') \<Longrightarrow> P (k, v)) \<Longrightarrow> list_all P (AList.update k v es)"
  by (induction es) auto

interpretation lua_store: raw_store simple_put
proof
  fix t :: lua_tbl and k v
  let ?t = "t\<lparr>entries := AList.update k v (entries t)\<rparr>"
  assume ok: "table_ok t" and size: "length (entries t) + 1 < 2 ^ 62" and kv: "plain_key k" "present v"
  have "card (fst ` set (entries ?t)) \<le> length (entries ?t)"
    using card_length [of "map fst (entries ?t)"] by simp
  then have "is_border ?t (least_border ?t (length (entries ?t)))"
    using size length_update_le [of k v "entries t"] by (intro least_border_is_border) simp_all
  then show "table_ok (simple_put t k v)"
    using ok kv
    by (auto simp: simple_put_def Let_def table_ok_def present_def plain_key_def distinct_update is_border_def
        rawgeti_border_irrelevant intro!: update_list_all)
qed (simp_all add: simple_put_def Let_def update_conv' length_update_le [simplified])

section \<open>Building a table\<close>

text \<open>A sequence of \<open>insert\<close>s on one output table.\<close>

fun output_fill ::
  "(lua_tbl \<Rightarrow> lua_value \<Rightarrow> lua_value \<Rightarrow> lua_tbl) \<Rightarrow> int \<Rightarrow> (sval \<times> sval) list \<Rightarrow> lua_world \<Rightarrow>
     (unit guarded \<times> lua_world) outcome" where
  "output_fill put index [] w = Done (Fine (), w)"
| "output_fill put index ((k, v) # items) w =
     gbind (output_insert put NoTrouble index k v w) (\<lambda>_ w. output_fill put index items w)"

definition output_build ::
  "(lua_tbl \<Rightarrow> lua_value \<Rightarrow> lua_value \<Rightarrow> lua_tbl) \<Rightarrow> (sval \<times> sval) list \<Rightarrow> lua_world \<Rightarrow>
     (unit guarded \<times> lua_world) outcome" where
  "output_build put items w =
     gbind (output_new put NoTrouble 0 (length items) w) (\<lambda>index w. output_fill put index items w)"

definition pushed_items :: "(sval \<times> sval) list \<Rightarrow> (lua_value \<times> lua_value) list" where
  "pushed_items items = map (\<lambda>(k, v). (push_raw k, push_raw v)) items"

definition world_with :: "lua_world \<Rightarrow> lua_tbl \<Rightarrow> lua_world" where
  "world_with w t =
     w\<lparr>lw_stack := lw_stack w @ [LTable (snd (lw_alloc w))],
       lw_alloc := ((fst (lw_alloc w))(snd (lw_alloc w) := t), snd (lw_alloc w) + 1)\<rparr>"

lemma lua_at_height [simp]: "lua_at (s @ [v]) (int (length s) + 1) = v"
  by (simp add: lua_at_def)

lemma push_raw_present [simp]: "present (push_raw v)"
  by (cases v) (simp_all add: present_def)

lemma pushed_items_simps [simp]:
  "pushed_items [] = []" "pushed_items ((k, v) # items) = (push_raw k, push_raw v) # pushed_items items"
  "length (pushed_items items) = length items"
  by (simp_all add: pushed_items_def)


lemma output_new_fine:
  "output_new put NoTrouble arr record' w =
     Done (Fine (int (length (lw_stack w)) + 1), world_with w empty_table)"
  by (simp add: output_new_def protect_def checkstack_def dispatch_def world_with_def lua_push_def)

lemma key_error_plain: "plain_key k \<Longrightarrow> key_error k = None"
  by (cases k) (simp_all add: key_error_def plain_key_def present_def)

lemma output_insert_fine:
  assumes "plain_key (push_raw k)"
  shows "output_insert put NoTrouble (int (length (lw_stack w)) + 1) k v (world_with w t) =
     Done (Fine OutNone, world_with w (put t (push_raw k) (push_raw v)))"
  by (simp add: output_insert_def protect_def checkstack_def dispatch_def with_table_def world_with_def
      lua_at_input lua_push_def store_at_def key_error_plain [OF assms])

lemma output_fill_fine:
  "list_all (\<lambda>e. plain_key (push_raw (fst e))) items \<Longrightarrow> output_fill put (int (length (lw_stack w)) + 1) items (world_with w t) =
     Done (Fine (), world_with w (stores put (pushed_items items) t))"
proof (induction items arbitrary: t)
  case Nil
  then show ?case by simp
next
  case (Cons e items)
  then show ?case by (cases e) (simp add: output_insert_fine)
qed

lemma output_build_fine:
  "list_all (\<lambda>e. plain_key (push_raw (fst e))) items \<Longrightarrow> output_build put items w = Done (Fine (), world_with w (stores put (pushed_items items) empty_table))"
  by (simp add: output_build_def output_new_fine output_fill_fine)

text \<open>
  C9. The tables the SQLx module builds one protected store at a time are the tables of the layout
  contract the decoders are verified against: whatever the Lua library's single store does within
  its documentation, the stores of a list of values under keys that are no floats leave exactly one new table on the
  stack, and the function from the list to that table satisfies \<open>layout_ok\<close>.
\<close>

theorem output_table_layout:
  assumes "raw_store put" and "list_all (\<lambda>e. plain_key (push_raw (fst e))) items"
  shows "layout_ok (\<lambda>items. stores put items empty_table) \<and>
     output_build put items w =
       Done (Fine (), w\<lparr>lw_stack := lw_stack w @ [LTable (snd (lw_alloc w))],
         lw_alloc := ((fst (lw_alloc w))(snd (lw_alloc w) := stores put (pushed_items items) empty_table),
                      snd (lw_alloc w) + 1)\<rparr>)"
  using raw_store.stores_layout_ok [OF assms(1)] output_build_fine [OF assms(2), of put w] by (simp add: world_with_def)

definition demo_world :: lua_world where
  "demo_world = \<lparr>lw_stack = [LBoolean True], lw_alloc = (\<lambda>_. empty_table, 7)\<rparr>"

theorem output_table_layout_witness:
  "layout_ok (\<lambda>items. stores simple_put items empty_table) \<and>
   output_build simple_put [(VBytes ''a'', VInteger 1), (VBytes ''a'', VInteger 2)] demo_world =
     Done (Fine (), demo_world\<lparr>lw_stack := [LBoolean True, LTable 7],
       lw_alloc := ((\<lambda>_. empty_table)(7 := \<lparr>entries = [(LString ''a'', LInteger 2)], border = 0, metas = []\<rparr>), 8)\<rparr>)"
  using output_table_layout [of simple_put "[(VBytes ''a'', VInteger 1), (VBytes ''a'', VInteger 2)]" demo_world]
    lua_store.raw_store_axioms
  by (simp add: plain_key_def present_def demo_world_def simple_put_def Let_def empty_table_def least_border_def rawgeti_def rawget_def int_key_def)

section \<open>Every entry answers\<close>

definition step_fails :: "trouble \<Rightarrow> lua_value \<Rightarrow> bool" where
  "step_fails t e \<longleftrightarrow> t = NoMemory e \<or> (t = NoRoom \<and> e = LString ''SQLx Lua stack exhausted'')"

text \<open>The answer to an error: the report, or the first trouble on the way to it.\<close>

definition error_reported :: "(nat \<Rightarrow> trouble) \<Rightarrow> string \<Rightarrow> lua_stack \<Rightarrow> entry_result \<times> lua_world \<Rightarrow> bool" where
  "error_reported tr m s r =
     (case r of
        (Returns n, w') \<Rightarrow> n = 1 \<and> (\<exists>a. lw_stack w' = s @ [LTable a] \<and>
          rawget (fst (lw_alloc w') a) (LString ''kind'') = LString ''ERROR'' \<and>
          rawget (fst (lw_alloc w') a) (LString ''message'') = LString m)
      | (Raises e, w') \<Rightarrow> (\<exists>k<3. step_fails (tr k) e \<and> (\<forall>j<k. tr j = NoTrouble)))"

lemma output_new_trouble:
  "output_new put t arr record' w =
     (case t of
        NoTrouble \<Rightarrow> Done (Fine (int (length (lw_stack w)) + 1), world_with w empty_table)
      | NoRoom \<Rightarrow> Done (LuaFail False, w)
      | NoMemory e \<Rightarrow> Done (LuaFail True, w\<lparr>lw_stack := lw_stack w @ [e]\<rparr>))"
  by (cases t) (simp_all add: output_new_fine, simp_all add: output_new_def protect_def checkstack_def Let_def lua_push_def)

lemma output_insert_trouble:
  "plain_key (push_raw k) \<Longrightarrow> output_insert put t (int (length (lw_stack w)) + 1) k v (world_with w tb) =
     (case t of
        NoTrouble \<Rightarrow> Done (Fine OutNone, world_with w (put tb (push_raw k) (push_raw v)))
      | NoRoom \<Rightarrow> Done (LuaFail False, world_with w tb)
      | NoMemory e \<Rightarrow> Done (LuaFail True, (world_with w tb)\<lparr>lw_stack := lw_stack (world_with w tb) @ [e]\<rparr>))"
  by (cases t) (simp_all add: output_insert_fine, simp_all add: output_insert_def protect_def checkstack_def Let_def lua_push_def)

lemma step_fails_simps [simp]:
  "step_fails (NoMemory e) x \<longleftrightarrow> x = e" "step_fails NoRoom x \<longleftrightarrow> x = LString ''SQLx Lua stack exhausted''"
  "\<not> step_fails NoTrouble x"
  by (auto simp: step_fails_def)

lemma less_3_ex: "(\<exists>k<3. P k) \<longleftrightarrow> P 0 \<or> P 1 \<or> P (2::nat)"
  by (auto simp: numeral_3_eq_3 less_Suc_eq numeral_2_eq_2)

lemma less_2_all: "(\<forall>j<2. P j) \<longleftrightarrow> P 0 \<and> P (1::nat)"
  by (auto simp: numeral_2_eq_2 less_Suc_eq)

lemma string_key: "plain_key (LString s)"
  by (simp add: plain_key_def present_def)

lemma error_report_reported:
  assumes "raw_store put"
  shows "\<exists>r. report_end (error_report put tr m w) = Done r \<and> error_reported tr m (lw_stack w) r"
proof -
  let ?t = "put (put empty_table (LString ''kind'') (LString ''ERROR'')) (LString ''message'') (LString m)"
  have get: "rawget ?t (LString ''kind'') = LString ''ERROR''" "rawget ?t (LString ''message'') = LString m"
    using raw_store.get_put [OF assms] by (simp_all add: plain_key_def present_def)
  show ?thesis
    using get
    by (cases "tr 0"; cases "tr 1"; cases "tr 2")
      (simp_all add: error_report_def output_new_trouble output_insert_trouble string_key report_end_def rethrow_def
        error_reported_def less_3_ex less_2_all, simp_all add: world_with_def)
qed

text \<open>
  C26. An entry of the module whose body fails or panics still answers, whatever it left on the
  stack above the arguments: it returns one table \<open>{kind = "ERROR", message = ...}\<close> in place of
  everything it had pushed, or, when building that table fails too, raises the memory error of the
  first step that failed, or the stack error.
\<close>

theorem run_entry_answers:
  assumes "raw_store put"
    and "entry w0 = (EntryErr m, w) \<or> (entry w0 = (EntryPanic, w) \<and> m = panic_message)"
    and "take (length (lw_stack w0)) (lw_stack w) = lw_stack w0"
  shows "\<exists>r. run_entry put True tr entry w0 = Done r \<and> error_reported tr m (lw_stack w0) r"
proof -
  have keep: "lua_settop (lw_stack w) (length (lw_stack w0)) = lw_stack w0"
  proof -
    have "length (lw_stack w0) \<le> length (lw_stack w)"
      using arg_cong [OF assms(3), of length] by simp
    then show ?thesis using assms(3) by (simp add: lua_settop_def)
  qed
  show ?thesis
    using assms(2) error_report_reported [OF assms(1), of tr m "w\<lparr>lw_stack := lw_stack w0\<rparr>"]
    by (auto simp: run_entry_def Let_def keep)
qed

definition demo_failing :: "lua_world \<Rightarrow> entry_end \<times> lua_world" where
  "demo_failing w = (EntryErr ''bad'', w\<lparr>lw_stack := lw_stack w @ [LNil, LNil]\<rparr>)"

theorem run_entry_answers_witness:
  "\<exists>r. run_entry simple_put True (\<lambda>_. NoTrouble) demo_failing demo_world = Done r \<and>
     error_reported (\<lambda>_. NoTrouble) ''bad'' [LBoolean True] r"
  using run_entry_answers [OF lua_store.raw_store_axioms, of demo_failing demo_world "''bad''" "demo_world\<lparr>lw_stack := [LBoolean True, LNil, LNil]\<rparr>" "\<lambda>_. NoTrouble"]
  by (simp add: demo_failing_def demo_world_def)

text \<open>
  \<open>protect\<close> isolates the stack: an operation that succeeds leaves exactly its results above the
  old stack; one that fails leaves the old stack with the error on top and changes no table, or
  changes nothing when there was no room. The operations on tables are given a table.
\<close>

theorem protect_isolates:
  assumes "op_on_table op \<longrightarrow> inputs \<noteq> [] \<and> is_table (lua_at (lw_stack w) (hd inputs))"
  shows "\<exists>r. protect put t op inputs w = Done r \<and> settled op w r"
  using assms by (rule protect_settled)

theorem protect_isolates_witness:
  "\<exists>r. protect simple_put NoTrouble (OpGet (VBytes ''x'')) [-1] \<lparr>lw_stack = [LTable 3], lw_alloc = (\<lambda>_. empty_table, 7)\<rparr> = Done r \<and>
     settled (OpGet (VBytes ''x'')) \<lparr>lw_stack = [LTable 3], lw_alloc = (\<lambda>_. empty_table, 7)\<rparr> r"
  by (rule protect_isolates) (simp add: is_table_def lua_at_def)

section \<open>The views restore the stack\<close>

fun pairs_calls ::
  "(lua_tbl \<Rightarrow> lua_value \<Rightarrow> lua_value \<Rightarrow> lua_tbl) \<Rightarrow> int \<Rightarrow> nat \<Rightarrow> pairs_view \<Rightarrow> lua_world \<Rightarrow>
     (((lua_value \<times> lua_value) list \<times> pairs_view) guarded \<times> lua_world) outcome" where
  "pairs_calls put index 0 pv w = Done (Fine ([], pv), w)"
| "pairs_calls put index (Suc n) pv w =
     gbind (pairs_next put NoTrouble index pv w) (\<lambda>(item, pv) w.
       case item of None \<Rightarrow> Done (Fine ([], pv), w)
       | Some e \<Rightarrow> gbind (pairs_calls put index n pv w) (\<lambda>(es, pv) w. Done (Fine (e # es, pv), w)))"

text \<open>A whole traversal: the view is made, asked \<open>n\<close> times and dropped.\<close>

definition pairs_view_of ::
  "(lua_tbl \<Rightarrow> lua_value \<Rightarrow> lua_value \<Rightarrow> lua_tbl) \<Rightarrow> int \<Rightarrow> nat \<Rightarrow> lua_world \<Rightarrow>
     ((lua_value \<times> lua_value) list guarded \<times> lua_world) outcome" where
  "pairs_view_of put index n w =
     gbind (pairs_new NoTrouble w) (\<lambda>pv w. gbind (pairs_calls put index n pv w) (\<lambda>(es, pv) w.
       Done (Fine es, scope_drop (pv_top pv) False w)))"

fun values_calls :: "nat \<Rightarrow> nat \<Rightarrow> values_view \<Rightarrow> lua_world \<Rightarrow> (lua_value list \<times> values_view) \<times> lua_world" where
  "values_calls a 0 vv w = (([], vv), w)"
| "values_calls a (Suc n) vv w =
     (case values_next a vv w of
        ((None, vv), w) \<Rightarrow> (([], vv), w)
      | ((Some v, vv), w) \<Rightarrow> (case values_calls a n vv w of ((vs, vv), w) \<Rightarrow> ((v # vs, vv), w)))"

definition values_view_of :: "nat \<Rightarrow> nat \<Rightarrow> nat \<Rightarrow> lua_world \<Rightarrow> (lua_value list guarded \<times> lua_world) outcome" where
  "values_view_of a len n w =
     gbind (values_new NoTrouble len w) (\<lambda>vv w.
       case values_calls a n vv w of ((vs, vv), w) \<Rightarrow> Done (Fine vs, scope_drop (vv_top vv) False w))"

lemma lua_at_prefix: "0 < i \<Longrightarrow> i \<le> int (length s) \<Longrightarrow> lua_at (s @ s') i = lua_at s i"
  by (auto simp: lua_at_def nth_append Let_def nat_less_iff)

lemma settop_append [simp]:
  "lua_settop (s @ s') (length s) = s" "lua_settop (s @ k # s') (Suc (length s)) = s @ [k]"
  by (simp_all add: lua_settop_def)

lemma settop_same [simp]: "lua_settop s (length s) = s"
  by (simp add: lua_settop_def)

lemma lua_remove_above [simp]: "lua_remove (s @ k # s') (Suc (length s)) = s @ s'"
  by (simp add: lua_remove_def)

text \<open>One step of the view from the key \<open>k\<close> left on the stack.\<close>

lemma pairs_next_step:
  assumes nx: "\<And>s. lua_next t (s @ [k]) =
      (case post of [] \<Rightarrow> Inr (False, s) | (k', v') # _ \<Rightarrow> Inr (True, s @ [k', v']))"
    and a: "lua_at s index = LTable a" "0 < index" "index \<le> int (length s)" and t: "fst al a = t"
  shows "pairs_next put NoTrouble index \<lparr>pv_top = length s, pv_done = False\<rparr>
       \<lparr>lw_stack = s @ k # junk, lw_alloc = al\<rparr> =
     (case post of
        [] \<Rightarrow> Done (Fine (None, \<lparr>pv_top = length s, pv_done = True\<rparr>), \<lparr>lw_stack = s @ [k], lw_alloc = al\<rparr>)
      | (k', v') # _ \<Rightarrow> Done (Fine (Some (k', v'), \<lparr>pv_top = length s, pv_done = False\<rparr>),
                                \<lparr>lw_stack = s @ [k', v'], lw_alloc = al\<rparr>))"
proof -
  have at: "lua_at (s @ [k]) index = LTable a" using a by (simp add: lua_at_prefix)
  show ?thesis
    using nx [of "[LLightUserData 1, LTable a, k]"]
    by (cases post)
      (auto simp: pairs_next_def protect_def checkstack_def dispatch_def with_table_def at t lua_at_input
        lua_push_def Let_def)
qed

lemma pairs_calls_from:
  assumes d: "distinct (map fst (entries t))" "list_all (\<lambda>e. fst e \<noteq> LNil) (entries t)"
    and a: "lua_at s index = LTable a" "0 < index" "index \<le> int (length s)" and t: "fst al a = t"
  shows "entries t = pre @ (k, v) # post \<Longrightarrow>
     \<exists>rest d. pairs_calls put index n \<lparr>pv_top = length s, pv_done = False\<rparr> \<lparr>lw_stack = s @ k # junk, lw_alloc = al\<rparr> =
       Done (Fine (take n post, \<lparr>pv_top = length s, pv_done = d\<rparr>), \<lparr>lw_stack = s @ rest, lw_alloc = al\<rparr>)"
proof (induction n arbitrary: pre k v post junk)
  case 0
  then show ?case by (simp add: ex_bool_eq)
next
  case (Suc n)
  have k: "k \<noteq> LNil" using d(2) Suc.prems by simp
  have nx: "lua_next t (s @ [k]) =
      (case post of [] \<Rightarrow> Inr (False, s) | (k', v') # _ \<Rightarrow> Inr (True, s @ [k', v']))" for s
    using lua_next_step [OF _ k Suc.prems, of s] d(1) Suc.prems by simp
  note step = pairs_next_step [OF nx a t]
  show ?case
  proof (cases post)
    case Nil
    then show ?thesis using step by (simp add: ex_bool_eq)
  next
    case (Cons e post')
    obtain k' v' where e: "e = (k', v')" by (cases e)
    then have "entries t = (pre @ [(k, v)]) @ (k', v') # post'" using Suc.prems Cons by simp
    from Suc.IH [OF this] obtain rest d where
      "pairs_calls put index n \<lparr>pv_top = length s, pv_done = False\<rparr> \<lparr>lw_stack = s @ [k', v'], lw_alloc = al\<rparr> =
         Done (Fine (take n post', \<lparr>pv_top = length s, pv_done = d\<rparr>), \<lparr>lw_stack = s @ rest, lw_alloc = al\<rparr>)"
      by blast
    then show ?thesis using step Cons e by simp
  qed
qed

lemma pairs_view_entries:
  assumes ok: "table_ok (fst (lw_alloc w) a)"
    and a: "lua_at (lw_stack w) index = LTable a" "0 < index" "index \<le> int (length (lw_stack w))"
  shows "pairs_view_of put index n w = Done (Fine (take n (entries (fst (lw_alloc w) a))), w)"
proof -
  let ?s = "lw_stack w" and ?t = "fst (lw_alloc w) a"
  have d: "distinct (map fst (entries ?t))" "list_all (\<lambda>e. fst e \<noteq> LNil) (entries ?t)"
    using ok by (auto simp: table_ok_def list_all_iff)
  have nx: "lua_next ?t (s @ [LNil]) =
      (case entries ?t of [] \<Rightarrow> Inr (False, s) | (k', v') # _ \<Rightarrow> Inr (True, s @ [k', v']))" for s
    by (rule lua_next_nil)
  note step = pairs_next_step [OF nx a refl, where junk = "[]"]
  have "\<exists>rest d. pairs_calls put index n \<lparr>pv_top = length ?s, pv_done = False\<rparr> \<lparr>lw_stack = ?s @ [LNil], lw_alloc = lw_alloc w\<rparr> =
       Done (Fine (take n (entries ?t), \<lparr>pv_top = length ?s, pv_done = d\<rparr>), \<lparr>lw_stack = ?s @ rest, lw_alloc = lw_alloc w\<rparr>)"
  proof (cases n)
    case (Suc m)
    show ?thesis
    proof (cases "entries ?t")
      case (Cons e post)
      obtain k v where e: "e = (k, v)" by (cases e)
      from pairs_calls_from [OF d a refl, of "[]" k v post put m "[v]"] Cons e
      obtain rest d where "pairs_calls put index m \<lparr>pv_top = length ?s, pv_done = False\<rparr> \<lparr>lw_stack = ?s @ [k, v], lw_alloc = lw_alloc w\<rparr> =
         Done (Fine (take m post, \<lparr>pv_top = length ?s, pv_done = d\<rparr>), \<lparr>lw_stack = ?s @ rest, lw_alloc = lw_alloc w\<rparr>)"
        by auto
      then show ?thesis using step Suc Cons e by simp
    qed (use step Suc in \<open>simp add: ex_bool_eq\<close>)
  qed (simp add: ex_bool_eq)
  then show ?thesis
    by (auto simp: pairs_view_of_def pairs_new_def checkstack_def lua_push_def scope_drop_def)
      (cases w, auto)+
qed

lemma values_next_step:
  "values_next a \<lparr>vv_top = length s, vv_position = p, vv_len = len\<rparr> \<lparr>lw_stack = s @ junk, lw_alloc = al\<rparr> =
     (if p = len then ((None, \<lparr>vv_top = length s, vv_position = p, vv_len = len\<rparr>), \<lparr>lw_stack = s, lw_alloc = al\<rparr>)
      else ((Some (rawgeti (fst al a) (Suc p)), \<lparr>vv_top = length s, vv_position = Suc p, vv_len = len\<rparr>),
            \<lparr>lw_stack = s @ [rawgeti (fst al a) (Suc p)], lw_alloc = al\<rparr>))"
  by (simp add: values_next_def lua_push_def Let_def)

lemma values_calls_from:
  assumes "p \<le> len"
  shows "\<exists>rest vv. values_calls a n \<lparr>vv_top = length s, vv_position = p, vv_len = len\<rparr> \<lparr>lw_stack = s @ junk, lw_alloc = al\<rparr> =
     ((map (rawgeti (fst al a)) [Suc p..<Suc (min len (p + n))], vv), \<lparr>lw_stack = s @ rest, lw_alloc = al\<rparr>) \<and>
     vv_top vv = length s"
  using assms
proof (induction n arbitrary: p junk)
  case 0
  then show ?case by auto
next
  case (Suc n)
  show ?case
  proof (cases "p = len")
    case True
    then show ?thesis by (simp add: values_next_step)
  next
    case False
    then have p: "Suc p \<le> len" using Suc.prems by simp
    obtain rest vv where "values_calls a n \<lparr>vv_top = length s, vv_position = Suc p, vv_len = len\<rparr>
          \<lparr>lw_stack = s @ [rawgeti (fst al a) (Suc p)], lw_alloc = al\<rparr> =
        ((map (rawgeti (fst al a)) [Suc (Suc p)..<Suc (min len (Suc p + n))], vv), \<lparr>lw_stack = s @ rest, lw_alloc = al\<rparr>)"
      "vv_top vv = length s"
      using Suc.IH [OF p] by blast
    moreover have "[Suc p..<Suc (min len (p + Suc n))] = Suc p # [Suc (Suc p)..<Suc (min len (Suc p + n))]"
      using p by (subst upt_conv_Cons) simp_all
    ultimately show ?thesis using False by (simp add: values_next_step)
  qed
qed

lemma values_view_elements:
  "values_view_of a len n w = Done (Fine (take n (array_values (fst (lw_alloc w) a) len)), w)"
proof -
  have take: "take n [1..<Suc len] = [1..<Suc (min len n)]" by (simp add: take_upt min_def)
  have w: "\<lparr>lw_stack = lw_stack w, lw_alloc = lw_alloc w\<rparr> = w" by (cases w) simp
  show ?thesis
    using values_calls_from [of 0 len a n "lw_stack w" "[]" "lw_alloc w"] take
    by (auto simp: w values_view_of_def values_new_def checkstack_def scope_drop_def array_values_def take_map
        simp del: upt_Suc)
qed

text \<open>
  C27. Reading a parameter table through a view is reading the table: asked \<open>n\<close> times, \<open>pairs\<close>
  yields the first \<open>n\<close> entries in the order of \<open>lua_next\<close> and \<open>values\<close> the first \<open>n\<close> of the
  elements 1 to \<open>len\<close>, and when the view is dropped, however early, the stack is exactly as it was.
\<close>

theorem views_restore_stack:
  assumes "table_ok (fst (lw_alloc w) a)"
    and "lua_at (lw_stack w) index = LTable a" "0 < index" "index \<le> int (length (lw_stack w))"
  shows "pairs_view_of put index n w = Done (Fine (take n (entries (fst (lw_alloc w) a))), w) \<and>
     values_view_of a len n w = Done (Fine (take n (map (rawgeti (fst (lw_alloc w) a)) [1..<Suc len])), w)"
  using pairs_view_entries [OF assms] values_view_elements by (simp add: array_values_def)

theorem views_restore_stack_witness:
  "pairs_view_of simple_put 2 1 \<lparr>lw_stack = [LNil, LTable 3], lw_alloc = (\<lambda>_. demo_table, 7)\<rparr> =
     Done (Fine (take 1 (entries demo_table)), \<lparr>lw_stack = [LNil, LTable 3], lw_alloc = (\<lambda>_. demo_table, 7)\<rparr>) \<and>
   values_view_of 3 2 9 \<lparr>lw_stack = [LNil, LTable 3], lw_alloc = (\<lambda>_. demo_table, 7)\<rparr> =
     Done (Fine (map (rawgeti demo_table) [1, 2]), \<lparr>lw_stack = [LNil, LTable 3], lw_alloc = (\<lambda>_. demo_table, 7)\<rparr>)"
  using views_restore_stack [of "\<lparr>lw_stack = [LNil, LTable 3], lw_alloc = (\<lambda>_. demo_table, 7)\<rparr>" 3 2 simple_put 1 2]
    views_restore_stack [of "\<lparr>lw_stack = [LNil, LTable 3], lw_alloc = (\<lambda>_. demo_table, 7)\<rparr>" 3 2 simple_put 9 2]
    demo_table_ok
  by (simp add: lua_at_def upt_rec numeral_2_eq_2)

end
