(* ===== verification/LuaStack.thy ===== *)
theory LuaStack
  imports SqlxLua SqlxDecode
begin

text \<open>
  The typed access of \<open>crates/libs/lib-lua-sys/src/laux.rs\<close>: the trait \<open>LuaStack\<close> for each Rust type
  (checked, unchecked and optional reading, pushing) and \<open>LuaTable\<close>, a table known by its position on
  the stack. What the Lua library converts (numeric strings, integral floats) is the argument
  \<open>lua_api\<close>; running out of memory inside Lua is left out here (it is modelled in \<open>SqlxLua\<close>).
\<close>

section \<open>Reading and pushing\<close>

text \<open>
  \<open>lua_tointegerx\<close>, \<open>lua_tonumberx\<close> and the text \<open>lua_tolstring\<close> gives a string or a number. The
  size of a full userdata is \<open>la_size\<close>.
\<close>

record lua_api =
  la_integer :: "lua_value \<Rightarrow> i64 option"
  la_number :: "lua_value \<Rightarrow> f64 option"
  la_text :: "lua_value \<Rightarrow> bytes option"
  la_size :: "u64 \<Rightarrow> nat"

definition lua_api_ok :: "lua_api \<Rightarrow> bool" where
  "lua_api_ok la \<longleftrightarrow> (\<forall>n. la_integer la (LInteger n) = Some n) \<and> (\<forall>x. la_number la (LNumber x) = Some x) \<and>
     (\<forall>s. la_text la (LString s) = Some s)"

definition unchecked_integer_as :: "lua_api \<Rightarrow> lua_value \<Rightarrow> 'w::len word" where
  "unchecked_integer_as la v = ucast (case la_integer la v of Some i \<Rightarrow> i | None \<Rightarrow> 0)"

definition checked_number :: "lua_api \<Rightarrow> lua_value \<Rightarrow> string + f64" where
  "checked_number la v = (case la_number la v of Some x \<Rightarrow> Inr x | None \<Rightarrow> Inl ''number expected'')"

definition unchecked_number :: "lua_api \<Rightarrow> lua_value \<Rightarrow> f64" where
  "unchecked_number la v = (case la_number la v of Some x \<Rightarrow> x | None \<Rightarrow> 0)"

definition opt_number :: "lua_api \<Rightarrow> lua_value \<Rightarrow> f64 option" where
  "opt_number la v = la_number la v"

fun unchecked_bool :: "lua_value \<Rightarrow> bool" where
  "unchecked_bool LNone = False"
| "unchecked_bool LNil = False"
| "unchecked_bool (LBoolean b) = b"
| "unchecked_bool _ = True"

text \<open>
  Reading bytes through \<open>lua_tolstring\<close> replaces a number on the stack by its text. A value that is
  neither is a Lua error when checked; unchecked, a slice is made from a null pointer.
\<close>

definition abs_index :: "lua_stack \<Rightarrow> int \<Rightarrow> int" where
  "abs_index s i = (if 0 < i then i else int (length s) + i + 1)"

definition text_in_place :: "lua_stack \<Rightarrow> int \<Rightarrow> bytes \<Rightarrow> lua_stack" where
  "text_in_place s i t = s[nat (abs_index s i - 1) := LString t]"

definition checked_bytes :: "lua_api \<Rightarrow> lua_stack \<Rightarrow> int \<Rightarrow> (string + bytes) \<times> lua_stack" where
  "checked_bytes la s i =
     (case la_text la (lua_at s i) of
        Some t \<Rightarrow> (Inr t, text_in_place s i t)
      | None \<Rightarrow> (Inl ''string expected'', s))"

definition unchecked_bytes :: "lua_api \<Rightarrow> lua_stack \<Rightarrow> int \<Rightarrow> (bytes \<times> lua_stack) outcome" where
  "unchecked_bytes la s i =
     (case la_text la (lua_at s i) of
        Some t \<Rightarrow> Done (t, text_in_place s i t)
      | None \<Rightarrow> UB ''slice from a null pointer'')"

definition checked_string :: "lua_api \<Rightarrow> lua_stack \<Rightarrow> int \<Rightarrow> (string + string) \<times> lua_stack" where
  "checked_string la s i =
     (case checked_bytes la s i of (r, s') \<Rightarrow> (ebind r (\<lambda>t. Inr (utf8_lossy t)), s'))"

definition unchecked_string :: "lua_api \<Rightarrow> lua_stack \<Rightarrow> int \<Rightarrow> (string \<times> lua_stack) outcome" where
  "unchecked_string la s i = obind (unchecked_bytes la s i) (\<lambda>(t, s'). Done (utf8_lossy t, s'))"

definition opt_string :: "lua_value \<Rightarrow> string option" where
  "opt_string v = map_option utf8_lossy (opt_bytes v)"

definition checked_nil :: "lua_value \<Rightarrow> string + unit" where
  "checked_nil v = (if v = LNil then Inr () else Inl ''nil expected'')"

definition opt_nil :: "lua_value \<Rightarrow> unit option" where
  "opt_nil v = (if v = LNil then Some () else None)"

text \<open>\<open>f32\<close> is read and pushed through Lua's \<open>f64\<close>.\<close>

definition checked_f32 :: "lua_api \<Rightarrow> lua_value \<Rightarrow> string + f32" where
  "checked_f32 la v = ebind (checked_number la v) (\<lambda>x. Inr (f64_to_f32 x))"

definition unchecked_f32 :: "lua_api \<Rightarrow> lua_value \<Rightarrow> f32" where
  "unchecked_f32 la v = f64_to_f32 (unchecked_number la v)"

definition opt_f32 :: "lua_api \<Rightarrow> lua_value \<Rightarrow> f32 option" where
  "opt_f32 la v = map_option f64_to_f32 (opt_number la v)"

definition push_f32 :: "f32 \<Rightarrow> lua_value" where
  "push_f32 x = LNumber (f32_to_f64 x)"

text \<open>
  \<open>LuaValue::from_stack\<close> asks for the type and converts without a check. That it reads exactly the value is
  why the model takes \<open>lua_at\<close> for it.
\<close>

definition value_from_stack :: "lua_api \<Rightarrow> lua_stack \<Rightarrow> int \<Rightarrow> (lua_value \<times> lua_stack) outcome" where
  "value_from_stack la s i =
     (let v = lua_at s i in
      case lua_type v of
        TNone \<Rightarrow> Done (LNone, s)
      | TNil \<Rightarrow> Done (LNil, s)
      | TBoolean \<Rightarrow> Done (LBoolean (unchecked_bool v), s)
      | TNumber \<Rightarrow> Done (LNumber (unchecked_number la v), s)
      | TInteger \<Rightarrow> Done (LInteger (unchecked_integer_as la v), s)
      | TString \<Rightarrow> obind (unchecked_bytes la s i) (\<lambda>(t, s'). Done (LString t, s'))
      | _ \<Rightarrow> Done (v, s))"

lemma text_in_place_same: "lua_at s i = LString t \<Longrightarrow> text_in_place s i t = s"
  by (auto simp: lua_at_def text_in_place_def abs_index_def Let_def split: if_splits intro: list_update_same_conv [THEN iffD2])

lemma value_from_stack_at: "lua_api_ok la \<Longrightarrow> value_from_stack la s i = Done (lua_at s i, s)"
  by (cases "lua_at s i")
    (simp_all add: value_from_stack_def lua_api_ok_def unchecked_number_def unchecked_integer_as_def unchecked_bytes_def
      text_in_place_same)

section \<open>Tables on the stack\<close>

text \<open>\<open>LuaTable\<close>: the absolute index of the table, and the position \<open>push\<close> has reached.\<close>

record table_h =
  th_index :: int
  th_pos :: u32

definition checked_table :: "lua_stack \<Rightarrow> int \<Rightarrow> string + table_h" where
  "checked_table s i =
     (if is_table (lua_at s i) then Inr \<lparr>th_index = abs_index s i, th_pos = 0\<rparr> else Inl ''table expected'')"

definition table_from_stack :: "lua_stack \<Rightarrow> int \<Rightarrow> table_h" where
  "table_from_stack s i = \<lparr>th_index = abs_index s i, th_pos = 0\<rparr>"

definition opt_table :: "lua_stack \<Rightarrow> int \<Rightarrow> table_h option" where
  "opt_table s i = (if lua_type (lua_at s i) \<noteq> TTable then None else Some (table_from_stack s i))"

definition lua_rawlen :: "lua_api \<Rightarrow> lua_world \<Rightarrow> int \<Rightarrow> nat" where
  "lua_rawlen la w i =
     (case lua_at (lw_stack w) i of
        LTable a \<Rightarrow> border (fst (lw_alloc w) a) | LString s \<Rightarrow> length s | LUserData p \<Rightarrow> la_size la p | _ \<Rightarrow> 0)"

definition table_new :: "lua_world \<Rightarrow> table_h \<times> lua_world" where
  "table_new w =
     (let w' = world_with w empty_table
      in (\<lparr>th_index = int (length (lw_stack w')), th_pos = 0\<rparr>, w'))"

definition array_from_stack :: "lua_api \<Rightarrow> lua_world \<Rightarrow> int \<Rightarrow> table_h" where
  "array_from_stack la w i =
     \<lparr>th_index = abs_index (lw_stack w) i, th_pos = word_of_nat (lua_rawlen la w i)\<rparr>"

definition table_len :: "lua_api \<Rightarrow> table_h \<Rightarrow> lua_world \<Rightarrow> nat" where
  "table_len la h w = lua_rawlen la w (th_index h)"

definition table_is_empty :: "lua_api \<Rightarrow> table_h \<Rightarrow> lua_world \<Rightarrow> bool" where
  "table_is_empty la h w \<longleftrightarrow> table_len la h w = 0"

text \<open>
  What is pushed for a value: nothing for a \<open>LuaTable\<close>, which stands for a table already on the stack.
\<close>

type_synonym pushable = "lua_value option"

definition push_value :: "pushable \<Rightarrow> lua_world \<Rightarrow> lua_world" where
  "push_value v w = (case v of None \<Rightarrow> w | Some v \<Rightarrow> w\<lparr>lw_stack := lua_push (lw_stack w) v\<rparr>)"

text \<open>\<open>lua_rawset\<close> and \<open>lua_rawseti\<close>: the value is on top; nil and NaN are no keys.\<close>

definition lua_rawset ::
  "(lua_tbl \<Rightarrow> lua_value \<Rightarrow> lua_value \<Rightarrow> lua_tbl) \<Rightarrow> lua_world \<Rightarrow> int \<Rightarrow> (string + lua_world) outcome" where
  "lua_rawset put w i =
     with_table [LNil, lua_at (lw_stack w) i] (\<lambda>a.
       let k = lua_at (lw_stack w) (-2); v = lua_at (lw_stack w) (-1) in
       case key_error k of
         Some m \<Rightarrow> Done (Inl m)
       | None \<Rightarrow> Done (Inr \<lparr>lw_stack = lua_pop (lw_stack w) 2,
                       lw_alloc = ((fst (lw_alloc w))(a := put (fst (lw_alloc w) a) k v), snd (lw_alloc w))\<rparr>))"

definition lua_rawseti ::
  "(lua_tbl \<Rightarrow> lua_value \<Rightarrow> lua_value \<Rightarrow> lua_tbl) \<Rightarrow> lua_world \<Rightarrow> int \<Rightarrow> i64 \<Rightarrow> (string + lua_world) outcome" where
  "lua_rawseti put w i n =
     with_table [LNil, lua_at (lw_stack w) i] (\<lambda>a.
       Done (Inr \<lparr>lw_stack = lua_pop (lw_stack w) 1,
                  lw_alloc = ((fst (lw_alloc w))(a := put (fst (lw_alloc w) a) (LInteger n) (lua_at (lw_stack w) (-1))),
                              snd (lw_alloc w))\<rparr>))"

definition table_insert ::
  "(lua_tbl \<Rightarrow> lua_value \<Rightarrow> lua_value \<Rightarrow> lua_tbl) \<Rightarrow> table_h \<Rightarrow> pushable \<Rightarrow> pushable \<Rightarrow> lua_world \<Rightarrow>
     (string + lua_world) outcome" where
  "table_insert put h k v w = lua_rawset put (push_value v (push_value k w)) (th_index h)"

definition table_push ::
  "(lua_tbl \<Rightarrow> lua_value \<Rightarrow> lua_value \<Rightarrow> lua_tbl) \<Rightarrow> table_h \<Rightarrow> pushable \<Rightarrow> lua_world \<Rightarrow>
     (string + table_h \<times> lua_world) outcome" where
  "table_push put h v w =
     (let h' = h\<lparr>th_pos := th_pos h + 1\<rparr>
      in rbind (lua_rawseti put (push_value v w) (th_index h) (ucast (th_pos h'))) (\<lambda>w. Done (Inr (h', w))))"

text \<open>The position is not advanced.\<close>

definition table_push_table ::
  "(lua_tbl \<Rightarrow> lua_value \<Rightarrow> lua_value \<Rightarrow> lua_tbl) \<Rightarrow> table_h \<Rightarrow> lua_world \<Rightarrow> (string + table_h \<times> lua_world) outcome" where
  "table_push_table put h w =
     rbind (lua_rawseti put w (th_index h) (ucast (th_pos h))) (\<lambda>w. Done (Inr (h, w)))"

definition table_rawseti ::
  "(lua_tbl \<Rightarrow> lua_value \<Rightarrow> lua_value \<Rightarrow> lua_tbl) \<Rightarrow> table_h \<Rightarrow> nat \<Rightarrow> lua_world \<Rightarrow> (string + lua_world) outcome" where
  "table_rawseti put h n w = lua_rawseti put w (th_index h) (word_of_nat n)"

definition insert_from_stack ::
  "(lua_tbl \<Rightarrow> lua_value \<Rightarrow> lua_value \<Rightarrow> lua_tbl) \<Rightarrow> table_h \<Rightarrow> lua_world \<Rightarrow> (string + lua_world) outcome" where
  "insert_from_stack put h w = lua_rawset put w (th_index h)"

definition table_insert_x ::
  "(lua_tbl \<Rightarrow> lua_value \<Rightarrow> lua_value \<Rightarrow> lua_tbl) \<Rightarrow> table_h \<Rightarrow> pushable \<Rightarrow> (lua_world \<Rightarrow> lua_world) \<Rightarrow> lua_world \<Rightarrow>
     (string + lua_world) outcome" where
  "table_insert_x put h k f w = lua_rawset put (f (push_value k w)) (th_index h)"

text \<open>A \<open>LuaScopeValue\<close> leaves its value on the stack until it is dropped.\<close>

definition table_rawget :: "table_h \<Rightarrow> pushable \<Rightarrow> lua_world \<Rightarrow> (lua_value \<times> lua_world) outcome" where
  "table_rawget h k w =
     with_table [LNil, lua_at (lw_stack w) (th_index h)] (\<lambda>a.
       let w1 = push_value k w;
           v = rawget (fst (lw_alloc w) a) (lua_at (lw_stack w1) (-1))
       in Done (v, w1\<lparr>lw_stack := lua_push (lua_pop (lw_stack w1) 1) v\<rparr>))"

definition table_getmetafield :: "table_h \<Rightarrow> string \<Rightarrow> lua_world \<Rightarrow> (lua_value option \<times> lua_world) outcome" where
  "table_getmetafield h name w =
     with_table [LNil, lua_at (lw_stack w) (th_index h)] (\<lambda>a.
       let v = metafield (fst (lw_alloc w) a) name
       in if v = LNil then Done (None, w) else Done (Some v, w\<lparr>lw_stack := lua_push (lw_stack w) v\<rparr>))"

definition scope_value_drop :: "lua_world \<Rightarrow> lua_world" where
  "scope_value_drop w = w\<lparr>lw_stack := lua_pop (lw_stack w) 1\<rparr>"

text \<open>\<open>array_iter\<close> stops at the length \<open>lua_array_size\<close> finds: 0 for a table that is no array.\<close>

definition table_array_len :: "table_h \<Rightarrow> lua_world \<Rightarrow> (string + (bool \<times> nat) \<times> lua_world) outcome" where
  "table_array_len h w =
     with_table [LNil, lua_at (lw_stack w) (th_index h)] (\<lambda>a.
       Done (ebind (lua_array_size_st (fst (lw_alloc w) a) (lw_stack w)) (\<lambda>(r, s). Inr (r, w\<lparr>lw_stack := s\<rparr>))))"

definition table_array_iter :: "table_h \<Rightarrow> lua_world \<Rightarrow> (string + (nat \<times> array_iter_state) \<times> lua_world) outcome" where
  "table_array_iter h w =
     rbind (table_array_len h w) (\<lambda>((_, len), w). Done (Inr ((len, array_iter (lw_stack w)), w)))"

section \<open>Round trips\<close>

lemma narrow_signed: "LENGTH('w) \<le> 64 \<Longrightarrow> ucast (scast (v :: 'w::len word) :: i64) = v"
  by (rule bit_word_eqI) (auto simp: bit_simps bit_last_iff not_le dest: bit_imp_le_length)

lemma narrow_unsigned: "LENGTH('w) \<le> 64 \<Longrightarrow> ucast (ucast (v :: 'w::len word) :: i64) = v"
  by (rule bit_word_eqI) (auto simp: bit_simps dest: bit_imp_le_length)

definition plain_api :: lua_api where
  "plain_api = \<lparr>la_integer = (\<lambda>v. case v of LInteger n \<Rightarrow> Some n | _ \<Rightarrow> None),
     la_number = (\<lambda>v. case v of LNumber x \<Rightarrow> Some x | _ \<Rightarrow> None), la_text = opt_bytes, la_size = (\<lambda>_. 0)\<rparr>"

text \<open>The trait: what each Rust type gives; optional reading changes nothing on the stack.\<close>

record 'a stack_impl =
  si_checked :: "lua_stack \<Rightarrow> int \<Rightarrow> (string + 'a) \<times> lua_stack"
  si_unchecked :: "lua_stack \<Rightarrow> int \<Rightarrow> ('a \<times> lua_stack) outcome"
  si_opt :: "lua_value \<Rightarrow> 'a option"
  si_push :: "lua_stack \<Rightarrow> 'a \<Rightarrow> lua_stack"

definition signed_impl :: "lua_api \<Rightarrow> 'w::len word stack_impl" where
  "signed_impl la = \<lparr>si_checked = (\<lambda>s i. (checked_integer_as (la_integer la) (lua_at s i), s)),
     si_unchecked = (\<lambda>s i. Done (unchecked_integer_as la (lua_at s i), s)),
     si_opt = opt_integer, si_push = (\<lambda>s v. lua_push s (push_signed v))\<rparr>"

definition unsigned_impl :: "lua_api \<Rightarrow> 'w::len word stack_impl" where
  "unsigned_impl la = (signed_impl la)\<lparr>si_push := (\<lambda>s v. lua_push s (push_unsigned v))\<rparr>"

definition number_impl :: "lua_api \<Rightarrow> f64 stack_impl" where
  "number_impl la = \<lparr>si_checked = (\<lambda>s i. (checked_number la (lua_at s i), s)),
     si_unchecked = (\<lambda>s i. Done (unchecked_number la (lua_at s i), s)),
     si_opt = opt_number la, si_push = (\<lambda>s x. lua_push s (LNumber x))\<rparr>"

definition bool_impl :: "bool stack_impl" where
  "bool_impl = \<lparr>si_checked = (\<lambda>s i. (checked_bool (lua_at s i), s)),
     si_unchecked = (\<lambda>s i. Done (unchecked_bool (lua_at s i), s)),
     si_opt = opt_bool, si_push = (\<lambda>s b. lua_push s (LBoolean b))\<rparr>"

definition bytes_impl :: "lua_api \<Rightarrow> bytes stack_impl" where
  "bytes_impl la = \<lparr>si_checked = checked_bytes la, si_unchecked = unchecked_bytes la,
     si_opt = opt_bytes, si_push = (\<lambda>s t. lua_push s (LString t))\<rparr>"

definition string_impl :: "lua_api \<Rightarrow> string stack_impl" where
  "string_impl la = \<lparr>si_checked = checked_string la, si_unchecked = unchecked_string la,
     si_opt = opt_string, si_push = (\<lambda>s t. lua_push s (LString t))\<rparr>"

text \<open>The functions generic in the type: \<open>lua_get\<close>, \<open>lua_to\<close>, \<open>lua_opt\<close>, \<open>opt_field\<close>, \<open>LuaTable::insert\<close>.\<close>

definition lua_get :: "'a stack_impl \<Rightarrow> lua_stack \<Rightarrow> int \<Rightarrow> (string + 'a) \<times> lua_stack" where
  "lua_get T s i = si_checked T s i"

definition lua_to :: "'a stack_impl \<Rightarrow> lua_stack \<Rightarrow> int \<Rightarrow> ('a \<times> lua_stack) outcome" where
  "lua_to T s i = si_unchecked T s i"

definition lua_opt :: "'a stack_impl \<Rightarrow> lua_stack \<Rightarrow> int \<Rightarrow> 'a option" where
  "lua_opt T s i = si_opt T (lua_at s i)"

text \<open>A negative index is made absolute before the field name is pushed over it.\<close>

definition opt_field_at :: "'a stack_impl \<Rightarrow> lua_world \<Rightarrow> int \<Rightarrow> string \<Rightarrow> ('a option \<times> lua_world) outcome" where
  "opt_field_at T w i name =
     (let j = (if i < 0 then int (length (lw_stack w)) + i + 1 else i) in
      with_table [LNil, lua_at (lua_push (lw_stack w) (LString name)) j] (\<lambda>a.
        case opt_field_st (si_opt T) (fst (lw_alloc w) a) name (lw_stack w) of
          (r, s) \<Rightarrow> Done (r, w\<lparr>lw_stack := s\<rparr>)))"

definition push_as :: "'a stack_impl \<Rightarrow> 'a \<Rightarrow> lua_world \<Rightarrow> lua_world" where
  "push_as T x w = w\<lparr>lw_stack := si_push T (lw_stack w) x\<rparr>"

definition table_insert_as ::
  "(lua_tbl \<Rightarrow> lua_value \<Rightarrow> lua_value \<Rightarrow> lua_tbl) \<Rightarrow> table_h \<Rightarrow> 'k stack_impl \<Rightarrow> 'k \<Rightarrow> 'v stack_impl \<Rightarrow> 'v \<Rightarrow> lua_world \<Rightarrow>
     (string + lua_world) outcome" where
  "table_insert_as put h K k V v w = lua_rawset put (push_as V v (push_as K k w)) (th_index h)"

text \<open>
  What keeping a value means: pushed, it reads back from the top of the stack in each of the three
  ways, which leave the stack alone; inserted into a table on the stack under a name, \<open>opt_field\<close> finds
  it there, through a positive or a negative index, no other field changes, and the stack is as before.
\<close>

definition kept ::
  "(lua_tbl \<Rightarrow> lua_value \<Rightarrow> lua_value \<Rightarrow> lua_tbl) \<Rightarrow> lua_api \<Rightarrow> 'a stack_impl \<Rightarrow> 'a \<Rightarrow> 'a \<Rightarrow> lua_world \<Rightarrow> int \<Rightarrow> string \<Rightarrow> bool" where
  "kept put la T x y w i name \<longleftrightarrow>
     (let s = si_push T (lw_stack w) x in
        lua_get T s (- 1) = (Inr y, s) \<and> lua_to T s (- 1) = Done (y, s) \<and> lua_opt T s (- 1) = Some y) \<and>
     (\<exists>w'. table_insert_as put (table_from_stack (lw_stack w) i) (bytes_impl la) name T x w = Done (Inr w') \<and>
        lw_stack w' = lw_stack w \<and> opt_field_at T w' i name = Done (Some y, w') \<and>
        (\<forall>f. f \<noteq> name \<longrightarrow> opt_field_at T w' i f = obind (opt_field_at T w i f) (\<lambda>(r, _). Done (r, w'))))"

text \<open>A valid index, made absolute, names the same element when more is pushed.\<close>

lemma lua_at_absolute:
  assumes "lua_at s i = LTable a"
  shows "i \<noteq> 0 \<and> lua_at (s @ more') (abs_index s i) = LTable a"
proof -
  have i: "i \<noteq> 0" "0 < abs_index s i" "abs_index s i \<le> int (length s)"
    using assms by (auto simp: abs_index_def lua_at_def Let_def split: if_splits)
  moreover have "abs_index s i - 1 = (if 0 < i then i - 1 else int (length s) + i)" by (simp add: abs_index_def)
  then have "lua_at s (abs_index s i) = lua_at s i" using i(2) by (simp add: lua_at_def [of s])
  ultimately have "i \<noteq> 0" "0 < abs_index s i" "abs_index s i \<le> int (length s)" "lua_at s (abs_index s i) = LTable a"
    using assms by auto
  then show ?thesis by (simp add: lua_at_prefix)
qed

lemma opt_field_at_eq:
  assumes "lua_at (lw_stack w) i = LTable a"
  shows "opt_field_at T w i name = Done (opt_field (si_opt T) (fst (lw_alloc w) a) name, w)"
proof -
  have "(if i < 0 then int (length (lw_stack w)) + i + 1 else i) = abs_index (lw_stack w) i"
    using lua_at_absolute [OF assms] by (auto simp: abs_index_def)
  then show ?thesis
    using lua_at_absolute [OF assms]
    by (simp add: opt_field_at_def opt_field_st_eq with_table_def lua_push_def lua_at_input)
qed

text \<open>The law of the trait: \<open>pushed\<close> is the Lua value for a Rust value and \<open>reads\<close> what is read from it.\<close>

locale stack_type =
  fixes T :: "'a stack_impl" and pushed :: "'a \<Rightarrow> lua_value" and good :: "'a \<Rightarrow> bool" and reads :: "'a \<Rightarrow> 'a"
  assumes push_one: "si_push T s x = s @ [pushed x]"
    and pushed_present: "present (pushed x)"
    and checked_back: "good x \<Longrightarrow> lua_at s i = pushed x \<Longrightarrow> si_checked T s i = (Inr (reads x), s)"
    and unchecked_back: "good x \<Longrightarrow> lua_at s i = pushed x \<Longrightarrow> si_unchecked T s i = Done (reads x, s)"
    and opt_back: "good x \<Longrightarrow> si_opt T (pushed x) = Some (reads x)"
begin

lemma field_back: "good x \<Longrightarrow> rawget t (LString name) = pushed x \<Longrightarrow> opt_field (si_opt T) t name = Some (reads x)"
  using pushed_present [of x] opt_back [of x] by (cases "pushed x") (simp_all add: opt_field_def present_def)

lemma kept_in_table:
  assumes put: "raw_store put" and x: "good x" and a: "lua_at (lw_stack w) i = LTable a"
  shows "kept put la T x (reads x) w i name"
proof -
  let ?t = "put (fst (lw_alloc w) a) (LString name) (pushed x)"
  let ?w = "w\<lparr>lw_alloc := ((fst (lw_alloc w))(a := ?t), snd (lw_alloc w))\<rparr>"
  have key: "plain_key (LString name)" by (simp add: plain_key_def)
  have get: "rawget ?t k = (if k = LString name then pushed x else rawget (fst (lw_alloc w) a) k)" for k
    by (rule raw_store.get_put [OF put key pushed_present])
  have "lua_at (lw_stack w @ [LString name, pushed x]) (abs_index (lw_stack w) i) = LTable a"
    using lua_at_absolute [OF a] by simp
  then have "table_insert_as put (table_from_stack (lw_stack w) i) (bytes_impl la) name T x w = Done (Inr ?w)"
    using key_error_plain [OF key]
    by (simp add: table_insert_as_def table_from_stack_def push_as_def bytes_impl_def push_one lua_push_def lua_rawset_def
        with_table_def lua_at_input lua_at_def [of _ "- 2"] lua_at_top2 lua_pop_def Let_def)
  moreover have "opt_field_at T ?w i f = Done (opt_field (si_opt T) ?t f, ?w)" for f
    using opt_field_at_eq [of ?w i a T f] a by simp
  moreover have "opt_field (si_opt T) ?t name = Some (reads x)" using field_back [OF x] get by simp
  moreover have "opt_field (si_opt T) ?t f = opt_field (si_opt T) (fst (lw_alloc w) a) f" if "f \<noteq> name" for f
    using that by (simp add: opt_field_def get)
  ultimately show ?thesis
    using checked_back [OF x lua_at_top] unchecked_back [OF x lua_at_top] opt_back [OF x] opt_field_at_eq [OF a, of T]
    by (simp add: kept_def lua_get_def lua_to_def lua_opt_def push_one lua_at_top)
qed

end

interpretation signed: stack_type "signed_impl la :: 'w::len word stack_impl" push_signed "\<lambda>_. lua_api_ok la \<and> LENGTH('w) \<le> 64" "\<lambda>v. v"
  by unfold_locales
    (simp_all add: signed_impl_def push_signed_def lua_push_def present_def checked_integer_as_def unchecked_integer_as_def
      lua_api_ok_def narrow_signed)

interpretation unsigned: stack_type "unsigned_impl la :: 'w::len word stack_impl" push_unsigned "\<lambda>_. lua_api_ok la \<and> LENGTH('w) \<le> 64" "\<lambda>v. v"
  by unfold_locales
    (simp_all add: unsigned_impl_def signed_impl_def push_unsigned_def lua_push_def present_def checked_integer_as_def
      unchecked_integer_as_def lua_api_ok_def narrow_unsigned)

interpretation number: stack_type "number_impl la" LNumber "\<lambda>_. lua_api_ok la" "\<lambda>x. x"
  by unfold_locales
    (simp_all add: number_impl_def lua_push_def present_def checked_number_def unchecked_number_def opt_number_def lua_api_ok_def)

interpretation boolean: stack_type bool_impl LBoolean "\<lambda>_. True" "\<lambda>b. b"
  by unfold_locales (simp_all add: bool_impl_def lua_push_def present_def)

interpretation byte_slice: stack_type "bytes_impl la" LString "\<lambda>_. lua_api_ok la" "\<lambda>t. t"
  by unfold_locales
    (simp_all add: bytes_impl_def lua_push_def present_def checked_bytes_def unchecked_bytes_def lua_api_ok_def text_in_place_same)

text \<open>A Rust \<open>String\<close> is valid UTF-8.\<close>

interpretation rust_string: stack_type "string_impl la" LString "\<lambda>t. lua_api_ok la \<and> utf8_check 0 (map of_char t) = None" "\<lambda>t. t"
  by unfold_locales
    (simp_all add: string_impl_def lua_push_def present_def checked_string_def unchecked_string_def checked_bytes_def
      unchecked_bytes_def lua_api_ok_def text_in_place_same opt_string_def utf8_lossy_def utf8_lossy_from_valid [of 0] comp_def)

section \<open>Building arrays\<close>

fun table_pushes ::
  "(lua_tbl \<Rightarrow> lua_value \<Rightarrow> lua_value \<Rightarrow> lua_tbl) \<Rightarrow> table_h \<Rightarrow> lua_value list \<Rightarrow> lua_world \<Rightarrow>
     (string + table_h \<times> lua_world) outcome" where
  "table_pushes put h [] w = Done (Inr (h, w))"
| "table_pushes put h (v # vs) w = rbind (table_push put h (Some v) w) (\<lambda>(h, w). table_pushes put h vs w)"

definition indexed :: "nat \<Rightarrow> lua_value list \<Rightarrow> (lua_value \<times> lua_value) list" where
  "indexed p vs = zip (map int_key [Suc p..<Suc (p + length vs)]) vs"

definition new_handle :: "lua_world \<Rightarrow> nat \<Rightarrow> table_h" where
  "new_handle w p = \<lparr>th_index = int (length (lw_stack w)) + 1, th_pos = word_of_nat p\<rparr>"

lemma world_with_simps:
  "lw_stack (world_with w t) = lw_stack w @ [LTable (snd (lw_alloc w))]"
  "fst (lw_alloc (world_with w t)) (snd (lw_alloc w)) = t"
  by (simp_all add: world_with_def)

lemma ucast_pos: "p < 2 ^ 32 \<Longrightarrow> ucast (word_of_nat p :: u32) = (word_of_nat p :: i64)"
  by (simp add: unsigned_of_nat take_bit_nat_eq_self)

lemma rawseti_handle:
  "lua_rawseti put (push_value (Some v) (world_with w t)) (int (length (lw_stack w)) + 1) n =
     Done (Inr (world_with w (put t (LInteger n) v)))"
proof -
  have at: "lua_at (lw_stack w @ [LTable (snd (lw_alloc w)), v]) (int (length (lw_stack w)) + 1) = LTable (snd (lw_alloc w))"
    using lua_at_prefix [of "int (length (lw_stack w)) + 1" "lw_stack w @ [LTable (snd (lw_alloc w))]" "[v]"] by simp
  show ?thesis
    by (simp add: lua_rawseti_def with_table_def push_value_def lua_push_def lua_at_input world_with_def)
      (simp add: at lua_at_def)
qed

lemma table_push_fine:
  assumes "Suc p < 2 ^ 32"
  shows "table_push put (new_handle w p) (Some v) (world_with w t) =
     Done (Inr (new_handle w (Suc p), world_with w (put t (int_key (Suc p)) v)))"
proof -
  have "(word_of_nat p + 1 :: u32) = word_of_nat (Suc p)" by simp
  then show ?thesis
    using ucast_pos [OF assms] by (simp add: table_push_def new_handle_def rawseti_handle int_key_def del: of_nat_Suc)
qed

lemma indexed_Cons: "indexed p (v # vs) = (int_key (Suc p), v) # indexed (Suc p) vs"
  by (simp add: indexed_def upt_rec [of "Suc p"] del: upt_Suc)

lemma table_pushes_fine:
  "p + length vs < 2 ^ 32 \<Longrightarrow> table_pushes put (new_handle w p) vs (world_with w t) =
     Done (Inr (new_handle w (p + length vs), world_with w (stores put (indexed p vs) t)))"
proof (induction vs arbitrary: p t)
  case (Cons v vs)
  then show ?case by (simp add: table_push_fine indexed_Cons)
qed (simp add: indexed_def)

lemma map_of_indexed:
  assumes "i < length vs" "p + length vs < 2 ^ 32"
  shows "map_of (rev (indexed p vs)) (int_key (Suc (p + i))) = Some (vs ! i)"
proof -
  have "inj_on int_key {Suc p..<Suc (p + length vs)}" using assms(2) by (intro inj_onI int_key_inj) auto
  then have d: "distinct (map fst (rev (indexed p vs)))"
    by (simp add: indexed_def rev_map [symmetric] distinct_map del: upt_Suc)
  have "indexed p vs ! i \<in> set (indexed p vs)" using assms by (intro nth_mem) (simp add: indexed_def)
  moreover have "indexed p vs ! i = (int_key (Suc (p + i)), vs ! i)"
    using assms by (simp add: indexed_def del: upt_Suc)
  ultimately show ?thesis using d by (intro map_of_is_SomeI) simp_all
qed

lemma map_of_indexed_other:
  assumes "p + length vs < 2 ^ 32" "k \<notin> int_key ` {Suc p..<Suc (p + length vs)}"
  shows "map_of (rev (indexed p vs)) k = None"
proof -
  have "fst ` set (indexed p vs) = int_key ` {Suc p..<Suc (p + length vs)}"
    by (metis indexed_def length_map length_upt map_fst_zip add_Suc diff_add_inverse set_map set_upt)
  then show ?thesis using assms(2) by (simp add: map_of_eq_None_iff)
qed

text \<open>The table built by the pushes: the elements are at 1 to their number, which is the only border.\<close>

lemma pushed_array:
  assumes put: "raw_store put" and vs: "list_all present vs" "length vs < 2 ^ 32"
  defines "t \<equiv> stores put (indexed 0 vs) empty_table"
  shows "table_ok t" "array_values t (length vs) = vs" "border t = length vs"
proof -
  have good: "list_all (\<lambda>x. plain_key (fst x) \<and> present (snd x)) (indexed 0 vs)"
    using vs(1) by (auto simp: indexed_def list_all_iff plain_int_key set_zip simp del: upt_Suc)
  have len: "length (indexed 0 vs) < 2 ^ 62" using vs(2) by (simp add: indexed_def)
  have "layout_ok (\<lambda>items. stores put items empty_table)" by (rule raw_store.stores_layout_ok [OF put])
  then have t: "table_ok t" "\<And>k. map_of (entries t) k = map_of (rev (indexed 0 vs)) k"
    unfolding t_def layout_ok_def using good len by blast+
  have get: "rawgeti t (Suc i) = vs ! i" if "i < length vs" for i
    using map_of_indexed [of i vs 0] that vs(2) by (simp add: rawgeti_def rawget_def t(2))
  have beyond: "rawgeti t j = LNil" if j: "length vs < j" "j < 2 ^ 63" for j
  proof -
    have "int_key j \<notin> int_key ` {Suc 0..<Suc (0 + length vs)}"
    proof
      assume "int_key j \<in> int_key ` {Suc 0..<Suc (0 + length vs)}"
      then obtain i where i: "int_key j = int_key i" "i \<le> length vs" by auto
      then have "j = i" using j vs(2) by (intro int_key_inj) simp_all
      then show False using i j by simp
    qed
    then show ?thesis using map_of_indexed_other [of 0 vs] vs(2) by (simp add: rawgeti_def rawget_def t(2))
  qed
  show "table_ok t" by (rule t(1))
  show "array_values t (length vs) = vs"
    by (rule nth_equalityI) (simp_all add: array_values_def get del: upt_Suc)
  have b: "is_border t (border t)" using t(1) by (simp add: table_ok_def)
  show "border t = length vs"
  proof (rule antisym)
    show "border t \<le> length vs"
      using b beyond [of "border t"] by (intro leI) (auto simp: is_border_def)
    show "length vs \<le> border t"
    proof (rule ccontr)
      assume "\<not> length vs \<le> border t"
      then have "border t < length vs" by simp
      then have "rawgeti t (Suc (border t)) = vs ! border t" "present (vs ! border t)"
        using get vs(1) by (simp_all add: list_all_length)
      then show False using b by (simp add: is_border_def present_def)
    qed
  qed
qed

text \<open>
  \<open>push\<close> appends: pushing present values onto a new table leaves that one table on the stack, a
  proper sequence whose elements are the values in order and whose length is their number. A nested
  table then added with \<open>push_table\<close> takes the place of the last of them, since \<open>push_table\<close> does
  not advance the position.
\<close>

theorem array_push:
  assumes "raw_store put" and "list_all present vs" "length vs < 2 ^ 32"
    and "table_new w = (h, w1)"
  shows "\<exists>h' w'. table_pushes put h vs w1 = Done (Inr (h', w')) \<and>
     lw_stack w' = lw_stack w @ [LTable (snd (lw_alloc w))] \<and>
     (let t = fst (lw_alloc w') (snd (lw_alloc w)) in
        table_ok t \<and> array_values t (length vs) = vs \<and> border t = length vs) \<and>
     table_push_table put h' (push_value (Some (LTable b)) w') =
       Done (Inr (h', world_with w (put (fst (lw_alloc w') (snd (lw_alloc w))) (int_key (length vs)) (LTable b))))"
proof -
  have h: "h = new_handle w 0" "w1 = world_with w empty_table"
    using assms(4) by (auto simp: table_new_def new_handle_def world_with_simps Let_def)
  have run: "table_pushes put h vs w1 =
      Done (Inr (new_handle w (length vs), world_with w (stores put (indexed 0 vs) empty_table)))"
    using table_pushes_fine [of 0 vs] assms(3) by (simp add: h)
  have "table_push_table put (new_handle w (length vs)) (push_value (Some (LTable b)) (world_with w t)) =
      Done (Inr (new_handle w (length vs), world_with w (put t (int_key (length vs)) (LTable b))))" for t
    using ucast_pos [OF assms(3)] by (simp add: table_push_table_def new_handle_def rawseti_handle int_key_def)
  then show ?thesis
    using pushed_array [OF assms(1-3)] by (simp add: run world_with_simps Let_def)
qed

theorem array_push_witness:
  "\<exists>h' w'. table_pushes simple_put (fst (table_new demo_world)) [LBoolean True, LString ''x''] (snd (table_new demo_world)) =
       Done (Inr (h', w')) \<and> lw_stack w' = [LBoolean True, LTable 7] \<and>
     (let t = fst (lw_alloc w') 7 in table_ok t \<and> array_values t (Suc (Suc 0)) = [LBoolean True, LString ''x''] \<and> border t = Suc (Suc 0)) \<and>
     table_push_table simple_put h' (push_value (Some (LTable 3)) w') =
       Done (Inr (h', world_with demo_world (simple_put (fst (lw_alloc w') 7) (int_key (Suc (Suc 0))) (LTable 3))))"
  using array_push [OF lua_store.raw_store_axioms, of "[LBoolean True, LString ''x'']" demo_world
      "fst (table_new demo_world)" "snd (table_new demo_world)" 3]
  by (simp add: present_def demo_world_def)

text \<open>Reading a field back; dropping the scope restores the stack.\<close>

lemma insert_then_rawget:
  assumes "raw_store put" and "plain_key k" "present v"
    and "lua_at (lw_stack w) (th_index h) = LTable a" "0 < th_index h" "th_index h \<le> int (length (lw_stack w))"
  shows "\<exists>w'. table_insert put h (Some k) (Some v) w = Done (Inr w') \<and> lw_stack w' = lw_stack w \<and>
     (\<exists>w2. table_rawget h (Some k) w' = Done (v, w2) \<and> scope_value_drop w2 = w')"
proof -
  have at: "lua_at (lw_stack w @ s) (th_index h) = LTable a" for s
    using assms(4-6) by (simp add: lua_at_prefix)
  have get: "rawget (put t k v) k = v" for t using raw_store.get_put [OF assms(1-3)] by simp
  show ?thesis
    using at [of "[]"] at [of "[k, v]"] key_error_plain [OF assms(2)]
    by (simp add: table_insert_def lua_rawset_def with_table_def push_value_def lua_push_def lua_at_input
        table_rawget_def scope_value_drop_def get stack_simps lua_at_def [of _ "- 2"])
qed

end
