(* ===== verification/Moon.thy ===== *)
theory Moon
  imports LuaValue
begin

text \<open>
  What the modules of \<open>crates/libs/lib-lualib\<close> send to the host (\<open>lib.rs\<close>): answers to waiting sessions
  and log lines. The host's \<open>send_integer_message\<close> and \<open>send_message\<close> are outside the repository;
  the messages are recorded in the order they are sent. The module also holds what the entry points
  of the database modules do with their arguments (\<open>laux::lua_get\<close>, \<open>lua_touserdata\<close>).
\<close>

definition moon_send :: "u32 \<Rightarrow> i64 \<Rightarrow> 'r \<Rightarrow> (u32 \<times> i64 \<times> 'r) list \<Rightarrow> (u32 \<times> i64 \<times> 'r) list" where
  "moon_send owner session res msgs = (if session = 0 then msgs else msgs @ [(owner, session, res)])"

definition moon_send_bytes :: "u32 \<Rightarrow> i64 \<Rightarrow> 'b list \<Rightarrow> (u32 \<times> i64 \<times> 'b list) list \<Rightarrow> (u32 \<times> i64 \<times> 'b list) list" where
  "moon_send_bytes owner session payload msgs = msgs @ [(owner, session, payload)]"

definition log_level_error :: nat where "log_level_error = 1"
definition log_level_warn :: nat where "log_level_warn = 2"
definition log_level_info :: nat where "log_level_info = 3"
definition log_level_debug :: nat where "log_level_debug = 4"

definition moon_log :: "u32 \<Rightarrow> nat \<Rightarrow> string \<Rightarrow> (u32 \<times> string) list \<Rightarrow> (u32 \<times> string) list" where
  "moon_log owner level text' msgs = msgs @ [(owner, show_nat level @ text')]"

definition answer_key :: "u32 \<times> i64 \<times> 'r \<Rightarrow> u32 \<times> i64" where
  "answer_key x = (fst x, fst (snd x))"

lemma moon_send_keys:
  "map answer_key (moon_send owner session res msgs) =
     map answer_key msgs @ (if session = 0 then [] else [(owner, session)])"
  by (simp add: moon_send_def answer_key_def)

lemma map_filter_snoc:
  "List.map_filter f (xs @ [x]) = List.map_filter f xs @ (case f x of None \<Rightarrow> [] | Some y \<Rightarrow> [y])"
  by (simp add: map_filter_def split: option.splits)

section \<open>Arguments\<close>

text \<open>
  Integers and strings are converted by \<open>luaL_checkinteger\<close> and \<open>luaL_checklstring\<close> (\<open>lc_int\<close>,
  \<open>lc_text\<close>); a failure is a Lua error. A connection's userdata is cast without a check of its type:
  \<open>lc_conn\<close> is the address of the one the operation is meant for.
\<close>

record lua_conv =
  lc_int :: "lua_value \<Rightarrow> i64 option"
  lc_text :: "lua_value \<Rightarrow> bytes option"
  lc_conn :: u64

datatype lua_ret = RetSession i64 | RetError string | RetBool bool

definition lua_integer_arg :: "lua_conv \<Rightarrow> lua_stack \<Rightarrow> nat \<Rightarrow> (string + i64) outcome" where
  "lua_integer_arg lc s i =
     Done (case lc_int lc (lua_at s (int i)) of Some n \<Rightarrow> Inr n | None \<Rightarrow> Inl ''number expected'')"

definition lua_text_arg :: "lua_conv \<Rightarrow> lua_stack \<Rightarrow> nat \<Rightarrow> (string + bytes) outcome" where
  "lua_text_arg lc s i =
     Done (case lc_text lc (lua_at s (int i)) of Some t \<Rightarrow> Inr t | None \<Rightarrow> Inl ''string expected'')"

definition userdata_arg :: "u64 \<Rightarrow> string \<Rightarrow> lua_stack \<Rightarrow> nat \<Rightarrow> (string + unit) outcome" where
  "userdata_arg address expected s i =
     (case lua_at s (int i) of
        LUserData p \<Rightarrow> if p = address then Done (Inr ()) else UB ''userdata of another type''
      | LLightUserData p \<Rightarrow> if p = 0 then Panic expected else UB ''userdata of another type''
      | _ \<Rightarrow> Panic expected)"

definition conn_userdata :: "lua_conv \<Rightarrow> lua_stack \<Rightarrow> (string + unit) outcome" where
  "conn_userdata lc s = userdata_arg (lc_conn lc) ''Invalid database connect pointer'' s 1"

text \<open>The conversions of the witnesses: integers as integers, strings as strings.\<close>

definition integers_only :: lua_conv where
  "integers_only = \<lparr>lc_int = (\<lambda>v. case v of LInteger n \<Rightarrow> Some n | _ \<Rightarrow> None), lc_text = opt_bytes, lc_conn = 1\<rparr>"

end
