(* ===== verification/MongoDoc.thy ===== *)
theory MongoDoc
  imports SqlxDecode
begin

text \<open>
  Documents of \<open>crates/libs/lib-lualib/src/lua_mongodb.rs\<close>: Lua tables to BSON, BSON to Lua, the
  option tables of \<open>find\<close> and \<open>create_index\<close>, and the requests \<open>operators\<close> makes of its arguments.
  The text forms of the BSON types are the \<open>bson\<close> crate's and parameters, like Rust's float
  printer.
\<close>

section \<open>Data\<close>

text \<open>\<open>BOther\<close> stands for the types the code refuses, given by their debug text.\<close>

datatype bson =
    BDouble f64 | BString bytes | BArray "bson list" | BDoc "(bytes \<times> bson) list" | BBool bool | BNull
  | BInt32 i32 | BInt64 i64 | BBinary bytes | BObjectId bytes | BDateTime i64 | BTimestamp u32 u32
  | BDecimal128 bytes | BOther string

type_synonym document = "(bytes \<times> bson) list"

record mongo_env =
  mheap :: lua_heap
  mshow :: "f64 \<Rightarrow> string"
  oid_parse :: "bytes \<Rightarrow> string + bytes"
  oid_show :: "bytes \<Rightarrow> string"
  datetime_show :: "i64 \<Rightarrow> string"
  timestamp_show :: "u32 \<Rightarrow> u32 \<Rightarrow> string"
  decimal_show :: "bytes \<Rightarrow> string"

text \<open>\<open>Document::insert\<close>: an existing key keeps its place.\<close>

fun doc_insert :: "bytes \<Rightarrow> bson \<Rightarrow> document \<Rightarrow> document" where
  "doc_insert k v [] = [(k, v)]"
| "doc_insert k v ((k', v') # ms) = (if k = k' then (k, v) # ms else (k', v') # doc_insert k v ms)"

section \<open>Lua to BSON\<close>

text \<open>The key of a member. A key that is not UTF-8 meets an \<open>unwrap\<close>.\<close>

definition doc_key :: "mongo_env \<Rightarrow> lua_value \<Rightarrow> (string + bytes) outcome" where
  "doc_key e k =
     (case k of
        LString s \<Rightarrow> if utf8_error s = None then Done (Inr s) else Panic ''called Result::unwrap() on an Err value''
      | LNumber x \<Rightarrow> Done (Inr (mshow e x))
      | LInteger n \<Rightarrow> Done (Inr (show_int (sint n)))
      | _ \<Rightarrow> Done (Inl (''Invalid key type: '' @ lua_value_name k)))"

text \<open>The first argument is the number of nested calls the thread's stack has room for.\<close>

fun lua_to_bson :: "nat \<Rightarrow> mongo_env \<Rightarrow> lua_value \<Rightarrow> bool \<Rightarrow> (string + bson) outcome"
  and array_to_bson :: "nat \<Rightarrow> mongo_env \<Rightarrow> lua_value list \<Rightarrow> (string + bson list) outcome"
  and entries_to_doc :: "nat \<Rightarrow> mongo_env \<Rightarrow> (lua_value \<times> lua_value) list \<Rightarrow> document \<Rightarrow> (string + document) outcome"
where
  "lua_to_bson 0 e v is_oid = UB ''stack overflow''"
| "lua_to_bson (Suc n) e v is_oid =
     (case v of
        LNil \<Rightarrow> Done (Inr BNull)
      | LBoolean b \<Rightarrow> Done (Inr (BBool b))
      | LNumber x \<Rightarrow> Done (Inr (BDouble x))
      | LInteger i \<Rightarrow> Done (Inr (BInt64 i))
      | LString s \<Rightarrow>
          if is_oid then Done (case oid_parse e s of Inl m \<Rightarrow> Inl m | Inr o' \<Rightarrow> Inr (BObjectId o'))
          else Done (Inr (BString s))
      | LTable a \<Rightarrow>
          if fst (lua_array_size (mheap e a))
          then rbind (array_to_bson n e (array_values (mheap e a) (snd (lua_array_size (mheap e a)))))
                 (\<lambda>bs. Done (Inr (BArray bs)))
          else rbind (entries_to_doc n e (entries (mheap e a)) []) (\<lambda>ms. Done (Inr (BDoc ms)))
      | _ \<Rightarrow> Done (Inl (''Invalid type: '' @ lua_value_name v)))"
| "array_to_bson n e [] = Done (Inr [])"
| "array_to_bson n e (v # vs) =
     rbind (lua_to_bson n e v False) (\<lambda>b. rbind (array_to_bson n e vs) (\<lambda>bs. Done (Inr (b # bs))))"
| "entries_to_doc n e [] doc = Done (Inr doc)"
| "entries_to_doc n e ((k, v) # es) doc =
     rbind (doc_key e k) (\<lambda>key.
     rbind (lua_to_bson n e v (key = ''_id'')) (\<lambda>b. entries_to_doc n e es (doc_insert key b doc)))"

definition table_to_doc :: "nat \<Rightarrow> mongo_env \<Rightarrow> nat \<Rightarrow> (string + document) outcome" where
  "table_to_doc n e a = entries_to_doc n e (entries (mheap e a)) []"

definition lua_to_doc :: "nat \<Rightarrow> mongo_env \<Rightarrow> lua_value \<Rightarrow> (string + document) outcome" where
  "lua_to_doc n e v =
     (case v of LTable a \<Rightarrow> table_to_doc n e a | _ \<Rightarrow> Done (Inl (''Invalid type: '' @ lua_value_name v)))"

section \<open>BSON to Lua\<close>

text \<open>
  Setting an element or a member to nil stores nothing (\<open>stored\<close>). On an error what was pushed is
  left behind, unreachable.
\<close>

definition stored :: "(lua_value \<times> lua_value) list \<Rightarrow> (lua_value \<times> lua_value) list" where
  "stored items = filter (\<lambda>x. snd x \<noteq> LNil) items"

fun bson_to_lua :: "layout \<Rightarrow> mongo_env \<Rightarrow> bson \<Rightarrow> alloc \<Rightarrow> string + lua_value \<times> alloc"
  and bson_elems :: "layout \<Rightarrow> mongo_env \<Rightarrow> nat \<Rightarrow> bson list \<Rightarrow> alloc \<Rightarrow> string + (lua_value \<times> lua_value) list \<times> alloc"
  and bson_members :: "layout \<Rightarrow> mongo_env \<Rightarrow> document \<Rightarrow> alloc \<Rightarrow> string + (lua_value \<times> lua_value) list \<times> alloc"
where
  "bson_to_lua lay e (BDouble x) st = Inr (LNumber x, st)"
| "bson_to_lua lay e (BString s) st = Inr (LString s, st)"
| "bson_to_lua lay e (BArray bs) st =
     ebind (bson_elems lay e 0 bs (fst st, snd st + 1)) (\<lambda>(items, (h, n)).
       Inr (LTable (snd st), (h(snd st := lay (stored items)), n)))"
| "bson_to_lua lay e (BDoc ms) st =
     ebind (bson_members lay e ms (fst st, snd st + 1)) (\<lambda>(items, (h, n)).
       Inr (LTable (snd st), (h(snd st := lay (stored items)), n)))"
| "bson_to_lua lay e (BBool b) st = Inr (LBoolean b, st)"
| "bson_to_lua lay e BNull st = Inr (LNil, st)"
| "bson_to_lua lay e (BInt32 i) st = Inr (LInteger (scast i), st)"
| "bson_to_lua lay e (BInt64 i) st = Inr (LInteger i, st)"
| "bson_to_lua lay e (BBinary s) st = Inr (LString s, st)"
| "bson_to_lua lay e (BObjectId o') st = Inr (LString (oid_show e o'), st)"
| "bson_to_lua lay e (BDateTime t) st = Inr (LString (datetime_show e t), st)"
| "bson_to_lua lay e (BTimestamp t i) st = Inr (LString (timestamp_show e t i), st)"
| "bson_to_lua lay e (BDecimal128 d) st = Inr (LString (decimal_show e d), st)"
| "bson_to_lua lay e (BOther s) st = Inl (''Unsupported BSON type: '' @ s)"
| "bson_elems lay e i [] st = Inr ([], st)"
| "bson_elems lay e i (b # bs) st =
     ebind (bson_to_lua lay e b st) (\<lambda>(lv, st).
     ebind (bson_elems lay e (i + 1) bs st) (\<lambda>(items, st). Inr ((int_key (i + 1), lv) # items, st)))"
| "bson_members lay e [] st = Inr ([], st)"
| "bson_members lay e ((k, b) # ms) st =
     ebind (bson_to_lua lay e b st) (\<lambda>(lv, st).
     ebind (bson_members lay e ms st) (\<lambda>(items, st). Inr ((LString k, lv) # items, st)))"

section \<open>What a value denotes\<close>

text \<open>
  \<open>bson_denotes e h v b\<close>: the Lua value \<open>v\<close> stands for \<open>b\<close>. An array is a table with its elements at
  1, 2, ... and nothing else, a document one with a key for each member (of that text, and no other
  key of that text) and nothing else; nil stands for null.
\<close>

definition key_text :: "mongo_env \<Rightarrow> lua_value \<Rightarrow> bytes option" where
  "key_text e k =
     (case k of LString s \<Rightarrow> Some s | LNumber x \<Rightarrow> Some (mshow e x) | LInteger n \<Rightarrow> Some (show_int (sint n)) | _ \<Rightarrow> None)"

fun bson_denotes :: "mongo_env \<Rightarrow> lua_heap \<Rightarrow> lua_value \<Rightarrow> bson \<Rightarrow> bool"
  and denotes_elements :: "mongo_env \<Rightarrow> lua_heap \<Rightarrow> lua_tbl \<Rightarrow> nat \<Rightarrow> bson list \<Rightarrow> bool"
  and denotes_document :: "mongo_env \<Rightarrow> lua_heap \<Rightarrow> lua_tbl \<Rightarrow> document \<Rightarrow> bool"
where
  "bson_denotes e h v (BDouble x) = (v = LNumber x)"
| "bson_denotes e h v (BString s) = (v = LString s)"
| "bson_denotes e h v (BArray bs) =
     (\<exists>a. v = LTable a \<and> denotes_elements e h (h a) 1 bs \<and>
        (\<forall>k. rawget (h a) k \<noteq> LNil \<longrightarrow> k \<in> int_key ` {1..length bs}))"
| "bson_denotes e h v (BDoc ms) =
     (\<exists>a. v = LTable a \<and> denotes_document e h (h a) ms \<and>
        (\<forall>k. rawget (h a) k \<noteq> LNil \<longrightarrow> key_text e k \<in> Some ` fst ` set ms))"
| "bson_denotes e h v (BBool b) = (v = LBoolean b)"
| "bson_denotes e h v BNull = (v = LNil)"
| "bson_denotes e h v (BInt32 i) = (v = LInteger (scast i))"
| "bson_denotes e h v (BInt64 i) = (v = LInteger i)"
| "bson_denotes e h v (BBinary s) = (v = LString s)"
| "bson_denotes e h v (BObjectId o') = (\<exists>s. v = LString s \<and> oid_parse e s = Inr o')"
| "bson_denotes e h v (BDateTime t) = (v = LString (datetime_show e t))"
| "bson_denotes e h v (BTimestamp t i) = (v = LString (timestamp_show e t i))"
| "bson_denotes e h v (BDecimal128 d) = (v = LString (decimal_show e d))"
| "bson_denotes e h v (BOther s) = False"
| "denotes_elements e h t i [] = True"
| "denotes_elements e h t i (b # bs) = (bson_denotes e h (rawgeti t i) b \<and> denotes_elements e h t (i + 1) bs)"
| "denotes_document e h t [] = True"
| "denotes_document e h t ((k, b) # ms) =
     ((\<exists>key. key_text e key = Some k \<and> bson_denotes e h (rawget t key) b \<and>
         (\<forall>key'. key_text e key' = Some k \<and> rawget t key' \<noteq> LNil \<longrightarrow> key' = key)) \<and>
      denotes_document e h t ms)"

text \<open>What a BSON document is: distinct keys; and it is small enough for 64-bit indices.\<close>

fun bson_ok :: "bson \<Rightarrow> bool" where
  "bson_ok (BArray bs) = (length bs < 2 ^ 62 \<and> list_all bson_ok bs)"
| "bson_ok (BDoc ms) = (length ms < 2 ^ 62 \<and> distinct (map fst ms) \<and> list_all (\<lambda>m. bson_ok (snd m)) ms)"
| "bson_ok (BOther s) = False"
| "bson_ok _ = True"

lemma stored_lookup:
  "distinct (map fst items) \<Longrightarrow> (case map_of (stored items) k of None \<Rightarrow> LNil | Some v \<Rightarrow> v) =
     (case map_of items k of None \<Rightarrow> LNil | Some v \<Rightarrow> v)"
proof (induction items)
  case (Cons x items)
  have "map_of (stored items) k = None \<and> map_of items k = None" if "k \<notin> fst ` set items"
    using that by (auto simp: stored_def map_of_eq_None_iff)
  with Cons show ?case by (auto simp: stored_def)
qed (simp add: stored_def)

lemma stored_table:
  assumes "layout_ok lay" "distinct (map fst items)" "length items < 2 ^ 62"
    "list_all (\<lambda>x. plain_key (fst x) \<and> snd x \<noteq> LNone) items"
  shows "rawget (lay (stored items)) k = (case map_of items k of None \<Rightarrow> LNil | Some v \<Rightarrow> v)"
proof -
  have good: "list_all (\<lambda>x. plain_key (fst x) \<and> present (snd x)) (stored items)"
    using assms(4) by (auto simp: stored_def list_all_iff present_def)
  have len: "length (stored items) < 2 ^ 62"
    using assms(3) le_less_trans [OF length_filter_le] by (simp add: stored_def) blast
  have d: "distinct (map fst (stored items))" using assms(2) by (simp add: stored_def distinct_map_filter)
  have "map_of (rev (stored items)) k = map_of (stored items) k"
    using d by (metis distinct_rev map_of_eqI map_of_inject_set rev_map set_rev)
  moreover have "(case map_of (stored items) k of None \<Rightarrow> LNil | Some v \<Rightarrow> v) =
      (case map_of items k of None \<Rightarrow> LNil | Some v \<Rightarrow> v)"
    using stored_lookup [OF assms(2)] by simp
  ultimately show ?thesis
    using layout_get_value [OF assms(1) good len, of k] by simp
qed

section \<open>BSON to Lua denotes\<close>

text \<open>The contract of the \<open>ObjectId\<close> text: parsing reads what printing wrote.\<close>

definition oid_law :: "mongo_env \<Rightarrow> bool" where
  "oid_law e \<longleftrightarrow> (\<forall>o'. oid_parse e (oid_show e o') = Inr o')"

definition extends :: "alloc \<Rightarrow> alloc \<Rightarrow> bool" where
  "extends st st' \<longleftrightarrow> snd st \<le> snd st' \<and> frame (snd st) (fst st) (fst st')"

definition keeps :: "alloc \<Rightarrow> alloc \<Rightarrow> lua_heap \<Rightarrow> bool" where
  "keeps st st' h \<longleftrightarrow> same_between (snd st) (snd st') (fst st') h"

lemma extends_refl [simp]: "extends st st"
  by (simp add: extends_def frame_def)

lemma extends_trans: "extends st st1 \<Longrightarrow> extends st1 st2 \<Longrightarrow> extends st st2"
  by (auto simp: extends_def frame_def)

lemma keeps_split: "extends st st1 \<Longrightarrow> extends st1 st2 \<Longrightarrow> keeps st st2 h \<Longrightarrow> keeps st st1 h \<and> keeps st1 st2 h"
  by (auto simp: extends_def keeps_def same_between_def frame_def)

lemma extends_table: "extends (fst st, snd st + 1) (h1, n1) \<Longrightarrow> extends st (h1(snd st := t), n1)"
  by (auto simp: extends_def frame_def)

lemma keeps_table:
  "extends (fst st, snd st + 1) (h1, n1) \<Longrightarrow> keeps st (h1(snd st := t), n1) h \<Longrightarrow>
     h (snd st) = t \<and> keeps (fst st, snd st + 1) (h1, n1) h"
  by (auto simp: extends_def keeps_def same_between_def)

definition bson_built :: "mongo_env \<Rightarrow> alloc \<Rightarrow> alloc \<Rightarrow> lua_value \<Rightarrow> bson \<Rightarrow> bool" where
  "bson_built e st st' lv b \<longleftrightarrow> extends st st' \<and> lv \<noteq> LNone \<and> (\<forall>h. keeps st st' h \<longrightarrow> bson_denotes e h lv b)"

definition elems_built ::
  "mongo_env \<Rightarrow> alloc \<Rightarrow> alloc \<Rightarrow> nat \<Rightarrow> (lua_value \<times> lua_value) list \<Rightarrow> bson list \<Rightarrow> bool" where
  "elems_built e st st' i items bs \<longleftrightarrow> extends st st' \<and> list_all (\<lambda>x. snd x \<noteq> LNone) items \<and>
     map fst items = map int_key [Suc i..<Suc i + length bs] \<and>
     (\<forall>h t. keeps st st' h \<longrightarrow> (\<forall>x\<in>set items. rawget t (fst x) = snd x) \<longrightarrow> denotes_elements e h t (Suc i) bs)"

definition members_built ::
  "mongo_env \<Rightarrow> alloc \<Rightarrow> alloc \<Rightarrow> (lua_value \<times> lua_value) list \<Rightarrow> document \<Rightarrow> bool" where
  "members_built e st st' items ms \<longleftrightarrow> extends st st' \<and> list_all (\<lambda>x. snd x \<noteq> LNone) items \<and>
     map fst items = map (\<lambda>m. LString (fst m)) ms \<and>
     (\<forall>h t. keeps st st' h \<longrightarrow> (\<forall>x\<in>set items. rawget t (fst x) = snd x) \<longrightarrow>
        (\<forall>k. rawget t k \<noteq> LNil \<longrightarrow> (\<exists>s. k = LString s)) \<longrightarrow> denotes_document e h t ms)"

text \<open>A finished table has its items and nothing else.\<close>

lemma finished_table:
  assumes "layout_ok lay" "distinct (map fst items)" "length items < 2 ^ 62" "list_all (\<lambda>x. snd x \<noteq> LNone) items"
    "\<forall>k\<in>fst ` set items. plain_key k"
  shows "x \<in> set items \<Longrightarrow> rawget (lay (stored items)) (fst x) = snd x"
    and "rawget (lay (stored items)) k \<noteq> LNil \<Longrightarrow> k \<in> fst ` set items"
proof -
  have get: "rawget (lay (stored items)) k = (case map_of items k of None \<Rightarrow> LNil | Some v \<Rightarrow> v)" for k
    using assms by (intro stored_table) (auto simp: list_all_iff)
  show "x \<in> set items \<Longrightarrow> rawget (lay (stored items)) (fst x) = snd x"
    using map_of_is_SomeI [OF assms(2), of "fst x" "snd x"] by (simp add: get)
  show "rawget (lay (stored items)) k \<noteq> LNil \<Longrightarrow> k \<in> fst ` set items"
    by (auto simp: get split: option.splits dest: map_of_SomeD intro!: image_eqI [rotated])
qed

lemma int_keys_distinct: "n < 2 ^ 63 \<Longrightarrow> distinct (map int_key [m..<n])"
  by (auto simp: distinct_map intro!: inj_onI int_key_inj)

lemma array_built:
  assumes lay: "layout_ok lay" and len: "length bs < 2 ^ 62"
    and b: "elems_built e (fst st, snd st + 1) (h1, n1) 0 items bs"
  shows "bson_built e st (h1(snd st := lay (stored items)), n1) (LTable (snd st)) (BArray bs)"
proof -
  note d = b [unfolded elems_built_def]
  have keys: "map fst items = map int_key [1..<Suc (length bs)]" using d by simp
  have l: "length items = length bs" using arg_cong [OF keys, of length] by (simp del: upt_Suc)
  have dist: "distinct (map fst items)" unfolding keys using len by (intro int_keys_distinct) simp
  have pk: "\<forall>k\<in>fst ` set items. plain_key k"
    using arg_cong [OF keys, of set] by (auto simp: plain_int_key simp del: upt_Suc)
  have ks: "fst ` set items = int_key ` {1..length bs}"
    using arg_cong [OF keys, of set] by (simp add: atLeastLessThanSuc_atLeastAtMost del: upt_Suc)
  note fin = finished_table [OF lay dist _ _ pk] 
  have "bson_denotes e h (LTable (snd st)) (BArray bs)" if k: "keeps st (h1(snd st := lay (stored items)), n1) h" for h
  proof -
    have h: "h (snd st) = lay (stored items)" "keeps (fst st, snd st + 1) (h1, n1) h"
      using keeps_table [OF _ k] d by simp_all
    have "denotes_elements e h (lay (stored items)) 1 bs"
      using d h(2) fin(1) l len by simp
    then show ?thesis using h(1) fin(2) l len d ks by auto
  qed
  then show ?thesis using extends_table [of st h1 n1] d by (simp add: bson_built_def)
qed

lemma doc_built:
  assumes lay: "layout_ok lay" and len: "length ms < 2 ^ 62" and dist: "distinct (map fst ms)"
    and b: "members_built e (fst st, snd st + 1) (h1, n1) items ms"
  shows "bson_built e st (h1(snd st := lay (stored items)), n1) (LTable (snd st)) (BDoc ms)"
proof -
  note d = b [unfolded members_built_def]
  have keys: "map fst items = map (\<lambda>m. LString (fst m)) ms" using d by simp
  have l: "length items = length ms" using arg_cong [OF keys, of length] by simp
  have di: "distinct (map fst items)" unfolding keys using dist by (auto simp: distinct_map inj_on_def)
  have ks: "fst ` set items = LString ` fst ` set ms" using arg_cong [OF keys, of set] by (simp add: image_image)
  then have pk: "\<forall>k\<in>fst ` set items. plain_key k" by auto
  note fin = finished_table [OF lay di _ _ pk]
  have "bson_denotes e h (LTable (snd st)) (BDoc ms)" if k: "keeps st (h1(snd st := lay (stored items)), n1) h" for h
  proof -
    have h: "h (snd st) = lay (stored items)" "keeps (fst st, snd st + 1) (h1, n1) h"
      using keeps_table [OF _ k] d by simp_all
    have only: "k \<in> LString ` fst ` set ms" if "rawget (lay (stored items)) k \<noteq> LNil" for k
      using fin(2) [OF _ _ that] l len d ks by simp
    have "\<forall>x\<in>set items. rawget (lay (stored items)) (fst x) = snd x" using fin(1) l len d by simp
    moreover have "\<forall>k. rawget (lay (stored items)) k \<noteq> LNil \<longrightarrow> (\<exists>s. k = LString s)" using only by blast
    ultimately have "denotes_document e h (lay (stored items)) ms" using d h(2) by blast
    moreover have "key_text e k \<in> Some ` fst ` set ms" if present: "rawget (lay (stored items)) k \<noteq> LNil" for k
    proof -
      obtain m where "m \<in> set ms" "k = LString (fst m)" using only [OF present] by auto
      then show ?thesis by (auto simp: key_text_def)
    qed
    ultimately show ?thesis using h(1) by simp
  qed
  then show ?thesis using extends_table [of st h1 n1] d by (simp add: bson_built_def)
qed

lemma bson_to_lua_built:
  shows "bson_to_lua lay e b st = Inr (lv, st') \<Longrightarrow> layout_ok lay \<Longrightarrow> oid_law e \<Longrightarrow> bson_ok b \<Longrightarrow> bson_built e st st' lv b"
    and "bson_elems lay e i bs st = Inr (items, st') \<Longrightarrow> layout_ok lay \<Longrightarrow> oid_law e \<Longrightarrow> list_all bson_ok bs \<Longrightarrow>
      elems_built e st st' i items bs"
    and "bson_members lay e ms st = Inr (items, st') \<Longrightarrow> layout_ok lay \<Longrightarrow> oid_law e \<Longrightarrow>
      list_all (\<lambda>m. bson_ok (snd m)) ms \<Longrightarrow> members_built e st st' items ms"
proof (induction lay e b st and lay e i bs st and lay e ms st arbitrary: lv st' and items st' and items st'
    rule: bson_to_lua_bson_elems_bson_members.induct)
  case (3 lay e bs st)
  then obtain items h1 n1 where d: "bson_elems lay e 0 bs (fst st, snd st + 1) = Inr (items, (h1, n1))"
    "lv = LTable (snd st)" "st' = (h1(snd st := lay (stored items)), n1)" by (auto simp: ebind_Inr_iff)
  then show ?case using 3 by (auto intro: array_built)
next
  case (4 lay e ms st)
  then obtain items h1 n1 where d: "bson_members lay e ms (fst st, snd st + 1) = Inr (items, (h1, n1))"
    "lv = LTable (snd st)" "st' = (h1(snd st := lay (stored items)), n1)" by (auto simp: ebind_Inr_iff)
  then show ?case using 4 by (auto intro: doc_built)
next
  case (16 lay e i b bs st)
  obtain lv st1 items2 where s: "bson_to_lua lay e b st = Inr (lv, st1)"
    "bson_elems lay e (i + 1) bs st1 = Inr (items2, st')" "items = (int_key (i + 1), lv) # items2"
    using 16(3) by (auto simp: ebind_Inr_iff)
  have b1: "bson_built e st st1 lv b" using 16(1) [OF s(1)] 16(4-6) by simp
  have b2: "elems_built e st1 st' (i + 1) items2 bs" using 16(2) [OF s(1) refl s(2)] 16(4-6) by simp
  have "denotes_elements e h t (Suc i) (b # bs)"
    if k: "keeps st st' h" and get: "\<forall>x\<in>set items. rawget t (fst x) = snd x" for h t
  proof -
    have "keeps st st1 h \<and> keeps st1 st' h"
      using keeps_split [OF _ _ k, of st1] b1 b2 by (simp add: bson_built_def elems_built_def)
    then show ?thesis using b1 b2 get s(3) by (simp add: bson_built_def elems_built_def rawgeti_def)
  qed
  with b1 b2 s(3) show ?case
    by (auto simp: elems_built_def bson_built_def upt_conv_Cons simp del: upt_Suc intro: extends_trans)
next
  case (18 lay e k b ms st)
  obtain lv st1 items2 where s: "bson_to_lua lay e b st = Inr (lv, st1)"
    "bson_members lay e ms st1 = Inr (items2, st')" "items = (LString k, lv) # items2"
    using 18(3) by (auto simp: ebind_Inr_iff)
  have b1: "bson_built e st st1 lv b" using 18(1) [OF s(1)] 18(4-6) by simp
  have b2: "members_built e st1 st' items2 ms" using 18(2) [OF s(1) refl s(2)] 18(4-6) by simp
  have "denotes_document e h t ((k, b) # ms)"
    if kp: "keeps st st' h" and get: "\<forall>x\<in>set items. rawget t (fst x) = snd x"
      and only: "\<forall>k. rawget t k \<noteq> LNil \<longrightarrow> (\<exists>s. k = LString s)" for h t
  proof -
    have kk: "keeps st st1 h \<and> keeps st1 st' h"
      using keeps_split [OF _ _ kp, of st1] b1 b2 by (simp add: bson_built_def members_built_def)
    have "\<forall>key'. key_text e key' = Some k \<and> rawget t key' \<noteq> LNil \<longrightarrow> key' = LString k"
      using only by (force simp: key_text_def)
    moreover have "key_text e (LString k) = Some k" by (simp add: key_text_def)
    moreover have "bson_denotes e h (rawget t (LString k)) b" using b1 kk get s(3) by (simp add: bson_built_def)
    moreover have "denotes_document e h t ms" using b2 kk get only s(3) by (simp add: members_built_def)
    ultimately show ?thesis by auto
  qed
  with b1 b2 s(3) show ?case
    by (auto simp: members_built_def bson_built_def intro: extends_trans)
qed (auto simp: bson_built_def elems_built_def members_built_def oid_law_def)

lemma bson_to_lua_total:
  shows "bson_ok b \<Longrightarrow> \<exists>lv st'. bson_to_lua lay e b st = Inr (lv, st')"
    and "list_all bson_ok bs \<Longrightarrow> \<exists>items st'. bson_elems lay e i bs st = Inr (items, st')"
    and "list_all (\<lambda>m. bson_ok (snd m)) ms \<Longrightarrow> \<exists>items st'. bson_members lay e ms st = Inr (items, st')"
proof (induction lay e b st and lay e i bs st and lay e ms st
    rule: bson_to_lua_bson_elems_bson_members.induct)
  case (16 lay e i b bs st)
  then show ?case by (fastforce simp: ebind_Inr_iff)
next
  case (18 lay e k b ms st)
  then show ?case by (fastforce simp: ebind_Inr_iff)
qed (auto simp: ebind_Inr_iff)

section \<open>Lua to BSON denotes\<close>

lemma doc_insert_keys:
  "fst ` set (doc_insert k b ms) = insert k (fst ` set ms)"
  "distinct (map fst ms) \<Longrightarrow> distinct (map fst (doc_insert k b ms))"
  "length (doc_insert k b ms) \<le> Suc (length ms)"
  "m \<in> set (doc_insert k b ms) \<Longrightarrow> m = (k, b) \<or> m \<in> set ms"
proof (induction ms)
  case (Cons m' ms)
  { case 1 with Cons show ?case by (cases m') auto }
  { case 2 with Cons show ?case by (cases m') auto }
  { case 3 with Cons show ?case by (cases m') auto }
  { case 4 with Cons show ?case by (cases m') (auto split: if_splits) }
qed auto

lemma denotes_document_iff:
  "denotes_document e h t ms \<longleftrightarrow>
     (\<forall>m\<in>set ms. \<exists>key. key_text e key = Some (fst m) \<and> bson_denotes e h (rawget t key) (snd m) \<and>
        (\<forall>key'. key_text e key' = Some (fst m) \<and> rawget t key' \<noteq> LNil \<longrightarrow> key' = key))"
  by (induction ms) auto

text \<open>Keys with the same text, as 2 and "2", would fall on one member.\<close>

definition one_text :: "mongo_env \<Rightarrow> lua_tbl \<Rightarrow> bool" where
  "one_text e t \<longleftrightarrow>
     (\<forall>k k'. rawget t k \<noteq> LNil \<and> rawget t k' \<noteq> LNil \<and> key_text e k = key_text e k' \<longrightarrow> k = k')"

text \<open>
  The tables of ordinary data: well-formed, with fewer than \<open>2 ^ 62\<close> entries, not declared an
  array by a metatable (which would hide the entries beyond the border), and, where they become documents,
  with keys of different texts.
\<close>

definition plain_heap :: "mongo_env \<Rightarrow> bool" where
  "plain_heap e \<longleftrightarrow>
     (\<forall>a. table_ok (mheap e a) \<and> length (entries (mheap e a)) < 2 ^ 62 \<and> metafield (mheap e a) ''__array'' = LNil \<and>
        (\<not> fst (lua_array_size (mheap e a)) \<longrightarrow> one_text e (mheap e a)))"

lemma array_keys:
  assumes "metafield t ''__array'' = LNil" "lua_array_size t = (True, n)" "rawget t k \<noteq> LNil"
  shows "k \<in> int_key ` {1..n}"
proof -
  have n: "n = border t" "all_index_keys t"
    using assms(1,2) by (auto simp: lua_array_size_def split: list.splits prod.splits if_splits)
  have "k \<in> fst ` set (entries t)"
    using assms(3) by (auto simp: rawget_def split: option.splits dest: map_of_SomeD intro!: image_eqI [rotated])
  then have "lua_type k = TInteger" "0 < key_integer k" "key_integer k \<le> int n"
    using n by (auto simp: all_index_keys_def list_all_iff)
  then obtain i where i: "k = LInteger i" "0 < sint i" "sint i \<le> int n"
    by (cases k) (auto simp: key_integer_def)
  then have "k = int_key (nat (sint i))" using of_nat_nat [of "sint i", where ?'a = i64] by (simp add: int_key_def)
  then show ?thesis using i by (intro image_eqI [of _ _ "nat (sint i)"]) auto
qed

lemma array_size_border: "lua_array_size t = (True, n) \<Longrightarrow> n = border t"
  by (auto simp: lua_array_size_def split: list.splits prod.splits if_splits)

definition has_member :: "mongo_env \<Rightarrow> lua_tbl \<Rightarrow> bytes \<times> bson \<Rightarrow> bool" where
  "has_member e t m \<longleftrightarrow> bson_ok (snd m) \<and>
     (\<exists>key. key_text e key = Some (fst m) \<and> bson_denotes e (mheap e) (rawget t key) (snd m) \<and>
        (\<forall>key'. key_text e key' = Some (fst m) \<and> rawget t key' \<noteq> LNil \<longrightarrow> key' = key))"

lemma doc_key_text: "doc_key e k = Done (Inr key) \<Longrightarrow> key_text e k = Some key"
  by (auto simp: doc_key_def key_text_def split: lua_value.splits if_splits)

lemma rawget_entry: "table_ok t \<Longrightarrow> (k, v) \<in> set (entries t) \<Longrightarrow> rawget t k = v"
  by (auto simp: table_ok_def rawget_def)

text \<open>What the three conversions return.\<close>

definition elements_read :: "mongo_env \<Rightarrow> lua_value list \<Rightarrow> bson list \<Rightarrow> bool" where
  "elements_read e vs bs \<longleftrightarrow> length bs = length vs \<and> list_all bson_ok bs \<and>
     (\<forall>t i. (\<forall>j<length vs. rawgeti t (Suc (i + j)) = vs ! j) \<longrightarrow> denotes_elements e (mheap e) t (Suc i) bs)"

definition members_read :: "mongo_env \<Rightarrow> (lua_value \<times> lua_value) list \<Rightarrow> document \<Rightarrow> document \<Rightarrow> bool" where
  "members_read e es doc doc' \<longleftrightarrow>
     (\<forall>t. table_ok t \<longrightarrow> one_text e t \<longrightarrow> set es \<subseteq> set (entries t) \<longrightarrow> (\<forall>m\<in>set doc. has_member e t m) \<longrightarrow> (\<forall>m\<in>set doc'. has_member e t m)) \<and>
     fst ` set doc \<subseteq> fst ` set doc' \<and> (\<forall>x\<in>set es. key_text e (fst x) \<in> Some ` fst ` set doc') \<and>
     (distinct (map fst doc) \<longrightarrow> distinct (map fst doc')) \<and> length doc' \<le> length doc + length es"

lemma array_read:
  assumes heap: "plain_heap e" and size: "lua_array_size (mheap e a) = (True, n)"
    and r: "elements_read e (array_values (mheap e a) n) bs"
  shows "bson_denotes e (mheap e) (LTable a) (BArray bs) \<and> bson_ok (BArray bs)"
proof -
  have t: "table_ok (mheap e a)" "metafield (mheap e a) ''__array'' = LNil"
    using heap by (auto simp: plain_heap_def)
  have n: "n < 2 ^ 62" using t(1) array_size_border [OF size] by (simp add: table_ok_def is_border_def)
  have l: "length bs = n" using r by (simp add: elements_read_def array_values_def)
  have "denotes_elements e (mheap e) (mheap e a) (Suc 0) bs"
    using r by (simp add: elements_read_def array_values_def del: upt_Suc)
  moreover have "\<forall>k. rawget (mheap e a) k \<noteq> LNil \<longrightarrow> k \<in> int_key ` {1..length bs}"
    using array_keys [OF t(2) size] l by simp
  ultimately show ?thesis using n l r by (simp add: elements_read_def)
qed

lemma document_read:
  assumes heap: "plain_heap e" and r: "members_read e (entries (mheap e a)) [] ms"
    and doc: "\<not> fst (lua_array_size (mheap e a))"
  shows "bson_denotes e (mheap e) (LTable a) (BDoc ms) \<and> bson_ok (BDoc ms)"
proof -
  have t: "table_ok (mheap e a)" "length (entries (mheap e a)) < 2 ^ 62" "one_text e (mheap e a)"
    using heap doc by (auto simp: plain_heap_def)
  have m: "\<forall>m\<in>set ms. has_member e (mheap e a) m" using r t(1,3) by (simp add: members_read_def)
  have "key_text e k \<in> Some ` fst ` set ms" if "rawget (mheap e a) k \<noteq> LNil" for k
  proof -
    have "k \<in> fst ` set (entries (mheap e a))"
      using that by (auto simp: rawget_def split: option.splits dest: map_of_SomeD intro!: image_eqI [rotated])
    then show ?thesis using r by (auto simp: members_read_def)
  qed
  moreover have "distinct (map fst ms) \<and> length ms < 2 ^ 62"
    using r t(2) by (auto simp: members_read_def intro: le_less_trans)
  ultimately show ?thesis using m by (auto simp: denotes_document_iff has_member_def list_all_iff)
qed

lemma members_read_step:
  assumes "doc_key e k = Done (Inr key)" "bson_denotes e (mheap e) v b" "bson_ok b"
    and r: "members_read e es (doc_insert key b doc) doc'"
  shows "members_read e ((k, v) # es) doc doc'"
proof -
  have kt: "key_text e k = Some key" by (rule doc_key_text [OF assms(1)])
  have "has_member e t m" if t: "table_ok t" "set ((k, v) # es) \<subseteq> set (entries t)" "\<forall>m\<in>set doc. has_member e t m"
      "m \<in> set doc'" "one_text e t" for t m
  proof -
    have v: "rawget t k = v" using rawget_entry [OF t(1), of k v] t(2) by simp
    moreover have "v \<noteq> LNil" using t(1,2) by (auto simp: table_ok_def list_all_iff)
    ultimately have "\<forall>key'. key_text e key' = Some key \<and> rawget t key' \<noteq> LNil \<longrightarrow> key' = k"
      using t(5) kt unfolding one_text_def by metis
    then have "has_member e t (key, b)"
      using kt assms(2,3) v unfolding has_member_def by auto
    then have "\<forall>m\<in>set (doc_insert key b doc). has_member e t m" using t(3) by (auto dest!: doc_insert_keys(4))
    then show ?thesis using r t by (simp add: members_read_def)
  qed
  moreover have "length doc' \<le> length doc + length ((k, v) # es)"
    using r doc_insert_keys(3) [of key b doc] by (simp add: members_read_def)
  ultimately show ?thesis
    using r kt doc_insert_keys(1,2) unfolding members_read_def by auto
qed

lemma lua_to_bson_read:
  shows "lua_to_bson n e v is_oid = Done (Inr b) \<Longrightarrow> plain_heap e \<Longrightarrow> bson_denotes e (mheap e) v b \<and> bson_ok b"
    and "array_to_bson n e vs = Done (Inr bs) \<Longrightarrow> plain_heap e \<Longrightarrow> elements_read e vs bs"
    and "entries_to_doc n e es doc = Done (Inr doc') \<Longrightarrow> plain_heap e \<Longrightarrow> members_read e es doc doc'"
proof (induction n e v is_oid and n e vs and n e es doc arbitrary: b and bs and doc'
    rule: lua_to_bson_array_to_bson_entries_to_doc.induct)
  case (2 n e v is_oid)
  show ?case
  proof (cases v)
    case (LTable a)
    show ?thesis
    proof (cases "fst (lua_array_size (mheap e a))")
      case True
      then obtain bs where "array_to_bson n e (array_values (mheap e a) (snd (lua_array_size (mheap e a)))) = Done (Inr bs)"
        "b = BArray bs" using 2(3) LTable by (auto simp: rbind_Inr_iff)
      then show ?thesis
        using array_read [OF 2(4), of a "snd (lua_array_size (mheap e a))" bs] 2(1) [OF LTable True] 2(4) True LTable
        by (simp add: prod_eq_iff)
    next
      case False
      then obtain ms where "entries_to_doc n e (entries (mheap e a)) [] = Done (Inr ms)" "b = BDoc ms"
        using 2(3) LTable by (auto simp: rbind_Inr_iff)
      then show ?thesis using document_read [OF 2(4), of a ms] False 2(2) [OF LTable False] 2(4) LTable by simp
    qed
  qed (use 2(3) in \<open>auto split: if_splits sum.splits\<close>)
next
  case (4 n e v vs)
  then obtain b bs' where "lua_to_bson n e v False = Done (Inr b)" "array_to_bson n e vs = Done (Inr bs')" "bs = b # bs'"
    by (auto simp: rbind_Inr_iff)
  with 4 have r: "bson_denotes e (mheap e) v b \<and> bson_ok b" "elements_read e vs bs'" by auto
  have "denotes_elements e (mheap e) t (Suc i) (b # bs')"
    if "\<forall>j<length (v # vs). rawgeti t (Suc (i + j)) = (v # vs) ! j" for t i
  proof -
    have "rawgeti t (Suc i) = v" using that by force
    moreover have "rawgeti t (Suc (Suc i + j)) = vs ! j" if "j < length vs" for j
      using \<open>\<forall>j<length (v # vs). rawgeti t (Suc (i + j)) = (v # vs) ! j\<close> [rule_format, of "Suc j"] that by simp
    ultimately show ?thesis using r by (simp add: elements_read_def)
  qed
  with r \<open>bs = b # bs'\<close> show ?case by (simp add: elements_read_def)
next
  case (6 n e k v es doc)
  then obtain key b where "doc_key e k = Done (Inr key)" "lua_to_bson n e v (key = ''_id'') = Done (Inr b)"
    "entries_to_doc n e es (doc_insert key b doc) = Done (Inr doc')"
    by (auto simp: rbind_Inr_iff)
  with 6 show ?case by (blast intro: members_read_step)
qed (auto simp: elements_read_def members_read_def)

section \<open>Option tables\<close>

text \<open>
  The tables of \<open>find\<close>, \<open>create_index\<close> and of its index are read entry by entry: an unknown key is
  an error, a key that is no string is passed over, a scalar of the wrong type too; a table is
  required where a document is.
\<close>

datatype cursor_type = NonTailable | Tailable | TailableAwait

record find_options =
  fo_limit :: "i64 option"
  fo_skip :: "u64 option"
  fo_sort :: "document option"
  fo_projection :: "document option"
  fo_max_time :: "u64 option"
  fo_batch_size :: "u32 option"
  fo_allow_partial_results :: "bool option"
  fo_no_cursor_timeout :: "bool option"
  fo_cursor_type :: "cursor_type option"
  fo_read_concern :: "string option"

definition find_options_default :: find_options where
  "find_options_default = \<lparr>fo_limit = None, fo_skip = None, fo_sort = None, fo_projection = None,
     fo_max_time = None, fo_batch_size = None, fo_allow_partial_results = None, fo_no_cursor_timeout = None,
     fo_cursor_type = None, fo_read_concern = None\<rparr>"

definition debug_text :: "string \<Rightarrow> string" where
  "debug_text s = [dquote] @ s @ [dquote]"

text \<open>Setters that ignore a value of another type, and the one that insists on a table.\<close>

definition if_integer :: "lua_value \<Rightarrow> (i64 \<Rightarrow> 'o \<Rightarrow> 'o) \<Rightarrow> 'o \<Rightarrow> (string + 'o) outcome" where
  "if_integer v set_to o' = Done (Inr (case v of LInteger n \<Rightarrow> set_to n o' | _ \<Rightarrow> o'))"

definition if_boolean :: "lua_value \<Rightarrow> (bool \<Rightarrow> 'o \<Rightarrow> 'o) \<Rightarrow> 'o \<Rightarrow> (string + 'o) outcome" where
  "if_boolean v set_to o' = Done (Inr (case v of LBoolean b \<Rightarrow> set_to b o' | _ \<Rightarrow> o'))"

definition if_number :: "lua_value \<Rightarrow> (f64 \<Rightarrow> 'o \<Rightarrow> 'o) \<Rightarrow> 'o \<Rightarrow> (string + 'o) outcome" where
  "if_number v set_to o' = Done (Inr (case v of LNumber x \<Rightarrow> set_to x o' | _ \<Rightarrow> o'))"

definition if_string :: "lua_value \<Rightarrow> (string \<Rightarrow> 'o \<Rightarrow> 'o) \<Rightarrow> 'o \<Rightarrow> (string + 'o) outcome" where
  "if_string v set_to o' = Done (Inr (case v of LString s \<Rightarrow> set_to (utf8_lossy s) o' | _ \<Rightarrow> o'))"

definition need_table ::
  "nat \<Rightarrow> mongo_env \<Rightarrow> string \<Rightarrow> lua_value \<Rightarrow> (document \<Rightarrow> 'o \<Rightarrow> 'o) \<Rightarrow> 'o \<Rightarrow> (string + 'o) outcome" where
  "need_table n e what v set_to o' =
     (case v of
        LTable a \<Rightarrow> rbind (table_to_doc n e a) (\<lambda>d. Done (Inr (set_to d o')))
      | _ \<Rightarrow> Done (Inl (''Invalid '' @ what @ '' value type: '' @ debug_text (lua_value_name v))))"

definition read_cursor_type :: "lua_value \<Rightarrow> find_options \<Rightarrow> (string + find_options) outcome" where
  "read_cursor_type v o' =
     (case v of
        LString s \<Rightarrow>
          if s = ''NonTailable'' then Done (Inr (o'\<lparr>fo_cursor_type := Some NonTailable\<rparr>))
          else if s = ''Tailable'' then Done (Inr (o'\<lparr>fo_cursor_type := Some Tailable\<rparr>))
          else if s = ''TailableAwait'' then Done (Inr (o'\<lparr>fo_cursor_type := Some TailableAwait\<rparr>))
          else Done (Inl (''Invalid cursor type: '' @ utf8_lossy s))
      | _ \<Rightarrow> Done (Inr o'))"

definition find_option :: "nat \<Rightarrow> mongo_env \<Rightarrow> string \<Rightarrow> lua_value \<Rightarrow> find_options \<Rightarrow> (string + find_options) outcome" where
  "find_option n e key v o' =
     (if key = ''limit'' then if_integer v (\<lambda>i o'. o'\<lparr>fo_limit := Some i\<rparr>) o'
      else if key = ''skip'' then if_integer v (\<lambda>i o'. o'\<lparr>fo_skip := Some i\<rparr>) o'
      else if key = ''sort'' then need_table n e ''sort'' v (\<lambda>d o'. o'\<lparr>fo_sort := Some d\<rparr>) o'
      else if key = ''projection'' then need_table n e ''projection'' v (\<lambda>d o'. o'\<lparr>fo_projection := Some d\<rparr>) o'
      else if key = ''max_time'' then if_integer v (\<lambda>i o'. o'\<lparr>fo_max_time := Some i\<rparr>) o'
      else if key = ''batch_size'' then if_integer v (\<lambda>i o'. o'\<lparr>fo_batch_size := Some (ucast i)\<rparr>) o'
      else if key = ''allow_partial_results''
      then if_boolean v (\<lambda>b o'. o'\<lparr>fo_allow_partial_results := Some b\<rparr>) o'
      else if key = ''no_cursor_timeout'' then if_boolean v (\<lambda>b o'. o'\<lparr>fo_no_cursor_timeout := Some b\<rparr>) o'
      else if key = ''cursor_type'' then read_cursor_type v o'
      else if key = ''read_concern'' then if_string v (\<lambda>s o'. o'\<lparr>fo_read_concern := Some s\<rparr>) o'
      else Done (Inl (''Invalid find_options key: '' @ [CHR 0x27] @ key @ [CHR 0x27])))"

text \<open>The loop over a table's entries.\<close>

fun read_options ::
  "(string \<Rightarrow> lua_value \<Rightarrow> 'o \<Rightarrow> (string + 'o) outcome) \<Rightarrow> (lua_value \<times> lua_value) list \<Rightarrow> 'o \<Rightarrow> (string + 'o) outcome" where
  "read_options f [] o' = Done (Inr o')"
| "read_options f ((k, v) # es) o' =
     (case k of
        LString s \<Rightarrow> rbind (f (utf8_lossy s) v o') (read_options f es)
      | _ \<Rightarrow> read_options f es o')"

definition extract_find_options :: "nat \<Rightarrow> mongo_env \<Rightarrow> nat \<Rightarrow> (string + find_options) outcome" where
  "extract_find_options n e a = read_options (find_option n e) (entries (mheap e a)) find_options_default"

text \<open>The only option of \<open>create_index\<close> is a time in seconds.\<close>

type_synonym create_index_options = "u64 option"

definition create_index_option ::
  "string \<Rightarrow> lua_value \<Rightarrow> create_index_options \<Rightarrow> (string + create_index_options) outcome" where
  "create_index_option key v o' =
     (if key = ''max_time'' then if_integer v (\<lambda>i _. Some i) o' else Done (Inl (''Invalid key: '' @ key)))"

definition extract_create_index_options :: "mongo_env \<Rightarrow> nat \<Rightarrow> (string + create_index_options) outcome" where
  "extract_create_index_options e a = read_options create_index_option (entries (mheap e a)) None"

record index_options =
  io_name :: "string option"
  io_unique :: "bool option"
  io_background :: "bool option"
  io_sparse :: "bool option"
  io_storage_engine :: "document option"
  io_partial_filter_expression :: "document option"
  io_wildcard_projection :: "document option"
  io_hidden :: "bool option"
  io_default_language :: "string option"
  io_language_override :: "string option"
  io_weights :: "document option"
  io_bits :: "u32 option"
  io_max :: "f64 option"
  io_min :: "f64 option"
  io_bucket_size :: "u32 option"

definition index_options_default :: index_options where
  "index_options_default = \<lparr>io_name = None, io_unique = None, io_background = None, io_sparse = None,
     io_storage_engine = None, io_partial_filter_expression = None, io_wildcard_projection = None,
     io_hidden = None, io_default_language = None, io_language_override = None, io_weights = None,
     io_bits = None, io_max = None, io_min = None, io_bucket_size = None\<rparr>"

definition index_option :: "nat \<Rightarrow> mongo_env \<Rightarrow> string \<Rightarrow> lua_value \<Rightarrow> index_options \<Rightarrow> (string + index_options) outcome" where
  "index_option n e key v o' =
     (if key = ''name'' then if_string v (\<lambda>s o'. o'\<lparr>io_name := Some s\<rparr>) o'
      else if key = ''unique'' then if_boolean v (\<lambda>b o'. o'\<lparr>io_unique := Some b\<rparr>) o'
      else if key = ''background'' then if_boolean v (\<lambda>b o'. o'\<lparr>io_background := Some b\<rparr>) o'
      else if key = ''sparse'' then if_boolean v (\<lambda>b o'. o'\<lparr>io_sparse := Some b\<rparr>) o'
      else if key = ''storage_engine''
      then need_table n e ''storage_engine'' v (\<lambda>d o'. o'\<lparr>io_storage_engine := Some d\<rparr>) o'
      else if key = ''partial_filter_expression''
      then need_table n e ''partial_filter_expression'' v (\<lambda>d o'. o'\<lparr>io_partial_filter_expression := Some d\<rparr>) o'
      else if key = ''wildcard_projection''
      then need_table n e ''wildcard_projection'' v (\<lambda>d o'. o'\<lparr>io_wildcard_projection := Some d\<rparr>) o'
      else if key = ''hidden'' then if_boolean v (\<lambda>b o'. o'\<lparr>io_hidden := Some b\<rparr>) o'
      else if key = ''default_language'' then if_string v (\<lambda>s o'. o'\<lparr>io_default_language := Some s\<rparr>) o'
      else if key = ''language_override'' then if_string v (\<lambda>s o'. o'\<lparr>io_language_override := Some s\<rparr>) o'
      else if key = ''weights'' then need_table n e ''weights'' v (\<lambda>d o'. o'\<lparr>io_weights := Some d\<rparr>) o'
      else if key = ''bits'' then if_integer v (\<lambda>i o'. o'\<lparr>io_bits := Some (ucast i)\<rparr>) o'
      else if key = ''max'' then if_number v (\<lambda>x o'. o'\<lparr>io_max := Some x\<rparr>) o'
      else if key = ''min'' then if_number v (\<lambda>x o'. o'\<lparr>io_min := Some x\<rparr>) o'
      else if key = ''bucket_size'' then if_integer v (\<lambda>i o'. o'\<lparr>io_bucket_size := Some (ucast i)\<rparr>) o'
      else Done (Inl (''Invalid key: '' @ key)))"

definition extract_index_options :: "nat \<Rightarrow> mongo_env \<Rightarrow> nat \<Rightarrow> (string + index_options) outcome" where
  "extract_index_options n e a = read_options (index_option n e) (entries (mheap e a)) index_options_default"

section \<open>Requests\<close>

record index_model =
  im_keys :: document
  im_options :: "index_options option"

datatype mongo_op =
    CreateCollection | InsertOne document | InsertMany "document list" | DeleteOne document | DeleteMany document
  | UpdateOne document document | UpdateMany document document | FindOne document
  | Find document "find_options option" | ReplacOne document document | Count document | Exists document
  | CreateIndex index_model "create_index_options option"

record mongo_target =
  mt_owner :: i64
  mt_session :: i64
  mt_db :: string
  mt_coll :: string

datatype mongo_request = Business mongo_target mongo_op | CloseRequest

text \<open>
  A document argument: the code does not check that there is a table before it iterates. The
  arguments are taken in order from stack index \<open>i\<close>.
\<close>

definition unchecked_table :: "lua_stack \<Rightarrow> nat \<Rightarrow> (nat \<Rightarrow> (string + 'a) outcome) \<Rightarrow> (string + 'a) outcome" where
  "unchecked_table s i f =
     (case lua_at s (int i) of LTable a \<Rightarrow> f a | _ \<Rightarrow> UB ''lua_next on a value that is not a table'')"

definition doc_arg :: "nat \<Rightarrow> mongo_env \<Rightarrow> lua_stack \<Rightarrow> nat \<Rightarrow> (string + document) outcome" where
  "doc_arg n e s i = unchecked_table s i (table_to_doc n e)"

definition optional_table :: "lua_stack \<Rightarrow> nat \<Rightarrow> (nat \<Rightarrow> (string + 'o) outcome) \<Rightarrow> (string + 'o option) outcome" where
  "optional_table s i f =
     (case lua_at s (int i) of
        LTable a \<Rightarrow> rbind (f a) (\<lambda>o'. Done (Inr (Some o')))
      | _ \<Rightarrow> Done (Inr None))"

fun docs_of_entries :: "nat \<Rightarrow> mongo_env \<Rightarrow> (lua_value \<times> lua_value) list \<Rightarrow> (string + document list) outcome" where
  "docs_of_entries n e [] = Done (Inr [])"
| "docs_of_entries n e (x # xs) =
     rbind (lua_to_doc n e (snd x)) (\<lambda>d. rbind (docs_of_entries n e xs) (\<lambda>ds. Done (Inr (d # ds))))"

definition one_doc :: "nat \<Rightarrow> mongo_env \<Rightarrow> lua_stack \<Rightarrow> nat \<Rightarrow> (document \<Rightarrow> 'r) \<Rightarrow> (string + 'r) outcome" where
  "one_doc n e s i f = rbind (doc_arg n e s i) (\<lambda>d. Done (Inr (f d)))"

definition two_docs :: "nat \<Rightarrow> mongo_env \<Rightarrow> lua_stack \<Rightarrow> nat \<Rightarrow> (document \<Rightarrow> document \<Rightarrow> 'r) \<Rightarrow> (string + 'r) outcome" where
  "two_docs n e s i f = rbind (doc_arg n e s i) (\<lambda>d. rbind (doc_arg n e s (i + 1)) (\<lambda>d'. Done (Inr (f d d'))))"

definition make_op :: "nat \<Rightarrow> mongo_env \<Rightarrow> string \<Rightarrow> lua_stack \<Rightarrow> nat \<Rightarrow> (string + mongo_op) outcome" where
  "make_op n e op_name s i =
     (if op_name = ''create_coll'' then Done (Inr CreateCollection)
      else if op_name = ''insert_one'' then one_doc n e s i InsertOne
      else if op_name = ''insert_many''
      then unchecked_table s i (\<lambda>a. rbind (docs_of_entries n e (entries (mheap e a))) (\<lambda>ds. Done (Inr (InsertMany ds))))
      else if op_name = ''delete_one'' then one_doc n e s i DeleteOne
      else if op_name = ''delete_many'' then one_doc n e s i DeleteMany
      else if op_name = ''update_one'' then two_docs n e s i UpdateOne
      else if op_name = ''update_many'' then two_docs n e s i UpdateMany
      else if op_name = ''find_one'' then one_doc n e s i FindOne
      else if op_name = ''find''
      then rbind (doc_arg n e s i) (\<lambda>filter'.
           rbind (optional_table s (i + 1) (extract_find_options n e)) (\<lambda>o'. Done (Inr (Find filter' o'))))
      else if op_name = ''replace_one'' then two_docs n e s i ReplacOne
      else if op_name = ''count'' then one_doc n e s i Count
      else if op_name = ''exists'' then one_doc n e s i Exists
      else if op_name = ''create_index''
      then rbind (doc_arg n e s i) (\<lambda>keys.
           rbind (optional_table s (i + 1) (extract_index_options n e)) (\<lambda>io'.
           rbind (optional_table s (i + 2) (extract_create_index_options e)) (\<lambda>o'.
             Done (Inr (CreateIndex \<lparr>im_keys = keys, im_options = io'\<rparr> o')))))
      else Done (Inl (''Invalid operation: '' @ op_name)))"

definition make_request ::
  "nat \<Rightarrow> mongo_env \<Rightarrow> mongo_target \<Rightarrow> string \<Rightarrow> lua_stack \<Rightarrow> nat \<Rightarrow> (string + mongo_request) outcome" where
  "make_request n e tg op_name s i =
     (if op_name = ''close'' then Done (Inr CloseRequest)
      else rbind (make_op n e op_name s i) (\<lambda>op. Done (Inr (Business tg op))))"

section \<open>Results\<close>

text \<open>What the driver returns, and the table \<open>decode\<close> makes of it.\<close>

record update_result =
  matched_count :: u64
  modified_count :: u64
  upserted_id :: "bson option"

datatype mongo_response =
    MConnect | MCreateCollection | MInsertOne bson | MInsertMany "(u64 \<times> bson) list" | MDeleteOne u64 | MDeleteMany u64
  | MUpdateOne update_result | MUpdateMany update_result | MFindOne "document option" | MFind "document list"
  | MReplacOne update_result | MCount u64 | MExists bool | MCreateIndex string | MError string

text \<open>\<open>u64\<close> counts are pushed with \<open>as\<close>.\<close>

definition error_table :: "layout \<Rightarrow> string \<Rightarrow> alloc \<Rightarrow> lua_value \<times> alloc" where
  "error_table lay m st = push_lua_table lay [(''kind'', LString ''ERROR''), (''message'', LString m)] st"

definition or_error :: "layout \<Rightarrow> string + lua_value \<times> alloc \<Rightarrow> alloc \<Rightarrow> lua_value \<times> alloc" where
  "or_error lay r st = (case r of Inr x \<Rightarrow> x | Inl m \<Rightarrow> error_table lay m st)"

fun inserted_items :: "layout \<Rightarrow> mongo_env \<Rightarrow> (u64 \<times> bson) list \<Rightarrow> alloc \<Rightarrow> string + (lua_value \<times> lua_value) list \<times> alloc" where
  "inserted_items lay e [] st = Inr ([], st)"
| "inserted_items lay e ((i, b) # xs) st =
     ebind (bson_to_lua lay e b st) (\<lambda>(lv, st).
     ebind (inserted_items lay e xs st) (\<lambda>(items, st). Inr ((LInteger i, lv) # items, st)))"

definition update_items ::
  "layout \<Rightarrow> mongo_env \<Rightarrow> update_result \<Rightarrow> alloc \<Rightarrow> string + (lua_value \<times> lua_value) list \<times> alloc" where
  "update_items lay e r st =
     (let counts = [(LString ''matched_count'', LInteger (matched_count r)),
                    (LString ''modified_count'', LInteger (modified_count r))] in
      case upserted_id r of
        None \<Rightarrow> Inr (counts, st)
      | Some b \<Rightarrow> ebind (bson_to_lua lay e b st) (\<lambda>(lv, st). Inr (counts @ [(LString ''upserted_id'', lv)], st)))"

text \<open>A table filled with the items that are not nil.\<close>

definition mongo_table ::
  "layout \<Rightarrow> (alloc \<Rightarrow> string + (lua_value \<times> lua_value) list \<times> alloc) \<Rightarrow> alloc \<Rightarrow> string + lua_value \<times> alloc" where
  "mongo_table lay fill st = filled_table lay (\<lambda>st. ebind (fill st) (\<lambda>(items, st). Inr (stored items, st))) st"

definition mongo_decode ::
  "layout \<Rightarrow> mongo_env \<Rightarrow> (bson \<Rightarrow> string) \<Rightarrow> mongo_response \<Rightarrow> alloc \<Rightarrow> lua_value \<times> alloc" where
  "mongo_decode lay e show_bson resp st =
     (case resp of
        MConnect \<Rightarrow> push_lua_table lay [(''message'', LString ''Ok'')] st
      | MCreateCollection \<Rightarrow> push_lua_table lay [(''message'', LString ''Ok'')] st
      | MInsertOne id' \<Rightarrow> push_lua_table lay [(''inserted_id'', LString (show_bson id'))] st
      | MInsertMany ids \<Rightarrow> or_error lay (mongo_table lay (inserted_items lay e ids) st) st
      | MDeleteOne n \<Rightarrow> push_lua_table lay [(''deleted_count'', LInteger n)] st
      | MDeleteMany n \<Rightarrow> push_lua_table lay [(''deleted_count'', LInteger n)] st
      | MUpdateOne r \<Rightarrow> or_error lay (mongo_table lay (update_items lay e r) st) st
      | MUpdateMany r \<Rightarrow> or_error lay (mongo_table lay (update_items lay e r) st) st
      | MFindOne (Some d) \<Rightarrow> or_error lay (bson_to_lua lay e (BDoc d) st) st
      | MFind ds \<Rightarrow> or_error lay (mongo_table lay (bson_elems lay e 0 (map BDoc ds)) st) st
      | MReplacOne r \<Rightarrow> push_lua_table lay [(''matched_count'', LInteger (matched_count r)),
                          (''modified_count'', LInteger (modified_count r))] st
      | MCreateIndex nm \<Rightarrow> push_lua_table lay [(''name'', LString nm)] st
      | MCount n \<Rightarrow> push_lua_table lay [(''count'', LInteger n)] st
      | MExists b \<Rightarrow> push_lua_table lay [(''exists'', LBoolean b)] st
      | MError m \<Rightarrow> error_table lay m st
      | MFindOne None \<Rightarrow> (LNil, st))"

section \<open>How deep the stack must be\<close>

text \<open>Tables at the positions the conversion visits.\<close>

definition visited :: "lua_heap \<Rightarrow> nat \<Rightarrow> lua_value list" where
  "visited h a =
     (if fst (lua_array_size (h a)) then array_values (h a) (snd (lua_array_size (h a))) else map snd (entries (h a)))"

text \<open>
  \<open>reaches h n v\<close>: \<open>n\<close> visits in a row, of \<open>v\<close> first, each of the next ones of a value in the table before.
\<close>

primrec reaches :: "lua_heap \<Rightarrow> nat \<Rightarrow> lua_value \<Rightarrow> bool" where
  "reaches h 0 v \<longleftrightarrow> True"
| "reaches h (Suc n) v \<longleftrightarrow> n = 0 \<or> (\<exists>a. v = LTable a \<and> (\<exists>w\<in>set (visited h a). reaches h n w))"

lemma reaches_table: "\<not> reaches h (Suc (Suc n)) (LTable a) \<longleftrightarrow> (\<forall>w\<in>set (visited h a). \<not> reaches h (Suc n) w)"
  by auto

lemma rbind_same:
  "r = r' \<Longrightarrow> r' \<noteq> UB m \<Longrightarrow> (\<And>x. r' = Done (Inr x) \<Longrightarrow> f x = f' x \<and> f' x \<noteq> UB m) \<Longrightarrow>
     rbind r f = rbind r' f' \<and> rbind r' f' \<noteq> UB m"
  by (cases r') (auto simp: rbind_def split: sum.splits)

lemma doc_key_defined: "doc_key e k \<noteq> UB m"
  by (simp add: doc_key_def split: lua_value.splits)

lemma enough_stack:
  shows "\<not> reaches (mheap e) (Suc n) v \<Longrightarrow> n \<le> m \<Longrightarrow>
      lua_to_bson m e v is_oid = lua_to_bson n e v is_oid \<and> lua_to_bson n e v is_oid \<noteq> UB ''stack overflow''"
    and "\<forall>v\<in>set vs. \<not> reaches (mheap e) (Suc n) v \<Longrightarrow> n \<le> m \<Longrightarrow>
      array_to_bson m e vs = array_to_bson n e vs \<and> array_to_bson n e vs \<noteq> UB ''stack overflow''"
    and "\<forall>x\<in>set es. \<not> reaches (mheap e) (Suc n) (snd x) \<Longrightarrow> n \<le> m \<Longrightarrow>
      entries_to_doc m e es doc = entries_to_doc n e es doc \<and> entries_to_doc n e es doc \<noteq> UB ''stack overflow''"
proof (induction n e v is_oid and n e vs and n e es doc arbitrary: m and m and m
    rule: lua_to_bson_array_to_bson_entries_to_doc.induct)
  case (2 n e v is_oid)
  obtain m' where m: "m = Suc m'" "n \<le> m'" using 2(4) by (cases m) auto
  show ?case
  proof (cases v)
    case (LTable a)
    have r: "\<forall>w\<in>set (visited (mheap e) a). \<not> reaches (mheap e) (Suc n) w"
      using 2(3) unfolding LTable reaches_table .
    show ?thesis
    proof (cases "fst (lua_array_size (mheap e a))")
      case True
      let ?vs = "array_values (mheap e a) (snd (lua_array_size (mheap e a)))"
      have "array_to_bson m' e ?vs = array_to_bson n e ?vs \<and> array_to_bson n e ?vs \<noteq> UB ''stack overflow''"
        using 2(1) [OF LTable True _ m(2)] r True by (simp add: visited_def)
      then show ?thesis using LTable True m(1) by (cases "array_to_bson n e ?vs") (auto simp: rbind_def split: sum.splits)
    next
      case False
      let ?es = "entries (mheap e a)"
      have "\<forall>x\<in>set ?es. \<not> reaches (mheap e) (Suc n) (snd x)" using r False by (simp add: visited_def)
      then have "entries_to_doc m' e ?es [] = entries_to_doc n e ?es [] \<and> entries_to_doc n e ?es [] \<noteq> UB ''stack overflow''"
        using 2(2) [OF LTable False _ m(2)] by simp
      then show ?thesis using LTable False m(1) by (cases "entries_to_doc n e ?es []") (auto simp: rbind_def split: sum.splits)
    qed
  qed (use m(1) in auto)
next
  case (4 n e v vs)
  have h: "lua_to_bson m e v False = lua_to_bson n e v False" "lua_to_bson n e v False \<noteq> UB ''stack overflow''"
    using 4(1) [of m] 4(3,4) by simp_all
  show ?case unfolding array_to_bson.simps
  proof (rule rbind_same [OF h])
    fix b assume b: "lua_to_bson n e v False = Done (Inr b)"
    have t: "array_to_bson m e vs = array_to_bson n e vs" "array_to_bson n e vs \<noteq> UB ''stack overflow''"
      using 4(2) [OF b, of m] 4(3,4) by simp_all
    show "rbind (array_to_bson m e vs) (\<lambda>bs. Done (Inr (b # bs))) = rbind (array_to_bson n e vs) (\<lambda>bs. Done (Inr (b # bs))) \<and>
        rbind (array_to_bson n e vs) (\<lambda>bs. Done (Inr (b # bs))) \<noteq> UB ''stack overflow''"
      by (rule rbind_same [OF t]) simp
  qed
next
  case (6 n e k v es doc)
  show ?case unfolding entries_to_doc.simps
  proof (rule rbind_same [OF refl doc_key_defined])
    fix key assume k: "doc_key e k = Done (Inr key)"
    have h: "lua_to_bson m e v (key = ''_id'') = lua_to_bson n e v (key = ''_id'')"
      "lua_to_bson n e v (key = ''_id'') \<noteq> UB ''stack overflow''"
      using 6(1) [OF k, of m] 6(3,4) by simp_all
    show "rbind (lua_to_bson m e v (key = ''_id'')) (\<lambda>b. entries_to_doc m e es (doc_insert key b doc)) =
        rbind (lua_to_bson n e v (key = ''_id'')) (\<lambda>b. entries_to_doc n e es (doc_insert key b doc)) \<and>
        rbind (lua_to_bson n e v (key = ''_id'')) (\<lambda>b. entries_to_doc n e es (doc_insert key b doc)) \<noteq> UB ''stack overflow''"
    proof (rule rbind_same [OF h])
      fix b assume b: "lua_to_bson n e v (key = ''_id'') = Done (Inr b)"
      show "entries_to_doc m e es (doc_insert key b doc) = entries_to_doc n e es (doc_insert key b doc) \<and>
          entries_to_doc n e es (doc_insert key b doc) \<noteq> UB ''stack overflow''"
        using 6(2) [OF k b, of m] 6(3,4) by simp
    qed
  qed
qed auto

text \<open>Data that the conversion accepts: the types it knows, keys with a text, and an \<open>_id\<close> that is none or one.\<close>

definition plain_value :: "mongo_env \<Rightarrow> bool \<Rightarrow> lua_value \<Rightarrow> bool" where
  "plain_value e is_oid v \<longleftrightarrow>
     (case v of LNil \<Rightarrow> True | LBoolean _ \<Rightarrow> True | LNumber _ \<Rightarrow> True | LInteger _ \<Rightarrow> True | LTable _ \<Rightarrow> True
      | LString s \<Rightarrow> is_oid \<longrightarrow> \<not> isl (oid_parse e s) | _ \<Rightarrow> False)"

definition plain_member :: "mongo_env \<Rightarrow> lua_value \<times> lua_value \<Rightarrow> bool" where
  "plain_member e x \<longleftrightarrow>
     (case doc_key e (fst x) of Done (Inr key) \<Rightarrow> plain_value e (key = ''_id'') (snd x) | _ \<Rightarrow> False)"

definition convertible :: "mongo_env \<Rightarrow> bool" where
  "convertible e \<longleftrightarrow>
     (\<forall>a. if fst (lua_array_size (mheap e a))
          then list_all (plain_value e False) (array_values (mheap e a) (snd (lua_array_size (mheap e a))))
          else list_all (plain_member e) (entries (mheap e a)))"

text \<open>On such data the conversion succeeds or overflows, and it overflows on a chain longer than the stack.\<close>

definition overflows_iff :: "(string + 'b) outcome \<Rightarrow> bool \<Rightarrow> bool" where
  "overflows_iff r deep \<longleftrightarrow> (if deep then r = UB ''stack overflow'' else \<exists>x. r = Done (Inr x))"

lemma overflows_bind:
  assumes "overflows_iff r p" and "\<And>x. r = Done (Inr x) \<Longrightarrow> overflows_iff (f x) q"
  shows "overflows_iff (rbind r f) (p \<or> q)"
  using assms by (auto simp: overflows_iff_def split: if_splits)

lemma overflows_map: "overflows_iff r p \<Longrightarrow> overflows_iff (rbind r (\<lambda>x. Done (Inr (g x)))) p"
  by (auto simp: overflows_iff_def split: if_splits)

lemma convertible_overflows:
  shows "convertible e \<Longrightarrow> plain_value e is_oid v \<Longrightarrow>
      overflows_iff (lua_to_bson n e v is_oid) (reaches (mheap e) (Suc n) v)"
    and "convertible e \<Longrightarrow> list_all (plain_value e False) vs \<Longrightarrow>
      overflows_iff (array_to_bson n e vs) (\<exists>v\<in>set vs. reaches (mheap e) (Suc n) v)"
    and "convertible e \<Longrightarrow> list_all (plain_member e) es \<Longrightarrow>
      overflows_iff (entries_to_doc n e es doc) (\<exists>x\<in>set es. reaches (mheap e) (Suc n) (snd x))"
proof (induction n e v is_oid and n e vs and n e es doc
    rule: lua_to_bson_array_to_bson_entries_to_doc.induct)
  case (2 n e v is_oid)
  show ?case
  proof (cases v)
    case (LTable a)
    have deep: "reaches (mheap e) (Suc (Suc n)) v \<longleftrightarrow> (\<exists>w\<in>set (visited (mheap e) a). reaches (mheap e) (Suc n) w)"
      using reaches_table [of "mheap e" n a] LTable by blast
    show ?thesis
    proof (cases "fst (lua_array_size (mheap e a))")
      case True
      let ?vs = "array_values (mheap e a) (snd (lua_array_size (mheap e a)))"
      have "list_all (plain_value e False) ?vs" using 2(3) True unfolding convertible_def by metis
      from overflows_map [OF 2(1) [OF LTable True 2(3) this], of BArray] show ?thesis
        unfolding deep using True LTable by (simp add: visited_def)
    next
      case False
      have "list_all (plain_member e) (entries (mheap e a))" using 2(3) False unfolding convertible_def by metis
      from overflows_map [OF 2(2) [OF LTable False 2(3) this], of BDoc] show ?thesis
        unfolding deep using False LTable by (simp add: visited_def)
    qed
  qed (use 2(4) in \<open>auto simp: plain_value_def overflows_iff_def split: sum.splits\<close>)
next
  case (4 n e v vs)
  have h: "overflows_iff (lua_to_bson n e v False) (reaches (mheap e) (Suc n) v)" using 4 by simp
  have t: "overflows_iff (array_to_bson n e vs) (\<exists>v\<in>set vs. reaches (mheap e) (Suc n) v)"
    if "lua_to_bson n e v False = Done (Inr b)" for b using 4 that by simp
  show ?case unfolding array_to_bson.simps
    using overflows_bind [OF h, of "\<lambda>b. rbind (array_to_bson n e vs) (\<lambda>bs. Done (Inr (b # bs)))", OF overflows_map [OF t]]
    by simp
next
  case (6 n e k v es doc)
  obtain key where key: "doc_key e k = Done (Inr key)" "plain_value e (key = ''_id'') v" "list_all (plain_member e) es"
  proof -
    have pm: "plain_member e (k, v)" "list_all (plain_member e) es" using 6(4) by simp_all
    from pm(1) obtain key where "doc_key e k = Done (Inr key)" "plain_value e (key = ''_id'') v"
      by (auto simp: plain_member_def split: outcome.splits sum.splits)
    with pm(2) show ?thesis using that by blast
  qed
  have h: "overflows_iff (lua_to_bson n e v (key = ''_id'')) (reaches (mheap e) (Suc n) v)"
    using 6(1) [OF key(1) 6(3) key(2)] .
  have t: "overflows_iff (entries_to_doc n e es (doc_insert key b doc)) (\<exists>x\<in>set es. reaches (mheap e) (Suc n) (snd x))"
    if "lua_to_bson n e v (key = ''_id'') = Done (Inr b)" for b using 6(2) [OF key(1) that 6(3) key(3)] .
  show ?case unfolding entries_to_doc.simps
    using overflows_bind [OF h, of "\<lambda>b. entries_to_doc n e es (doc_insert key b doc)", OF t] key(1) by simp
qed (auto simp: overflows_iff_def)

lemma cyclic_reaches:
  "\<forall>a\<in>S. \<exists>b\<in>S. LTable b \<in> set (visited h a) \<Longrightarrow> a \<in> S \<Longrightarrow> reaches h n (LTable a)"
  by (induction n arbitrary: a) auto

text \<open>
  C8. A document written to MongoDB and read back stands for the same data, provided that the tables
  are well-formed and not declared arrays by \<open>__array\<close>, and that no table that becomes a document has two keys of
  one text (2 and "2"), for which a member would be lost. Then, whenever the conversion of a Lua value succeeds, the
  BSON value denotes it, each entry by a member or element of its own, nothing lost or added, and reading
  that BSON value back never fails and gives a Lua value that denotes it too (a null member as an absent
  key), without touching an existing table.
\<close>

theorem bson_roundtrip:
  assumes "plain_heap e" and "layout_ok lay" and "oid_law e"
    and "lua_to_bson n e v is_oid = Done (Inr b)"
  shows "bson_denotes e (mheap e) v b \<and>
    (\<exists>lv st'. bson_to_lua lay e b st = Inr (lv, st') \<and> bson_denotes e (fst st') lv b \<and>
       frame (snd st) (fst st) (fst st'))"
proof -
  have b: "bson_denotes e (mheap e) v b" "bson_ok b" using lua_to_bson_read(1) [OF assms(4,1)] by simp_all
  obtain lv st' where r: "bson_to_lua lay e b st = Inr (lv, st')" using bson_to_lua_total(1) [OF b(2)] by blast
  have "bson_built e st st' lv b" by (rule bson_to_lua_built(1) [OF r assms(2,3) b(2)])
  then have "bson_denotes e (fst st') lv b \<and> frame (snd st) (fst st) (fst st')"
    by (simp add: bson_built_def extends_def keeps_def same_between_def)
  then show ?thesis using b(1) r by blast
qed


definition demo_doc_table :: lua_tbl where
  "demo_doc_table = \<lparr>entries = [(LString ''name'', LString ''moon''), (LString ''level'', LInteger 5)], border = 0, metas = []\<rparr>"

definition demo_mongo :: mongo_env where
  "demo_mongo = \<lparr>mheap = (\<lambda>_. demo_doc_table), mshow = (\<lambda>_. ''0''), oid_parse = Inr, oid_show = (\<lambda>o'. o'),
     datetime_show = (\<lambda>_. ''t''), timestamp_show = (\<lambda>_ _. ''t''), decimal_show = (\<lambda>_. ''d'')\<rparr>"

lemma demo_mongo_plain: "plain_heap demo_mongo"
  by (auto simp: plain_heap_def demo_mongo_def demo_doc_table_def table_ok_def is_border_def metafield_def
      rawgeti_def rawget_def int_key_def one_text_def key_text_def split: if_splits)

theorem bson_roundtrip_witness:
  "lua_to_bson 2 demo_mongo (LTable 0) False =
     Done (Inr (BDoc [(''name'', BString ''moon''), (''level'', BInt64 5)])) \<and>
   (\<exists>lv st'. bson_to_lua simple_layout demo_mongo (BDoc [(''name'', BString ''moon''), (''level'', BInt64 5)]) (blank_heap, 4) =
       Inr (lv, st') \<and> frame 4 blank_heap (fst st'))"
proof -
  have r: "lua_to_bson 2 demo_mongo (LTable 0) False =
      Done (Inr (BDoc [(''name'', BString ''moon''), (''level'', BInt64 5)]))"
    by (simp add: numeral_2_eq_2 demo_mongo_def demo_doc_table_def lua_array_size_def metafield_def key_integer_def
        doc_key_def utf8_error_def utf8_first_def)
  have law: "oid_law demo_mongo" by (simp add: oid_law_def demo_mongo_def)
  show ?thesis
    using bson_roundtrip [OF demo_mongo_plain simple_layout_ok law r, of "(blank_heap, 4)"] r by auto
qed


definition document_ops :: "string list" where
  "document_ops = [''insert_one'', ''insert_many'', ''delete_one'', ''delete_many'', ''update_one'', ''update_many'',
     ''find_one'', ''find'', ''replace_one'', ''count'', ''exists'', ''create_index'']"

text \<open>
  The arguments of a document operation are not checked: for every operation that takes a
  document, an argument that is no table makes the code iterate over a value that is not a
  table, which the Lua library does not allow; an unknown operation is refused with an error,
  and \<open>close\<close> and \<open>create_coll\<close> take no further argument.
\<close>

theorem mongo_request_arguments:
  assumes "\<forall>a. lua_at s (int i) \<noteq> LTable a"
  shows "(op_name \<in> set document_ops \<longrightarrow>
      make_request n e tg op_name s i = UB ''lua_next on a value that is not a table'') \<and>
    make_request n e tg ''close'' s i = Done (Inr CloseRequest) \<and>
    make_request n e tg ''create_coll'' s i = Done (Inr (Business tg CreateCollection)) \<and>
    (op_name \<notin> set document_ops \<and> op_name \<noteq> ''close'' \<and> op_name \<noteq> ''create_coll'' \<longrightarrow>
      make_request n e tg op_name s i = Done (Inl (''Invalid operation: '' @ op_name)))"
proof -
  have d: "doc_arg n e s i = UB ''lua_next on a value that is not a table''"
    "unchecked_table s i f = UB ''lua_next on a value that is not a table''" for f :: "nat \<Rightarrow> (string + mongo_op) outcome"
    using assms by (simp_all add: doc_arg_def unchecked_table_def split: lua_value.splits)
  show ?thesis
    by (auto simp: make_request_def make_op_def document_ops_def one_doc_def two_docs_def d)
qed

theorem mongo_request_arguments_witness:
  "make_request 9 demo_mongo tg ''find_one'' [LInteger 1] 1 = UB ''lua_next on a value that is not a table''"
  using mongo_request_arguments [of "[LInteger 1]" 1 "''find_one''" 9 demo_mongo tg]
  by (simp add: lua_at_def document_ops_def)

end
