(* ===== verification/MongoSystem.thy ===== *)
theory MongoSystem
  imports MongoDoc Moon
begin

text \<open>
  A MongoDB connection of \<open>crates/libs/lib-lualib/src/lua_mongodb.rs\<close>: the unbounded channel, the
  loop of \<open>database_handler\<close>, the entry point \<open>operators\<close>, and the registry of connections by name.
  The driver (crate \<open>mongodb\<close>) is a record of functions on a world; an error is its text. Sending a
  request and counting it are separate steps, since the handler runs on another thread.
\<close>

section \<open>The driver\<close>

record 'w mongo_driver =
  md_create :: "string \<Rightarrow> string \<Rightarrow> 'w \<Rightarrow> (string + unit) \<times> 'w"
  md_insert_one :: "string \<Rightarrow> string \<Rightarrow> document \<Rightarrow> 'w \<Rightarrow> (string + bson) \<times> 'w"
  md_insert_many :: "string \<Rightarrow> string \<Rightarrow> document list \<Rightarrow> 'w \<Rightarrow> (string + (u64 \<times> bson) list) \<times> 'w"
  md_delete_one :: "string \<Rightarrow> string \<Rightarrow> document \<Rightarrow> 'w \<Rightarrow> (string + u64) \<times> 'w"
  md_delete_many :: "string \<Rightarrow> string \<Rightarrow> document \<Rightarrow> 'w \<Rightarrow> (string + u64) \<times> 'w"
  md_update_one :: "string \<Rightarrow> string \<Rightarrow> document \<Rightarrow> document \<Rightarrow> 'w \<Rightarrow> (string + update_result) \<times> 'w"
  md_update_many :: "string \<Rightarrow> string \<Rightarrow> document \<Rightarrow> document \<Rightarrow> 'w \<Rightarrow> (string + update_result) \<times> 'w"
  md_find_one :: "string \<Rightarrow> string \<Rightarrow> document \<Rightarrow> 'w \<Rightarrow> (string + document option) \<times> 'w"
  md_find :: "string \<Rightarrow> string \<Rightarrow> document \<Rightarrow> find_options option \<Rightarrow> 'w \<Rightarrow> (string + nat) \<times> 'w"
  md_collect :: "nat \<Rightarrow> 'w \<Rightarrow> (string + document list) \<times> 'w"
  md_replace_one :: "string \<Rightarrow> string \<Rightarrow> document \<Rightarrow> document \<Rightarrow> 'w \<Rightarrow> (string + update_result) \<times> 'w"
  md_count :: "string \<Rightarrow> string \<Rightarrow> document \<Rightarrow> 'w \<Rightarrow> (string + u64) \<times> 'w"
  md_create_index :: "string \<Rightarrow> string \<Rightarrow> index_model \<Rightarrow> create_index_options option \<Rightarrow> 'w \<Rightarrow> (string + string) \<times> 'w"

definition respond :: "('t \<Rightarrow> mongo_response) \<Rightarrow> (string + 't) \<times> 'w \<Rightarrow> (string + mongo_response) \<times> 'w" where
  "respond f x = (case fst x of Inl m \<Rightarrow> Inl m | Inr t \<Rightarrow> Inr (f t), snd x)"

text \<open>One operation: \<open>exists\<close> is a \<open>find_one\<close>, \<open>find\<close> collects its cursor.\<close>

fun mongo_execute ::
  "'w mongo_driver \<Rightarrow> string \<Rightarrow> string \<Rightarrow> mongo_op \<Rightarrow> 'w \<Rightarrow> (string + mongo_response) \<times> 'w" where
  "mongo_execute d db coll CreateCollection w = respond (\<lambda>_. MCreateCollection) (md_create d db coll w)"
| "mongo_execute d db coll (InsertOne doc) w = respond MInsertOne (md_insert_one d db coll doc w)"
| "mongo_execute d db coll (InsertMany docs) w = respond MInsertMany (md_insert_many d db coll docs w)"
| "mongo_execute d db coll (DeleteOne f) w = respond MDeleteOne (md_delete_one d db coll f w)"
| "mongo_execute d db coll (DeleteMany f) w = respond MDeleteMany (md_delete_many d db coll f w)"
| "mongo_execute d db coll (UpdateOne f u) w = respond MUpdateOne (md_update_one d db coll f u w)"
| "mongo_execute d db coll (UpdateMany f u) w = respond MUpdateMany (md_update_many d db coll f u w)"
| "mongo_execute d db coll (FindOne f) w = respond MFindOne (md_find_one d db coll f w)"
| "mongo_execute d db coll (Find f o') w =
     (case md_find d db coll f o' w of
        (Inr cur, w) \<Rightarrow> respond MFind (md_collect d cur w)
      | (Inl m, w) \<Rightarrow> (Inl m, w))"
| "mongo_execute d db coll (ReplacOne f r) w = respond MReplacOne (md_replace_one d db coll f r w)"
| "mongo_execute d db coll (Count f) w = respond MCount (md_count d db coll f w)"
| "mongo_execute d db coll (Exists f) w = respond (\<lambda>r. MExists (r \<noteq> None)) (md_find_one d db coll f w)"
| "mongo_execute d db coll (CreateIndex im o') w = respond MCreateIndex (md_create_index d db coll im o' w)"

section \<open>A connection\<close>

text \<open>
  \<open>uncounted\<close> are the requests sent whose sender has not yet counted them. \<open>mc_accepted\<close>, \<open>mc_done\<close>
  and \<open>mc_sent\<close> record the history. The handler's task keeps a sender of its own, so \<open>recv\<close> never
  ends the loop; only \<open>Close\<close> does, and then the rest of the queue is dropped.
\<close>

record 'w mongo_conn =
  mc_chan :: "mongo_request list"
  mc_open :: bool
  mc_counter :: i64
  mc_uncounted :: nat
  mc_world :: 'w
  mc_accepted :: "mongo_request list"
  mc_done :: "mongo_request list"
  mc_sent :: "(u32 \<times> i64 \<times> mongo_response) list"
  mc_log :: "string list"

definition mongo_conn_new :: "'w \<Rightarrow> 'w mongo_conn" where
  "mongo_conn_new w = \<lparr>mc_chan = [], mc_open = True, mc_counter = 0, mc_uncounted = 0, mc_world = w,
     mc_accepted = [], mc_done = [], mc_sent = [], mc_log = []\<rparr>"

text \<open>The log line has Rust's debug text of the error and the place in the source.\<close>

record mongo_ctx =
  mx_url :: string
  mx_debug :: "string \<Rightarrow> string"
  mx_here :: string

definition mongo_send_result :: "mongo_ctx \<Rightarrow> mongo_target \<Rightarrow> string + mongo_response \<Rightarrow> 'w mongo_conn \<Rightarrow> 'w mongo_conn" where
  "mongo_send_result ctx tg r c =
     (case r of
        Inr x \<Rightarrow>
          if mt_session tg \<noteq> 0 then c\<lparr>mc_sent := moon_send (ucast (mt_owner tg)) (mt_session tg) x (mc_sent c)\<rparr> else c
      | Inl m \<Rightarrow>
          if mt_session tg \<noteq> 0
          then c\<lparr>mc_sent := moon_send (ucast (mt_owner tg)) (mt_session tg) (MError m) (mc_sent c)\<rparr>
          else c\<lparr>mc_log := mc_log c @ [''Database '' @ [CHR 0x27] @ mx_url ctx @ [CHR 0x27] @ '' error: '' @
            [CHR 0x27] @ mx_debug ctx m @ [CHR 0x27] @ ''. Will retry. ('' @ mx_here ctx @ '')'']\<rparr>)"

text \<open>One round of the handler.\<close>

definition mongo_handle :: "mongo_ctx \<Rightarrow> 'w mongo_driver \<Rightarrow> 'w mongo_conn \<Rightarrow> 'w mongo_conn" where
  "mongo_handle ctx d c =
     (if \<not> mc_open c then c
      else case mc_chan c of
        [] \<Rightarrow> c
      | CloseRequest # _ \<Rightarrow> c\<lparr>mc_open := False, mc_chan := []\<rparr>
      | Business tg op # rest \<Rightarrow>
          (case mongo_execute d (mt_db tg) (mt_coll tg) op (mc_world c) of (r, w) \<Rightarrow>
             let c = mongo_send_result ctx tg r (c\<lparr>mc_chan := rest, mc_world := w\<rparr>) in
             c\<lparr>mc_counter := mc_counter c - 1, mc_done := mc_done c @ [Business tg op]\<rparr>))"

definition mongo_send :: "mongo_request \<Rightarrow> 'w mongo_conn \<Rightarrow> bool \<times> 'w mongo_conn" where
  "mongo_send req c =
     (if mc_open c
      then (True, c\<lparr>mc_chan := mc_chan c @ [req], mc_uncounted := mc_uncounted c + 1, mc_accepted := mc_accepted c @ [req]\<rparr>)
      else (False, c))"

definition mongo_count :: "'w mongo_conn \<Rightarrow> 'w mongo_conn" where
  "mongo_count c =
     (if mc_uncounted c = 0 then c
      else c\<lparr>mc_uncounted := mc_uncounted c - 1, mc_counter := mc_counter c + 1\<rparr>)"

section \<open>The entry point\<close>

text \<open>
  \<open>operators(conn, owner, session, op, db, coll, ...)\<close>. The arguments are converted by
  \<open>luaL_checkinteger\<close> and \<open>luaL_checklstring\<close> (\<open>lc_int\<close>, \<open>lc_text\<close>); a failure is a Lua error.
  The userdata is cast without a check: \<open>lc_conn\<close> is the address of the connection's own.
\<close>

definition operators_request ::
  "nat \<Rightarrow> mongo_env \<Rightarrow> lua_conv \<Rightarrow> lua_stack \<Rightarrow> (string + i64 \<times> (string + mongo_request)) outcome" where
  "operators_request n e lc s =
     rbind (conn_userdata lc s) (\<lambda>_.
     rbind (lua_integer_arg lc s 2) (\<lambda>owner.
     rbind (lua_integer_arg lc s 3) (\<lambda>session.
     rbind (lua_text_arg lc s 4) (\<lambda>op_name.
     rbind (lua_text_arg lc s 5) (\<lambda>db.
     rbind (lua_text_arg lc s 6) (\<lambda>coll.
     obind (make_request n e \<lparr>mt_owner = owner, mt_session = session, mt_db = utf8_lossy db, mt_coll = utf8_lossy coll\<rparr>
         op_name s 7) (\<lambda>r. Done (Inr (session, r)))))))))"

definition operators ::
  "nat \<Rightarrow> mongo_env \<Rightarrow> lua_conv \<Rightarrow> lua_stack \<Rightarrow> 'w mongo_conn \<Rightarrow> (string + lua_ret \<times> 'w mongo_conn) outcome" where
  "operators n e lc s c =
     rbind (operators_request n e lc s) (\<lambda>(session, r).
       case r of
         Inl m \<Rightarrow> Done (Inr (RetError m, c))
       | Inr req \<Rightarrow>
           (case mongo_send req c of
              (True, c) \<Rightarrow> Done (Inr (RetSession session, c))
            | (False, c) \<Rightarrow> Done (Inr (RetError ''channel closed'', c))))"

section \<open>Connecting\<close>

text \<open>Parsing the options and making the client are the driver's; either may fail.\<close>

definition mongo_client :: "(string \<Rightarrow> string + 'o) \<Rightarrow> ('o \<Rightarrow> string + 'w) \<Rightarrow> string \<Rightarrow> string + 'w" where
  "mongo_client parse with_options url = ebind (parse url) with_options"

record mongo_target =
  mg_protocol :: "8 word"
  mg_owner :: u32
  mg_session :: i64
  mg_url :: bytes
  mg_name :: bytes

definition mongo_connect_args :: "lua_conv \<Rightarrow> lua_stack \<Rightarrow> (string + mongo_target) outcome" where
  "mongo_connect_args lc s =
     rbind (lua_integer_arg lc s 1) (\<lambda>protocol_type.
     rbind (lua_integer_arg lc s 2) (\<lambda>owner.
     rbind (lua_integer_arg lc s 3) (\<lambda>session.
     rbind (lua_text_arg lc s 4) (\<lambda>url.
     rbind (lua_text_arg lc s 5) (\<lambda>name.
       Done (Inr \<lparr>mg_protocol = ucast protocol_type, mg_owner = ucast owner, mg_session = session, mg_url = url, mg_name = name\<rparr>))))))"

section \<open>Connections by name\<close>

record 'w mongo_server =
  ms_names :: "string \<Rightarrow> nat option"
  ms_conns :: "nat \<Rightarrow> 'w mongo_conn"
  ms_next :: nat
  ms_sent :: "(u32 \<times> i64 \<times> mongo_response) list"

text \<open>
  The task of \<open>connect\<close>: a connection replaces the one of that name in the registry, whose handler
  goes on. \<open>find_connection\<close> hands out a copy of the senders.
\<close>

definition mongo_connect_task ::
  "string \<Rightarrow> u32 \<Rightarrow> i64 \<Rightarrow> string + 'w \<Rightarrow> 'w mongo_server \<Rightarrow> 'w mongo_server" where
  "mongo_connect_task name owner session r sv =
     (case r of
        Inr w \<Rightarrow> sv\<lparr>ms_names := (ms_names sv)(name \<mapsto> ms_next sv),
                   ms_conns := (ms_conns sv)(ms_next sv := mongo_conn_new w), ms_next := ms_next sv + 1,
                   ms_sent := moon_send owner session MConnect (ms_sent sv)\<rparr>
      | Inl m \<Rightarrow> sv\<lparr>ms_sent := moon_send owner session (MError m) (ms_sent sv)\<rparr>)"

text \<open>\<open>connect\<close>: the session is returned at once, the task runs later.\<close>

definition mongo_connect ::
  "(string \<Rightarrow> string + 'o) \<Rightarrow> ('o \<Rightarrow> string + 'w) \<Rightarrow> lua_conv \<Rightarrow> lua_stack \<Rightarrow>
     (string + i64 \<times> ('w mongo_server \<Rightarrow> 'w mongo_server)) outcome" where
  "mongo_connect parse with_options lc s =
     rbind (mongo_connect_args lc s) (\<lambda>tg.
       Done (Inr (mg_session tg,
         mongo_connect_task (mg_name tg) (mg_owner tg) (mg_session tg) (mongo_client parse with_options (mg_url tg)))))"

definition mongo_find_connection :: "bytes \<Rightarrow> 'w mongo_server \<Rightarrow> nat option" where
  "mongo_find_connection name sv = ms_names sv name"

section \<open>Runs of a connection\<close>

datatype mongo_event = MSend mongo_request | MCount | MHandle

fun mongo_step :: "mongo_ctx \<Rightarrow> 'w mongo_driver \<Rightarrow> 'w mongo_conn \<Rightarrow> mongo_event \<Rightarrow> 'w mongo_conn" where
  "mongo_step ctx d c (MSend req) = snd (mongo_send req c)"
| "mongo_step ctx d c MCount = mongo_count c"
| "mongo_step ctx d c MHandle = mongo_handle ctx d c"

fun waiting_session :: "mongo_request \<Rightarrow> (u32 \<times> i64) option" where
  "waiting_session (Business tg op) = (if mt_session tg = 0 then None else Some (ucast (mt_owner tg), mt_session tg))"
| "waiting_session CloseRequest = None"

text \<open>What is accepted is done, waits in order, or was behind a \<open>Close\<close>.\<close>

definition mongo_ok :: "'w mongo_conn \<Rightarrow> bool" where
  "mongo_ok c \<longleftrightarrow>
     (\<exists>rest. mc_accepted c = mc_done c @ rest \<and> (if mc_open c then rest = mc_chan c else \<exists>dropped. rest = CloseRequest # dropped)) \<and>
     map answer_key (mc_sent c) = List.map_filter waiting_session (mc_done c) \<and>
     mc_counter c + of_nat (mc_uncounted c) + of_nat (length (mc_done c)) = of_nat (length (mc_accepted c))"

lemma send_result_fields [simp]:
  "mc_chan (mongo_send_result ctx tg r c) = mc_chan c" "mc_open (mongo_send_result ctx tg r c) = mc_open c"
  "mc_counter (mongo_send_result ctx tg r c) = mc_counter c" "mc_uncounted (mongo_send_result ctx tg r c) = mc_uncounted c"
  "mc_accepted (mongo_send_result ctx tg r c) = mc_accepted c" "mc_done (mongo_send_result ctx tg r c) = mc_done c"
  "map answer_key (mc_sent (mongo_send_result ctx tg r c)) =
     map answer_key (mc_sent c) @ (if mt_session tg = 0 then [] else [(ucast (mt_owner tg), mt_session tg)])"
  by (auto simp: mongo_send_result_def moon_send_keys split: sum.splits)

lemma mongo_send_ok: "mongo_ok c \<Longrightarrow> mongo_ok (snd (mongo_send req c))"
  by (auto simp: mongo_ok_def mongo_send_def)

lemma mongo_count_ok: "mongo_ok c \<Longrightarrow> mongo_ok (mongo_count c)"
  by (cases "mc_uncounted c") (auto simp: mongo_ok_def mongo_count_def algebra_simps)

lemma mongo_handle_ok:
  assumes "mongo_ok c" shows "mongo_ok (mongo_handle ctx d c)"
proof (cases "mc_open c \<and> mc_chan c \<noteq> []")
  case False
  then have "mongo_handle ctx d c = c" by (auto simp: mongo_handle_def)
  then show ?thesis using assms by simp
next
  case True
  then obtain req rest where q: "mc_open c" "mc_chan c = req # rest" by (cases "mc_chan c") auto
  show ?thesis
  proof (cases req)
    case CloseRequest
    then show ?thesis using assms q by (auto simp: mongo_ok_def mongo_handle_def)
  next
    case (Business tg op)
    obtain r w where r: "mongo_execute d (mt_db tg) (mt_coll tg) op (mc_world c) = (r, w)"
      by (cases "mongo_execute d (mt_db tg) (mt_coll tg) op (mc_world c)")
    then show ?thesis using assms q Business
      by (auto simp: mongo_ok_def mongo_handle_def map_filter_snoc algebra_simps)
  qed
qed

lemma mongo_new_ok: "mongo_ok (mongo_conn_new w)"
  by (simp add: mongo_ok_def mongo_conn_new_def map_filter_def)

lemma mongo_step_ok: "mongo_ok c \<Longrightarrow> mongo_ok (mongo_step ctx d c p)"
  by (cases p) (simp_all add: mongo_send_ok mongo_count_ok mongo_handle_ok)

interpretation mongo_connection: total_machine "mongo_step ctx d" mongo_ok
  by unfold_locales (rule mongo_step_ok)

text \<open>A closed connection does nothing more.\<close>

definition stranded :: "'w mongo_conn \<Rightarrow> 'w mongo_conn \<Rightarrow> bool" where
  "stranded c c' \<longleftrightarrow> \<not> mc_open c' \<and> mc_accepted c' = mc_accepted c \<and> mc_done c' = mc_done c \<and> mc_sent c' = mc_sent c \<and>
     mc_world c' = mc_world c"

lemma closed_step: "stranded c c' \<Longrightarrow> stranded c (mongo_step ctx d c' p)"
  by (cases p) (auto simp: stranded_def mongo_send_def mongo_count_def mongo_handle_def)

interpretation closed_connection: total_machine "mongo_step ctx d" "stranded c"
  by unfold_locales (rule closed_step)

section \<open>Properties\<close>

text \<open>
  C21. A MongoDB connection is a FIFO server under every interleaving of senders, counting and the
  handler: what was accepted is what was done, in order, followed by what still waits (or by a
  \<open>Close\<close> and what was behind it); each request done for a session got exactly one answer, in
  order; and the counter is the number of accepted requests less those done and those not yet
  counted.
\<close>

theorem mongo_connection_fifo:
  "let c = foldl (mongo_step ctx d) (mongo_conn_new w) steps in
     (\<exists>rest. mc_accepted c = mc_done c @ rest \<and> (if mc_open c then rest = mc_chan c else \<exists>dropped. rest = CloseRequest # dropped)) \<and>
     map answer_key (mc_sent c) = List.map_filter waiting_session (mc_done c) \<and>
     mc_counter c = of_nat (length (mc_accepted c)) - of_nat (length (mc_done c)) - of_nat (mc_uncounted c)"
proof -
  define c where "c = foldl (mongo_step ctx d) (mongo_conn_new w) steps"
  have "mongo_ok c" unfolding c_def by (rule mongo_connection.runs_keep [OF mongo_new_ok])
  then show ?thesis unfolding mongo_ok_def Let_def c_def [symmetric]
    by (auto simp: algebra_simps)
qed

text \<open>
  C37. Closing strands what comes after: once the handler has met \<open>Close\<close>, no step does or answers
  anything any more, new requests are refused, and, since neither the \<open>Close\<close> nor the requests
  behind it are ever taken off the counter, it stays above zero for good.
\<close>

theorem mongo_close_strands:
  assumes "c = foldl (mongo_step ctx d) (mongo_conn_new w) steps" and "\<not> mc_open c"
    and "c' = foldl (mongo_step ctx d) c later" and "mc_uncounted c' = 0" and "length (mc_accepted c) < 2 ^ 63"
  shows "mc_done c' = mc_done c \<and> mc_sent c' = mc_sent c \<and> mongo_send req c' = (False, c') \<and> 0 < sint (mc_counter c')"
proof -
  have s: "stranded c c'" unfolding assms(3)
    by (rule closed_connection.runs_keep) (simp add: stranded_def assms(2))
  have "mongo_ok c'" unfolding assms(3) assms(1)
    by (intro mongo_connection.runs_keep mongo_new_ok)
  then obtain dropped where a: "mc_accepted c' = mc_done c' @ CloseRequest # dropped"
    and n: "mc_counter c' + of_nat (length (mc_done c')) = of_nat (length (mc_accepted c'))"
    using s assms(4) by (auto simp: mongo_ok_def stranded_def)
  have "mc_counter c' = of_nat (Suc (length dropped))"
    using n unfolding a by (simp add: algebra_simps)
  moreover have "Suc (length dropped) < 2 ^ 63"
    using assms(5) s arg_cong [OF a, of length] by (simp add: stranded_def)
  ultimately have "sint (mc_counter c') = int (Suc (length dropped))"
    using sint_word_of_nat by metis
  then show ?thesis using s by (simp add: stranded_def mongo_send_def)
qed

definition refusing_driver :: "unit mongo_driver" where
  "refusing_driver = \<lparr>md_create = (\<lambda>_ _ w. (Inl ''down'', w)), md_insert_one = (\<lambda>_ _ _ w. (Inl ''down'', w)),
     md_insert_many = (\<lambda>_ _ _ w. (Inl ''down'', w)), md_delete_one = (\<lambda>_ _ _ w. (Inl ''down'', w)),
     md_delete_many = (\<lambda>_ _ _ w. (Inl ''down'', w)), md_update_one = (\<lambda>_ _ _ _ w. (Inl ''down'', w)),
     md_update_many = (\<lambda>_ _ _ _ w. (Inl ''down'', w)), md_find_one = (\<lambda>_ _ _ w. (Inl ''down'', w)),
     md_find = (\<lambda>_ _ _ _ w. (Inl ''down'', w)), md_collect = (\<lambda>_ w. (Inl ''down'', w)),
     md_replace_one = (\<lambda>_ _ _ _ w. (Inl ''down'', w)), md_count = (\<lambda>_ _ _ w. (Inl ''down'', w)),
     md_create_index = (\<lambda>_ _ _ _ w. (Inl ''down'', w))\<rparr>"

definition demo_mongo_ctx :: mongo_ctx where
  "demo_mongo_ctx = \<lparr>mx_url = ''mongodb://h'', mx_debug = debug_text, mx_here = ''lua_mongodb.rs:110''\<rparr>"

text \<open>A count request queued behind a \<open>Close\<close>.\<close>

definition close_then_count :: "mongo_event list" where
  "close_then_count = [MSend CloseRequest, MCount,
     MSend (Business \<lparr>mt_owner = 1, mt_session = 7, mt_db = ''db'', mt_coll = ''c''\<rparr> (Count [])), MCount, MHandle]"

theorem mongo_close_strands_witness:
  "let c = foldl (mongo_step demo_mongo_ctx refusing_driver) (mongo_conn_new ()) close_then_count;
       c' = foldl (mongo_step demo_mongo_ctx refusing_driver) c [MHandle, MCount] in
     mc_sent c' = [] \<and> 0 < sint (mc_counter c')"
proof -
  let ?c = "foldl (mongo_step demo_mongo_ctx refusing_driver) (mongo_conn_new ()) close_then_count"
  have c: "\<not> mc_open ?c" "mc_sent ?c = []" "length (mc_accepted ?c) < 2 ^ 63"
    "mc_uncounted (foldl (mongo_step demo_mongo_ctx refusing_driver) ?c [MHandle, MCount]) = 0"
    by (simp_all add: close_then_count_def mongo_conn_new_def mongo_send_def mongo_count_def mongo_handle_def)
  show ?thesis
    using mongo_close_strands [OF refl c(1) refl c(4,3)] c(2) by (simp add: Let_def)
qed

end
