(* ===== verification/Tiberius.thy ===== *)
theory Tiberius
  imports SqlxDecode Moon
begin

text \<open>
  The SQL Server module \<open>crates/libs/lib-lualib/src/lua_tiberius.rs\<close>: query parameters, the pool's three
  operations, the handler with its retry loop, the bounded channel and the entry points, and the
  decoding of rows. The driver (crate \<open>tiberius\<close>) is a record of functions on a world, a cell's
  conversions are a \<open>t_codec\<close>; an error is its text.
\<close>

section \<open>Parameters\<close>

datatype t_param = TBool bool | TInt i64 | TFloat f64 | TText string | TJson json_value | TBytes bytes

record t_query =
  tq_sql :: string
  tq_binds :: "t_param list"

text \<open>
  \<open>laux::type_name\<close> passes its argument to \<open>lua_typename\<close>, which expects a type tag; here it gets a
  stack index, so the name is that of another type, and beyond the tags there is none.
\<close>

definition typename_of_tag :: "nat \<Rightarrow> string outcome" where
  "typename_of_tag tag =
     (let tags = [''nil'', ''boolean'', ''userdata'', ''number'', ''string'', ''table'', ''function'', ''userdata'', ''thread''] in
      if tag < length tags then Done (tags ! tag) else UB ''lua_typename of a value that is no type tag'')"

text \<open>
  The outer error is a Lua error raised (\<open>encode_table\<close> failed), the inner one the message of the
  function. Strings are taken as UTF-8 unchecked; one that parses as JSON and looks like it is
  bound as JSON.
\<close>

record t_env =
  te_heap :: lua_heap
  te_show :: "f64 \<Rightarrow> string"
  te_json :: "bytes \<Rightarrow> string + json_value"

definition looks_json :: "bytes \<Rightarrow> bool" where
  "looks_json s \<longleftrightarrow> (case s of [] \<Rightarrow> False | c # _ \<Rightarrow> c = CHR ''{'' \<or> c = CHR ''['')"

definition t_get_query_param :: "t_env \<Rightarrow> lua_stack \<Rightarrow> nat \<Rightarrow> (string + string + t_param) outcome" where
  "t_get_query_param e s i =
     (case lua_at s (int i) of
        LBoolean b \<Rightarrow> Done (Inr (Inr (TBool b)))
      | LNumber x \<Rightarrow> Done (Inr (Inr (TFloat x)))
      | LInteger n \<Rightarrow> Done (Inr (Inr (TInt n)))
      | LString t \<Rightarrow>
          Done (Inr (Inr (if looks_json t then (case te_json e t of Inr j \<Rightarrow> TJson j | Inl _ \<Rightarrow> TText t) else TText t)))
      | LTable a \<Rightarrow>
          (case encode_table \<lparr>jopts = json_opts_default, jheap = te_heap e, jfmt = False, jshow = te_show e\<rparr> [] a 0 of
             Inl m \<Rightarrow> Done (Inl m)
           | Inr [] \<Rightarrow> Panic ''index out of bounds''
           | Inr (c # w) \<Rightarrow> Done (Inr (Inr (if looks_json (c # w)
               then (case te_json e (c # w) of Inr j \<Rightarrow> TJson j | Inl _ \<Rightarrow> TBytes (c # w)) else TBytes (c # w)))))
      | _ \<Rightarrow> obind (typename_of_tag i) (\<lambda>nm. Done (Inr (Inl (''get_query_param: unsupport value type :'' @ nm)))))"

text \<open>All parameters from stack index \<open>i\<close> on.\<close>

fun t_params :: "t_env \<Rightarrow> lua_stack \<Rightarrow> nat list \<Rightarrow> (string + string + t_param list) outcome" where
  "t_params e s [] = Done (Inr (Inr []))"
| "t_params e s (i # is) =
     rbind (t_get_query_param e s i) (\<lambda>r.
       case r of Inl m \<Rightarrow> Done (Inr (Inl m))
       | Inr p \<Rightarrow> rbind (t_params e s is) (\<lambda>r'. Done (Inr (case r' of Inl m \<Rightarrow> Inl m | Inr ps \<Rightarrow> Inr (p # ps)))))"

definition t_params_from :: "t_env \<Rightarrow> lua_stack \<Rightarrow> nat \<Rightarrow> (string + string + t_param list) outcome" where
  "t_params_from e s i = t_params e s [i..<Suc (length s)]"

section \<open>The pool\<close>

text \<open>\<open>'b\<close> is what the driver binds, \<open>'r\<close> a row; a query returns the rows of each result set.\<close>

datatype t_bind = BindBool bool | BindI64 i64 | BindF64 f64 | BindStr string | BindBytes bytes

record ('w, 'r) t_driver =
  td_json :: "json_value \<Rightarrow> string"
  td_query :: "string \<Rightarrow> t_bind list \<Rightarrow> 'w \<Rightarrow> (string + 'r list list) \<times> 'w"
  td_execute :: "string \<Rightarrow> t_bind list \<Rightarrow> 'w \<Rightarrow> (string + u64) \<times> 'w"
  td_simple :: "string \<Rightarrow> 'w \<Rightarrow> (string + 'r list list) \<times> 'w"

fun t_bind_of :: "('w, 'r) t_driver \<Rightarrow> t_param \<Rightarrow> t_bind" where
  "t_bind_of d (TBool b) = BindBool b"
| "t_bind_of d (TInt n) = BindI64 n"
| "t_bind_of d (TFloat x) = BindF64 x"
| "t_bind_of d (TText s) = BindStr s"
| "t_bind_of d (TJson j) = BindStr (td_json d j)"
| "t_bind_of d (TBytes b) = BindBytes b"

definition all_rows :: "(string + 'r list list) \<times> 'w \<Rightarrow> (string + 'r list) \<times> 'w" where
  "all_rows x = (case fst x of Inl m \<Rightarrow> Inl m | Inr sets \<Rightarrow> Inr (concat sets), snd x)"

definition t_query_op :: "('w, 'r) t_driver \<Rightarrow> t_query \<Rightarrow> 'w \<Rightarrow> (string + 'r list) \<times> 'w" where
  "t_query_op d q w = all_rows (td_query d (tq_sql q) (map (t_bind_of d) (tq_binds q)) w)"

definition t_execute_op :: "('w, 'r) t_driver \<Rightarrow> t_query \<Rightarrow> 'w \<Rightarrow> (string + u64) \<times> 'w" where
  "t_execute_op d q w = td_execute d (tq_sql q) (map (t_bind_of d) (tq_binds q)) w"

text \<open>\<open>str::trim_end\<close>, and the text of a batch: one statement after the other.\<close>

definition trim_end :: "bytes \<Rightarrow> bytes" where
  "trim_end s = rev (strip_any (length s) (map rev (map (map char_of) white_space)) (rev s))"

definition ends_with :: "char \<Rightarrow> string \<Rightarrow> bool" where
  "ends_with c s \<longleftrightarrow> s \<noteq> [] \<and> last s = c"

definition batch_text :: "t_query list \<Rightarrow> string" where
  "batch_text qs =
     concat (map (\<lambda>q. tq_sql q @ (if ends_with (CHR '';'') (trim_end (tq_sql q)) then [] else '';'')) qs)"

definition t_batch_op :: "('w, 'r) t_driver \<Rightarrow> t_query list \<Rightarrow> 'w \<Rightarrow> (string + 'r list) \<times> 'w" where
  "t_batch_op d qs w = all_rows (td_simple d (batch_text qs) w)"

section \<open>The handler\<close>

datatype t_request =
    TQuery u32 i64 t_query | TExecute u32 i64 t_query | TTransaction u32 i64 "t_query list" | TClose

datatype 'r t_response = TConnected | TRows "'r list" | TExecuted u64 | TError string | TTimeout string

fun t_origin :: "t_request \<Rightarrow> (u32 \<times> i64) option" where
  "t_origin (TQuery ow se _) = Some (ow, se)"
| "t_origin (TExecute ow se _) = Some (ow, se)"
| "t_origin (TTransaction ow se _) = Some (ow, se)"
| "t_origin TClose = None"

definition t_map :: "('t \<Rightarrow> 'r t_response) \<Rightarrow> (string + 't) \<times> 'w \<Rightarrow> (string + 'r t_response) \<times> 'w" where
  "t_map f x = (case fst x of Inl m \<Rightarrow> Inl m | Inr t \<Rightarrow> Inr (f t), snd x)"

fun t_perform :: "('w, 'r) t_driver \<Rightarrow> t_request \<Rightarrow> 'w \<Rightarrow> (string + 'r t_response) \<times> 'w" where
  "t_perform d (TQuery _ _ q) w = t_map TRows (t_query_op d q w)"
| "t_perform d (TExecute _ _ q) w = t_map TExecuted (t_execute_op d q w)"
| "t_perform d (TTransaction _ _ qs) w = t_map TRows (t_batch_op d qs w)"
| "t_perform d TClose w = (Inl ''close'', w)"

text \<open>
  The connection; \<open>tc_current\<close> is the request the handler works on, with its failures so far.
  \<open>tc_attempts\<close>, \<open>tc_accepted\<close> and \<open>tc_done\<close> record the history: every execution of
  a request, the requests the channel took, and those finished.
\<close>

record ('w, 'r) t_conn =
  tc_chan :: "t_request list"
  tc_open :: bool
  tc_current :: "(t_request \<times> i32) option"
  tc_counter :: i64
  tc_uncounted :: nat
  tc_world :: 'w
  tc_sent :: "(u32 \<times> i64 \<times> 'r t_response) list"
  tc_log :: "(u32 \<times> string) list"
  tc_attempts :: "t_request list"
  tc_accepted :: "t_request list"
  tc_done :: "t_request list"

text \<open>\<open>handle_result\<close>: whether to try again, and the number of failures so far.\<close>

definition t_handle_result ::
  "string \<Rightarrow> (string \<Rightarrow> string) \<Rightarrow> i32 \<Rightarrow> u32 \<Rightarrow> i64 \<Rightarrow> string + 'r t_response \<Rightarrow> ('w, 'r) t_conn \<Rightarrow>
     bool \<times> i32 \<times> ('w, 'r) t_conn" where
  "t_handle_result config debug failed owner session res c =
     (case res of
        Inr resp \<Rightarrow>
          let c = c\<lparr>tc_sent := moon_send owner session resp (tc_sent c)\<rparr>;
              c = (if 0 < sint failed
                   then c\<lparr>tc_log := moon_log owner log_level_info
                     (''Database '' @ [CHR 0x27] @ config @ [CHR 0x27] @ '' recover from error. Retry success.'') (tc_log c)\<rparr>
                   else c)
          in (False, failed, c\<lparr>tc_counter := tc_counter c - 1\<rparr>)
      | Inl m \<Rightarrow>
          if session \<noteq> 0
          then (False, failed, c\<lparr>tc_sent := moon_send owner session (TError m) (tc_sent c), tc_counter := tc_counter c - 1\<rparr>)
          else
            let c = (if 0 < sint failed
                     then c\<lparr>tc_log := moon_log owner log_level_error
                       (''Database '' @ [CHR 0x27] @ config @ [CHR 0x27] @ '' error: '' @ [CHR 0x27] @ debug m @ [CHR 0x27] @
                        ''. Will retry.'') (tc_log c)\<rparr>
                     else c)
            in (True, failed + 1, c))"

text \<open>
  One step of \<open>database_handler\<close>: take the next request, or attempt the current one once more (with a
  second's sleep in between, which has no effect here). There is no bound on the attempts.
\<close>

definition t_attempt ::
  "string \<Rightarrow> (string \<Rightarrow> string) \<Rightarrow> ('w, 'r) t_driver \<Rightarrow> t_request \<Rightarrow> i32 \<Rightarrow> ('w, 'r) t_conn \<Rightarrow> ('w, 'r) t_conn" where
  "t_attempt config debug d req failed c =
     (case t_origin req of
        None \<Rightarrow> c
      | Some (owner, session) \<Rightarrow>
          (case t_perform d req (tc_world c) of (res, w) \<Rightarrow>
           case t_handle_result config debug failed owner session res
                  (c\<lparr>tc_world := w, tc_attempts := tc_attempts c @ [req]\<rparr>) of
             (True, failed, c) \<Rightarrow> c\<lparr>tc_current := Some (req, failed)\<rparr>
           | (False, failed, c) \<Rightarrow> c\<lparr>tc_current := None, tc_done := tc_done c @ [req]\<rparr>))"

definition t_handle ::
  "string \<Rightarrow> (string \<Rightarrow> string) \<Rightarrow> ('w, 'r) t_driver \<Rightarrow> ('w, 'r) t_conn \<Rightarrow> ('w, 'r) t_conn" where
  "t_handle config debug d c =
     (if \<not> tc_open c then c
      else case tc_current c of
        Some (req, failed) \<Rightarrow> t_attempt config debug d req failed c
      | None \<Rightarrow>
          (case tc_chan c of
             [] \<Rightarrow> c
           | TClose # _ \<Rightarrow> c\<lparr>tc_open := False, tc_chan := []\<rparr>
           | req # rest \<Rightarrow> c\<lparr>tc_chan := rest, tc_current := Some (req, 0)\<rparr>))"

section \<open>Entry points\<close>

text \<open>The channel holds 100 requests. A request is counted after it was sent, in a step of its own.\<close>

definition t_capacity :: nat where "t_capacity = 100"

definition t_conn_new :: "'w \<Rightarrow> ('w, 'r) t_conn" where
  "t_conn_new w = \<lparr>tc_chan = [], tc_open = True, tc_current = None, tc_counter = 0, tc_uncounted = 0, tc_world = w, tc_sent = [],
     tc_log = [], tc_attempts = [], tc_accepted = [], tc_done = []\<rparr>"

definition t_try_send :: "t_request \<Rightarrow> ('w, 'r) t_conn \<Rightarrow> send_result \<times> ('w, 'r) t_conn" where
  "t_try_send req c =
     (if \<not> tc_open c then (SendClosed, c)
      else if t_capacity \<le> length (tc_chan c) then (SendFull, c)
      else (SendOk, c\<lparr>tc_chan := tc_chan c @ [req], tc_accepted := tc_accepted c @ [req],
                       tc_uncounted := (if req = TClose then tc_uncounted c else tc_uncounted c + 1)\<rparr>))"

definition t_count :: "('w, 'r) t_conn \<Rightarrow> ('w, 'r) t_conn" where
  "t_count c =
     (if tc_uncounted c = 0 then c else c\<lparr>tc_uncounted := tc_uncounted c - 1, tc_counter := tc_counter c + 1\<rparr>)"

definition t_submit :: "lua_ret \<Rightarrow> t_request \<Rightarrow> ('w, 'r) t_conn \<Rightarrow> lua_ret \<times> ('w, 'r) t_conn" where
  "t_submit ret req c =
     (case t_try_send req c of (SendOk, c) \<Rightarrow> (ret, c) | (err, c) \<Rightarrow> (RetError (send_error_text err), c))"

definition t_origin_args :: "lua_conv \<Rightarrow> lua_stack \<Rightarrow> (string + u32 \<times> i64) outcome" where
  "t_origin_args lc s =
     rbind (conn_userdata lc s) (\<lambda>_.
     rbind (lua_integer_arg lc s 2) (\<lambda>owner.
     rbind (lua_integer_arg lc s 3) (\<lambda>session. Done (Inr (ucast owner, session)))))"

definition t_statement_args ::
  "t_env \<Rightarrow> lua_conv \<Rightarrow> lua_stack \<Rightarrow> nat \<Rightarrow> (string + string + t_query) outcome" where
  "t_statement_args e lc s i =
     rbind (lua_text_arg lc s i) (\<lambda>sql.
     rbind (t_params_from e s (i + 1)) (\<lambda>r.
       Done (Inr (case r of Inl m \<Rightarrow> Inl m | Inr ps \<Rightarrow> Inr \<lparr>tq_sql = sql, tq_binds = ps\<rparr>))))"

definition t_statement ::
  "(u32 \<Rightarrow> i64 \<Rightarrow> t_query \<Rightarrow> t_request) \<Rightarrow> t_env \<Rightarrow> lua_conv \<Rightarrow> lua_stack \<Rightarrow> ('w, 'r) t_conn \<Rightarrow>
     (string + lua_ret \<times> ('w, 'r) t_conn) outcome" where
  "t_statement mk e lc s c =
     rbind (t_origin_args lc s) (\<lambda>(owner, session).
     rbind (t_statement_args e lc s 4) (\<lambda>r.
       Done (Inr (case r of
         Inl m \<Rightarrow> (RetError m, c)
       | Inr q \<Rightarrow> t_submit (RetSession session) (mk owner session q) c))))"

definition t_query_impl ::
  "t_env \<Rightarrow> lua_conv \<Rightarrow> lua_stack \<Rightarrow> ('w, 'r) t_conn \<Rightarrow> (string + lua_ret \<times> ('w, 'r) t_conn) outcome" where
  "t_query_impl = t_statement TQuery"

definition t_execute_impl ::
  "t_env \<Rightarrow> lua_conv \<Rightarrow> lua_stack \<Rightarrow> ('w, 'r) t_conn \<Rightarrow> (string + lua_ret \<times> ('w, 'r) t_conn) outcome" where
  "t_execute_impl = t_statement TExecute"

text \<open>A transaction under construction is a list of queries in a userdata of its own.\<close>

definition t_make_transaction :: "t_query list" where
  "t_make_transaction = []"

definition t_push_query ::
  "t_env \<Rightarrow> lua_conv \<Rightarrow> u64 \<Rightarrow> lua_stack \<Rightarrow> t_query list \<Rightarrow> (string + t_query list) outcome" where
  "t_push_query e lc address s qs =
     rbind (userdata_arg address ''Invalid transaction query pointer'' s 1) (\<lambda>_.
     rbind (t_statement_args e lc s 2) (\<lambda>r.
       Done (case r of Inl m \<Rightarrow> Inl m | Inr q \<Rightarrow> Inr (qs @ [q]))))"

text \<open>\<open>std::mem::take\<close> empties the list before the channel is tried.\<close>

definition t_transaction_impl ::
  "lua_conv \<Rightarrow> u64 \<Rightarrow> lua_stack \<Rightarrow> t_query list \<Rightarrow> ('w, 'r) t_conn \<Rightarrow>
     (string + lua_ret \<times> t_query list \<times> ('w, 'r) t_conn) outcome" where
  "t_transaction_impl lc address s qs c =
     rbind (t_origin_args lc s) (\<lambda>(owner, session).
     rbind (userdata_arg address ''Invalid transaction query pointer'' s 4) (\<lambda>_.
       case t_submit (RetSession session) (TTransaction owner session qs) c of (ret, c) \<Rightarrow> Done (Inr (ret, [], c))))"

definition t_close_impl :: "lua_conv \<Rightarrow> lua_stack \<Rightarrow> ('w, 'r) t_conn \<Rightarrow> (string + lua_ret \<times> ('w, 'r) t_conn) outcome" where
  "t_close_impl lc s c = rbind (conn_userdata lc s) (\<lambda>_. Done (Inr (t_submit (RetBool True) TClose c)))"

section \<open>Connecting\<close>

text \<open>
  Both the TCP connection and the login get the whole timeout; \<open>None\<close> is a future that did not end in
  time. Parsing the configuration, the network and the login are the crates'; \<open>show_io\<close> is the text of an I/O error.
\<close>

definition connect_with_timeout :: "(string \<Rightarrow> string) \<Rightarrow> (string + 'a) option \<Rightarrow> string + 'a" where
  "connect_with_timeout show_io r = (case r of None \<Rightarrow> Inl (show_io ''Connection timeout'') | Some x \<Rightarrow> x)"

record ('c, 's, 'w) t_net =
  tn_config :: "string \<Rightarrow> string + 'c"
  tn_trust :: "'c \<Rightarrow> 'c"
  tn_tcp :: "u64 \<Rightarrow> 'c \<Rightarrow> (string + 's) option"
  tn_nodelay :: "'s \<Rightarrow> string + unit"
  tn_login :: "u64 \<Rightarrow> 'c \<Rightarrow> 's \<Rightarrow> (string + 'w) option"
  tn_show_io :: "string \<Rightarrow> string"

definition t_pool_connect :: "('c, 's, 'w) t_net \<Rightarrow> string \<Rightarrow> u64 \<Rightarrow> string + 'w" where
  "t_pool_connect net config_str limit =
     ebind (tn_config net config_str) (\<lambda>config.
       let config = tn_trust net config in
       ebind (connect_with_timeout (tn_show_io net)
           (map_option (\<lambda>r. case r of Inl m \<Rightarrow> Inl (tn_show_io net m) | Inr x \<Rightarrow> Inr x) (tn_tcp net limit config))) (\<lambda>tcp.
       ebind (tn_nodelay net tcp) (\<lambda>_.
         connect_with_timeout (tn_show_io net) (tn_login net limit config tcp))))"

record t_target =
  tt_protocol :: "8 word"
  tt_owner :: u32
  tt_session :: i64
  tt_config :: bytes
  tt_name :: bytes
  tt_timeout :: u64

definition t_connect_args :: "lua_conv \<Rightarrow> lua_stack \<Rightarrow> (string + t_target) outcome" where
  "t_connect_args lc s =
     rbind (lua_integer_arg lc s 1) (\<lambda>protocol_type.
     rbind (lua_integer_arg lc s 2) (\<lambda>owner.
     rbind (lua_integer_arg lc s 3) (\<lambda>session.
     rbind (lua_text_arg lc s 4) (\<lambda>config.
     rbind (lua_text_arg lc s 5) (\<lambda>name.
       Done (Inr \<lparr>tt_protocol = ucast protocol_type, tt_owner = ucast owner, tt_session = session, tt_config = config,
         tt_name = name, tt_timeout = (case opt_integer (lua_at s 6) of None \<Rightarrow> 30000 | Some t \<Rightarrow> t)\<rparr>))))))"

section \<open>Connections by name\<close>

record ('w, 'r) t_server =
  tv_names :: "(string \<times> nat) list"
  tv_conns :: "nat \<Rightarrow> ('w, 'r) t_conn"
  tv_next :: nat
  tv_sent :: "(u32 \<times> i64 \<times> 'r t_response) list"

definition t_connect_task ::
  "string \<Rightarrow> u32 \<Rightarrow> i64 \<Rightarrow> string + 'w \<Rightarrow> ('w, 'r) t_server \<Rightarrow> ('w, 'r) t_server" where
  "t_connect_task name owner session r sv =
     (case r of
        Inr w \<Rightarrow> sv\<lparr>tv_names := AList.update name (tv_next sv) (tv_names sv),
                   tv_conns := (tv_conns sv)(tv_next sv := t_conn_new w), tv_next := tv_next sv + 1,
                   tv_sent := moon_send owner session TConnected (tv_sent sv)\<rparr>
      | Inl m \<Rightarrow> sv\<lparr>tv_sent := moon_send owner session (TTimeout m) (tv_sent sv)\<rparr>)"

text \<open>\<open>connect\<close>: the session is returned at once, the task runs later.\<close>

definition t_connect ::
  "('c, 's, 'w) t_net \<Rightarrow> lua_conv \<Rightarrow> lua_stack \<Rightarrow> (string + i64 \<times> (('w, 'r) t_server \<Rightarrow> ('w, 'r) t_server)) outcome" where
  "t_connect net lc s =
     rbind (t_connect_args lc s) (\<lambda>tg.
       Done (Inr (tt_session tg,
         t_connect_task (tt_name tg) (tt_owner tg) (tt_session tg) (t_pool_connect net (tt_config tg) (tt_timeout tg)))))"

lemma t_connect_answers:
  assumes "t_connect net lc s = Done (Inr (session, task))" "session \<noteq> 0"
  shows "\<exists>owner resp. tv_sent (task sv) = tv_sent sv @ [(owner, session, resp)]"
  using assms
  by (auto simp: t_connect_def rbind_Inr_iff t_connect_task_def moon_send_def split: sum.splits)

definition t_find_connection :: "string \<Rightarrow> ('w, 'r) t_server \<Rightarrow> nat option" where
  "t_find_connection name sv = map_of (tv_names sv) name"

definition t_stats :: "('w, 'r) t_server \<Rightarrow> (string \<times> i64) list" where
  "t_stats sv = map (\<lambda>(name, i). (name, tc_counter (tv_conns sv i))) (tv_names sv)"

section \<open>Rows\<close>

text \<open>
  What \<open>try_get\<close> makes of a cell for each type: no result when the type does not fit, \<open>None\<close> for an
  SQL null.
\<close>

record 'v t_codec =
  tk_str :: "'v \<Rightarrow> bytes option option"
  tk_bool :: "'v \<Rightarrow> bool option option"
  tk_i32 :: "'v \<Rightarrow> i32 option option"
  tk_i64 :: "'v \<Rightarrow> i64 option option"
  tk_f32 :: "'v \<Rightarrow> f32 option option"
  tk_f64 :: "'v \<Rightarrow> f64 option option"
  tk_bytes :: "'v \<Rightarrow> bytes option option"

record 'v t_row =
  tr_columns :: "string list"
  tr_cell :: "nat \<Rightarrow> 'v"

definition or_default :: "'t \<Rightarrow> 't option \<Rightarrow> 't" where
  "or_default x v = (case v of None \<Rightarrow> x | Some y \<Rightarrow> y)"

definition t_cell :: "'v t_codec \<Rightarrow> 'v \<Rightarrow> lua_value" where
  "t_cell k v =
     (case tk_str k v of Some s \<Rightarrow> LString (or_default [] s) | None \<Rightarrow>
      case tk_bool k v of Some b \<Rightarrow> LBoolean (or_default False b) | None \<Rightarrow>
      case tk_i32 k v of Some i \<Rightarrow> LInteger (scast (or_default 0 i)) | None \<Rightarrow>
      case tk_i64 k v of Some i \<Rightarrow> LInteger (or_default 0 i) | None \<Rightarrow>
      case tk_f32 k v of Some x \<Rightarrow> LNumber (f32_to_f64 (or_default 0 x)) | None \<Rightarrow>
      case tk_f64 k v of Some x \<Rightarrow> LNumber (or_default 0 x) | None \<Rightarrow>
      case tk_bytes k v of Some s \<Rightarrow> LString (or_default [] s) | None \<Rightarrow> LNil)"

text \<open>
  The cells of a row under the names of the first row's columns. The table methods \<open>rawset\<close> and
  \<open>seti\<close> the code stores them with are not in the repository: storing is a parameter of \<open>t_decode\<close>.
\<close>

definition t_row_cells :: "'v t_codec \<Rightarrow> string list \<Rightarrow> 'v t_row \<Rightarrow> (string \<times> lua_value) list" where
  "t_row_cells k columns row = map (\<lambda>(i, name). (name, t_cell k (tr_cell row i))) (enumerate 0 columns)"

definition t_process_rows :: "'v t_codec \<Rightarrow> 'v t_row list \<Rightarrow> (string \<times> lua_value) list list" where
  "t_process_rows k rows = map (t_row_cells k (case rows of [] \<Rightarrow> [] | row # _ \<Rightarrow> tr_columns row)) rows"

definition t_decode ::
  "((string \<times> lua_value) list list \<Rightarrow> alloc \<Rightarrow> lua_value \<times> alloc) \<Rightarrow> layout \<Rightarrow> 'v t_codec \<Rightarrow> 'v t_row t_response \<Rightarrow>
     alloc \<Rightarrow> lua_value \<times> alloc" where
  "t_decode store lay k resp st =
     (case resp of
        TRows rows \<Rightarrow> store (t_process_rows k rows) st
      | TExecuted n \<Rightarrow> push_lua_table lay [(''affected_rows'', LInteger n)] st
      | TConnected \<Rightarrow> push_lua_table lay [(''message'', LString ''success'')] st
      | TError m \<Rightarrow> push_lua_table lay [(''kind'', LString ''ERROR''), (''message'', LString m)] st
      | TTimeout m \<Rightarrow> push_lua_table lay [(''kind'', LString ''TIMEOUT''), (''message'', LString m)] st)"

section \<open>Runs\<close>

datatype t_event = TSend t_request | TCount | THandle

fun t_step :: "string \<Rightarrow> (string \<Rightarrow> string) \<Rightarrow> ('w, 'r) t_driver \<Rightarrow> ('w, 'r) t_conn \<Rightarrow> t_event \<Rightarrow> ('w, 'r) t_conn" where
  "t_step config debug d c (TSend req) = snd (t_try_send req c)"
| "t_step config debug d c TCount = t_count c"
| "t_step config debug d c THandle = t_handle config debug d c"

definition t_waiting :: "t_request \<Rightarrow> (u32 \<times> i64) option" where
  "t_waiting req = (case t_origin req of Some (ow, se) \<Rightarrow> if se = 0 then None else Some (ow, se) | None \<Rightarrow> None)"

definition in_hand :: "('w, 'r) t_conn \<Rightarrow> t_request list" where
  "in_hand c = (case tc_current c of None \<Rightarrow> [] | Some (req, _) \<Rightarrow> [req])"

definition counted_request :: "t_request \<Rightarrow> bool" where
  "counted_request req \<longleftrightarrow> req \<noteq> TClose"

text \<open>
  Accepted is done, in hand, or waiting, in order; a request somebody waits for is attempted once
  and answered once.
\<close>

definition t_counted :: "('w, 'r) t_conn \<Rightarrow> bool" where
  "t_counted c \<longleftrightarrow> tc_counter c = of_nat (length (filter counted_request (tc_accepted c))) - of_nat (length (tc_done c)) -
     of_nat (tc_uncounted c)"

definition t_ok :: "('w, 'r) t_conn \<Rightarrow> bool" where
  "t_ok c \<longleftrightarrow>
     (\<exists>rest. tc_accepted c = tc_done c @ in_hand c @ rest \<and>
        (if tc_open c then rest = tc_chan c else tc_current c = None \<and> (\<exists>dropped. rest = TClose # dropped))) \<and>
     TClose \<notin> set (tc_done c @ in_hand c) \<and> length (tc_chan c) \<le> t_capacity \<and>
     (\<forall>req failed. tc_current c = Some (req, failed) \<longrightarrow> t_waiting req = None \<or> failed = 0) \<and>
     map answer_key (tc_sent c) = List.map_filter t_waiting (tc_done c) \<and>
     filter (\<lambda>r. t_waiting r \<noteq> None) (tc_attempts c) = filter (\<lambda>r. t_waiting r \<noteq> None) (tc_done c) \<and>
     t_counted c"

lemma t_try_send_ok: "t_ok c \<Longrightarrow> t_ok (snd (t_try_send req c))"
  by (auto simp: t_ok_def t_try_send_def t_counted_def counted_request_def in_hand_def)

lemma t_count_ok: "t_ok c \<Longrightarrow> t_ok (t_count c)"
  by (cases "tc_uncounted c") (auto simp: t_ok_def t_count_def t_counted_def in_hand_def)

lemma t_new_ok: "t_ok (t_conn_new w)"
  by (simp add: t_ok_def t_conn_new_def t_counted_def map_filter_def in_hand_def)

text \<open>What \<open>handle_result\<close> does to the connection.\<close>

lemma t_handle_result_cases:
  assumes "t_handle_result config debug failed owner session res c = (again, failed', c')"
  shows "tc_chan c' = tc_chan c" "tc_open c' = tc_open c" "tc_accepted c' = tc_accepted c" "tc_done c' = tc_done c"
    "tc_uncounted c' = tc_uncounted c" "tc_attempts c' = tc_attempts c"
    "again \<Longrightarrow> session = 0 \<and> tc_counter c' = tc_counter c \<and> tc_sent c' = tc_sent c \<and> failed' = failed + 1 \<and> (\<exists>m. res = Inl m)"
    "\<not> again \<Longrightarrow> tc_counter c' = tc_counter c - 1 \<and>
       map answer_key (tc_sent c') = map answer_key (tc_sent c) @ (if session = 0 then [] else [(owner, session)])"
  using assms by (auto simp: t_handle_result_def Let_def moon_send_keys split: sum.splits if_splits)

lemma t_attempt_ok:
  assumes ok: "t_ok c" and o: "tc_open c" and cur: "tc_current c = Some (req, failed)"
  shows "t_ok (t_attempt config debug d req failed c)"
proof -
  have "req \<noteq> TClose" using ok cur by (auto simp: t_ok_def in_hand_def)
  then obtain ow se where org: "t_origin req = Some (ow, se)" by (cases req) auto
  obtain res w where p: "t_perform d req (tc_world c) = (res, w)" by (cases "t_perform d req (tc_world c)")
  obtain again failed' c' where h: "t_handle_result config debug failed ow se res
      (c\<lparr>tc_world := w, tc_attempts := tc_attempts c @ [req]\<rparr>) = (again, failed', c')" by (metis prod_cases3)
  note hc = t_handle_result_cases [OF h]
  show ?thesis
  proof (cases again)
    case True
    then have "t_waiting req = None" using hc(7) org by (simp add: t_waiting_def)
    moreover have "t_counted (c'\<lparr>tc_current := Some (req, failed')\<rparr>)"
      using ok hc True by (simp add: t_ok_def t_counted_def)
    ultimately show ?thesis using ok o cur org p h True hc
      by (auto simp: t_ok_def t_attempt_def in_hand_def)
  next
    case False
    then have n: "tc_counter c' = tc_counter c - 1"
      "map answer_key (tc_sent c') = map answer_key (tc_sent c) @ (case t_waiting req of None \<Rightarrow> [] | Some y \<Rightarrow> [y])"
      using hc(8) org by (auto simp: t_waiting_def)
    have "List.map_filter t_waiting (tc_done c @ [req]) =
        List.map_filter t_waiting (tc_done c) @ (case t_waiting req of None \<Rightarrow> [] | Some y \<Rightarrow> [y])"
      by (rule map_filter_snoc)
    moreover have "t_counted (c'\<lparr>tc_current := None, tc_done := tc_done c @ [req]\<rparr>)"
      using ok hc(1-6) n(1) by (simp add: t_ok_def t_counted_def)
    ultimately show ?thesis using ok o cur org p h False hc(1-6) n(2)
      by (auto simp: t_ok_def t_attempt_def in_hand_def)
  qed
qed

lemma t_handle_ok:
  assumes "t_ok c" shows "t_ok (t_handle config debug d c)"
proof (cases "tc_open c")
  case False
  then show ?thesis using assms by (simp add: t_handle_def)
next
  case True
  show ?thesis
  proof (cases "tc_current c")
    case (Some x)
    then show ?thesis using t_attempt_ok [OF assms True] True by (cases x) (simp add: t_handle_def)
  next
    case None
    show ?thesis
    proof (cases "tc_chan c")
      case Nil
      then show ?thesis using assms True None by (simp add: t_handle_def)
    next
      case (Cons req rest)
      then show ?thesis using assms True None by (cases req) (auto simp: t_handle_def t_ok_def t_counted_def in_hand_def)
    qed
  qed
qed

lemma t_step_ok: "t_ok c \<Longrightarrow> t_ok (t_step config debug d c ev)"
  by (cases ev) (simp_all add: t_try_send_ok t_count_ok t_handle_ok)

interpretation t_connection: total_machine "t_step config debug d" t_ok
  by unfold_locales (rule t_step_ok)

text \<open>A request nobody waits for, on a driver that always fails it.\<close>

definition hopeless :: "('w, 'r) t_driver \<Rightarrow> t_request \<Rightarrow> bool" where
  "hopeless d req \<longleftrightarrow> (\<exists>ow. t_origin req = Some (ow, 0)) \<and> (\<forall>w. \<exists>m w'. t_perform d req w = (Inl m, w'))"

definition stuck :: "('w, 'r) t_driver \<Rightarrow> t_request \<Rightarrow> i32 \<Rightarrow> ('w, 'r) t_conn \<Rightarrow> nat \<Rightarrow> ('w, 'r) t_conn \<Rightarrow> bool" where
  "stuck d req failed c n c' \<longleftrightarrow> tc_open c' \<and> tc_current c' = Some (req, failed + of_nat n) \<and>
     tc_done c' = tc_done c \<and> tc_sent c' = tc_sent c \<and> tc_attempts c' = tc_attempts c @ replicate n req \<and>
     tc_world c' = ((\<lambda>w. snd (t_perform d req w)) ^^ n) (tc_world c)"

text \<open>Every turn of the handler is one more execution; no other step changes anything for the request.\<close>

lemma stuck_step:
  assumes "hopeless d req" "stuck d req failed c n c'"
  shows "stuck d req failed c (if ev = THandle then n + 1 else n) (t_step config debug d c' ev)"
proof (cases ev)
  case (TSend r)
  then show ?thesis using assms(2) by (auto simp: stuck_def t_try_send_def)
next
  case TCount
  then show ?thesis using assms(2) by (auto simp: stuck_def t_count_def)
next
  case THandle
  obtain ow where "t_origin req = Some (ow, 0)" using assms by (auto simp: hopeless_def)
  moreover obtain m w' where "t_perform d req (tc_world c') = (Inl m, w')"
    using assms(1) unfolding hopeless_def by blast
  ultimately show ?thesis using assms(2) THandle
    by (auto simp: stuck_def t_handle_def t_attempt_def t_handle_result_def Let_def replicate_append_same)
qed

lemma stuck_run:
  assumes "hopeless d req" "tc_open c" "tc_current c = Some (req, failed)"
  shows "stuck d req failed c (length (filter (\<lambda>ev. ev = THandle) events)) (foldl (t_step config debug d) c events)"
proof (induction events rule: rev_induct)
  case (snoc ev events)
  then show ?case using stuck_step [OF assms(1) snoc, of ev config debug] by (simp split: if_splits)
qed (simp add: stuck_def assms)

section \<open>Properties\<close>

text \<open>
  C20. A SQL Server connection serves its queue in order under every interleaving: what was accepted
  is done, in hand or waiting, in that order (or was behind a \<open>Close\<close>); a request somebody waits
  for is executed exactly once and answered exactly once; at most 100 wait; and the counter is
  the number of accepted requests, \<open>Close\<close> apart, less those done and those not yet counted.
\<close>

theorem t_connection_fifo:
  "let c = foldl (t_step config debug d) (t_conn_new w) events in
     (\<exists>rest. tc_accepted c = tc_done c @ in_hand c @ rest \<and>
        (if tc_open c then rest = tc_chan c else tc_current c = None \<and> (\<exists>dropped. rest = TClose # dropped))) \<and>
     length (tc_chan c) \<le> t_capacity \<and>
     map answer_key (tc_sent c) = List.map_filter t_waiting (tc_done c) \<and>
     filter (\<lambda>r. t_waiting r \<noteq> None) (tc_attempts c) = filter (\<lambda>r. t_waiting r \<noteq> None) (tc_done c) \<and>
     tc_counter c = of_nat (length (filter counted_request (tc_accepted c))) - of_nat (length (tc_done c)) -
       of_nat (tc_uncounted c)"
proof -
  define c where "c = foldl (t_step config debug d) (t_conn_new w) events"
  have "t_ok c" unfolding c_def by (rule t_connection.runs_keep [OF t_new_ok])
  then show ?thesis unfolding t_ok_def t_counted_def Let_def c_def [symmetric] by blast
qed

text \<open>
  C39. A request nobody waits for is retried without bound: while the driver fails it, every turn of
  the handler is one more execution of it on the driver, whatever is sent in between, also
  \<open>Close\<close>: after \<open>n\<close> turns it has been executed \<open>n\<close> more times and is still in hand, with \<open>n\<close> more
  failures in its 32-bit count; nothing is finished, nothing is answered and nothing behind it is served.
\<close>

theorem t_retry_forever:
  assumes "hopeless d req" and "tc_open c" and "tc_current c = Some (req, failed)"
    and "c' = foldl (t_step config debug d) c events"
    and "n = length (filter (\<lambda>ev. ev = THandle) events)"
  shows "tc_attempts c' = tc_attempts c @ replicate n req \<and>
    tc_world c' = ((\<lambda>w. snd (t_perform d req w)) ^^ n) (tc_world c) \<and>
    tc_open c' \<and> tc_current c' = Some (req, failed + of_nat n) \<and> tc_done c' = tc_done c \<and> tc_sent c' = tc_sent c"
  using stuck_run [OF assms(1-3), of events config debug] unfolding assms(4,5) stuck_def by blast

definition failing_driver :: "(unit, nat) t_driver" where
  "failing_driver = \<lparr>td_json = (\<lambda>_. ''null''), td_query = (\<lambda>_ _ w. (Inl ''down'', w)), td_execute = (\<lambda>_ _ w. (Inl ''down'', w)),
     td_simple = (\<lambda>_ w. (Inl ''down'', w))\<rparr>"

definition fire_and_forget :: t_request where
  "fire_and_forget = TExecute 1 0 \<lparr>tq_sql = ''DELETE FROM t'', tq_binds = []\<rparr>"

theorem t_retry_forever_witness:
  "tc_attempts (foldl (t_step ''cfg'' (\<lambda>s. s) failing_driver)
     ((t_conn_new ())\<lparr>tc_current := Some (fire_and_forget, 0)\<rparr>) [TSend TClose, THandle, THandle, THandle]) =
     [fire_and_forget, fire_and_forget, fire_and_forget] \<and>
   tc_done (foldl (t_step ''cfg'' (\<lambda>s. s) failing_driver)
     ((t_conn_new ())\<lparr>tc_current := Some (fire_and_forget, 0)\<rparr>) [TSend TClose, THandle, THandle, THandle]) = []"
proof -
  have h: "hopeless failing_driver fire_and_forget"
    by (simp add: hopeless_def fire_and_forget_def failing_driver_def t_map_def t_execute_op_def)
  let ?c = "(t_conn_new ())\<lparr>tc_current := Some (fire_and_forget, 0)\<rparr>"
  have c: "tc_open ?c" "tc_current ?c = Some (fire_and_forget, 0)" "tc_done ?c = []" "tc_attempts ?c = []"
    by (simp_all add: t_conn_new_def)
  have n: "3 = length (filter (\<lambda>ev. ev = THandle) [TSend TClose, THandle, THandle, THandle])" by simp
  show ?thesis using t_retry_forever [OF h c(1,2) refl n] c(3,4) by (simp add: numeral_3_eq_3)
qed

text \<open>
  A transaction of this module is none, and drops parameters: what is sent depends on the texts of
  its queries only, joined with semicolons, so bound parameters are lost; and when the channel
  refuses the transaction, its queries are gone all the same.
\<close>

theorem t_transaction_losses:
  assumes "map tq_sql qs = map tq_sql qs'"
  shows "t_perform d (TTransaction ow se qs) w = t_perform d (TTransaction ow se qs') w \<and>
    (t_transaction_impl lc address s qs c = Done (Inr (ret, left, c')) \<longrightarrow> left = [])"
proof -
  have "batch_text qs = batch_text qs'"
    unfolding batch_text_def using arg_cong [OF assms, of "map (\<lambda>t. t @ (if ends_with (CHR '';'') (trim_end t) then [] else '';''))"]
    by (simp add: comp_def)
  moreover have "left = []" if run: "t_transaction_impl lc address s qs c = Done (Inr (ret, left, c'))"
  proof -
    let ?go = "\<lambda>owner session. case t_submit (RetSession session) (TTransaction owner session qs) c of
        (ret, c) \<Rightarrow> Done (Inr (ret, [], c))"
    obtain x where x: "(case x of (owner, session) \<Rightarrow>
        rbind (userdata_arg address ''Invalid transaction query pointer'' s 4) (\<lambda>_. ?go owner session)) = Done (Inr (ret, left, c'))"
      using run unfolding t_transaction_impl_def rbind_Inr_iff by blast
    obtain owner session where "x = (owner, session)" by (cases x)
    with x show ?thesis
      by (cases "t_submit (RetSession session) (TTransaction owner session qs) c") (auto simp: rbind_Inr_iff)
  qed
  ultimately show ?thesis by (simp add: t_batch_op_def)
qed

theorem t_transaction_losses_witness:
  "t_perform failing_driver (TTransaction 1 7 [\<lparr>tq_sql = ''UPDATE t SET x = @P1'', tq_binds = [TInt 5]\<rparr>]) () =
     t_perform failing_driver (TTransaction 1 7 [\<lparr>tq_sql = ''UPDATE t SET x = @P1'', tq_binds = []\<rparr>]) ()"
  by (rule t_transaction_losses [THEN conjunct1]) simp

end
