(* ===== verification/Http.thy ===== *)
theory Http
  imports LuaStack Moon
begin

text \<open>
  The HTTP client \<open>crates/libs/lib-lualib/src/lua_http.rs\<close> with the clients kept in
  \<open>crates/libs/lib-core/src/context.rs\<close>: a Lua table becomes a request, the task that sends it always
  answers, the answer becomes a Lua table; form encoding. The crates \<open>reqwest\<close> and \<open>url\<close> are outside
  the repository: parsing names, values and methods, building a client, sending, and the form
  syntax are parameters.
\<close>

section \<open>Versions and headers\<close>

datatype http_version = Http09 | Http10 | Http11 | Http2 | Http3 | HttpOther

fun version_to_string :: "http_version \<Rightarrow> string" where
  "version_to_string Http09 = ''HTTP/0.9''"
| "version_to_string Http10 = ''HTTP/1.0''"
| "version_to_string Http11 = ''HTTP/1.1''"
| "version_to_string Http2 = ''HTTP/2.0''"
| "version_to_string Http3 = ''HTTP/3.0''"
| "version_to_string HttpOther = ''Unknown''"

text \<open>
  \<open>HeaderValue::to_str\<close> accepts visible ASCII, space and tab only; \<open>trim\<close> can only meet the latter two.
\<close>

definition visible_text :: "bytes \<Rightarrow> bool" where
  "visible_text s \<longleftrightarrow> list_all (\<lambda>c. c = CHR 0x09 \<or> (32 \<le> (of_char c :: nat) \<and> of_char c < (127 :: nat))) s"

definition trim_blanks :: "bytes \<Rightarrow> bytes" where
  "trim_blanks s =
     (let blank = (\<lambda>c. c = CHR 0x20 \<or> c = CHR 0x09)
      in rev (dropWhile blank (rev (dropWhile blank s))))"

definition header_text :: "bytes \<Rightarrow> bytes" where
  "header_text v = trim_blanks (if visible_text v then v else [])"

text \<open>The headers of a response in the order of their map, a name as often as it has values.\<close>

type_synonym headers = "(string \<times> bytes) list"

definition push_headers :: "layout \<Rightarrow> headers \<Rightarrow> alloc \<Rightarrow> lua_value \<times> alloc" where
  "push_headers lay hs st = push_lua_table lay (map (\<lambda>(k, v). (k, LString (header_text v))) hs) st"

section \<open>Requests\<close>

text \<open>\<open>LuaValue\<close>'s \<open>Display\<close>; the text of a pointer and of a float are the standard library's.\<close>

fun lua_display :: "(f64 \<Rightarrow> string) \<Rightarrow> (u64 \<Rightarrow> string) \<Rightarrow> lua_value \<Rightarrow> string" where
  "lua_display show_f64 show_ptr LNone = ''none''"
| "lua_display show_f64 show_ptr LNil = ''nil''"
| "lua_display show_f64 show_ptr (LBoolean b) = (if b then ''true'' else ''false'')"
| "lua_display show_f64 show_ptr (LLightUserData p) = show_ptr p"
| "lua_display show_f64 show_ptr (LNumber x) = show_f64 x"
| "lua_display show_f64 show_ptr (LInteger n) = show_int (sint n)"
| "lua_display show_f64 show_ptr (LString s) = utf8_lossy s"
| "lua_display show_f64 show_ptr (LTable _) = ''table''"
| "lua_display show_f64 show_ptr (LFunction p) = show_ptr p"
| "lua_display show_f64 show_ptr (LUserData p) = show_ptr p"
| "lua_display show_f64 show_ptr (LThread p) = show_ptr p"

record http_env =
  he_heap :: lua_heap
  he_f64 :: "f64 \<Rightarrow> string"
  he_ptr :: "u64 \<Rightarrow> string"
  he_name :: "string \<Rightarrow> string + string"
  he_value :: "string \<Rightarrow> string + bytes"

definition header_entry :: "http_env \<Rightarrow> lua_value \<times> lua_value \<Rightarrow> headers \<Rightarrow> string + headers" where
  "header_entry e kv hs =
     (let key = lua_display (he_f64 e) (he_ptr e) (fst kv);
          val = lua_display (he_f64 e) (he_ptr e) (snd kv)
      in case he_name e key of
           Inl m \<Rightarrow> Inl (''Invalid header name '' @ [CHR 0x27] @ key @ [CHR 0x27] @ '': '' @ m)
         | Inr name \<Rightarrow>
             (case he_value e val of
                Inl m \<Rightarrow> Inl (''Invalid header value '' @ [CHR 0x27] @ val @ [CHR 0x27] @ '': '' @ m)
              | Inr v \<Rightarrow> Inr (AList.update name v hs)))"

fun header_entries :: "http_env \<Rightarrow> (lua_value \<times> lua_value) list \<Rightarrow> headers \<Rightarrow> string + headers" where
  "header_entries e [] hs = Inr hs"
| "header_entries e (kv # kvs) hs = ebind (header_entry e kv hs) (header_entries e kvs)"

definition extract_headers :: "http_env \<Rightarrow> lua_tbl \<Rightarrow> string + headers" where
  "extract_headers e t =
     (case rawget t (LString ''headers'') of
        LTable a \<Rightarrow> header_entries e (entries (he_heap e a)) []
      | _ \<Rightarrow> Inr [])"

record http_request =
  hq_owner :: u32
  hq_session :: i64
  hq_method :: string
  hq_url :: string
  hq_body :: string
  hq_headers :: headers
  hq_timeout :: u64
  hq_proxy :: string

definition field_or :: "'t \<Rightarrow> (lua_value \<Rightarrow> 't option) \<Rightarrow> lua_tbl \<Rightarrow> string \<Rightarrow> 't" where
  "field_or d conv t name = (case opt_field conv t name of None \<Rightarrow> d | Some x \<Rightarrow> x)"

definition http_request_of :: "lua_tbl \<Rightarrow> headers \<Rightarrow> http_request" where
  "http_request_of t hs =
     \<lparr>hq_owner = field_or 0 opt_integer t ''owner'', hq_session = field_or 0 opt_integer t ''session'',
      hq_method = field_or ''GET'' opt_string t ''method'', hq_url = field_or [] opt_string t ''url'',
      hq_body = field_or [] opt_string t ''body'', hq_headers = hs,
      hq_timeout = field_or 5 opt_integer t ''timeout'', hq_proxy = field_or [] opt_string t ''proxy''\<rparr>"

section \<open>The clients kept by the context\<close>

text \<open>\<open>'c\<close> is a client, \<open>'p\<close> a parsed proxy.\<close>

record ('c, 'p) client_env =
  ce_proxy :: "string \<Rightarrow> string + 'p"
  ce_build :: "u64 \<Rightarrow> 'p option \<Rightarrow> 'c"

type_synonym 'c clients = "string \<Rightarrow> 'c option"

definition client_name :: "u64 \<Rightarrow> string \<Rightarrow> string" where
  "client_name t proxy = show_nat (unat t) @ ''_'' @ proxy"

definition new_client :: "('c, 'p) client_env \<Rightarrow> u64 \<Rightarrow> string \<Rightarrow> 'c" where
  "new_client ce t proxy =
     (if proxy = [] then ce_build ce t None
      else case ce_proxy ce proxy of Inr p \<Rightarrow> ce_build ce t (Some p) | Inl _ \<Rightarrow> ce_build ce t None)"

definition get_http_client :: "('c, 'p) client_env \<Rightarrow> u64 \<Rightarrow> string \<Rightarrow> 'c clients \<Rightarrow> 'c \<times> 'c clients" where
  "get_http_client ce t proxy cs =
     (case cs (client_name t proxy) of
        Some c \<Rightarrow> (c, cs)
      | None \<Rightarrow> let c = new_client ce t proxy in (c, cs(client_name t proxy \<mapsto> c)))"

section \<open>Sending and answering\<close>

record http_response =
  hr_version :: http_version
  hr_status :: i32
  hr_headers :: headers
  hr_body :: bytes

text \<open>The method is parsed after the client was made; \<open>'w\<close> is the network.\<close>

record ('w, 'c, 'p) http_net =
  hn_clients :: "('c, 'p) client_env"
  hn_method :: "string \<Rightarrow> string + string"
  hn_send :: "'c \<Rightarrow> string \<Rightarrow> http_request \<Rightarrow> 'w \<Rightarrow> (string + http_response) \<times> 'w"

record ('w, 'c) http_state =
  ht_world :: 'w
  ht_clients :: "'c clients"
  ht_sent :: "(u32 \<times> i64 \<times> http_response) list"

definition http_request_task :: "('w, 'c, 'p) http_net \<Rightarrow> http_request \<Rightarrow> ('w, 'c) http_state \<Rightarrow>
    (string + http_response) \<times> ('w, 'c) http_state" where
  "http_request_task net req s =
     (case get_http_client (hn_clients net) (hq_timeout req) (hq_proxy req) (ht_clients s) of
        (client, cs) \<Rightarrow>
          (case hn_method net (hq_method req) of
             Inl m \<Rightarrow> (Inl m, s\<lparr>ht_clients := cs\<rparr>)
           | Inr meth \<Rightarrow>
               (case hn_send net client meth req (ht_world s) of (r, w) \<Rightarrow> (r, s\<lparr>ht_clients := cs, ht_world := w\<rparr>))))"

definition http_failure :: "string \<Rightarrow> http_response" where
  "http_failure m = \<lparr>hr_version = Http11, hr_status = - 1, hr_headers = [], hr_body = m\<rparr>"

definition http_spawned :: "('w, 'c, 'p) http_net \<Rightarrow> http_request \<Rightarrow> ('w, 'c) http_state \<Rightarrow> ('w, 'c) http_state" where
  "http_spawned net req s =
     (case http_request_task net req s of (r, s) \<Rightarrow>
        s\<lparr>ht_sent := moon_send (hq_owner req) (hq_session req) (case r of Inr resp \<Rightarrow> resp | Inl m \<Rightarrow> http_failure m) (ht_sent s)\<rparr>)"

text \<open>
  The entry point: Lua errors for arguments of another type, \<open>false\<close> and a message for bad headers;
  otherwise the task is spawned, here with the request it gets, and the session is returned.
\<close>

datatype http_ret = HttpSession i64 http_request | HttpRefused string

definition lua_http_request :: "http_env \<Rightarrow> lua_conv \<Rightarrow> lua_stack \<Rightarrow> string + http_ret" where
  "lua_http_request e lc s =
     (case lua_at s 1 of
        LTable a \<Rightarrow>
          (case lc_int lc (lua_at s 2) of
             None \<Rightarrow> Inl ''number expected''
           | Some _ \<Rightarrow>
               (case extract_headers e (he_heap e a) of
                  Inl m \<Rightarrow> Inr (HttpRefused m)
                | Inr hs \<Rightarrow> (let req = http_request_of (he_heap e a) hs in Inr (HttpSession (hq_session req) req))))
      | _ \<Rightarrow> Inl ''table expected'')"

section \<open>The answer as a table\<close>

definition http_decode :: "layout \<Rightarrow> http_response \<Rightarrow> alloc \<Rightarrow> lua_value \<times> alloc" where
  "http_decode lay r st =
     out_table lay (\<lambda>st. case push_headers lay (hr_headers r) st of (hs, st) \<Rightarrow>
       ([(LString ''version'', LString (version_to_string (hr_version r))), (LString ''status_code'', push_signed (hr_status r)),
         (LString ''body'', LString (hr_body r)), (LString ''headers'', hs)], st)) st"

section \<open>Forms\<close>

text \<open>\<open>byte_serialize\<close> and \<open>parse\<close> of the \<open>url\<close> crate are the arguments.\<close>

definition form_pair :: "(bytes \<Rightarrow> string) \<Rightarrow> (f64 \<Rightarrow> string) \<Rightarrow> lua_value \<times> lua_value \<Rightarrow> string" where
  "form_pair serialize show_f64 kv =
     serialize (lua_to_vec show_f64 (fst kv)) @ ''='' @ serialize (lua_to_vec show_f64 (snd kv))"

fun form_loop :: "(bytes \<Rightarrow> string) \<Rightarrow> (f64 \<Rightarrow> string) \<Rightarrow> (lua_value \<times> lua_value) list \<Rightarrow> string \<Rightarrow> string" where
  "form_loop serialize show_f64 [] result = result"
| "form_loop serialize show_f64 (kv # kvs) result =
     form_loop serialize show_f64 kvs ((if result \<noteq> [] then result @ ''&'' else result) @ form_pair serialize show_f64 kv)"

definition form_urlencode :: "(bytes \<Rightarrow> string) \<Rightarrow> (f64 \<Rightarrow> string) \<Rightarrow> lua_heap \<Rightarrow> lua_stack \<Rightarrow> string + lua_value" where
  "form_urlencode serialize show_f64 h s =
     (case lua_at s 1 of
        LTable a \<Rightarrow> Inr (LString (form_loop serialize show_f64 (entries (h a)) []))
      | _ \<Rightarrow> Inl ''table expected'')"

definition form_urldecode :: "(bytes \<Rightarrow> (string \<times> string) list) \<Rightarrow> layout \<Rightarrow> lua_conv \<Rightarrow> lua_stack \<Rightarrow> alloc \<Rightarrow>
    string + lua_value \<times> alloc" where
  "form_urldecode parse lay lc s st =
     (case lc_text lc (lua_at s 1) of
        None \<Rightarrow> Inl ''string expected''
      | Some q \<Rightarrow> Inr (push_lua_table lay (map (\<lambda>(k, v). (k, LString v)) (parse q)) st))"

section \<open>The clients match their requests\<close>

lemma digits_then_underscore:
  assumes "list_all is_ascii_digit xs" "list_all is_ascii_digit ys" "xs @ CHR ''_'' # p = ys @ CHR ''_'' # q"
  shows "xs = ys \<and> p = q"
  using assms
proof (induction xs arbitrary: ys)
  case Nil
  then show ?case by (cases ys) (auto simp: is_ascii_digit_def)
next
  case (Cons x xs)
  then show ?case by (cases ys) (auto simp: is_ascii_digit_def)
qed

lemma client_name_inj: "client_name t p = client_name t' p' \<Longrightarrow> t = t' \<and> p = p'"
proof -
  assume n: "client_name t p = client_name t' p'"
  then have "show_nat (unat t) = show_nat (unat t') \<and> p = p'"
    unfolding client_name_def by (intro digits_then_underscore show_nat_digits) simp
  moreover from this have "unat t = unat t'" by (metis digits_val_show_nat)
  ultimately show "t = t' \<and> p = p'" by (simp add: word_unat_eq_iff)
qed

definition clients_ok :: "('c, 'p) client_env \<Rightarrow> 'c clients \<Rightarrow> bool" where
  "clients_ok ce cs \<longleftrightarrow> (\<forall>t p c. cs (client_name t p) = Some c \<longrightarrow> c = new_client ce t p)"

lemma get_http_client_ok:
  assumes "clients_ok ce cs" "get_http_client ce t p cs = (c, cs')"
  shows "c = new_client ce t p" "clients_ok ce cs'"
  using assms by (auto simp: clients_ok_def get_http_client_def Let_def split: option.splits if_splits dest: client_name_inj)

definition net_step :: "('w, 'c, 'p) http_net \<Rightarrow> ('w, 'c) http_state \<Rightarrow> http_request \<Rightarrow> ('w, 'c) http_state" where
  "net_step net s req = http_spawned net req s"

definition net_start :: "'w \<Rightarrow> ('w, 'c) http_state" where
  "net_start w = \<lparr>ht_world = w, ht_clients = (\<lambda>_. None), ht_sent = []\<rparr>"

lemma http_request_task_clients:
  assumes "clients_ok (hn_clients net) (ht_clients s)" "http_request_task net req s = (r, s')"
  shows "clients_ok (hn_clients net) (ht_clients s')" "ht_sent s' = ht_sent s"
    "case hn_method net (hq_method req) of
       Inl m \<Rightarrow> r = Inl m \<and> ht_world s' = ht_world s
     | Inr meth \<Rightarrow> (r, ht_world s') =
         hn_send net (new_client (hn_clients net) (hq_timeout req) (hq_proxy req)) meth req (ht_world s)"
proof -
  obtain c cs where g: "get_http_client (hn_clients net) (hq_timeout req) (hq_proxy req) (ht_clients s) = (c, cs)"
    by (cases "get_http_client (hn_clients net) (hq_timeout req) (hq_proxy req) (ht_clients s)")
  note ok = get_http_client_ok [OF assms(1) g]
  show "clients_ok (hn_clients net) (ht_clients s')" "ht_sent s' = ht_sent s"
    "case hn_method net (hq_method req) of
       Inl m \<Rightarrow> r = Inl m \<and> ht_world s' = ht_world s
     | Inr meth \<Rightarrow> (r, ht_world s') =
         hn_send net (new_client (hn_clients net) (hq_timeout req) (hq_proxy req)) meth req (ht_world s)"
    using assms(2) ok by (auto simp: http_request_task_def g split: sum.splits prod.splits)
qed

lemma net_step_ok: "clients_ok (hn_clients net) (ht_clients s) \<Longrightarrow> clients_ok (hn_clients net) (ht_clients (net_step net s req))"
  using http_request_task_clients(1) [of net s req]
  by (auto simp: net_step_def http_spawned_def split: prod.splits)

interpretation http_clients: total_machine "net_step net" "\<lambda>s. clients_ok (hn_clients net) (ht_clients s)"
  by unfold_locales (rule net_step_ok)

section \<open>Properties\<close>

text \<open>
  C24. Every HTTP request that is accepted is answered exactly once, to the owner and session in its
  table, whatever came before it: with the response of the network, asked through a client made
  for this very timeout and proxy although clients are shared by name, or with a response of
  status -1 that has the error as its body. The body sent is the field's text, bytes that are no
  UTF-8 being replaced.
\<close>

theorem http_request_served:
  assumes "lua_http_request e lc s = Inr (HttpSession session req)"
    and "st = foldl (net_step net) (net_start w) history"
  shows "\<exists>resp. ht_sent (http_spawned net req st) = ht_sent st @ (if session = 0 then [] else [(hq_owner req, session, resp)]) \<and>
    (case hn_method net (hq_method req) of
       Inl m \<Rightarrow> resp = http_failure m
     | Inr meth \<Rightarrow>
         (case hn_send net (new_client (hn_clients net) (hq_timeout req) (hq_proxy req)) meth req (ht_world st) of
            (Inr r, w) \<Rightarrow> resp = r | (Inl m, w) \<Rightarrow> resp = http_failure m)) \<and>
    (\<forall>a b. lua_at s 1 = LTable a \<and> rawget (he_heap e a) (LString ''body'') = LString b \<longrightarrow> hq_body req = utf8_lossy b)"
proof -
  have ok: "clients_ok (hn_clients net) (ht_clients st)"
    unfolding assms(2) by (rule http_clients.runs_keep) (simp add: clients_ok_def net_start_def)
  obtain a hs where a: "lua_at s 1 = LTable a" "req = http_request_of (he_heap e a) hs" "session = hq_session req"
    using assms(1) by (auto simp: lua_http_request_def Let_def split: lua_value.splits option.splits sum.splits)
  obtain r st' where r: "http_request_task net req st = (r, st')" by (cases "http_request_task net req st")
  note t = http_request_task_clients [OF ok r]
  have "ht_sent (http_spawned net req st) =
      ht_sent st @ (if session = 0 then [] else [(hq_owner req, session, case r of Inr resp \<Rightarrow> resp | Inl m \<Rightarrow> http_failure m)])"
    using t(2) a(3) by (simp add: http_spawned_def r moon_send_def)
  moreover have "case hn_method net (hq_method req) of
       Inl m \<Rightarrow> (case r of Inr resp \<Rightarrow> resp | Inl m \<Rightarrow> http_failure m) = http_failure m
     | Inr meth \<Rightarrow>
         (case hn_send net (new_client (hn_clients net) (hq_timeout req) (hq_proxy req)) meth req (ht_world st) of
            (Inr r', w) \<Rightarrow> (case r of Inr resp \<Rightarrow> resp | Inl m \<Rightarrow> http_failure m) = r'
          | (Inl m, w) \<Rightarrow> (case r of Inr resp \<Rightarrow> resp | Inl m \<Rightarrow> http_failure m) = http_failure m)"
    using t(3) by (auto split: sum.splits)
  moreover have "hq_body req = utf8_lossy b" if "rawget (he_heap e a) (LString ''body'') = LString b" for b
    using that by (simp add: a(2) http_request_of_def field_or_def opt_field_def opt_string_def)
  ultimately show ?thesis using a(1) by (intro exI conjI) auto
qed

text \<open>A network that echoes the name of its client; a request of the table \<open>{url = "u", session = 9}\<close>.\<close>

definition echo_net :: "(unit, string, string) http_net" where
  "echo_net = \<lparr>hn_clients = \<lparr>ce_proxy = Inr, ce_build = (\<lambda>t p. case p of None \<Rightarrow> show_nat (unat t) | Some x \<Rightarrow> x)\<rparr>,
     hn_method = Inr,
     hn_send = (\<lambda>c m req w. (Inr \<lparr>hr_version = Http2, hr_status = 200, hr_headers = [], hr_body = c\<rparr>, w))\<rparr>"

definition demo_http :: http_env where
  "demo_http = \<lparr>he_heap = (\<lambda>_. \<lparr>entries = [(LString ''url'', LString ''u''), (LString ''session'', LInteger 9),
       (LString ''body'', LString [CHR 0xFF])], border = 0, metas = []\<rparr>),
     he_f64 = (\<lambda>_. ''''), he_ptr = (\<lambda>_. ''''), he_name = Inr, he_value = Inr\<rparr>"

theorem http_request_served_witness:
  "\<exists>req resp. lua_http_request demo_http integers_only [LTable 1, LInteger 4] = Inr (HttpSession 9 req) \<and>
     ht_sent (http_spawned echo_net req (net_start ())) = [(0, 9, resp)] \<and> hr_body resp = ''5'' \<and>
     hq_body req = map char_of [0xEF, 0xBF, 0xBD :: nat]"
proof -
  let ?req = "http_request_of (he_heap demo_http 1) []"
  have run: "lua_http_request demo_http integers_only [LTable 1, LInteger 4] = Inr (HttpSession 9 ?req)"
    by (simp add: lua_http_request_def demo_http_def integers_only_def extract_headers_def rawget_def lua_at_def
        http_request_of_def field_or_def opt_field_def)
  have five: "show_nat 5 = ''5''" by (simp add: show_nat.simps)
  have body: "utf8_lossy [CHR 0xFF] = map char_of [0xEF, 0xBF, 0xBD :: nat]"
    by (simp add: utf8_lossy_def utf8_first_def replacement_char_def)
  show ?thesis
    using http_request_served [OF run, of "net_start ()" echo_net "()" "[]"] run body five
    by (auto simp: net_start_def echo_net_def demo_http_def new_client_def http_request_of_def field_or_def
        opt_field_def rawget_def opt_string_def lua_at_def)
qed

lemma push_headers_field:
  assumes "layout_ok lay" "push_headers lay hs st = (lv, st')" "length hs < 2 ^ 62"
  shows "lua_field (fst st') lv name =
     (case map_of (rev hs) name of None \<Rightarrow> LNil | Some v \<Rightarrow> LString (header_text v))"
proof -
  let ?ms = "map (\<lambda>(k, v). (k, LString (header_text v))) hs"
  have m: "map_of (rev ?ms) name = map_option (\<lambda>v. LString (header_text v)) (map_of (rev hs) name)"
  proof -
    have "map_of (map (\<lambda>(k, v). (k, LString (header_text v))) xs) name =
        map_option (\<lambda>v. LString (header_text v)) (map_of xs name)" for xs :: headers
      by (induction xs) auto
    from this [of "rev hs"] show ?thesis by (simp only: rev_map)
  qed
  have "lua_field (fst st') lv name = (case map_of (rev ?ms) name of None \<Rightarrow> LNil | Some v \<Rightarrow> v)"
    using assms(2,3) unfolding push_headers_def
    by (intro lua_table_field [OF assms(1)]) (auto simp: list_all_iff)
  then show ?thesis by (simp add: m split: option.splits)
qed

text \<open>A new table does not touch the older ones.\<close>

lemma push_lua_table_frame:
  "push_lua_table lay ms st = (lv, st') \<Longrightarrow> lv = LTable (snd st) \<and> snd st' = snd st + 1 \<and> (\<forall>a. a < snd st \<longrightarrow> fst st' a = fst st a)"
  by (auto simp: push_lua_table_def out_table_def)

text \<open>
  The table Lua gets for a response has its version, status and body, and a table of headers in
  which each name has the last of its values: the text without surrounding blanks, or the empty
  string when the value is not plain ASCII. Earlier values of a repeated header (\<open>set-cookie\<close>) are
  lost.
\<close>

theorem http_decode_fields:
  assumes "layout_ok lay" and "http_decode lay r st = (lv, st')" and "length (hr_headers r) < 2 ^ 62"
  shows "lua_field (fst st') lv ''version'' = LString (version_to_string (hr_version r)) \<and>
    lua_field (fst st') lv ''status_code'' = LInteger (scast (hr_status r)) \<and>
    lua_field (fst st') lv ''body'' = LString (hr_body r) \<and>
    lua_field (fst st') (lua_field (fst st') lv ''headers'') name =
      (case map_of (rev (hr_headers r)) name of None \<Rightarrow> LNil | Some v \<Rightarrow> LString (header_text v))"
proof -
  obtain hs st1 where h: "push_headers lay (hr_headers r) (fst st, snd st + 1) = (hs, st1)"
    by (cases "push_headers lay (hr_headers r) (fst st, snd st + 1)")
  let ?items = "[(LString ''version'', LString (version_to_string (hr_version r))), (LString ''status_code'', push_signed (hr_status r)),
         (LString ''body'', LString (hr_body r)), (LString ''headers'', hs)]"
  have d: "lv = LTable (snd st)" "st' = ((fst st1)(snd st := lay ?items), snd st1)"
    using assms(2) h by (auto simp: http_decode_def out_table_def split: prod.splits)
  have f: "hs = LTable (snd st + 1)"
    using push_lua_table_frame [OF h [unfolded push_headers_def]] by simp
  have get: "rawget (lay ?items) k = (case map_of (rev ?items) k of None \<Rightarrow> LNil | Some v \<Rightarrow> v)" for k
    using f by (intro layout_get_value [OF assms(1)]) (simp_all add: push_signed_def)
  have "lua_field (fst st') hs name = lua_field (fst st1) hs name" by (simp add: d(2) f lua_field_def)
  then show ?thesis
    using push_headers_field [OF assms(1) h assms(3), of name] f
    by (simp add: d lua_field_def get [simplified f push_signed_def, simplified] push_signed_def)
qed

theorem http_decode_fields_witness:
  "case http_decode simple_layout \<lparr>hr_version = Http11, hr_status = 200,
       hr_headers = [(''set-cookie'', ''a''), (''set-cookie'', '' b '')], hr_body = ''x''\<rparr> (\<lambda>_. empty_table, 3) of
     (lv, st') \<Rightarrow> lua_field (fst st') lv ''body'' = LString ''x'' \<and>
       lua_field (fst st') (lua_field (fst st') lv ''headers'') ''set-cookie'' = LString ''b''"
proof -
  let ?r = "\<lparr>hr_version = Http11, hr_status = 200,
       hr_headers = [(''set-cookie'', ''a''), (''set-cookie'', '' b '')], hr_body = ''x''\<rparr>"
  obtain lv st' where d: "http_decode simple_layout ?r (\<lambda>_. empty_table, 3) = (lv, st')"
    by (cases "http_decode simple_layout ?r (\<lambda>_. empty_table, 3)")
  show ?thesis
    using http_decode_fields [OF simple_layout_ok d, of "''set-cookie''"] d
    by (simp add: header_text_def trim_blanks_def visible_text_def)
qed

end
