(* ===== verification/WebSocket.thy ===== *)
theory WebSocket
  imports Http
begin

text \<open>
  The WebSocket client \<open>crates/libs/lib-lualib/src/lua_websocket.rs\<close>: a connection is a reader task and
  a writer task behind two bounded channels. The stream and the sink of \<open>tokio_tungstenite\<close> are
  outside the repository: what a read or a write comes to is the argument of the task's step. \<open>'m\<close>
  is a received message, \<open>'h\<close> the response of the handshake.
\<close>

section \<open>Messages\<close>

text \<open>What the client sends; a close frame always has the code \<open>Normal\<close>.\<close>

datatype ws_out = OutText bytes | OutBinary bytes | OutPing bytes | OutClose bytes

datatype ws_request = WsRead u32 i64 u64 | WsWrite ws_out bool | WsClose ws_out

datatype ('m, 'h) ws_response = WsConnected i64 'h | WsGot 'm | WsError string

section \<open>A connection\<close>

text \<open>What a poll of the stream comes to, and what the sink answers.\<close>

datatype 'm read_end = ReadMessage 'm | ReadEof | ReadFails string | ReadElapsed

datatype writer_end = WriterRuns | WriterDone | WriterFails string

text \<open>
  \<open>NET\<close> keeps both senders of every connection for good, so neither \<open>recv\<close> ever ends its loop for
  want of senders. \<open>wc_accepted\<close>, \<open>wc_done\<close> and \<open>wc_taken\<close> record the history: the reads the channel
  took, those answered, and the writes it took.
\<close>

record ('m, 'h) ws_conn =
  wc_reads :: "ws_request list"
  wc_reading :: "(u32 \<times> i64 \<times> u64) option"
  wc_closed :: bool
  wc_writes :: "ws_request list"
  wc_writer :: writer_end
  wc_wire :: "ws_out list"
  wc_sent :: "(u32 \<times> i64 \<times> ('m, 'h) ws_response) list"
  wc_log :: "ws_request list"
  wc_accepted :: "ws_request list"
  wc_done :: "ws_request list"
  wc_taken :: "ws_request list"

definition reads_capacity :: nat where "reads_capacity = 1"
definition writes_capacity :: nat where "writes_capacity = 100"

definition ws_conn_new :: "('m, 'h) ws_conn" where
  "ws_conn_new = \<lparr>wc_reads = [], wc_reading = None, wc_closed = False, wc_writes = [], wc_writer = WriterRuns,
     wc_wire = [], wc_sent = [], wc_log = [], wc_accepted = [], wc_done = [], wc_taken = []\<rparr>"

text \<open>\<open>handle_read\<close>: the message to answer with, or the error. Without a timeout nothing elapses.\<close>

definition handle_read :: "u64 \<Rightarrow> 'm read_end \<Rightarrow> (string + 'm) option" where
  "handle_read read_timeout r =
     (case r of
        ReadMessage m \<Rightarrow> Some (Inr m)
      | ReadEof \<Rightarrow> Some (Inl ''eof'')
      | ReadFails e \<Rightarrow> Some (Inl e)
      | ReadElapsed \<Rightarrow> if 0 < read_timeout then Some (Inl ''deadline has elapsed'') else None)"

text \<open>
  The reader takes a request when it has none in hand; after a failed read every request is answered
  at once with \<open>closed\<close>. Requests of another kind are passed over.
\<close>

definition ws_take_read :: "('m, 'h) ws_conn \<Rightarrow> ('m, 'h) ws_conn" where
  "ws_take_read c =
     (case wc_reading c of Some _ \<Rightarrow> c
      | None \<Rightarrow>
          (case wc_reads c of
             [] \<Rightarrow> c
           | WsRead owner session t # rest \<Rightarrow>
               if \<not> wc_closed c then c\<lparr>wc_reads := rest, wc_reading := Some (owner, session, t)\<rparr>
               else c\<lparr>wc_reads := rest, wc_sent := moon_send owner session (WsError ''closed'') (wc_sent c),
                      wc_done := wc_done c @ [WsRead owner session t]\<rparr>
           | _ # rest \<Rightarrow> c\<lparr>wc_reads := rest\<rparr>))"

definition ws_finish_read :: "'m read_end \<Rightarrow> ('m, 'h) ws_conn \<Rightarrow> ('m, 'h) ws_conn" where
  "ws_finish_read r c =
     (case wc_reading c of None \<Rightarrow> c
      | Some (owner, session, t) \<Rightarrow>
          (case handle_read t r of
             None \<Rightarrow> c
           | Some (Inr m) \<Rightarrow> c\<lparr>wc_reading := None, wc_sent := moon_send owner session (WsGot m) (wc_sent c),
                                 wc_done := wc_done c @ [WsRead owner session t]\<rparr>
           | Some (Inl e) \<Rightarrow> c\<lparr>wc_reading := None, wc_sent := moon_send owner session (WsError e) (wc_sent c),
                                 wc_closed := True, wc_done := wc_done c @ [WsRead owner session t]\<rparr>))"

text \<open>
  One round of \<open>handle_write\<close>; \<open>Some e\<close> is the sink's error. When the writer ends, its channel is gone.
  \<open>try_join!\<close> looks at the join results of the two tasks: an error the writer returns is a result like
  any other there, so the reader goes on.
\<close>

definition ws_end_writer :: "writer_end \<Rightarrow> ('m, 'h) ws_conn \<Rightarrow> ('m, 'h) ws_conn" where
  "ws_end_writer e c = c\<lparr>wc_writer := e, wc_writes := []\<rparr>"

definition ws_handle_write :: "string option \<Rightarrow> ('m, 'h) ws_conn \<Rightarrow> ('m, 'h) ws_conn" where
  "ws_handle_write err c =
     (if wc_writer c \<noteq> WriterRuns then c
      else case wc_writes c of
        [] \<Rightarrow> c
      | WsWrite m close' # rest \<Rightarrow>
          (case err of
             Some e \<Rightarrow> ws_end_writer (WriterFails e) c
           | None \<Rightarrow>
               let c = c\<lparr>wc_writes := rest, wc_wire := wc_wire c @ [m]\<rparr>
               in if close' then ws_end_writer WriterDone c else c)
      | WsClose m # rest \<Rightarrow>
          (case err of
             Some e \<Rightarrow> ws_end_writer (WriterFails e) c
           | None \<Rightarrow> ws_end_writer WriterDone (c\<lparr>wc_wire := wc_wire c @ [m]\<rparr>))
      | req # rest \<Rightarrow> c\<lparr>wc_writes := rest, wc_log := wc_log c @ [req]\<rparr>)"

section \<open>Entry points\<close>

definition ws_send_read :: "ws_request \<Rightarrow> ('m, 'h) ws_conn \<Rightarrow> send_result \<times> ('m, 'h) ws_conn" where
  "ws_send_read req c =
     (if reads_capacity \<le> length (wc_reads c) then (SendFull, c)
      else (SendOk, c\<lparr>wc_reads := wc_reads c @ [req], wc_accepted := wc_accepted c @ [req]\<rparr>))"

definition ws_send_write :: "ws_request \<Rightarrow> ('m, 'h) ws_conn \<Rightarrow> send_result \<times> ('m, 'h) ws_conn" where
  "ws_send_write req c =
     (if wc_writer c \<noteq> WriterRuns then (SendClosed, c)
      else if writes_capacity \<le> length (wc_writes c) then (SendFull, c)
      else (SendOk, c\<lparr>wc_writes := wc_writes c @ [req], wc_taken := wc_taken c @ [req]\<rparr>))"

datatype ws_ret = RetValue lua_value | RetFalse string

definition ws_answer :: "string \<Rightarrow> lua_value \<Rightarrow> send_result \<times> ('m, 'h) ws_conn \<Rightarrow> ws_ret \<times> ('m, 'h) ws_conn" where
  "ws_answer what v r =
     (case r of (SendOk, c) \<Rightarrow> (RetValue v, c)
      | (e, c) \<Rightarrow> (RetFalse (what @ '' error: '' @ send_error_text e), c))"

definition ws_lread :: "lua_conv \<Rightarrow> lua_stack \<Rightarrow> ('m, 'h) ws_conn \<Rightarrow> (string + ws_ret \<times> ('m, 'h) ws_conn) outcome" where
  "ws_lread lc s c =
     rbind (conn_userdata lc s) (\<lambda>_.
     rbind (lua_integer_arg lc s 2) (\<lambda>owner.
     rbind (lua_integer_arg lc s 3) (\<lambda>session.
       let t = (case opt_integer (lua_at s 4) of None \<Rightarrow> 5000 | Some t \<Rightarrow> t)
       in Done (Inr (ws_answer ''read'' (LInteger session) (ws_send_read (WsRead (ucast owner) session t) c))))))"

text \<open>The kind of a written message: \<open>c\<close> closes, \<open>t\<close> is text, \<open>p\<close> a ping, anything else binary.\<close>

definition ws_message :: "bytes \<Rightarrow> bytes \<Rightarrow> ws_out \<times> bool" where
  "ws_message kind payload =
     (if kind = ''c'' then (OutClose payload, True)
      else if kind = ''t'' then (OutText payload, False)
      else if kind = ''p'' then (OutPing payload, True)
      else (OutBinary payload, False))"

definition ws_lwrite :: "lua_conv \<Rightarrow> lua_stack \<Rightarrow> ('m, 'h) ws_conn \<Rightarrow> (string + ws_ret \<times> ('m, 'h) ws_conn) outcome" where
  "ws_lwrite lc s c =
     rbind (conn_userdata lc s) (\<lambda>_.
     rbind (lua_text_arg lc s 2) (\<lambda>payload.
       let kind = (case opt_bytes (lua_at s 3) of None \<Rightarrow> ''b'' | Some k \<Rightarrow> k) in
       case ws_message kind payload of (m, close') \<Rightarrow>
         Done (Inr (ws_answer ''read'' (LBoolean True) (ws_send_write (WsWrite m close') c)))))"

definition ws_lclose :: "lua_conv \<Rightarrow> lua_stack \<Rightarrow> ('m, 'h) ws_conn \<Rightarrow> (string + ws_ret \<times> ('m, 'h) ws_conn) outcome" where
  "ws_lclose lc s c =
     rbind (conn_userdata lc s) (\<lambda>_.
       let payload = (case opt_bytes (lua_at s 2) of None \<Rightarrow> [] | Some d \<Rightarrow> d)
       in Done (Inr (ws_answer ''close'' (LBoolean True) (ws_send_write (WsClose (OutClose payload)) c))))"

section \<open>Connecting\<close>

record ('m, 'h) ws_server =
  nv_conns :: "i64 \<Rightarrow> ('m, 'h) ws_conn option"
  nv_uuid :: i64
  nv_sent :: "(u32 \<times> i64 \<times> ('m, 'h) ws_response) list"

definition next_net_fd :: "i64 \<Rightarrow> (i64 \<times> i64) outcome" where
  "next_net_fd uuid = (if uuid = of_int i64_max then Panic ''net fd overflow'' else Done (uuid, uuid + 1))"

record ws_target =
  wt_protocol :: "8 word"
  wt_session :: i64
  wt_owner :: u32
  wt_url :: string
  wt_timeout :: u64

text \<open>The argument is read field by field without a check that it is a table.\<close>

definition ws_connect_args :: "lua_heap \<Rightarrow> lua_stack \<Rightarrow> ws_target outcome" where
  "ws_connect_args h s =
     (case lua_at s 1 of
        LTable a \<Rightarrow> let t = h a in
          Done \<lparr>wt_protocol = field_or 0 opt_integer t ''protocol_type'', wt_session = field_or 0 opt_integer t ''session'',
            wt_owner = field_or 0 opt_integer t ''owner'', wt_url = field_or [] opt_string t ''url'',
            wt_timeout = field_or 5000 opt_integer t ''connect_timeout''\<rparr>
      | _ \<Rightarrow> UB ''raw access to a value that is not a table'')"

datatype 'h connect_end = ConnectOk 'h | ConnectFails string | ConnectElapsed

text \<open>\<open>handle_client\<close> enters the connection into \<open>NET\<close>, where it stays, and answers the connect.\<close>

definition ws_connect_task :: "ws_target \<Rightarrow> 'h connect_end \<Rightarrow> ('m, 'h) ws_server \<Rightarrow> ('m, 'h) ws_server outcome" where
  "ws_connect_task tg r sv =
     (case r of
        ConnectOk h \<Rightarrow> obind (next_net_fd (nv_uuid sv)) (\<lambda>(fd, uuid).
          Done (sv\<lparr>nv_uuid := uuid, nv_conns := (nv_conns sv)(fd \<mapsto> ws_conn_new),
                   nv_sent := moon_send (wt_owner tg) (wt_session tg) (WsConnected fd h) (nv_sent sv)\<rparr>))
      | ConnectFails e \<Rightarrow> Done (sv\<lparr>nv_sent := moon_send (wt_owner tg) (wt_session tg) (WsError e) (nv_sent sv)\<rparr>)
      | ConnectElapsed \<Rightarrow> Done (sv\<lparr>nv_sent := moon_send (wt_owner tg) (wt_session tg)
          (WsError ''deadline has elapsed'') (nv_sent sv)\<rparr>))"

definition ws_find_connection :: "lua_conv \<Rightarrow> lua_stack \<Rightarrow> ('m, 'h) ws_server \<Rightarrow> string + ('m, 'h) ws_conn option" where
  "ws_find_connection lc s sv =
     (case lc_int lc (lua_at s 1) of None \<Rightarrow> Inl ''number expected'' | Some fd \<Rightarrow> Inr (nv_conns sv fd))"

section \<open>Answers as Lua values\<close>

text \<open>The response of the handshake, and what \<open>tungstenite\<close> says of a received message.\<close>

record http_head =
  hd_version :: http_version
  hd_status :: u16
  hd_headers :: headers
  hd_body :: "bytes option"

record 'm ws_codec =
  wm_binary :: "'m \<Rightarrow> bool"
  wm_data :: "'m \<Rightarrow> bytes"

definition ws_decode :: "'m ws_codec \<Rightarrow> layout \<Rightarrow> ('m, http_head) ws_response \<Rightarrow> alloc \<Rightarrow> lua_value list \<times> alloc" where
  "ws_decode k lay r st =
     (case r of
        WsConnected fd h \<Rightarrow>
          (case out_table lay (\<lambda>st. case push_headers lay (hd_headers h) st of (hs, st) \<Rightarrow>
             ([(LString ''fd'', LInteger fd), (LString ''version'', LString (version_to_string (hd_version h))),
               (LString ''status_code'', push_unsigned (hd_status h)),
               (LString ''body'', LString (case hd_body h of None \<Rightarrow> [] | Some b \<Rightarrow> b)), (LString ''headers'', hs)], st)) st of
             (lv, st) \<Rightarrow> ([lv], st))
      | WsGot m \<Rightarrow> ([LString (wm_data k m), LBoolean (wm_binary k m)], st)
      | WsError e \<Rightarrow> ([LBoolean False, LString e], st))"

section \<open>Runs\<close>

datatype 'm ws_event =
    EvRead u32 i64 u64 | EvWrite ws_out bool | EvClose ws_out | EvTake | EvReadEnd "'m read_end" | EvWriteStep "string option"

fun ws_step :: "('m, 'h) ws_conn \<Rightarrow> 'm ws_event \<Rightarrow> ('m, 'h) ws_conn" where
  "ws_step c (EvRead ow se t) = snd (ws_send_read (WsRead ow se t) c)"
| "ws_step c (EvWrite m close') = snd (ws_send_write (WsWrite m close') c)"
| "ws_step c (EvClose m) = snd (ws_send_write (WsClose m) c)"
| "ws_step c EvTake = ws_take_read c"
| "ws_step c (EvReadEnd r) = ws_finish_read r c"
| "ws_step c (EvWriteStep err) = ws_handle_write err c"

fun ws_waiting :: "ws_request \<Rightarrow> (u32 \<times> i64) option" where
  "ws_waiting (WsRead ow se t) = (if se = 0 then None else Some (ow, se))"
| "ws_waiting _ = None"

fun ws_payload :: "ws_request \<Rightarrow> ws_out list" where
  "ws_payload (WsWrite m _) = [m]"
| "ws_payload (WsClose m) = [m]"
| "ws_payload (WsRead _ _ _) = []"

fun is_read :: "ws_request \<Rightarrow> bool" where
  "is_read (WsRead _ _ _) = True"
| "is_read _ = False"

definition reading :: "('m, 'h) ws_conn \<Rightarrow> ws_request list" where
  "reading c = (case wc_reading c of None \<Rightarrow> [] | Some (ow, se, t) \<Rightarrow> [WsRead ow se t])"

definition reads_ok :: "('m, 'h) ws_conn \<Rightarrow> bool" where
  "reads_ok c \<longleftrightarrow> wc_accepted c = wc_done c @ reading c @ wc_reads c \<and> list_all is_read (wc_reads c) \<and>
     length (wc_reads c) \<le> reads_capacity \<and> map answer_key (wc_sent c) = List.map_filter ws_waiting (wc_done c) \<and>
     (wc_closed c \<longrightarrow> wc_reading c = None)"

definition writes_ok :: "('m, 'h) ws_conn \<Rightarrow> bool" where
  "writes_ok c \<longleftrightarrow> (\<exists>rest. concat (map ws_payload (wc_taken c)) = wc_wire c @ rest \<and>
       (wc_writer c = WriterRuns \<longrightarrow> rest = concat (map ws_payload (wc_writes c)))) \<and>
     list_all (\<lambda>r. \<not> is_read r) (wc_writes c) \<and> length (wc_writes c) \<le> writes_capacity"

lemma answer_key_simp [simp]: "answer_key (a, b, r) = (a, b)"
  by (simp add: answer_key_def)

lemma ws_step_reads:
  assumes "reads_ok c"
  shows "reads_ok (ws_step c ev)"
  using assms
proof (cases ev)
  case (EvRead ow se t)
  then show ?thesis
    using assms by (auto simp: reads_ok_def ws_send_read_def reading_def)
next
  case EvTake
  then show ?thesis
    using assms
    by (auto simp: reads_ok_def ws_take_read_def reading_def map_filter_snoc moon_send_keys
        split: option.splits list.splits ws_request.splits)
next
  case (EvReadEnd r)
  then show ?thesis
    using assms
    by (auto simp: reads_ok_def ws_finish_read_def reading_def map_filter_snoc moon_send_keys handle_read_def
        split: option.splits sum.splits read_end.splits if_splits)
qed (auto simp: reads_ok_def ws_send_write_def ws_handle_write_def ws_end_writer_def reading_def Let_def
    split: list.splits ws_request.splits option.splits)

lemma ws_step_writes:
  assumes "writes_ok c"
  shows "writes_ok (ws_step c ev)"
  using assms
proof (cases ev)
  case (EvWriteStep err)
  then show ?thesis
    using assms
    by (auto simp: writes_ok_def ws_handle_write_def ws_end_writer_def Let_def
        split: list.splits ws_request.splits option.splits)
qed (auto simp: writes_ok_def ws_send_write_def ws_send_read_def ws_take_read_def ws_finish_read_def
    split: list.splits ws_request.splits option.splits sum.splits)

interpretation ws_connection: total_machine ws_step "\<lambda>c. reads_ok c \<and> writes_ok c"
  by unfold_locales (simp add: ws_step_reads ws_step_writes)

section \<open>Properties\<close>

text \<open>
  C22. Both directions of a WebSocket connection are queues, whatever the order in which Lua and the
  two tasks act: the accepted reads are those answered, the one in hand and the one waiting, in
  that order, and every read answered for a session got exactly one answer; what goes over the wire
  is, in order, what was accepted for writing, and as long as the writer runs nothing of it is
  lost. At most one read and one hundred writes wait.
\<close>

theorem ws_connection_fifo:
  "let c = foldl ws_step ws_conn_new steps in
     wc_accepted c = wc_done c @ reading c @ wc_reads c \<and> length (wc_reads c) \<le> 1 \<and> length (wc_writes c) \<le> 100 \<and>
     map answer_key (wc_sent c) = List.map_filter ws_waiting (wc_done c) \<and>
     (\<exists>rest. concat (map ws_payload (wc_taken c)) = wc_wire c @ rest \<and>
        (wc_writer c = WriterRuns \<longrightarrow> rest = concat (map ws_payload (wc_writes c))))"
proof -
  define c :: "('a, 'b) ws_conn" where "c = foldl ws_step ws_conn_new steps"
  have "reads_ok c \<and> writes_ok c" unfolding c_def
    by (rule ws_connection.runs_keep)
      (simp add: reads_ok_def writes_ok_def ws_conn_new_def reading_def map_filter_def)
  then show ?thesis
    unfolding Let_def c_def [symmetric] by (simp add: reads_ok_def writes_ok_def reads_capacity_def writes_capacity_def)
qed

theorem ws_connection_fifo_witness:
  "let c = foldl ws_step (ws_conn_new :: (unit, unit) ws_conn) [EvRead 1 2 0, EvTake, EvReadEnd (ReadMessage ()), EvWrite (OutText ''a'') False] in
     wc_writer c = WriterRuns \<and> map answer_key (wc_sent c) = [(1, 2)] \<and>
     (\<exists>rest. concat (map ws_payload (wc_taken c)) = wc_wire c @ rest \<and> rest = [OutText ''a''])"
proof -
  let ?steps = "[EvRead 1 2 0, EvTake, EvReadEnd (ReadMessage ()), EvWrite (OutText ''a'') False]"
  let ?c = "foldl ws_step (ws_conn_new :: (unit, unit) ws_conn) ?steps"
  have c: "wc_writer ?c = WriterRuns" "wc_writes ?c = [WsWrite (OutText ''a'') False]" "wc_done ?c = [WsRead 1 2 0]"
    by (simp_all add: ws_conn_new_def ws_send_read_def ws_send_write_def ws_take_read_def ws_finish_read_def
        handle_read_def reads_capacity_def writes_capacity_def)
  show ?thesis
    using ws_connection_fifo [of ?steps, where ?'b = unit] unfolding Let_def
    by (simp only: c ws_waiting.simps ws_payload.simps list.map concat.simps map_filter_simps) (simp add: c(1))
qed

text \<open>After the writer ended, nothing goes over the wire any more.\<close>

definition mute :: "('m, 'h) ws_conn \<Rightarrow> ('m, 'h) ws_conn \<Rightarrow> bool" where
  "mute c c' \<longleftrightarrow> wc_writer c' = wc_writer c \<and> wc_writer c' \<noteq> WriterRuns \<and> wc_wire c' = wc_wire c"

lemma mute_step: "mute c c' \<Longrightarrow> mute c (ws_step c' ev)"
  by (cases ev)
    (auto simp: mute_def ws_send_write_def ws_send_read_def ws_take_read_def ws_finish_read_def ws_handle_write_def
      split: list.splits ws_request.splits option.splits sum.splits)

interpretation muted: total_machine ws_step "mute c"
  by unfold_locales (rule mute_step)

text \<open>
  C40. A ping is the last thing a client says: writing one is reported as a success, and once the
  writer has sent it, it has ended, as it does for a close. Whatever happens later, nothing more
  goes over the wire and every write is refused with \<open>read error: channel closed\<close>, while the
  connection is still found and reads are still accepted.
\<close>

theorem ws_ping_ends_writer:
  assumes "ws_lwrite lc s c = Done (Inr (RetValue v, c1))" and "opt_bytes (lua_at s 3) = Some ''p''"
    and "wc_writes c = []"
    and "c2 = foldl ws_step (ws_step c1 (EvWriteStep None)) later"
  shows "\<exists>d. lc_text lc (lua_at s 2) = Some d \<and> wc_wire c2 = wc_wire c @ [OutPing d] \<and> wc_writer c2 = WriterDone \<and>
    ws_lwrite lc s c2 = Done (Inr (RetFalse ''read error: channel closed'', c2)) \<and>
    (wc_reads c2 = [] \<longrightarrow> fst (ws_send_read req c2) = SendOk)"
proof -
  obtain d where conn: "conn_userdata lc s = Done (Inr ())" and d: "lc_text lc (lua_at s 2) = Some d"
    and c1: "wc_writer c = WriterRuns" "c1 = snd (ws_send_write (WsWrite (OutPing d) True) c)"
    using assms(1,2,3)
    by (auto simp: ws_lwrite_def rbind_Inr_iff lua_text_arg_def ws_message_def ws_answer_def ws_send_write_def
        writes_capacity_def split: option.splits if_splits)
  let ?c = "ws_step c1 (EvWriteStep None)"
  have now: "wc_wire ?c = wc_wire c @ [OutPing d]" "wc_writer ?c = WriterDone"
    using c1 assms(3) by (simp_all add: ws_send_write_def writes_capacity_def ws_handle_write_def ws_end_writer_def)
  have "mute ?c c2"
    unfolding assms(4) by (rule muted.runs_keep) (use now in \<open>simp add: mute_def\<close>)
  then have later: "wc_wire c2 = wc_wire c @ [OutPing d]" "wc_writer c2 = WriterDone"
    using now by (simp_all add: mute_def)
  have "ws_lwrite lc s c2 = Done (Inr (RetFalse ''read error: channel closed'', c2))"
    using later(2) assms(2) conn d
    by (simp add: ws_lwrite_def lua_text_arg_def ws_message_def ws_answer_def ws_send_write_def)
  then show ?thesis using d later by (auto simp: ws_send_read_def reads_capacity_def)
qed

theorem ws_ping_ends_writer_witness:
  "let s = [LUserData 1, LString ''x'', LString ''p''];
       c2 = foldl ws_step ws_conn_new [EvWrite (OutPing ''x'') True, EvWriteStep None, EvRead 1 2 0] in
     wc_wire c2 = [OutPing ''x''] \<and>
     ws_lwrite integers_only s (c2 :: (unit, unit) ws_conn) = Done (Inr (RetFalse ''read error: channel closed'', c2))"
proof -
  let ?s = "[LUserData 1, LString ''x'', LString ''p'']"
  let ?c = "ws_conn_new :: (unit, unit) ws_conn"
  let ?c1 = "snd (ws_send_write (WsWrite (OutPing ''x'') True) ?c)"
  have run: "ws_lwrite integers_only ?s ?c = Done (Inr (RetValue (LBoolean True), ?c1))"
    by (simp add: ws_lwrite_def conn_userdata_def userdata_arg_def lua_text_arg_def integers_only_def lua_at_def
        ws_message_def ws_answer_def ws_send_write_def ws_conn_new_def writes_capacity_def)
  have "opt_bytes (lua_at ?s 3) = Some ''p''" "wc_writes ?c = []" by (simp_all add: lua_at_def ws_conn_new_def)
  from ws_ping_ends_writer [OF run this, of _ "[EvRead 1 2 0]", OF refl] show ?thesis
    by (simp add: integers_only_def lua_at_def ws_conn_new_def Let_def)
qed

end
