(* ===== verification/Crypto.thy ===== *)
theory Crypto
  imports Moon
begin

text \<open>
  AES-GCM for Lua, \<open>crates/libs/lib-lualib/src/lua_crypto.rs\<close>. The ciphers and the random generator are
  the \<open>ring\<close> crate's: an \<open>aead\<close> is sealing and opening under a key, a nonce and no associated data,
  with the law its documentation states (\<open>aead_law\<close>); \<open>fill\<close> is what the generator delivers.
\<close>

section \<open>The ciphers\<close>

text \<open>\<open>seal\<close> gives the ciphertext and the tag separately, \<open>open\<close> takes them joined.\<close>

datatype algorithm = Aes128Gcm | Aes256Gcm

record aead =
  ae_seal :: "algorithm \<Rightarrow> bytes \<Rightarrow> bytes \<Rightarrow> bytes \<Rightarrow> string + bytes \<times> bytes"
  ae_open :: "algorithm \<Rightarrow> bytes \<Rightarrow> bytes \<Rightarrow> bytes \<Rightarrow> string + bytes"

definition aead_law :: "aead \<Rightarrow> bool" where
  "aead_law ae \<longleftrightarrow>
     (\<forall>alg key nonce plain cipher tag. ae_seal ae alg key nonce plain = Inr (cipher, tag) \<longrightarrow>
        length cipher = length plain \<and> length tag = 16 \<and> ae_open ae alg key nonce (cipher @ tag) = Inr plain)"

definition nonce_len :: nat where "nonce_len = 12"
definition aes_128_key_len :: nat where "aes_128_key_len = 16"
definition aes_256_key_len :: nat where "aes_256_key_len = 32"

text \<open>
  A nonce sequence with one nonce: the second \<open>advance\<close> fails. A sealing key asks it once a message.
\<close>

definition advance :: "bytes option \<Rightarrow> bytes option \<times> bytes option" where
  "advance nonce = (nonce, None)"

definition seal_in_place :: "aead \<Rightarrow> algorithm \<Rightarrow> bytes \<Rightarrow> bytes option \<Rightarrow> bytes \<Rightarrow> string + bytes \<times> bytes" where
  "seal_in_place ae alg key nonce plain =
     (case fst (advance nonce) of None \<Rightarrow> Inl ''ring::error::Unspecified'' | Some n \<Rightarrow> ae_seal ae alg key n plain)"

definition open_in_place :: "aead \<Rightarrow> algorithm \<Rightarrow> bytes \<Rightarrow> bytes option \<Rightarrow> bytes \<Rightarrow> string + bytes" where
  "open_in_place ae alg key nonce cipher =
     (case fst (advance nonce) of None \<Rightarrow> Inl ''ring::error::Unspecified'' | Some n \<Rightarrow> ae_open ae alg key n cipher)"

section \<open>Encryption\<close>

text \<open>Errors are raised as Lua errors by the wrappers. \<open>fill\<close> is \<open>None\<close> when the generator fails.\<close>

definition key_algorithm :: "bytes \<Rightarrow> string + algorithm" where
  "key_algorithm key =
     (if length key \<noteq> aes_256_key_len \<and> length key \<noteq> aes_128_key_len
      then Inl ''Key must be 32 bytes for AES-256 or 16 bytes for AES-128''
      else Inr (if length key = aes_128_key_len then Aes128Gcm else Aes256Gcm))"

definition encrypt_nonce :: "(nat \<Rightarrow> bytes option) \<Rightarrow> lua_value \<Rightarrow> string + bytes" where
  "encrypt_nonce fill v =
     (case v of
        LString n \<Rightarrow> if length n \<noteq> nonce_len then Inl ''Nonce must be 12 bytes'' else Inr n
      | _ \<Rightarrow> (case fill nonce_len of None \<Rightarrow> Inl ''Failed to generate random nonce'' | Some n \<Rightarrow> Inr n))"

definition aes_encrypt :: "aead \<Rightarrow> (nat \<Rightarrow> bytes option) \<Rightarrow> lua_conv \<Rightarrow> lua_stack \<Rightarrow> (string + bytes \<times> bytes) outcome" where
  "aes_encrypt ae fill lc s =
     rbind (lua_text_arg lc s 1) (\<lambda>plain.
     rbind (lua_text_arg lc s 2) (\<lambda>key.
       Done (ebind (key_algorithm key) (\<lambda>alg.
         ebind (encrypt_nonce fill (lua_at s 3)) (\<lambda>nonce.
           case seal_in_place ae alg key (Some nonce) plain of
             Inl e \<Rightarrow> Inl (''Encryption failed: '' @ e)
           | Inr (cipher, tag) \<Rightarrow> Inr (cipher @ tag, nonce))))))"

definition aes_decrypt :: "aead \<Rightarrow> lua_conv \<Rightarrow> lua_stack \<Rightarrow> (string + bytes) outcome" where
  "aes_decrypt ae lc s =
     rbind (lua_text_arg lc s 1) (\<lambda>cipher.
     rbind (lua_text_arg lc s 2) (\<lambda>key.
     rbind (lua_text_arg lc s 3) (\<lambda>nonce.
       Done (ebind (key_algorithm key) (\<lambda>alg.
         if length nonce \<noteq> nonce_len then Inl ''Nonce must be 12 bytes''
         else if length cipher < 16 then Inl ''Encrypted data too short''
         else case open_in_place ae alg key (Some nonce) cipher of
                Inl e \<Rightarrow> Inl (''Decryption failed: '' @ e)
              | Inr plain \<Rightarrow> Inr plain)))))"

section \<open>Keys and nonces\<close>

text \<open>The size is an integer argument read as \<open>usize\<close>: a negative one is huge.\<close>

definition generate_key :: "(nat \<Rightarrow> bytes option) \<Rightarrow> lua_stack \<Rightarrow> string + bytes" where
  "generate_key fill s =
     (let key_size = (case opt_integer (lua_at s 1) of None \<Rightarrow> 32 | Some (n :: u64) \<Rightarrow> unat n)
      in if key_size = 0 \<or> 64 < key_size then Inl ''Key size must be between 1 and 64 bytes''
         else case fill key_size of None \<Rightarrow> Inl ''Failed to generate random key'' | Some k \<Rightarrow> Inr k)"

definition generate_nonce :: "(nat \<Rightarrow> bytes option) \<Rightarrow> string + bytes" where
  "generate_nonce fill = (case fill 12 of None \<Rightarrow> Inl ''Failed to generate random nonce'' | Some n \<Rightarrow> Inr n)"

section \<open>Properties\<close>

definition text_conv_ok :: "lua_conv \<Rightarrow> bool" where
  "text_conv_ok lc \<longleftrightarrow> (\<forall>s. lc_text lc (LString s) = Some s)"

definition fill_ok :: "(nat \<Rightarrow> bytes option) \<Rightarrow> bool" where
  "fill_ok fill \<longleftrightarrow> (\<forall>n b. fill n = Some b \<longrightarrow> length b = n)"

text \<open>
  C23. What \<open>aes_encrypt\<close> returns, \<open>aes_decrypt\<close> accepts and turns back into the plaintext: with the
  returned nonce and the same key, given or generated nonce, none of the checks of \<open>aes_decrypt\<close> can
  refuse it, not even for an empty text; the result is 16 bytes longer than the text.
\<close>

theorem aes_roundtrip:
  assumes "aead_law ae" and "text_conv_ok lc" and "fill_ok fill"
    and "aes_encrypt ae fill lc s = Done (Inr (out, nonce))"
    and "lc_text lc (lua_at s 1) = Some plain" and "lc_text lc (lua_at s 2) = Some key"
  shows "aes_decrypt ae lc [LString out, LString key, LString nonce] = Done (Inr plain) \<and>
    length out = length plain + 16 \<and> (\<forall>n. lua_at s 3 = LString n \<longrightarrow> nonce = n)"
proof -
  obtain alg where alg: "key_algorithm key = Inr alg"
    and enc: "ebind (encrypt_nonce fill (lua_at s 3)) (\<lambda>nonce.
           case seal_in_place ae alg key (Some nonce) plain of
             Inl e \<Rightarrow> Inl (''Encryption failed: '' @ e)
           | Inr (cipher, tag) \<Rightarrow> Inr (cipher @ tag, nonce)) = Inr (out, nonce)"
    using assms(4-6) by (auto simp: aes_encrypt_def lua_text_arg_def ebind_Inr_iff)
  obtain n0 where n0: "encrypt_nonce fill (lua_at s 3) = Inr n0"
    using enc by (auto simp: ebind_Inr_iff)
  then obtain cipher tag where c: "ae_seal ae alg key nonce plain = Inr (cipher, tag)" "out = cipher @ tag"
    and n: "encrypt_nonce fill (lua_at s 3) = Inr nonce"
    using enc by (cases "ae_seal ae alg key n0 plain") (auto simp: seal_in_place_def advance_def)
  then have law: "length cipher = length plain" "length tag = 16" "ae_open ae alg key nonce out = Inr plain"
    using assms(1) unfolding aead_law_def by blast+
  have "length nonce = nonce_len"
    using n assms(3) by (auto simp: encrypt_nonce_def fill_ok_def split: lua_value.splits option.splits if_splits)
  then show ?thesis
    using law c(2) alg n assms(2)
    by (auto simp: aes_decrypt_def lua_text_arg_def text_conv_ok_def lua_at_def open_in_place_def advance_def
        encrypt_nonce_def split: if_splits)
qed

text \<open>A cipher for the witness: the text is its own ciphertext, the tag constant.\<close>

definition clear_aead :: aead where
  "clear_aead = \<lparr>ae_seal = (\<lambda>_ _ _ plain. Inr (plain, replicate 16 (CHR 0x00))),
     ae_open = (\<lambda>_ _ _ cipher. Inr (take (length cipher - 16) cipher))\<rparr>"

definition zero_fill :: "nat \<Rightarrow> bytes option" where
  "zero_fill n = Some (replicate n (CHR 0x00))"

theorem aes_roundtrip_witness:
  "aes_decrypt clear_aead integers_only
     [LString ([] @ replicate 16 (CHR 0x00)), LString (replicate 32 (CHR ''k'')), LString (replicate 12 (CHR 0x00))] = Done (Inr [])"
proof -
  let ?s = "[LString [], LString (replicate 32 (CHR ''k''))]"
  have law: "aead_law clear_aead" "text_conv_ok integers_only" "fill_ok zero_fill"
    by (simp_all add: aead_law_def clear_aead_def text_conv_ok_def integers_only_def fill_ok_def zero_fill_def)
  have run: "aes_encrypt clear_aead zero_fill integers_only ?s =
      Done (Inr ([] @ replicate 16 (CHR 0x00), replicate 12 (CHR 0x00)))"
    by (simp add: aes_encrypt_def lua_text_arg_def integers_only_def lua_at_def key_algorithm_def aes_256_key_len_def
        aes_128_key_len_def encrypt_nonce_def zero_fill_def nonce_len_def seal_in_place_def advance_def clear_aead_def)
  show ?thesis
    using aes_roundtrip [OF law run, of "[]" "replicate 32 (CHR ''k'')"]
    by (simp add: integers_only_def lua_at_def)
qed

text \<open>Keys have between 1 and 64 bytes; a negative size is an error.\<close>

lemma generate_key_bounds:
  assumes "fill_ok fill" "generate_key fill s = Inr key"
  shows "1 \<le> length key \<and> length key \<le> 64"
  using assms by (auto simp: generate_key_def fill_ok_def Let_def split: option.splits if_splits)

end
