(* ===== verification/Excel.thy ===== *)
theory Excel
  imports LuaStack Moon
begin

text \<open>
  Reading spreadsheets, \<open>crates/libs/lib-lualib/src/lua_excel.rs\<close>. The readers of the crates \<open>csv\<close> and
  \<open>calamine\<close> are parameters: a CSV file is the sequence of its records, each read or failed, a
  workbook its sheets, each with its rows or unreadable. The tables are built inside out; what is
  built is a tree, which \<open>push_tree\<close> lays out in the heap.
\<close>

section \<open>Nested tables\<close>

datatype lua_tree = Leaf lua_value | Node "(lua_value \<times> lua_tree) list"

fun push_tree :: "layout \<Rightarrow> lua_tree \<Rightarrow> alloc \<Rightarrow> lua_value \<times> alloc"
  and push_trees :: "layout \<Rightarrow> (lua_value \<times> lua_tree) list \<Rightarrow> alloc \<Rightarrow> (lua_value \<times> lua_value) list \<times> alloc" where
  "push_tree lay (Leaf v) st = (v, st)"
| "push_tree lay (Node ms) st =
     (case push_trees lay ms (fst st, snd st + 1) of (items, (h, n)) \<Rightarrow> (LTable (snd st), (h(snd st := lay items), n)))"
| "push_trees lay [] st = ([], st)"
| "push_trees lay ((k, t) # ms) st =
     (case push_tree lay t st of (lv, st) \<Rightarrow> case push_trees lay ms st of (items, st) \<Rightarrow> ((k, lv) # items, st))"

text \<open>A tree that a Lua value shows: reading along the keys gives the leaves.\<close>

fun tree_at :: "lua_heap \<Rightarrow> lua_value \<Rightarrow> lua_tree \<Rightarrow> bool"
  and trees_at :: "lua_heap \<Rightarrow> lua_tbl \<Rightarrow> (lua_value \<times> lua_tree) list \<Rightarrow> bool" where
  "tree_at h lv (Leaf v) = (lv = v)"
| "tree_at h lv (Node ms) =
     (case lv of LTable a \<Rightarrow> trees_at h (h a) ms \<and> (\<forall>k. k \<notin> fst ` set ms \<longrightarrow> rawget (h a) k = LNil) | _ \<Rightarrow> False)"
| "trees_at h t [] = True"
| "trees_at h t ((k, x) # ms) = (tree_at h (rawget t k) x \<and> trees_at h t ms)"

fun tree_ok :: "lua_tree \<Rightarrow> bool" where
  "tree_ok (Leaf v) = present v"
| "tree_ok (Node ms) =
     (distinct (map fst ms) \<and> length ms < 2 ^ 62 \<and> list_all (\<lambda>m. plain_key (fst m) \<and> tree_ok (snd m)) ms)"

definition tree_built :: "alloc \<Rightarrow> alloc \<Rightarrow> lua_value \<Rightarrow> lua_tree \<Rightarrow> bool" where
  "tree_built st st' lv t \<longleftrightarrow> grows st st' \<and> present lv \<and>
     (\<forall>h. same_between (snd st) (snd st') (fst st') h \<longrightarrow> tree_at h lv t)"

definition trees_built :: "alloc \<Rightarrow> alloc \<Rightarrow> (lua_value \<times> lua_value) list \<Rightarrow> (lua_value \<times> lua_tree) list \<Rightarrow> bool" where
  "trees_built st st' items ms \<longleftrightarrow> grows st st' \<and> map fst items = map fst ms \<and> list_all (\<lambda>i. present (snd i)) items \<and>
     (\<forall>h t. same_between (snd st) (snd st') (fst st') h \<longrightarrow> (\<forall>i\<in>set items. rawget t (fst i) = snd i) \<longrightarrow> trees_at h t ms)"

lemma node_built:
  assumes lay: "layout_ok lay" and ok: "distinct (map fst ms)" "length ms < 2 ^ 62" "list_all (\<lambda>m. plain_key (fst m)) ms"
    and b: "trees_built (fst st, snd st + 1) (h1, n1) items ms"
  shows "tree_built st (h1(snd st := lay items), n1) (LTable (snd st)) (Node ms)"
proof -
  have keys: "map fst items = map fst ms" and pres: "list_all (\<lambda>i. present (snd i)) items"
    and g: "grows (fst st, snd st + 1) (h1, n1)" using b by (simp_all add: trees_built_def)
  have len: "length items = length ms" using arg_cong [OF keys, of length] by simp
  have fsts: "fst ` set items = fst ` set ms" using arg_cong [OF keys, of set] by simp
  have plain: "list_all plain_key (map fst items)" unfolding keys using ok(3) by (simp add: list_all_iff)
  have good: "list_all (\<lambda>x. plain_key (fst x) \<and> present (snd x)) items"
    using plain pres by (simp add: list_all_iff)
  have get: "rawget (lay items) k = (case map_of (rev items) k of None \<Rightarrow> LNil | Some v \<Rightarrow> v)" for k
    using layout_get_value [OF lay good] len ok(2) by simp
  have dist: "distinct (map fst (rev items))" using ok(1) keys by (simp add: rev_map [symmetric])
  have found: "\<forall>i\<in>set items. rawget (lay items) (fst i) = snd i"
    using map_of_is_SomeI [OF dist] by (auto simp: get)
  have absent: "rawget (lay items) k = LNil" if "k \<notin> fst ` set ms" for k
  proof -
    have "map_of (rev items) k = None"
      using that fsts by (simp add: map_of_eq_None_iff)
    then show ?thesis by (simp add: get)
  qed
  have "tree_at h (LTable (snd st)) (Node ms)" if s: "same_between (snd st) n1 (h1(snd st := lay items)) h" for h
  proof -
    have "snd st < n1" using g by (simp add: grows_def)
    then have "h (snd st) = lay items" "same_between (snd st + 1) n1 h1 h"
      using s by (auto simp: same_between_def)
    then show ?thesis using b found absent by (simp add: trees_built_def)
  qed
  then show ?thesis using grows_table [OF g] by (simp add: tree_built_def)
qed

lemma push_tree_built:
  shows "push_tree lay t st = (lv, st') \<Longrightarrow> layout_ok lay \<Longrightarrow> tree_ok t \<Longrightarrow> tree_built st st' lv t"
    and "push_trees lay ms st = (items, st') \<Longrightarrow> layout_ok lay \<Longrightarrow> list_all (\<lambda>m. tree_ok (snd m)) ms \<Longrightarrow>
      trees_built st st' items ms"
proof (induction lay t st and lay ms st arbitrary: lv st' and items st' rule: push_tree_push_trees.induct)
  case (2 lay ms st)
  obtain items h1 n1 where p: "push_trees lay ms (fst st, snd st + 1) = (items, (h1, n1))" by (metis surj_pair)
  have "trees_built (fst st, snd st + 1) (h1, n1) items ms"
    using 2(1) [OF p] 2(3,4) by (simp add: list_all_iff)
  then show ?case using 2(2-4) p by (auto simp: list_all_iff intro!: node_built)
next
  case (4 lay k t ms st)
  obtain lv st1 where p1: "push_tree lay t st = (lv, st1)" by (metis surj_pair)
  obtain items2 st2 where p2: "push_trees lay ms st1 = (items2, st2)" by (metis surj_pair)
  have b1: "tree_built st st1 lv t" using 4(1) [OF p1] 4(4,5) by simp
  have b2: "trees_built st1 st2 items2 ms" using 4(2) [OF p1 [symmetric] p2] 4(4,5) by simp
  have r: "items = (k, lv) # items2" "st' = st2" using 4(3) p1 p2 by simp_all
  have step: "trees_at h u ((k, t) # ms)"
    if s: "same_between (snd st) (snd st2) (fst st2) h" and f: "\<forall>i\<in>set items. rawget u (fst i) = snd i" for h u
  proof -
    have "same_between (snd st) (snd st1) (fst st1) h" "same_between (snd st1) (snd st2) (fst st2) h"
      using s b1 b2 by (auto simp: same_between_def tree_built_def trees_built_def grows_def frame_def)
    then show ?thesis using b1 b2 f r by (simp add: tree_built_def trees_built_def)
  qed
  have "grows st st1" "grows st1 st2" using b1 b2 by (simp_all add: tree_built_def trees_built_def)
  then have g: "grows st st2" by (rule grows_trans)
  have "map fst items = map fst ((k, t) # ms) \<and> list_all (\<lambda>i. present (snd i)) items"
    using b1 b2 r(1) by (simp add: tree_built_def trees_built_def)
  with g step show ?case unfolding trees_built_def r(2) by blast
qed (simp_all add: tree_built_def trees_built_def)

lemma push_tree_at:
  assumes "layout_ok lay" "tree_ok t" "push_tree lay t st = (lv, st')"
  shows "tree_at (fst st') lv t"
  using push_tree_built(1) [OF assms(3,1,2)] by (simp add: tree_built_def same_between_def)

section \<open>Paths\<close>

text \<open>\<open>std::path\<close>: the last component, split at its last dot unless that is its first character.\<close>

fun split_on :: "char \<Rightarrow> string \<Rightarrow> string list" where
  "split_on c [] = [[]]"
| "split_on c (x # xs) =
     (if x = c then [] # split_on c xs
      else (case split_on c xs of [] \<Rightarrow> [[x]] | w # ws \<Rightarrow> (x # w) # ws))"

definition file_name :: "string \<Rightarrow> string option" where
  "file_name path =
     (let parts = filter (\<lambda>c. c \<noteq> [] \<and> c \<noteq> ''.'') (split_on (CHR ''/'') path)
      in if parts = [] \<or> last parts = ''..'' then None else Some (last parts))"

definition split_extension :: "string \<Rightarrow> string \<times> string option" where
  "split_extension name =
     (let rest = dropWhile (\<lambda>c. c \<noteq> CHR ''.'') (rev name)
      in if rest = [] \<or> tl rest = [] then (name, None)
         else (rev (tl rest), Some (drop (length rest) name)))"

definition file_stem :: "string \<Rightarrow> string option" where
  "file_stem path = map_option (\<lambda>name. fst (split_extension name)) (file_name path)"

definition file_extension :: "string \<Rightarrow> string option" where
  "file_extension path = Option.bind (file_name path) (\<lambda>name. snd (split_extension name))"

section \<open>The readers\<close>

definition index_node :: "lua_tree list \<Rightarrow> lua_tree" where
  "index_node ts = Node (map (\<lambda>(i, t). (int_key (i + 1), t)) (enumerate 0 ts))"

definition sheet_node :: "string \<Rightarrow> lua_tree list \<Rightarrow> lua_tree" where
  "sheet_node name rows = Node [(LString ''sheet_name'', Leaf (LString name)), (LString ''data'', index_node rows)]"

text \<open>The record loop of \<open>read_csv\<close>; a record that cannot be read ends it with an error.\<close>

definition csv_row :: "bytes list \<Rightarrow> lua_tree" where
  "csv_row fs = index_node (map (\<lambda>f. Leaf (LString f)) fs)"

fun csv_rows :: "nat \<Rightarrow> nat \<Rightarrow> (string + bytes list) list \<Rightarrow> string + lua_tree list" where
  "csv_rows max_row idx [] = Inr []"
| "csv_rows max_row idx (r # rs) =
     (if max_row \<le> idx then Inr []
      else ebind r (\<lambda>fs. ebind (csv_rows max_row (idx + 1) rs) (\<lambda>rows. Inr (csv_row fs # rows))))"

text \<open>
  The cells of a workbook; the texts of errors and dates are the crate's. Nil stands for an empty
  cell and for the kinds the code does not know; stored in a new row it leaves the index absent.
\<close>

datatype cell = CellInt i64 | CellFloat f64 | CellString bytes | CellBool bool | CellError string | CellEmpty
  | CellDateTime string | CellOther

fun cell_value :: "cell \<Rightarrow> lua_value" where
  "cell_value (CellInt n) = LInteger n"
| "cell_value (CellFloat x) = LNumber x"
| "cell_value (CellString s) = LString s"
| "cell_value (CellBool b) = LBoolean b"
| "cell_value (CellError m) = LString m"
| "cell_value CellEmpty = LNil"
| "cell_value (CellDateTime t) = LString t"
| "cell_value CellOther = LNil"

record excel_env =
  xe_csv :: "string \<Rightarrow> string + (string + bytes list) list"
  xe_book :: "string \<Rightarrow> string + (string \<times> cell list list option) list"

definition stem_text :: "string \<Rightarrow> string" where
  "stem_text path =
     (case file_stem path of None \<Rightarrow> [] | Some stem \<Rightarrow> if utf8_error stem = None then stem else [])"

definition read_csv :: "excel_env \<Rightarrow> string \<Rightarrow> nat \<Rightarrow> string + lua_tree" where
  "read_csv e path max_row =
     (case xe_csv e path of
        Inl m \<Rightarrow> Inl (''open file '' @ [CHR 0x27] @ utf8_lossy path @ [CHR 0x27] @ '' error: '' @ m)
      | Inr records \<Rightarrow>
          (case csv_rows max_row 0 records of
             Inl m \<Rightarrow> Inl (''read csv '' @ [CHR 0x27] @ utf8_lossy path @ [CHR 0x27] @ '' error: '' @ m)
           | Inr rows \<Rightarrow> Inr (index_node [sheet_node (stem_text path) rows])))"

definition xlsx_row :: "cell list \<Rightarrow> lua_tree" where
  "xlsx_row row =
     Node (map (\<lambda>(i, c). (int_key (i + 1), Leaf (cell_value c)))
       (filter (\<lambda>(i, c). cell_value c \<noteq> LNil) (enumerate 0 row)))"

text \<open>A sheet that cannot be read is passed over and takes no number.\<close>

fun xlsx_sheets :: "nat \<Rightarrow> (string \<times> cell list list option) list \<Rightarrow> lua_tree list" where
  "xlsx_sheets max_row [] = []"
| "xlsx_sheets max_row ((name, rng) # sheets) =
     (case rng of
        None \<Rightarrow> xlsx_sheets max_row sheets
      | Some rows \<Rightarrow> sheet_node name (map xlsx_row (take max_row rows)) # xlsx_sheets max_row sheets)"

definition read_xlsx :: "excel_env \<Rightarrow> string \<Rightarrow> nat \<Rightarrow> string + lua_tree" where
  "read_xlsx e path max_row =
     (case xe_book e path of Inl m \<Rightarrow> Inl m | Inr sheets \<Rightarrow> Inr (index_node (xlsx_sheets max_row sheets)))"

definition excel_tree :: "excel_env \<Rightarrow> string \<Rightarrow> nat \<Rightarrow> string + lua_tree" where
  "excel_tree e path max_row =
     (case file_extension path of
        None \<Rightarrow> Inl (''unsupport file type: '' @ utf8_lossy path)
      | Some ext \<Rightarrow>
          (let ext = utf8_lossy ext in
           if ext = ''csv'' then read_csv e path max_row
           else if ext = ''xlsx'' then read_xlsx e path max_row
           else Inl (''unsupport file type: '' @ ext)))"

text \<open>The row limit is an integer argument read as \<open>usize\<close>; without one there is none.\<close>

definition lua_excel_read :: "excel_env \<Rightarrow> layout \<Rightarrow> lua_conv \<Rightarrow> lua_stack \<Rightarrow> alloc \<Rightarrow> string + lua_value list \<times> alloc" where
  "lua_excel_read e lay lc s st =
     (case lc_text lc (lua_at s 1) of
        None \<Rightarrow> Inl ''string expected''
      | Some path \<Rightarrow>
          (let max_row = (case opt_integer (lua_at s 2) of None \<Rightarrow> 2 ^ 64 - 1 | Some (n :: u64) \<Rightarrow> unat n)
           in case excel_tree e path max_row of
                Inl m \<Rightarrow> Inr ([LBoolean False, LString m], st)
              | Inr t \<Rightarrow> (case push_tree lay t st of (lv, st) \<Rightarrow> Inr ([lv], st))))"

section \<open>What the tables hold\<close>

lemma trees_at_all: "trees_at h t ms \<longleftrightarrow> (\<forall>m\<in>set ms. tree_at h (rawget t (fst m)) (snd m))"
  by (induction ms) auto

lemma index_keys: "map fst (map (\<lambda>(i, t). (int_key (i + 1), t)) (enumerate p ts)) = map int_key [Suc p..<Suc (p + length ts)]"
  by (induction ts arbitrary: p) (simp_all add: upt_conv_Cons del: upt_Suc)

lemma index_node_ok: "length ts < 2 ^ 62 \<Longrightarrow> list_all tree_ok ts \<Longrightarrow> tree_ok (index_node ts)"
proof -
  assume a: "length ts < 2 ^ 62" "list_all tree_ok ts"
  have "inj_on int_key {Suc 0..<Suc (length ts)}" using a(1) by (intro inj_onI int_key_inj) auto
  then have "distinct (map fst (map (\<lambda>(i, t). (int_key (i + 1), t)) (enumerate 0 ts)))"
    unfolding index_keys by (simp add: distinct_map del: upt_Suc)
  moreover have "list_all (\<lambda>m. plain_key (fst m) \<and> tree_ok (snd m)) (map (\<lambda>(i, t). (int_key (i + 1), t)) (enumerate 0 ts))"
    using a(2) by (auto simp: list_all_iff in_set_enumerate_eq dest: nth_mem)
  ultimately show "tree_ok (index_node ts)" using a(1) by (simp add: index_node_def)
qed

lemma index_node_at:
  assumes "tree_at h lv (index_node ts)" "length ts < 2 ^ 62"
  obtains a where "lv = LTable a" "\<And>k. k < length ts \<Longrightarrow> tree_at h (rawgeti (h a) (k + 1)) (ts ! k)"
    "rawgeti (h a) (length ts + 1) = LNil"
proof -
  let ?ms = "map (\<lambda>(i, t). (int_key (i + 1), t)) (enumerate 0 ts)"
  obtain a where a: "lv = LTable a" "trees_at h (h a) ?ms" "\<forall>k. k \<notin> fst ` set ?ms \<longrightarrow> rawget (h a) k = LNil"
    using assms(1) by (auto simp: index_node_def split: lua_value.splits)
  have "tree_at h (rawgeti (h a) (k + 1)) (ts ! k)" if k: "k < length ts" for k
  proof -
    have "(int_key (k + 1), ts ! k) \<in> set ?ms"
      using k by (auto simp: in_set_enumerate_eq intro!: image_eqI [of _ _ "(k, ts ! k)"])
    then show ?thesis using a(2) by (auto simp: trees_at_all rawgeti_def dest!: bspec)
  qed
  moreover have "rawgeti (h a) (length ts + 1) = LNil"
  proof -
    have "fst ` set ?ms = set (map fst ?ms)" by (rule set_map [symmetric])
    also have "\<dots> = int_key ` {Suc 0..<Suc (length ts)}" by (subst index_keys) (simp del: upt_Suc)
    finally have "fst ` set ?ms = int_key ` {Suc 0..<Suc (length ts)}" .
    moreover have "int_key (length ts + 1) \<noteq> int_key i" if "i \<in> {Suc 0..<Suc (length ts)}" for i
      using that assms(2) int_key_inj [of "length ts + 1" i] by auto
    ultimately have "int_key (length ts + 1) \<notin> fst ` set ?ms" by (simp only: image_iff) blast
    then show ?thesis using a(3) by (simp add: rawgeti_def)
  qed
  ultimately show ?thesis using that a(1) by blast
qed

lemma sheet_node_at:
  assumes "tree_at h lv (sheet_node name rows)"
  shows "lua_field h lv ''sheet_name'' = LString name \<and> tree_at h (lua_field h lv ''data'') (index_node rows)"
  using assms by (auto simp: sheet_node_def lua_field_def split: lua_value.splits)

lemma csv_rows_iff:
  "csv_rows m i rs = Inr rows \<longleftrightarrow>
     (\<forall>r\<in>set (take (m - i) rs). \<not> isl r) \<and> rows = map (\<lambda>r. csv_row (projr r)) (take (m - i) rs)"
proof (induction rs arbitrary: i rows)
  case (Cons r rs)
  then show ?case
  proof (cases "m \<le> i")
    case False
    then have "m - i = Suc (m - Suc i)" by simp
    then show ?thesis using Cons False by (cases r) (auto simp: ebind_Inr_iff)
  qed auto
qed auto

section \<open>Properties\<close>

text \<open>
  C25. A CSV file becomes one sheet with the name of the file, whose rows are the first records of the
  file up to the limit, every field of every one of them in its place and nothing after the last;
  the file is accepted exactly when those records can be read, whatever comes after the limit.
\<close>

theorem excel_csv_rows:
  assumes "layout_ok lay" and "lc_text lc (lua_at s 1) = Some path" and "opt_integer (lua_at s 2) = Some (limit :: u64)"
    and "file_extension path = Some ext" and "utf8_lossy ext = ''csv''" and "xe_csv e path = Inr records"
    and "records' = take (unat limit) records" and "length records' < 2 ^ 62" and "\<forall>r\<in>set records'. \<forall>fs. r = Inr fs \<longrightarrow> length fs < 2 ^ 62"
  shows "\<exists>vs st'. lua_excel_read e lay lc s st = Inr (vs, st') \<and>
    (if \<forall>r\<in>set records'. \<not> isl r
     then \<exists>a b d. vs = [LTable a] \<and> rawgeti (fst st' a) 1 = LTable b \<and> rawgeti (fst st' a) 2 = LNil \<and>
       lua_field (fst st') (LTable b) ''sheet_name'' = LString (stem_text path) \<and>
       lua_field (fst st') (LTable b) ''data'' = LTable d \<and> rawgeti (fst st' d) (length records' + 1) = LNil \<and>
       (\<forall>k<length records'. \<exists>c. rawgeti (fst st' d) (k + 1) = LTable c \<and>
          (\<forall>j<length (projr (records' ! k)). rawgeti (fst st' c) (j + 1) = LString (projr (records' ! k) ! j)))
     else \<exists>m. vs = [LBoolean False, LString m])"
proof (cases "\<forall>r\<in>set records'. \<not> isl r")
  case False
  then have "\<exists>m. csv_rows (unat limit) 0 records = Inl m"
    using csv_rows_iff [of "unat limit" 0 records] assms(7) by (cases "csv_rows (unat limit) 0 records") auto
  then show ?thesis
    using assms(2-6) False by (auto simp: lua_excel_read_def excel_tree_def read_csv_def Let_def)
next
  case True
  let ?rows = "map (\<lambda>r. csv_row (projr r)) records'"
  let ?t = "index_node [sheet_node (stem_text path) ?rows]"
  obtain lv st' where p: "push_tree lay ?t st = (lv, st')" by (metis surj_pair)
  have "csv_rows (unat limit) 0 records = Inr ?rows"
    using csv_rows_iff [of "unat limit" 0 records ?rows] True assms(7) by simp
  then have run: "lua_excel_read e lay lc s st = Inr ([lv], st')"
    using assms(2-6) p by (simp add: lua_excel_read_def excel_tree_def read_csv_def Let_def)
  have fields: "length (projr (records' ! k)) < 2 ^ 62" if "k < length records'" for k
    using assms(9) True nth_mem [OF that] by (cases "records' ! k") auto
  have row_ok: "tree_ok (csv_row (projr r))" if "r \<in> set records'" for r
    using that fields by (auto simp: csv_row_def in_set_conv_nth list_all_iff intro!: index_node_ok)
  then have "tree_ok (index_node ?rows)" using assms(8) by (intro index_node_ok) (simp_all add: list_all_iff)
  then have "tree_ok ?t" by (intro index_node_ok) (simp_all add: sheet_node_def)
  then have at: "tree_at (fst st') lv ?t" using push_tree_at [OF assms(1) _ p] by blast
  obtain a where a: "lv = LTable a" "tree_at (fst st') (rawgeti (fst st' a) 1) (sheet_node (stem_text path) ?rows)"
    "rawgeti (fst st' a) (Suc (Suc 0)) = LNil"
    using index_node_at [OF at] by auto
  have two: "rawgeti (fst st' a) 2 = LNil" using a(3) by (simp add: numeral_2_eq_2)
  obtain b where b: "rawgeti (fst st' a) 1 = LTable b"
    using a(2) by (auto simp: sheet_node_def split: lua_value.splits)
  note sheet = sheet_node_at [OF a(2)]
  obtain d where d: "lua_field (fst st') (LTable b) ''data'' = LTable d"
    "\<And>k. k < length ?rows \<Longrightarrow> tree_at (fst st') (rawgeti (fst st' d) (k + 1)) (?rows ! k)"
    "rawgeti (fst st' d) (length ?rows + 1) = LNil"
    using index_node_at [of "fst st'" "lua_field (fst st') (LTable b) ''data''" ?rows] sheet b assms(8) by auto
  have "\<exists>c. rawgeti (fst st' d) (k + 1) = LTable c \<and>
      (\<forall>j<length (projr (records' ! k)). rawgeti (fst st' c) (j + 1) = LString (projr (records' ! k) ! j))"
    if k: "k < length records'" for k
  proof -
    have "tree_at (fst st') (rawgeti (fst st' d) (k + 1)) (csv_row (projr (records' ! k)))" using d(2) k by simp
    then obtain c where "rawgeti (fst st' d) (k + 1) = LTable c"
      "\<And>j. j < length (projr (records' ! k)) \<Longrightarrow>
         tree_at (fst st') (rawgeti (fst st' c) (j + 1)) (map (\<lambda>f. Leaf (LString f)) (projr (records' ! k)) ! j)"
      unfolding csv_row_def using fields [OF k] by (auto elim!: index_node_at)
    then show ?thesis by auto
  qed
  then show ?thesis using run True a(1) two b sheet d(1,3) by (intro exI [of _ "[lv]"] exI [of _ st']) auto
qed

text \<open>One file for the witness: two records, the second of which cannot be read.\<close>

definition one_csv :: "(string + bytes list) list \<Rightarrow> excel_env" where
  "one_csv records = \<lparr>xe_csv = (\<lambda>_. Inr records), xe_book = (\<lambda>_. Inl ''not a workbook'')\<rparr>"

theorem excel_csv_rows_witness:
  "\<exists>vs st'. lua_excel_read (one_csv [Inr [''x''], Inl ''bad'']) simple_layout integers_only
       [LString ''a.csv'', LInteger 1] (\<lambda>_. empty_table, 3) = Inr (vs, st') \<and>
     (\<exists>a b d c. vs = [LTable a] \<and> rawgeti (fst st' a) 1 = LTable b \<and>
        lua_field (fst st') (LTable b) ''sheet_name'' = LString ''a'' \<and>
        lua_field (fst st') (LTable b) ''data'' = LTable d \<and> rawgeti (fst st' d) 1 = LTable c \<and>
        rawgeti (fst st' c) 1 = LString ''x'')"
proof -
  let ?e = "one_csv [Inr [''x''], Inl ''bad'']" and ?s = "[LString ''a.csv'', LInteger 1]"
  have name: "file_name ''a.csv'' = Some ''a.csv''" by (simp add: file_name_def Let_def)
  have args: "lc_text integers_only (lua_at ?s 1) = Some ''a.csv''" "opt_integer (lua_at ?s 2) = Some (1 :: u64)"
    by (simp_all add: integers_only_def lua_at_def)
  have ext: "file_extension ''a.csv'' = Some ''csv''" "stem_text ''a.csv'' = ''a''"
    by (simp_all add: file_extension_def stem_text_def file_stem_def name split_extension_def Let_def) (simp add: utf8_error_def utf8_first_def)
  have lossy: "utf8_lossy ''csv'' = ''csv''" by (simp add: utf8_lossy_def utf8_first_def) code_simp
  have csv: "xe_csv ?e ''a.csv'' = Inr [Inr [''x''], Inl ''bad'']" by (simp add: one_csv_def)
  have recs: "[Inr [''x'']] = take (unat (1 :: u64)) [Inr [''x''], Inl ''bad'']" by simp
  from excel_csv_rows [OF simple_layout_ok args ext(1) lossy csv recs, of "(\<lambda>_. empty_table, 3)"]
  show ?thesis by (simp add: ext(2)) blast
qed

end
