(* ===== verification/Userdata.thy ===== *)
theory Userdata
  imports SqlxSystem SqlxLua "HOL-Library.Multiset"
begin

text \<open>
  Rust values owned by Lua. The SQLx module keeps an \<open>Option<T>\<close> in a full userdata whose metatable is
  cached under a private key (\<open>userdata\<close>, \<open>test_userdata\<close> and the \<open>Op::Userdata\<close> branch of \<open>dispatch\<close>
  in \<open>crates/libs/lib-lualib/src/sqlx_lua.rs\<close>, the trait \<open>SqlxUserdata\<close> in \<open>lua_sqlx.rs\<close>); the other
  modules use \<open>lua_newuserdata\<close> and \<open>lua_touserdata\<close> of \<open>crates/libs/lib-lua-sys/src/laux.rs\<close>. Running
  out of memory is possible at every Lua call that allocates: \<open>us_mem\<close> is the number of allocations
  that still succeed.
\<close>

section \<open>Types and metatables\<close>

datatype sqlx_type = ConnectionT | LeaseT | TransactionT
datatype plain_type = MongoConnectionT | WsChannelT | TiberiusConnectionT | TiberiusTransactionT

fun metatable_name :: "sqlx_type \<Rightarrow> string" where
  "metatable_name ConnectionT = ''sqlx_connection_metatable''"
| "metatable_name LeaseT = ''sqlx_response_lease''"
| "metatable_name TransactionT = ''sqlx_transaction_metatable''"

fun closes :: "sqlx_type \<Rightarrow> bool" where
  "closes LeaseT = True"
| "closes _ = False"

fun plain_name :: "plain_type \<Rightarrow> string" where
  "plain_name MongoConnectionT = ''mongodb_connection_metatable''"
| "plain_name WsChannelT = ''ws_connection_metatable''"
| "plain_name TiberiusConnectionT = ''tiberius_connection_metatable''"
| "plain_name TiberiusTransactionT = ''tiberius_transaction_metatable''"

text \<open>The addresses of the static keys, which differ, and the sizes of the types.\<close>

record ud_env =
  ue_key :: "sqlx_type \<Rightarrow> u64"
  ue_size :: "sqlx_type \<Rightarrow> nat"
  ue_plain_size :: "plain_type \<Rightarrow> nat"

datatype reg_key = KeyPtr u64 | KeyName string

text \<open>The two kinds of \<open>__gc\<close> functions: \<open>gc::<T>\<close> and \<open>lua_dropuserdata::<T>\<close>.\<close>

datatype finalizer = TakeOption sqlx_type | DropInPlace plain_type

record ud_meta =
  um_name :: "string option"
  um_index :: "string list option"
  um_gc :: "finalizer option"
  um_close :: "finalizer option"
  um_hidden :: bool

definition empty_meta :: ud_meta where
  "empty_meta = \<lparr>um_name = None, um_index = None, um_gc = None, um_close = None, um_hidden = False\<rparr>"

text \<open>
  What the memory of a userdata holds: nothing yet, an \<open>Option<T>\<close>, a \<open>T\<close>, or a \<open>T\<close> whose destructor
  has run. Lua marks an object for finalization when its metatable is set and has \<open>__gc\<close> by then.
\<close>

datatype 'v ud_cell = Uninit | OptionOf sqlx_type "'v option" | PlainOf plain_type 'v | DroppedOf plain_type

record 'v ud_object =
  uo_meta :: "nat option"
  uo_size :: nat
  uo_cell :: "'v ud_cell"
  uo_marked :: bool

text \<open>
  \<open>us_given\<close> and \<open>us_dropped\<close> record the values that entered \<open>userdata\<close> and those whose destructor ran.
\<close>

record 'v ud_state =
  us_registry :: "reg_key \<Rightarrow> nat option"
  us_metas :: "ud_meta list"
  us_objs :: "'v ud_object list"
  us_mem :: nat
  us_given :: "'v list"
  us_dropped :: "'v list"

definition ud_start :: "'v ud_state" where
  "ud_start = \<lparr>us_registry = (\<lambda>_. None), us_metas = [], us_objs = [], us_mem = 0, us_given = [], us_dropped = []\<rparr>"

section \<open>The Lua calls\<close>

type_synonym ('a, 'v) ud_action = "'v ud_state \<Rightarrow> (string + 'a) \<times> 'v ud_state"

definition ud_bind :: "('a, 'v) ud_action \<Rightarrow> ('a \<Rightarrow> ('b, 'v) ud_action) \<Rightarrow> ('b, 'v) ud_action" where
  "ud_bind f g s = (case f s of (Inl e, s) \<Rightarrow> (Inl e, s) | (Inr x, s) \<Rightarrow> g x s)"

definition ud_alloc :: "('v ud_state \<Rightarrow> 'a \<times> 'v ud_state) \<Rightarrow> ('a, 'v) ud_action" where
  "ud_alloc f s =
     (if us_mem s = 0 then (Inl ''not enough memory'', s)
      else case f (s\<lparr>us_mem := us_mem s - 1\<rparr>) of (x, s) \<Rightarrow> (Inr x, s))"

definition ud_return :: "'a \<Rightarrow> ('a, 'v) ud_action" where
  "ud_return x s = (Inr x, s)"

definition create_meta :: "(nat, 'v) ud_action" where
  "create_meta = ud_alloc (\<lambda>s. (length (us_metas s), s\<lparr>us_metas := us_metas s @ [empty_meta]\<rparr>))"

definition set_field :: "nat \<Rightarrow> (ud_meta \<Rightarrow> ud_meta) \<Rightarrow> (unit, 'v) ud_action" where
  "set_field m f = ud_alloc (\<lambda>s. ((), s\<lparr>us_metas := (us_metas s)[m := f (us_metas s ! m)]\<rparr>))"

definition set_registry :: "reg_key \<Rightarrow> nat \<Rightarrow> (unit, 'v) ud_action" where
  "set_registry k m = ud_alloc (\<lambda>s. ((), s\<lparr>us_registry := (us_registry s)(k \<mapsto> m)\<rparr>))"

text \<open>Addresses are 64 bits wide; there is no room for more objects.\<close>

definition new_object :: "nat \<Rightarrow> (nat, 'v) ud_action" where
  "new_object size' s =
     (if 2 ^ 64 \<le> length (us_objs s) then (Inl ''not enough memory'', s)
      else ud_alloc (\<lambda>s. (length (us_objs s),
        s\<lparr>us_objs := us_objs s @ [\<lparr>uo_meta = None, uo_size = size', uo_cell = Uninit, uo_marked = False\<rparr>]\<rparr>)) s)"

definition on_object :: "nat \<Rightarrow> ('v ud_object \<Rightarrow> 'v ud_object) \<Rightarrow> 'v ud_state \<Rightarrow> 'v ud_state" where
  "on_object a f s = s\<lparr>us_objs := (us_objs s)[a := f (us_objs s ! a)]\<rparr>"

definition write_cell :: "nat \<Rightarrow> 'v ud_cell \<Rightarrow> (unit, 'v) ud_action" where
  "write_cell a c s = (Inr (), on_object a (\<lambda>ob. ob\<lparr>uo_cell := c\<rparr>) s)"

definition set_metatable :: "nat \<Rightarrow> nat \<Rightarrow> (unit, 'v) ud_action" where
  "set_metatable a m s =
     (Inr (), on_object a (\<lambda>ob. ob\<lparr>uo_meta := Some m, uo_marked := um_gc (us_metas s ! m) \<noteq> None\<rparr>) s)"

section \<open>SQLx userdata\<close>

text \<open>The metatable is published once it is complete.\<close>

definition sqlx_metatable :: "ud_env \<Rightarrow> sqlx_type \<Rightarrow> string list \<Rightarrow> (nat, 'v) ud_action" where
  "sqlx_metatable e t lib s =
     (case us_registry s (KeyPtr (ue_key e t)) of
        Some m \<Rightarrow> ud_return m s
      | None \<Rightarrow>
          (ud_bind create_meta (\<lambda>m.
           ud_bind (set_field m (\<lambda>mt. mt\<lparr>um_name := Some (metatable_name t)\<rparr>)) (\<lambda>_.
           ud_bind (set_field m (\<lambda>mt. mt\<lparr>um_index := Some lib\<rparr>)) (\<lambda>_.
           ud_bind (set_field m (\<lambda>mt. mt\<lparr>um_gc := Some (TakeOption t)\<rparr>)) (\<lambda>_.
           ud_bind (if closes t then set_field m (\<lambda>mt. mt\<lparr>um_close := Some (TakeOption t)\<rparr>) else ud_return ()) (\<lambda>_.
           ud_bind (set_field m (\<lambda>mt. mt\<lparr>um_hidden := True\<rparr>)) (\<lambda>_.
           ud_bind (set_registry (KeyPtr (ue_key e t)) m) (\<lambda>_. ud_return m)))))))) s)"

definition dispatch_userdata :: "ud_env \<Rightarrow> sqlx_type \<Rightarrow> string list \<Rightarrow> (nat, 'v) ud_action" where
  "dispatch_userdata e t lib =
     ud_bind (sqlx_metatable e t lib) (\<lambda>m.
     ud_bind (new_object (ue_size e t)) (\<lambda>a.
     ud_bind (write_cell a (OptionOf t None)) (\<lambda>_.
     ud_bind (set_metatable a m) (\<lambda>_. ud_return a))))"

text \<open>A failure unwinds, which drops the value.\<close>

definition userdata :: "ud_env \<Rightarrow> sqlx_type \<Rightarrow> string list \<Rightarrow> 'v \<Rightarrow> (nat, 'v) ud_action" where
  "userdata e t lib v s =
     (case dispatch_userdata e t lib (s\<lparr>us_given := us_given s @ [v]\<rparr>) of
        (Inl err, s) \<Rightarrow> (Inl err, s\<lparr>us_dropped := us_dropped s @ [v]\<rparr>)
      | (Inr a, s) \<Rightarrow> ud_bind (write_cell a (OptionOf t (Some v))) (\<lambda>_. ud_return a) s)"

definition ud_ref :: "nat \<Rightarrow> lua_value" where
  "ud_ref a = LUserData (word_of_nat a)"

definition test_userdata :: "ud_env \<Rightarrow> sqlx_type \<Rightarrow> lua_value \<Rightarrow> 'v ud_state \<Rightarrow> nat option" where
  "test_userdata e t v s =
     (case v of
        LUserData p \<Rightarrow>
          (let a = unat p in
           if length (us_objs s) \<le> a \<or> uo_size (us_objs s ! a) \<noteq> ue_size e t then None
           else case uo_meta (us_objs s ! a) of
                  None \<Rightarrow> None
                | Some m \<Rightarrow> if us_registry s (KeyPtr (ue_key e t)) = Some m then Some a else None)
      | _ \<Rightarrow> None)"

text \<open>Reading the memory as an \<open>Option<T>\<close> is defined only where there is one.\<close>

definition cast_option :: "sqlx_type \<Rightarrow> nat \<Rightarrow> 'v ud_state \<Rightarrow> 'v option outcome" where
  "cast_option t a s =
     (case uo_cell (us_objs s ! a) of
        OptionOf t' x \<Rightarrow> if t' = t then Done x else UB ''userdata of another type''
      | _ \<Rightarrow> UB ''userdata of another type'')"

definition take_option :: "sqlx_type \<Rightarrow> nat \<Rightarrow> 'v ud_state \<Rightarrow> 'v ud_state outcome" where
  "take_option t a s =
     obind (cast_option t a s) (\<lambda>x.
       Done (case x of None \<Rightarrow> s
             | Some v \<Rightarrow> on_object a (\<lambda>ob. ob\<lparr>uo_cell := OptionOf t None\<rparr>) (s\<lparr>us_dropped := us_dropped s @ [v]\<rparr>)))"

definition ud_gc :: "ud_env \<Rightarrow> sqlx_type \<Rightarrow> lua_value \<Rightarrow> 'v ud_state \<Rightarrow> 'v ud_state outcome" where
  "ud_gc e t v s = (case test_userdata e t v s of None \<Rightarrow> Done s | Some a \<Rightarrow> take_option t a s)"

text \<open>What an entry point sees of an argument (\<open>userdata_ptr\<close> and the reference to the option).\<close>

definition userdata_view :: "ud_env \<Rightarrow> sqlx_type \<Rightarrow> lua_value \<Rightarrow> 'v ud_state \<Rightarrow> 'v udata outcome" where
  "userdata_view e t v s =
     (case test_userdata e t v s of
        None \<Rightarrow> Done Foreign
      | Some a \<Rightarrow> obind (cast_option t a s) (\<lambda>x. Done (case x of None \<Rightarrow> Collected | Some w \<Rightarrow> Live w)))"

section \<open>Plain userdata\<close>

text \<open>
  \<open>luaL_newmetatable\<close> publishes the metatable under its name before the fields are there; the
  destructor of the value runs in place. Nothing is checked when a userdata is read back.
\<close>

definition plain_metatable :: "plain_type \<Rightarrow> string list \<Rightarrow> (nat, 'v) ud_action" where
  "plain_metatable t lib s =
     (case us_registry s (KeyName (plain_name t)) of
        Some m \<Rightarrow> ud_return m s
      | None \<Rightarrow>
          (ud_bind create_meta (\<lambda>m.
           ud_bind (set_field m (\<lambda>mt. mt\<lparr>um_name := Some (plain_name t)\<rparr>)) (\<lambda>_.
           ud_bind (set_registry (KeyName (plain_name t)) m) (\<lambda>_.
           ud_bind (set_field m (\<lambda>mt. mt\<lparr>um_index := Some lib\<rparr>)) (\<lambda>_.
           ud_bind (set_field m (\<lambda>mt. mt\<lparr>um_gc := Some (DropInPlace t)\<rparr>)) (\<lambda>_. ud_return m)))))) s)"

definition lua_newuserdata :: "ud_env \<Rightarrow> plain_type \<Rightarrow> string list \<Rightarrow> 'v \<Rightarrow> (nat, 'v) ud_action" where
  "lua_newuserdata e t lib v =
     ud_bind (new_object (ue_plain_size e t)) (\<lambda>a.
     ud_bind (write_cell a (PlainOf t v)) (\<lambda>_.
     ud_bind (plain_metatable t lib) (\<lambda>m.
     ud_bind (set_metatable a m) (\<lambda>_. ud_return a))))"

definition lua_touserdata :: "plain_type \<Rightarrow> lua_value \<Rightarrow> 'v ud_state \<Rightarrow> 'v option outcome" where
  "lua_touserdata t v s =
     (case v of
        LUserData p \<Rightarrow>
          (if length (us_objs s) \<le> unat p then UB ''no such userdata''
           else case uo_cell (us_objs s ! unat p) of
             PlainOf t' x \<Rightarrow> if t' = t then Done (Some x) else UB ''userdata of another type''
           | _ \<Rightarrow> UB ''userdata of another type'')
      | LLightUserData p \<Rightarrow> if p = 0 then Done None else UB ''userdata of another type''
      | _ \<Rightarrow> Done None)"

definition lua_dropuserdata :: "plain_type \<Rightarrow> lua_value \<Rightarrow> 'v ud_state \<Rightarrow> 'v ud_state outcome" where
  "lua_dropuserdata t v s =
     obind (lua_touserdata t v s) (\<lambda>x.
       Done (case (x, v) of
          (Some _, LUserData p) \<Rightarrow> on_object (unat p) (\<lambda>ob. ob\<lparr>uo_cell := DroppedOf t\<rparr>) s
        | _ \<Rightarrow> s))"

section \<open>The collector\<close>

text \<open>It calls the \<open>__gc\<close> of a marked object, once.\<close>

definition collect :: "ud_env \<Rightarrow> nat \<Rightarrow> 'v ud_state \<Rightarrow> 'v ud_state outcome" where
  "collect e a s =
     (if length (us_objs s) \<le> a \<or> \<not> uo_marked (us_objs s ! a) then Done s
      else let s' = on_object a (\<lambda>ob. ob\<lparr>uo_marked := False\<rparr>) s in
        case Option.bind (uo_meta (us_objs s ! a)) (\<lambda>m. um_gc (us_metas s ! m)) of
          None \<Rightarrow> Done s'
        | Some (TakeOption t) \<Rightarrow> ud_gc e t (ud_ref a) s'
        | Some (DropInPlace t) \<Rightarrow> lua_dropuserdata t (ud_ref a) s')"

section \<open>Runs\<close>

text \<open>
  Finalizers run between the operations. \<open>UdFinal\<close> is a call of \<open>gc::<T>\<close> with any value (\<open>__close\<close> of a
  lease, or Lua code that got hold of it); \<open>UdForeign\<close> is a userdata of somebody else, with a metatable
  of its own. \<open>UdPlainGc\<close> is a call of the \<open>__gc\<close> of a plain userdata, whose metatable any Lua code can
  read, with any value; \<open>UdPlainRead\<close> is a method of a plain userdata called with any value.
\<close>

datatype 'v ud_op =
    UdMemory nat | UdPush sqlx_type "string list" 'v | UdPlain plain_type "string list" 'v | UdForeign nat
  | UdFinal sqlx_type lua_value | UdCollect nat | UdPlainGc plain_type lua_value | UdPlainRead plain_type lua_value

definition foreign_userdata :: "nat \<Rightarrow> (nat, 'v) ud_action" where
  "foreign_userdata size' =
     ud_bind create_meta (\<lambda>m. ud_bind (new_object size') (\<lambda>a. ud_bind (set_metatable a m) (\<lambda>_. ud_return a)))"

fun ud_step :: "ud_env \<Rightarrow> 'v ud_state \<Rightarrow> 'v ud_op \<Rightarrow> 'v ud_state outcome" where
  "ud_step e s (UdMemory n) = Done (s\<lparr>us_mem := n\<rparr>)"
| "ud_step e s (UdPush t lib v) = Done (snd (userdata e t lib v s))"
| "ud_step e s (UdPlain t lib v) = Done (snd (lua_newuserdata e t lib v s))"
| "ud_step e s (UdForeign size') = Done (snd (foreign_userdata size' s))"
| "ud_step e s (UdFinal t v) = ud_gc e t v s"
| "ud_step e s (UdCollect a) = collect e a s"
| "ud_step e s (UdPlainGc t v) = lua_dropuserdata t v s"
| "ud_step e s (UdPlainRead t v) = obind (lua_touserdata t v s) (\<lambda>_. Done s)"

text \<open>
  The value an operation reads as a \<open>T\<close> without a check: what a plain \<open>__gc\<close> or method is given, and
  the object whose plain \<open>__gc\<close> the collector calls.
\<close>

fun plain_use :: "'v ud_state \<Rightarrow> 'v ud_op \<Rightarrow> (plain_type \<times> lua_value) option" where
  "plain_use s (UdPlainGc t v) = Some (t, v)"
| "plain_use s (UdPlainRead t v) = Some (t, v)"
| "plain_use s (UdCollect a) =
     (if length (us_objs s) \<le> a \<or> \<not> uo_marked (us_objs s ! a) then None
      else case Option.bind (uo_meta (us_objs s ! a)) (\<lambda>m. um_gc (us_metas s ! m)) of
             Some (DropInPlace t) \<Rightarrow> Some (t, ud_ref a)
           | _ \<Rightarrow> None)"
| "plain_use s _ = None"

text \<open>There is a \<open>T\<close> that has not been dropped, or no pointer at all.\<close>

definition holds_plain :: "plain_type \<Rightarrow> lua_value \<Rightarrow> 'v ud_state \<Rightarrow> bool" where
  "holds_plain t v s =
     (case v of
        LUserData p \<Rightarrow> unat p < length (us_objs s) \<and>
          (case uo_cell (us_objs s ! unat p) of PlainOf u _ \<Rightarrow> u = t | _ \<Rightarrow> False)
      | LLightUserData p \<Rightarrow> p = 0
      | _ \<Rightarrow> True)"

definition plain_allowed :: "'v ud_state \<Rightarrow> 'v ud_op \<Rightarrow> bool" where
  "plain_allowed s p = (case plain_use s p of None \<Rightarrow> True | Some (t, v) \<Rightarrow> holds_plain t v s)"

text \<open>Only the code's own operations, and the collector.\<close>

fun own_op :: "'v ud_op \<Rightarrow> bool" where
  "own_op (UdPlainGc _ _) = False"
| "own_op (UdPlainRead _ _) = False"
| "own_op _ = True"

text \<open>
  The invariant. Its strict form also says that a plain value whose finalizer is still to run has not
  been dropped; it holds as long as nobody but the collector calls a plain \<open>__gc\<close>.
\<close>

definition complete_meta :: "sqlx_type \<Rightarrow> ud_meta \<Rightarrow> bool" where
  "complete_meta t mt \<longleftrightarrow> um_name mt = Some (metatable_name t) \<and> um_index mt \<noteq> None \<and> um_gc mt = Some (TakeOption t) \<and>
     um_close mt = (if closes t then Some (TakeOption t) else None) \<and> um_hidden mt"

definition registry_ok :: "ud_env \<Rightarrow> 'v ud_state \<Rightarrow> bool" where
  "registry_ok e s \<longleftrightarrow>
     (\<forall>k m. us_registry s k = Some m \<longrightarrow> m < length (us_metas s)) \<and>
     (\<forall>t m. us_registry s (KeyPtr (ue_key e t)) = Some m \<longrightarrow> complete_meta t (us_metas s ! m)) \<and>
     (\<forall>t m. us_registry s (KeyName (plain_name t)) = Some m \<longrightarrow>
        \<not> um_hidden (us_metas s ! m) \<and> um_gc (us_metas s ! m) \<in> {None, Some (DropInPlace t)})"

definition object_ok :: "bool \<Rightarrow> ud_env \<Rightarrow> 'v ud_state \<Rightarrow> 'v ud_object \<Rightarrow> bool" where
  "object_ok strict e s ob \<longleftrightarrow>
     (case uo_meta ob of
        None \<Rightarrow> \<not> uo_marked ob
      | Some m \<Rightarrow> m < length (us_metas s) \<and>
          (\<forall>t. us_registry s (KeyPtr (ue_key e t)) = Some m \<longrightarrow> uo_size ob = ue_size e t \<and> (\<exists>x. uo_cell ob = OptionOf t x)) \<and>
          (strict \<and> uo_marked ob \<longrightarrow> (\<forall>t. um_gc (us_metas s ! m) = Some (DropInPlace t) \<longrightarrow> (\<exists>v. uo_cell ob = PlainOf t v))))"

definition objects_ok :: "bool \<Rightarrow> ud_env \<Rightarrow> 'v ud_state \<Rightarrow> bool" where
  "objects_ok strict e s \<longleftrightarrow> list_all (object_ok strict e s) (us_objs s) \<and> length (us_objs s) \<le> 2 ^ 64"

fun cell_held :: "'v ud_cell \<Rightarrow> 'v list" where
  "cell_held (OptionOf t (Some v)) = [v]"
| "cell_held _ = []"

definition values_held :: "'v ud_state \<Rightarrow> 'v list" where
  "values_held s = concat (map (\<lambda>ob. cell_held (uo_cell ob)) (us_objs s))"

definition conserved :: "'v ud_state \<Rightarrow> bool" where
  "conserved s \<longleftrightarrow> mset (us_given s) = mset (values_held s) + mset (us_dropped s)"

section \<open>What the calls change\<close>

lemma ud_bind_cases:
  assumes "ud_bind f g s = (r, s')"
  obtains (fails) m where "f s = (Inl m, s')" "r = Inl m" | (goes) x s1 where "f s = (Inr x, s1)" "g x s1 = (r, s')"
  using assms by (cases "f s") (auto simp: ud_bind_def split: sum.splits)

text \<open>The metatables and the registry grow; nothing else changes.\<close>

definition meta_grows :: "'v ud_state \<Rightarrow> 'v ud_state \<Rightarrow> bool" where
  "meta_grows s s' \<longleftrightarrow> us_objs s' = us_objs s \<and> us_given s' = us_given s \<and> us_dropped s' = us_dropped s \<and>
     (\<exists>extra. us_metas s' = us_metas s @ extra)"

lemma sqlx_metatable_effect:
  assumes "sqlx_metatable e t lib s = (r, s')"
  shows "meta_grows s s' \<and>
    (us_registry s' = us_registry s \<and> (\<forall>m. r = Inr m \<longrightarrow> us_registry s (KeyPtr (ue_key e t)) = Some m) \<or>
     us_registry s' = (us_registry s)(KeyPtr (ue_key e t) \<mapsto> length (us_metas s)) \<and> r = Inr (length (us_metas s)) \<and>
       length (us_metas s') = Suc (length (us_metas s)) \<and> complete_meta t (us_metas s' ! length (us_metas s)))"
  using assms
  by (auto simp: sqlx_metatable_def ud_bind_def ud_alloc_def ud_return_def create_meta_def set_field_def set_registry_def
      meta_grows_def complete_meta_def empty_meta_def split: option.splits if_splits)

lemma plain_metatable_effect:
  assumes "plain_metatable t lib s = (r, s')"
  shows "meta_grows s s' \<and>
    (us_registry s' = us_registry s \<and> (\<forall>m. r = Inr m \<longrightarrow> us_registry s (KeyName (plain_name t)) = Some m) \<or>
     us_registry s' = (us_registry s)(KeyName (plain_name t) \<mapsto> length (us_metas s)) \<and> (\<forall>m. r = Inr m \<longrightarrow> m = length (us_metas s)) \<and>
       length (us_metas s') = Suc (length (us_metas s)) \<and> \<not> um_hidden (us_metas s' ! length (us_metas s)) \<and>
       um_gc (us_metas s' ! length (us_metas s)) \<in> {None, Some (DropInPlace t)})"
  using assms
  by (auto simp: plain_metatable_def ud_bind_def ud_alloc_def ud_return_def create_meta_def set_field_def set_registry_def
      meta_grows_def empty_meta_def split: option.splits if_splits)

lemma grown_nth: "meta_grows s s' \<Longrightarrow> m < length (us_metas s) \<Longrightarrow> m < length (us_metas s') \<and> us_metas s' ! m = us_metas s ! m"
  by (auto simp: meta_grows_def nth_append)

lemma grown_objects:
  assumes g: "meta_grows s s'" and ok: "objects_ok strict e s"
    and reg: "\<And>k m. us_registry s' k = Some m \<Longrightarrow> us_registry s k = Some m \<or> length (us_metas s) \<le> m"
  shows "objects_ok strict e s'"
proof -
  have "object_ok strict e s' ob" if "object_ok strict e s ob" for ob
  proof (cases "uo_meta ob")
    case (Some m)
    then have "m < length (us_metas s)" using that by (simp add: object_ok_def)
    then show ?thesis
      using that Some grown_nth [OF g] reg [of _ m] by (auto simp: object_ok_def)
  qed (use that in \<open>simp add: object_ok_def\<close>)
  then show ?thesis using ok g by (auto simp: objects_ok_def meta_grows_def list_all_iff)
qed

lemma registry_okD:
  assumes "registry_ok e s"
  shows "us_registry s k = Some m \<Longrightarrow> m < length (us_metas s)"
    and "us_registry s (KeyPtr (ue_key e t)) = Some m \<Longrightarrow> complete_meta t (us_metas s ! m)"
    and "us_registry s (KeyName (plain_name u)) = Some m \<Longrightarrow>
      \<not> um_hidden (us_metas s ! m) \<and> um_gc (us_metas s ! m) \<in> {None, Some (DropInPlace u)}"
  using assms by (auto simp: registry_ok_def)

lemma plain_name_inj: "plain_name t = plain_name u \<longleftrightarrow> t = u"
  by (cases t; cases u) simp_all

lemma grown_registry:
  assumes g: "meta_grows s s'" and ok: "registry_ok e s"
    and reg: "us_registry s' = us_registry s \<or> us_registry s' = (us_registry s)(k \<mapsto> length (us_metas s)) \<and>
      length (us_metas s') = Suc (length (us_metas s))"
    and new: "us_registry s' \<noteq> us_registry s \<Longrightarrow>
      (\<forall>t. k = KeyPtr (ue_key e t) \<longrightarrow> complete_meta t (us_metas s' ! length (us_metas s))) \<and>
      (\<forall>t. k = KeyName (plain_name t) \<longrightarrow> \<not> um_hidden (us_metas s' ! length (us_metas s)) \<and>
         um_gc (us_metas s' ! length (us_metas s)) \<in> {None, Some (DropInPlace t)})"
  shows "registry_ok e s'"
proof -
  have old: "m < length (us_metas s') \<and> us_metas s' ! m = us_metas s ! m" if "us_registry s k' = Some m" for k' m
    using grown_nth [OF g] registry_okD(1) [OF ok that] by blast
  show ?thesis
  proof (cases "us_registry s' = us_registry s")
    case True
    then show ?thesis using ok old unfolding registry_ok_def by metis
  next
    case False
    then have r: "us_registry s' = (us_registry s)(k \<mapsto> length (us_metas s))" and l: "length (us_metas s') = Suc (length (us_metas s))"
      using reg by auto
    show ?thesis
      unfolding registry_ok_def r using new [OF False] l old registry_okD [OF ok]
      by (auto split: if_splits)
  qed
qed

section \<open>Every operation keeps the invariant\<close>

definition ud_ok :: "bool \<Rightarrow> ud_env \<Rightarrow> 'v ud_state \<Rightarrow> bool" where
  "ud_ok strict e s \<longleftrightarrow> registry_ok e s \<and> objects_ok strict e s \<and> conserved s"

abbreviation sqlx_object :: "ud_env \<Rightarrow> sqlx_type \<Rightarrow> nat \<Rightarrow> 'v option \<Rightarrow> bool \<Rightarrow> 'v ud_object" where
  "sqlx_object e t m x b \<equiv> \<lparr>uo_meta = Some m, uo_size = ue_size e t, uo_cell = OptionOf t x, uo_marked = b\<rparr>"

lemma sqlx_metatable_ok:
  assumes "inj (ue_key e)" "registry_ok e s" "objects_ok strict e s" "sqlx_metatable e t lib s = (r, s')"
  shows "registry_ok e s'" "objects_ok strict e s'" "meta_grows s s'"
    and "r = Inr m \<Longrightarrow> us_registry s' (KeyPtr (ue_key e t)) = Some m"
    and "(\<forall>k m. us_registry s k = Some m \<longrightarrow> us_registry s' k = Some m)"
proof -
  note f = sqlx_metatable_effect [OF assms(4)]
  show "meta_grows s s'" using f by simp
  show "r = Inr m \<Longrightarrow> us_registry s' (KeyPtr (ue_key e t)) = Some m" using f by auto
  show "objects_ok strict e s'" by (rule grown_objects [OF _ assms(3)]) (use f in \<open>auto split: if_splits\<close>)
  show "registry_ok e s'"
    by (rule grown_registry [OF _ assms(2), of _ "KeyPtr (ue_key e t)"]) (use f assms(1) in \<open>auto dest: injD\<close>)
  show "\<forall>k m. us_registry s k = Some m \<longrightarrow> us_registry s' k = Some m"
  proof (cases "us_registry s (KeyPtr (ue_key e t))")
    case None
    then show ?thesis using f by auto
  next
    case (Some m)
    then show ?thesis using assms(4) by (simp add: sqlx_metatable_def ud_return_def)
  qed
qed

lemma userdata_effect:
  assumes "userdata e t lib v s = (r, s')"
  obtains r1 s1 where "sqlx_metatable e t lib (s\<lparr>us_given := us_given s @ [v]\<rparr>) = (r1, s1)"
    and "(\<exists>m. r = Inl m) \<and> s' = s1\<lparr>us_dropped := us_dropped s1 @ [v]\<rparr> \<or>
      (\<exists>m n. r1 = Inr m \<and> r = Inr (length (us_objs s1)) \<and> length (us_objs s1) < 2 ^ 64 \<and>
         s' = s1\<lparr>us_mem := n, us_objs := us_objs s1 @ [sqlx_object e t m (Some v) (um_gc (us_metas s1 ! m) \<noteq> None)]\<rparr>)"
proof -
  obtain r1 s1 where m: "sqlx_metatable e t lib (s\<lparr>us_given := us_given s @ [v]\<rparr>) = (r1, s1)" by (metis surj_pair)
  show thesis
    by (rule that [OF m])
      (use assms m in \<open>auto simp: userdata_def dispatch_userdata_def ud_bind_def ud_return_def new_object_def ud_alloc_def
         write_cell_def set_metatable_def on_object_def nth_append split: sum.splits if_splits\<close>)
qed

lemma held_append: "us_objs s' = us_objs s @ obs \<Longrightarrow> values_held s' = values_held s @ concat (map (\<lambda>ob. cell_held (uo_cell ob)) obs)"
  by (simp add: values_held_def)

lemma object_ok_cong:
  "us_registry s' = us_registry s \<Longrightarrow> us_metas s' = us_metas s \<Longrightarrow> object_ok strict e s' ob = object_ok strict e s ob"
  by (simp add: object_ok_def split: option.split)

lemma objects_ok_cong:
  assumes "us_registry s' = us_registry s" "us_metas s' = us_metas s" "us_objs s' = us_objs s"
  shows "objects_ok strict e s' = objects_ok strict e s"
proof -
  have "object_ok strict e s' = object_ok strict e s" by (intro ext object_ok_cong assms(1,2))
  then show ?thesis using assms(3) by (simp add: objects_ok_def)
qed

lemma registry_ok_cong:
  "us_registry s' = us_registry s \<Longrightarrow> us_metas s' = us_metas s \<Longrightarrow> registry_ok e s' = registry_ok e s"
  by (simp add: registry_ok_def)

lemma complete_meta_unique: "complete_meta t mt \<Longrightarrow> complete_meta u mt \<Longrightarrow> t = u"
  by (simp add: complete_meta_def)

lemma sqlx_object_ok:
  assumes ok: "registry_ok e s" and m: "us_registry s (KeyPtr (ue_key e t)) = Some m"
  shows "object_ok strict e s (sqlx_object e t m x b)"
  using registry_okD(1,2) [OF ok m] registry_okD(2) [OF ok, of _ m]
  by (auto simp: object_ok_def complete_meta_def)

lemma userdata_ok:
  assumes "inj (ue_key e)" "ud_ok strict e s"
  shows "ud_ok strict e (snd (userdata e t lib v s))"
proof -
  obtain r s' where u: "userdata e t lib v s = (r, s')" by (metis surj_pair)
  let ?s = "s\<lparr>us_given := us_given s @ [v]\<rparr>"
  have ok: "registry_ok e ?s" "objects_ok strict e ?s" "conserved s"
    using assms(2) registry_ok_cong [of ?s s] objects_ok_cong [of ?s s] by (simp_all add: ud_ok_def)
  obtain r1 s1 where m: "sqlx_metatable e t lib ?s = (r1, s1)"
    and eff: "(\<exists>m. r = Inl m) \<and> s' = s1\<lparr>us_dropped := us_dropped s1 @ [v]\<rparr> \<or>
      (\<exists>m n. r1 = Inr m \<and> r = Inr (length (us_objs s1)) \<and> length (us_objs s1) < 2 ^ 64 \<and>
         s' = s1\<lparr>us_mem := n, us_objs := us_objs s1 @ [sqlx_object e t m (Some v) (um_gc (us_metas s1 ! m) \<noteq> None)]\<rparr>)"
    using u by (rule userdata_effect)
  note k = sqlx_metatable_ok [OF assms(1) ok(1,2) m]
  have h: "values_held s1 = values_held s" "us_given s1 = us_given s @ [v]" "us_dropped s1 = us_dropped s"
    using k(3) by (auto simp: meta_grows_def values_held_def)
  from eff show ?thesis
  proof (elim disjE exE conjE)
    fix m assume "s' = s1\<lparr>us_dropped := us_dropped s1 @ [v]\<rparr>"
    moreover from this have "registry_ok e s'" "objects_ok strict e s'"
      using k(1,2) registry_ok_cong [of s' s1] objects_ok_cong [of s' s1] by auto
    ultimately show ?thesis using u h ok(3) by (simp add: ud_ok_def conserved_def values_held_def)
  next
    fix m n
    assume r1: "r1 = Inr m" and len: "length (us_objs s1) < 2 ^ 64"
      and s': "s' = s1\<lparr>us_mem := n, us_objs := us_objs s1 @ [sqlx_object e t m (Some v) (um_gc (us_metas s1 ! m) \<noteq> None)]\<rparr>"
    have "object_ok strict e s1 (sqlx_object e t m (Some v) b)" for b by (rule sqlx_object_ok [OF k(1) k(4) [OF r1]])
    moreover have "object_ok strict e s' = object_ok strict e s1" by (intro ext object_ok_cong) (simp_all add: s')
    moreover have "registry_ok e s'" using k(1) by (subst registry_ok_cong [of s' s1]) (simp_all add: s')
    moreover have "conserved s'" using h ok(3) by (simp add: s' conserved_def values_held_def)
    ultimately have "registry_ok e s' \<and> objects_ok strict e s' \<and> conserved s'"
      using k(2) len by (simp add: objects_ok_def) (simp add: s')
    then show ?thesis using u by (simp add: ud_ok_def)
  qed
qed

lemma object_at: "objects_ok strict e s \<Longrightarrow> a < length (us_objs s) \<Longrightarrow> object_ok strict e s (us_objs s ! a)"
  by (simp add: objects_ok_def list_all_length)

lemma on_object_ok:
  assumes "objects_ok strict e s" "object_ok strict e s (f (us_objs s ! a))"
  shows "objects_ok strict e (on_object a f s)"
proof -
  have "object_ok strict e (on_object a f s) = object_ok strict e s" by (intro ext object_ok_cong) (simp_all add: on_object_def)
  moreover have "list_all (object_ok strict e s) ((us_objs s)[a := f (us_objs s ! a)])"
    using assms set_update_subset_insert [of "us_objs s" a] by (auto simp: objects_ok_def list_all_iff)
  ultimately show ?thesis using assms(1) by (simp add: objects_ok_def) (simp add: on_object_def)
qed

lemma concat_update:
  "i < length xs \<Longrightarrow> mset (concat (map g (xs[i := y]))) + mset (g (xs ! i)) = mset (concat (map g xs)) + mset (g y)"
proof (induction xs arbitrary: i)
  case (Cons x xs)
  then show ?case by (cases i) (auto simp: add_ac)
qed simp

lemma held_on_object:
  assumes "a < length (us_objs s)"
  shows "mset (values_held (on_object a f s)) + mset (cell_held (uo_cell (us_objs s ! a))) =
    mset (values_held s) + mset (cell_held (uo_cell (f (us_objs s ! a))))"
  using concat_update [OF assms, of "\<lambda>ob. cell_held (uo_cell ob)" "f (us_objs s ! a)"]
  by (simp add: values_held_def on_object_def)

lemma on_object_keeps:
  assumes ok: "ud_ok strict e s" and a: "a < length (us_objs s)" and ob: "object_ok strict e s (f (us_objs s ! a))"
    and same: "cell_held (uo_cell (f (us_objs s ! a))) = cell_held (uo_cell (us_objs s ! a))"
  shows "ud_ok strict e (on_object a f s)"
proof -
  have "registry_ok e (on_object a f s)"
    using ok registry_ok_cong [of "on_object a f s" s e] by (simp add: ud_ok_def on_object_def)
  moreover have "objects_ok strict e (on_object a f s)" using ok ob by (intro on_object_ok) (simp_all add: ud_ok_def)
  moreover have "mset (values_held (on_object a f s)) = mset (values_held s)" using held_on_object [OF a, of f] same by simp
  ultimately show ?thesis using ok by (simp add: ud_ok_def conserved_def) (simp add: on_object_def)
qed

lemma test_userdata_sound:
  assumes "objects_ok strict e s" "test_userdata e t v s = Some a"
  shows "a < length (us_objs s) \<and> (\<exists>m. uo_meta (us_objs s ! a) = Some m \<and> us_registry s (KeyPtr (ue_key e t)) = Some m) \<and>
    (\<exists>x. uo_cell (us_objs s ! a) = OptionOf t x) \<and> uo_size (us_objs s ! a) = ue_size e t"
proof -
  obtain m where a: "a < length (us_objs s)" "uo_meta (us_objs s ! a) = Some m" "us_registry s (KeyPtr (ue_key e t)) = Some m"
    using assms(2) by (auto simp: test_userdata_def Let_def split: lua_value.splits if_splits option.splits)
  then show ?thesis using object_at [OF assms(1) a(1)] by (auto simp: object_ok_def)
qed

lemma ud_gc_ok:
  assumes "ud_ok strict e s"
  shows "\<exists>s'. ud_gc e t v s = Done s' \<and> ud_ok strict e s'"
proof (cases "test_userdata e t v s")
  case (Some a)
  obtain m x where a: "a < length (us_objs s)" "uo_meta (us_objs s ! a) = Some m"
    "us_registry s (KeyPtr (ue_key e t)) = Some m" "uo_cell (us_objs s ! a) = OptionOf t x" "uo_size (us_objs s ! a) = ue_size e t"
    using test_userdata_sound [OF _ Some, of strict] assms by (auto simp: ud_ok_def)
  show ?thesis
  proof (cases x)
    case (Some w)
    let ?f = "\<lambda>ob. ob\<lparr>uo_cell := OptionOf t None\<rparr>" and ?d = "s\<lparr>us_dropped := us_dropped s @ [w]\<rparr>"
    have d: "registry_ok e ?d" "objects_ok strict e ?d"
      using assms registry_ok_cong [of ?d s e] objects_ok_cong [of ?d s _ e] by (simp_all add: ud_ok_def)
    have "?f (us_objs s ! a) = sqlx_object e t m None (uo_marked (us_objs s ! a))"
      using a(2,5) by (cases "us_objs s ! a") simp
    moreover have "object_ok strict e ?d (sqlx_object e t m None b)" for b
      by (rule sqlx_object_ok [OF d(1)]) (use a(3) in simp)
    ultimately have "object_ok strict e ?d (?f (us_objs s ! a))" by simp
    then have "objects_ok strict e (on_object a ?f ?d)" by (intro on_object_ok d(2)) simp
    moreover have "registry_ok e (on_object a ?f ?d)"
      using d(1) registry_ok_cong [of "on_object a ?f ?d" ?d e] by (simp add: on_object_def)
    moreover have "conserved (on_object a ?f ?d)"
      using held_on_object [of a ?d ?f] a(1,4) Some assms by (simp add: ud_ok_def conserved_def values_held_def) (simp add: on_object_def)
    ultimately show ?thesis
      using \<open>test_userdata e t v s = Some a\<close> a(4) Some
      by (simp add: ud_gc_def take_option_def cast_option_def ud_ok_def)
  qed (use assms \<open>test_userdata e t v s = Some a\<close> a in \<open>simp add: ud_gc_def take_option_def cast_option_def\<close>)
qed (use assms in \<open>simp add: ud_gc_def\<close>)

lemma set_mem_ok: "ud_ok strict e s \<Longrightarrow> ud_ok strict e (s\<lparr>us_mem := n\<rparr>)"
  using registry_ok_cong [of "s\<lparr>us_mem := n\<rparr>" s e] objects_ok_cong [of "s\<lparr>us_mem := n\<rparr>" s strict e]
  by (simp add: ud_ok_def conserved_def values_held_def)

text \<open>A new object without a metatable, of any content that is not counted.\<close>

lemma new_object_ok:
  assumes ok: "ud_ok strict e s" and new: "new_object n s = (r, s')"
  shows "(\<exists>m. r = Inl m) \<and> s' = s \<or>
    (\<exists>a. r = Inr a \<and> a = length (us_objs s) \<and> a < length (us_objs s') \<and> us_registry s' = us_registry s \<and> us_metas s' = us_metas s \<and>
       us_objs s' ! a = \<lparr>uo_meta = None, uo_size = n, uo_cell = Uninit, uo_marked = False\<rparr> \<and> ud_ok strict e s')"
proof (cases "2 ^ 64 \<le> length (us_objs s) \<or> us_mem s = 0")
  case False
  let ?ob = "\<lparr>uo_meta = None, uo_size = n, uo_cell = Uninit, uo_marked = False\<rparr> :: 'a ud_object"
  have s': "r = Inr (length (us_objs s))" "s' = s\<lparr>us_mem := us_mem s - 1, us_objs := us_objs s @ [?ob]\<rparr>"
    using False new by (auto simp: new_object_def ud_alloc_def)
  have "registry_ok e s'" using ok registry_ok_cong [of s' s e] by (simp add: ud_ok_def s'(2))
  moreover have "object_ok strict e s' = object_ok strict e s" by (intro ext object_ok_cong) (simp_all add: s'(2))
  then have "objects_ok strict e s'" using ok False by (simp add: ud_ok_def objects_ok_def) (simp add: s'(2) object_ok_def)
  moreover have "conserved s'" using ok by (simp add: ud_ok_def conserved_def values_held_def s'(2))
  ultimately show ?thesis using s' by (simp add: ud_ok_def)
qed (use new in \<open>auto simp: new_object_def ud_alloc_def split: if_splits\<close>)

lemma plain_metatable_ok:
  assumes "registry_ok e s" "objects_ok strict e s" "plain_metatable t lib s = (r, s')"
  shows "registry_ok e s'" "objects_ok strict e s'" "meta_grows s s'"
    and "r = Inr m \<Longrightarrow> us_registry s' (KeyName (plain_name t)) = Some m"
proof -
  note f = plain_metatable_effect [OF assms(3)]
  show "meta_grows s s'" using f by simp
  show "r = Inr m \<Longrightarrow> us_registry s' (KeyName (plain_name t)) = Some m" using f by auto
  show "objects_ok strict e s'" by (rule grown_objects [OF _ assms(2)]) (use f in \<open>auto split: if_splits\<close>)
  show "registry_ok e s'"
    by (rule grown_registry [OF _ assms(1), of _ "KeyName (plain_name t)"]) (use f in \<open>auto simp: plain_name_inj\<close>)
qed

lemma grown_conserved: "meta_grows s s' \<Longrightarrow> conserved s' = conserved s"
  by (simp add: meta_grows_def conserved_def values_held_def)

lemma lua_newuserdata_ok:
  assumes "ud_ok strict e s"
  shows "ud_ok strict e (snd (lua_newuserdata e t lib v s))"
proof -
  obtain r1 s1 where n: "new_object (ue_plain_size e t) s = (r1, s1)" by (metis surj_pair)
  show ?thesis
  proof (cases r1)
    case (Inl m)
    then have "s1 = s" using new_object_ok [OF assms n] by auto
    then show ?thesis using assms n Inl by (simp add: lua_newuserdata_def ud_bind_def)
  next
    case (Inr a)
    let ?s2 = "on_object a (\<lambda>ob. ob\<lparr>uo_cell := PlainOf t v\<rparr>) s1"
    have a: "a < length (us_objs s1)" "us_objs s1 ! a = \<lparr>uo_meta = None, uo_size = ue_plain_size e t, uo_cell = Uninit, uo_marked = False\<rparr>"
      and ok1: "ud_ok strict e s1"
      using new_object_ok [OF assms n] Inr by auto
    have ok2: "ud_ok strict e ?s2" by (rule on_object_keeps [OF ok1 a(1)]) (simp_all add: a(2) object_ok_def)
    have cell: "us_objs ?s2 ! a = \<lparr>uo_meta = None, uo_size = ue_plain_size e t, uo_cell = PlainOf t v, uo_marked = False\<rparr>"
      using a by (simp add: on_object_def)
    obtain r3 s3 where p: "plain_metatable t lib ?s2 = (r3, s3)" by (metis surj_pair)
    note k = plain_metatable_ok [OF _ _ p, of e strict]
    have ok3: "ud_ok strict e s3" using k ok2 grown_conserved [OF k(3)] by (simp add: ud_ok_def)
    have objs3: "us_objs s3 = us_objs ?s2" using k(3) ok2 by (simp add: meta_grows_def ud_ok_def)
    show ?thesis
    proof (cases r3)
      case (Inl m)
      then show ?thesis using ok3 n p Inr by (simp add: lua_newuserdata_def ud_bind_def write_cell_def)
    next
      case (Inr m)
      let ?f = "\<lambda>ob. ob\<lparr>uo_meta := Some m, uo_marked := um_gc (us_metas s3 ! m) \<noteq> None\<rparr>"
      have reg: "us_registry s3 (KeyName (plain_name t)) = Some m" using k(4) ok2 Inr by (simp add: ud_ok_def)
      note m = registry_okD(1,3) [OF _ reg] registry_okD(2) [of e s3 _ m]
      have "object_ok strict e s3 (?f (us_objs s3 ! a))"
        unfolding objs3 cell using m ok3 by (auto simp: object_ok_def ud_ok_def complete_meta_def)
      then have "ud_ok strict e (on_object a ?f s3)"
        by (intro on_object_keeps ok3) (simp_all add: objs3 on_object_def a(1))
      then show ?thesis
        using n p Inr \<open>r1 = Inr a\<close> by (simp add: lua_newuserdata_def ud_bind_def write_cell_def set_metatable_def ud_return_def)
    qed
  qed
qed

lemma foreign_userdata_ok:
  assumes "ud_ok strict e s"
  shows "ud_ok strict e (snd (foreign_userdata n s))"
proof (cases "us_mem s")
  case (Suc mem)
  let ?s1 = "s\<lparr>us_mem := mem, us_metas := us_metas s @ [empty_meta]\<rparr>" and ?m = "length (us_metas s)"
  have g: "meta_grows s ?s1" by (simp add: meta_grows_def)
  have reg: "registry_ok e ?s1" "objects_ok strict e ?s1"
    using assms by (auto simp: ud_ok_def intro: grown_registry [OF g] grown_objects [OF g])
  then have ok1: "ud_ok strict e ?s1" using assms grown_conserved [OF g] by (simp add: ud_ok_def)
  obtain r2 s2 where o2: "new_object n ?s1 = (r2, s2)" by (metis surj_pair)
  note no = new_object_ok [OF ok1 o2]
  show ?thesis
  proof (cases r2)
    case (Inl err)
    then show ?thesis using no ok1 o2 Suc by (auto simp: foreign_userdata_def ud_bind_def create_meta_def ud_alloc_def)
  next
    case (Inr a)
    let ?f = "\<lambda>ob. ob\<lparr>uo_meta := Some ?m, uo_marked := um_gc (us_metas s2 ! ?m) \<noteq> None\<rparr>"
    have s2: "a < length (us_objs s2)" "us_registry s2 = us_registry s" "us_metas s2 = us_metas s @ [empty_meta]" "ud_ok strict e s2"
      "us_objs s2 ! a = \<lparr>uo_meta = None, uo_size = n, uo_cell = Uninit, uo_marked = False\<rparr>"
      using no Inr by auto
    have "us_registry s k \<noteq> Some ?m" for k
      using registry_okD(1) [of e s k ?m] assms by (auto simp: ud_ok_def)
    then have "object_ok strict e s2 (?f (us_objs s2 ! a))"
      using s2 by (simp add: object_ok_def empty_meta_def)
    then have "ud_ok strict e (on_object a ?f s2)" by (intro on_object_keeps s2(4,1)) simp_all
    then show ?thesis
      using o2 Inr Suc by (simp add: foreign_userdata_def ud_bind_def create_meta_def ud_alloc_def set_metatable_def ud_return_def)
  qed
qed (use assms in \<open>simp add: foreign_userdata_def ud_bind_def create_meta_def ud_alloc_def\<close>)

lemma unmark_ok:
  assumes "ud_ok strict e s" "a < length (us_objs s)"
  shows "ud_ok strict e (on_object a (\<lambda>ob. ob\<lparr>uo_marked := False\<rparr>) s)"
  using object_at [OF _ assms(2), of strict e] assms
  by (intro on_object_keeps) (auto simp: ud_ok_def object_ok_def split: option.splits)

lemma ud_ref_addr: "objects_ok strict e s \<Longrightarrow> a < length (us_objs s) \<Longrightarrow> unat (word_of_nat a :: u64) = a"
  by (simp add: objects_ok_def unsigned_of_nat take_bit_nat_eq_self)

text \<open>What the unchecked readers do with a value that is there, and with any other.\<close>

lemma holds_plain_read: "holds_plain t v s \<Longrightarrow> \<exists>x. lua_touserdata t v s = Done x"
  by (auto simp: holds_plain_def lua_touserdata_def split: lua_value.splits ud_cell.splits)

lemma no_plain_read: "\<not> holds_plain t v s \<Longrightarrow> \<exists>m. lua_touserdata t v s = UB m"
  by (auto simp: holds_plain_def lua_touserdata_def split: lua_value.splits ud_cell.splits if_splits)

lemma holds_plain_ref:
  assumes "objects_ok strict e s" "a < length (us_objs s)"
  shows "holds_plain t (ud_ref a) s \<longleftrightarrow> (\<exists>v. uo_cell (us_objs s ! a) = PlainOf t v)"
  using assms ud_ref_addr [OF assms] by (auto simp: holds_plain_def ud_ref_def split: ud_cell.splits)

lemma dropped_ok:
  assumes ok: "ud_ok strict e s" and a: "a < length (us_objs s)" and v: "uo_cell (us_objs s ! a) = PlainOf t v"
    and spent: "strict \<longrightarrow> \<not> uo_marked (us_objs s ! a)"
  shows "ud_ok strict e (on_object a (\<lambda>ob. ob\<lparr>uo_cell := DroppedOf t\<rparr>) s)"
proof -
  have "object_ok strict e s (us_objs s ! a)" using object_at [OF _ a] ok by (simp add: ud_ok_def)
  then have "object_ok strict e s ((us_objs s ! a)\<lparr>uo_cell := DroppedOf t\<rparr>)"
    using v spent by (auto simp: object_ok_def split: option.splits)
  then show ?thesis by (intro on_object_keeps ok a) (simp_all add: v)
qed

lemma plain_drop_ok:
  assumes ok: "ud_ok strict e s" and there: "holds_plain t v s"
    and spent: "\<And>p. strict \<Longrightarrow> v = LUserData p \<Longrightarrow> \<not> uo_marked (us_objs s ! unat p)"
  shows "\<exists>s'. lua_dropuserdata t v s = Done s' \<and> ud_ok strict e s'"
proof (cases "\<exists>p. v = LUserData p")
  case True
  then obtain p x where p: "v = LUserData p" "unat p < length (us_objs s)" "uo_cell (us_objs s ! unat p) = PlainOf t x"
    using there by (cases "uo_cell (us_objs s ! unat (case v of LUserData p \<Rightarrow> p))") (auto simp: holds_plain_def)
  then have "lua_dropuserdata t v s = Done (on_object (unat p) (\<lambda>ob. ob\<lparr>uo_cell := DroppedOf t\<rparr>) s)"
    by (simp add: lua_dropuserdata_def lua_touserdata_def)
  then show ?thesis using dropped_ok [OF ok p(2,3)] spent p(1) by simp
next
  case False
  then have "lua_dropuserdata t v s = Done s"
    using there by (cases v) (auto simp: holds_plain_def lua_dropuserdata_def lua_touserdata_def)
  then show ?thesis using ok by simp
qed

lemma collect_ok:
  assumes "ud_ok strict e s"
  shows "plain_allowed s (UdCollect a) \<Longrightarrow> \<exists>s'. collect e a s = Done s' \<and> ud_ok strict e s'"
    and "\<not> plain_allowed s (UdCollect a) \<Longrightarrow> \<not> strict \<and> (\<exists>m. collect e a s = UB m)"
proof -
  let ?s1 = "on_object a (\<lambda>ob. ob\<lparr>uo_marked := False\<rparr>) s"
  let ?gc = "Option.bind (uo_meta (us_objs s ! a)) (\<lambda>m. um_gc (us_metas s ! m))"
  have "(plain_allowed s (UdCollect a) \<longrightarrow> (\<exists>s'. collect e a s = Done s' \<and> ud_ok strict e s')) \<and>
    (\<not> plain_allowed s (UdCollect a) \<longrightarrow> \<not> strict \<and> (\<exists>m. collect e a s = UB m))"
  proof (cases "length (us_objs s) \<le> a \<or> \<not> uo_marked (us_objs s ! a)")
    case False
    then have a: "a < length (us_objs s)" and marked: "uo_marked (us_objs s ! a)" by auto
    have ok1: "ud_ok strict e ?s1" by (rule unmark_ok [OF assms a])
    show ?thesis
    proof (cases "\<exists>t. ?gc = Some (DropInPlace t)")
      case True
      then obtain t where gc: "?gc = Some (DropInPlace t)" by blast
      have run: "collect e a s = lua_dropuserdata t (ud_ref a) ?s1" using a marked gc by (simp add: collect_def Let_def)
      have may: "plain_allowed s (UdCollect a) = holds_plain t (ud_ref a) ?s1"
        using a marked gc by (auto simp: plain_allowed_def holds_plain_def on_object_def ud_ref_def nth_list_update
            split: ud_cell.splits)
      have addr: "unat (word_of_nat a :: u64) = a" using ud_ref_addr [OF _ a] assms by (auto simp: ud_ok_def)
      have "object_ok strict e s (us_objs s ! a)" using object_at [OF _ a] assms by (simp add: ud_ok_def)
      then have lives: "strict \<Longrightarrow> holds_plain t (ud_ref a) ?s1"
        using gc marked a addr by (auto simp: object_ok_def holds_plain_def on_object_def ud_ref_def split: option.splits)
      have clear: "\<not> uo_marked (us_objs ?s1 ! unat p)" if "ud_ref a = LUserData p" for p
        using that addr a by (auto simp: ud_ref_def on_object_def)
      show ?thesis
      proof (cases "holds_plain t (ud_ref a) ?s1")
        case True
        then show ?thesis using run may plain_drop_ok [OF ok1 True] clear by auto
      next
        case False
        then obtain m where "lua_touserdata t (ud_ref a) ?s1 = UB m" using no_plain_read by blast
        then show ?thesis using False run may lives by (auto simp: lua_dropuserdata_def)
      qed
    next
      case False
      then have may: "plain_allowed s (UdCollect a)"
        by (auto simp: plain_allowed_def split: option.splits finalizer.splits)
      show ?thesis
      proof (cases ?gc)
        case None
        then show ?thesis using may ok1 a marked by (simp add: collect_def Let_def)
      next
        case (Some g)
        then obtain t where "g = TakeOption t" using False by (cases g) auto
        then show ?thesis using may ud_gc_ok [OF ok1, of t "ud_ref a"] a marked Some by (simp add: collect_def Let_def)
      qed
    qed
  qed (use assms in \<open>auto simp: collect_def plain_allowed_def\<close>)
  then show "plain_allowed s (UdCollect a) \<Longrightarrow> \<exists>s'. collect e a s = Done s' \<and> ud_ok strict e s'"
    and "\<not> plain_allowed s (UdCollect a) \<Longrightarrow> \<not> strict \<and> (\<exists>m. collect e a s = UB m)" by auto
qed

lemma ud_step_ok:
  assumes "inj (ue_key e)" "ud_ok strict e s" "strict \<longrightarrow> own_op p"
  shows "plain_allowed s p \<Longrightarrow> \<exists>s'. ud_step e s p = Done s' \<and> ud_ok strict e s'"
    and "\<not> plain_allowed s p \<Longrightarrow> \<not> strict \<and> (\<exists>m. ud_step e s p = UB m)"
proof -
  have "(plain_allowed s p \<longrightarrow> (\<exists>s'. ud_step e s p = Done s' \<and> ud_ok strict e s')) \<and>
    (\<not> plain_allowed s p \<longrightarrow> \<not> strict \<and> (\<exists>m. ud_step e s p = UB m))"
  proof (cases p)
    case (UdFinal t v)
    then show ?thesis using ud_gc_ok [OF assms(2)] by (simp add: plain_allowed_def)
  next
    case (UdCollect a)
    then show ?thesis using collect_ok [OF assms(2)] by auto
  next
    case (UdPlainGc t v)
    then have "\<not> strict" using assms(3) by auto
    then show ?thesis
      using UdPlainGc plain_drop_ok [OF assms(2), of t v] no_plain_read [of t v s]
      by (auto simp: plain_allowed_def lua_dropuserdata_def [of t v s])
  next
    case (UdPlainRead t v)
    then have "\<not> strict" using assms(3) by auto
    then show ?thesis
      using UdPlainRead assms(2) holds_plain_read [of t v s] no_plain_read [of t v s] by (auto simp: plain_allowed_def)
  qed (simp_all add: plain_allowed_def assms userdata_ok lua_newuserdata_ok foreign_userdata_ok set_mem_ok)
  then show "plain_allowed s p \<Longrightarrow> \<exists>s'. ud_step e s p = Done s' \<and> ud_ok strict e s'"
    and "\<not> plain_allowed s p \<Longrightarrow> \<not> strict \<and> (\<exists>m. ud_step e s p = UB m)" by auto
qed

text \<open>The law about the keys is part of the invariant, so that the machine needs no assumption.\<close>

interpretation userdata_machine: safe_machine "ud_step e" "\<lambda>s. inj (ue_key e) \<and> ud_ok False e s" plain_allowed
proof unfold_locales
  fix s p s' m
  assume i: "inj (ue_key e) \<and> ud_ok False e s" and "plain_allowed s p"
  then obtain s1 where s1: "ud_step e s p = Done s1" "ud_ok False e s1" using ud_step_ok(1) by blast
  show "inj (ue_key e) \<and> ud_ok False e s'" if "ud_step e s p = Done s'" using that i s1 by simp
  show "ud_step e s p \<noteq> UB m" using s1 by simp
qed

lemma ud_run:
  assumes "inj (ue_key e)" "ud_ok False e s"
  shows "if guarded (ud_step e) plain_allowed s ps
    then \<exists>s'. run_ops (ud_step e) s ps = Done s' \<and> ud_ok False e s' else \<exists>m. run_ops (ud_step e) s ps = UB m"
  using assms(2)
proof (induction ps arbitrary: s)
  case (Cons p ps)
  show ?case
  proof (cases "plain_allowed s p")
    case True
    then obtain s1 where "ud_step e s p = Done s1" "ud_ok False e s1" using ud_step_ok(1) [OF assms(1) Cons.prems] by blast
    then show ?thesis using Cons.IH [of s1] True by simp
  next
    case False
    then show ?thesis using ud_step_ok(2) [OF assms(1) Cons.prems, of p] by auto
  qed
qed simp

lemma ud_run_done:
  assumes "inj (ue_key e)" "ud_ok False e s" "run_ops (ud_step e) s ps = Done s'"
  shows "ud_ok False e s'"
  using ud_run [OF assms(1,2), of ps] assms(3) by (auto split: if_splits)

lemma own_run_guarded:
  assumes "inj (ue_key e)" "ud_ok True e s" "list_all own_op ps"
  shows "guarded (ud_step e) plain_allowed s ps"
  using assms(2,3)
proof (induction ps arbitrary: s)
  case (Cons p ps)
  have own: "True \<longrightarrow> own_op p" using Cons.prems(2) by simp
  have may: "plain_allowed s p" using ud_step_ok(2) [OF assms(1) Cons.prems(1) own] by blast
  then obtain s1 where "ud_step e s p = Done s1" "ud_ok True e s1"
    using ud_step_ok(1) [OF assms(1) Cons.prems(1) own] by blast
  then show ?case using may Cons.IH [of s1] Cons.prems(2) by simp
qed simp

lemma ud_start_ok: "ud_ok strict e ud_start"
  by (simp add: ud_ok_def ud_start_def registry_ok_def objects_ok_def conserved_def values_held_def)

section \<open>One object through a run\<close>

text \<open>What the creating operations leave alone.\<close>

definition ud_extends :: "'v ud_state \<Rightarrow> 'v ud_state \<Rightarrow> bool" where
  "ud_extends s s' \<longleftrightarrow>
     (\<forall>a. a < length (us_objs s) \<longrightarrow> a < length (us_objs s') \<and> us_objs s' ! a = us_objs s ! a) \<and>
     (\<forall>k m. us_registry s k = Some m \<longrightarrow> us_registry s' k = Some m)"

lemma ud_extends_refl: "ud_extends s s"
  by (simp add: ud_extends_def)

lemma ud_extends_trans: "ud_extends s s1 \<Longrightarrow> ud_extends s1 s2 \<Longrightarrow> ud_extends s s2"
  by (simp add: ud_extends_def)

lemma userdata_extends:
  assumes "inj (ue_key e)" "ud_ok False e s"
  shows "ud_extends s (snd (userdata e t lib v s))"
proof -
  obtain r s' where u: "userdata e t lib v s = (r, s')" by (metis surj_pair)
  let ?s = "s\<lparr>us_given := us_given s @ [v]\<rparr>"
  have ok: "registry_ok e ?s" "objects_ok False e ?s"
    using assms(2) registry_ok_cong [of ?s s e] objects_ok_cong [of ?s s _ e] by (simp_all add: ud_ok_def)
  obtain r1 s1 where m: "sqlx_metatable e t lib ?s = (r1, s1)"
    and eff: "us_registry s' = us_registry s1 \<and> (\<exists>new. us_objs s' = us_objs s1 @ new)"
    using u by (rule userdata_effect) auto
  show ?thesis
    using sqlx_metatable_ok(3,5) [OF assms(1) ok m] eff u
    by (auto simp: ud_extends_def meta_grows_def nth_append)
qed

lemma new_object_extends: "ud_extends s (snd (new_object n s))"
  by (auto simp: new_object_def ud_alloc_def ud_extends_def nth_append)

lemma plain_metatable_extends: "ud_extends s (snd (plain_metatable t lib s))"
proof (cases "us_registry s (KeyName (plain_name t))")
  case None
  obtain r s' where p: "plain_metatable t lib s = (r, s')" by (metis surj_pair)
  show ?thesis using plain_metatable_effect [OF p] p None by (auto simp: ud_extends_def meta_grows_def)
qed (simp add: plain_metatable_def ud_return_def ud_extends_refl)

lemma on_object_extends: "ud_extends s s1 \<Longrightarrow> length (us_objs s) \<le> a \<Longrightarrow> ud_extends s (on_object a f s1)"
  by (simp add: ud_extends_def on_object_def)

lemma new_object_index: "new_object n s = (Inr a, s') \<Longrightarrow> a = length (us_objs s)"
  by (auto simp: new_object_def ud_alloc_def split: if_splits)

lemma lua_newuserdata_extends: "ud_extends s (snd (lua_newuserdata e t lib v s))"
proof -
  obtain r1 s1 where n: "new_object (ue_plain_size e t) s = (r1, s1)" by (metis surj_pair)
  have s1: "ud_extends s s1" using new_object_extends [of s "ue_plain_size e t"] n by simp
  show ?thesis
  proof (cases r1)
    case (Inr a)
    let ?s2 = "on_object a (\<lambda>ob. ob\<lparr>uo_cell := PlainOf t v\<rparr>) s1"
    have a: "length (us_objs s) \<le> a" using new_object_index n Inr by auto
    obtain r3 s3 where p: "plain_metatable t lib ?s2 = (r3, s3)" by (metis surj_pair)
    have s3: "ud_extends s s3"
      using ud_extends_trans [OF on_object_extends [OF s1 a]] plain_metatable_extends [of ?s2 t lib] p by simp
    then show ?thesis
      using n p Inr on_object_extends [OF s3 a]
      by (cases r3) (simp_all add: lua_newuserdata_def ud_bind_def write_cell_def set_metatable_def ud_return_def)
  qed (use n s1 in \<open>simp add: lua_newuserdata_def ud_bind_def\<close>)
qed

lemma foreign_userdata_extends: "ud_extends s (snd (foreign_userdata n s))"
proof (cases "us_mem s")
  case (Suc mem)
  let ?s1 = "s\<lparr>us_mem := mem, us_metas := us_metas s @ [empty_meta]\<rparr>"
  obtain r2 s2 where o2: "new_object n ?s1 = (r2, s2)" by (metis surj_pair)
  have s2: "ud_extends s s2" using new_object_extends [of ?s1 n] o2 by (simp add: ud_extends_def)
  show ?thesis
  proof (cases r2)
    case (Inr a)
    have "length (us_objs s) \<le> a" using new_object_index [of n ?s1] o2 Inr by auto
    from on_object_extends [OF s2 this] show ?thesis
      using o2 Inr Suc by (simp add: foreign_userdata_def ud_bind_def create_meta_def ud_alloc_def set_metatable_def ud_return_def)
  qed (use o2 s2 Suc in \<open>simp add: foreign_userdata_def ud_bind_def create_meta_def ud_alloc_def\<close>)
qed (simp add: foreign_userdata_def ud_bind_def create_meta_def ud_alloc_def ud_extends_refl)

text \<open>The object at \<open>a\<close>: its value is there, or was taken by its finalizer.\<close>

definition tracked :: "ud_env \<Rightarrow> sqlx_type \<Rightarrow> nat \<Rightarrow> 'v \<Rightarrow> bool \<Rightarrow> 'v ud_state \<Rightarrow> bool" where
  "tracked e t a v gone s \<longleftrightarrow> ud_ok False e s \<and> a < length (us_objs s) \<and>
     (\<exists>m b. us_registry s (KeyPtr (ue_key e t)) = Some m \<and>
        us_objs s ! a = sqlx_object e t m (if gone then None else Some v) b \<and> (\<not> gone \<longrightarrow> b))"

fun finalizes :: "sqlx_type \<Rightarrow> nat \<Rightarrow> 'v ud_op \<Rightarrow> bool" where
  "finalizes t a (UdFinal u v) = (u = t \<and> v = ud_ref a)"
| "finalizes t a (UdCollect b) = (b = a)"
| "finalizes t a _ = False"

lemma tracked_extends: "tracked e t a v gone s \<Longrightarrow> ud_extends s s' \<Longrightarrow> ud_ok False e s' \<Longrightarrow> tracked e t a v gone s'"
  by (auto simp: tracked_def ud_extends_def)

lemma tracked_test:
  assumes "tracked e t a v gone s"
  shows "test_userdata e t (ud_ref a) s = Some a" "u \<noteq> t \<Longrightarrow> test_userdata e u (ud_ref a) s = None"
proof -
  obtain m b where m: "us_registry s (KeyPtr (ue_key e t)) = Some m"
    "us_objs s ! a = sqlx_object e t m (if gone then None else Some v) b"
    and a: "a < length (us_objs s)" and ok: "registry_ok e s" "objects_ok False e s"
    using assms by (auto simp: tracked_def ud_ok_def)
  have addr: "unat (word_of_nat a :: u64) = a" by (rule ud_ref_addr [OF ok(2) a])
  show "test_userdata e t (ud_ref a) s = Some a"
    using m a addr by (simp add: test_userdata_def ud_ref_def Let_def)
  show "test_userdata e u (ud_ref a) s = None" if "u \<noteq> t"
  proof -
    have "us_registry s (KeyPtr (ue_key e u)) \<noteq> Some m"
      using registry_okD(2) [OF ok(1), of _ m] complete_meta_unique m(1) that by blast
    then show ?thesis using m a addr by (simp add: test_userdata_def ud_ref_def Let_def)
  qed
qed

lemma ud_gc_done: "ud_ok False e s \<Longrightarrow> ud_gc e u w s = Done s' \<Longrightarrow> ud_ok False e s'"
  using ud_gc_ok [of False e s u w] by auto

lemma tracked_gc:
  assumes "tracked e t a v gone s" "ud_gc e u w s = Done s'"
  shows "tracked e t a v (gone \<or> u = t \<and> w = ud_ref a) s'"
proof -
  obtain m b where m: "us_registry s (KeyPtr (ue_key e t)) = Some m" "a < length (us_objs s)"
    "us_objs s ! a = sqlx_object e t m (if gone then None else Some v) b" and ok: "ud_ok False e s" and b: "\<not> gone \<longrightarrow> b"
    using assms(1) by (auto simp: tracked_def)
  have ok': "ud_ok False e s'" by (rule ud_gc_done [OF ok assms(2)])
  show ?thesis
  proof (cases "u = t \<and> w = ud_ref a")
    case True
    then show ?thesis
      using assms(2) m ok' tracked_test(1) [OF assms(1)]
      by (auto simp: ud_gc_def take_option_def cast_option_def tracked_def on_object_def)
  next
    case False
    show ?thesis
    proof (cases "test_userdata e u w s")
      case None
      then show ?thesis using assms False by (auto simp: ud_gc_def)
    next
      case (Some a')
      have "a' \<noteq> a"
      proof
        assume "a' = a"
        moreover obtain p where "w = LUserData p" "a' = unat p"
          using Some by (auto simp: test_userdata_def Let_def split: lua_value.splits if_splits option.splits)
        then have "w = ud_ref a'" by (simp add: ud_ref_def)
        ultimately have "w = ud_ref a" by simp
        then show False using False Some tracked_test(2) [OF assms(1), of u] by auto
      qed
      then show ?thesis
        using assms(2) m b ok' Some False
        by (auto simp: ud_gc_def take_option_def cast_option_def tracked_def on_object_def
            split: ud_cell.splits if_splits option.splits)
    qed
  qed
qed

lemma unmark_tracked:
  assumes "tracked e t a v gone s" "b < length (us_objs s)" "b = a \<longrightarrow> gone"
  shows "tracked e t a v gone (on_object b (\<lambda>ob. ob\<lparr>uo_marked := False\<rparr>) s)"
  using assms unmark_ok [of False e s b] by (cases "b = a") (auto simp: tracked_def on_object_def)

lemma tracked_collect:
  assumes "inj (ue_key e)" "tracked e t a v gone s" "collect e b s = Done s'"
  shows "tracked e t a v (gone \<or> b = a) s'"
proof -
  obtain m c where m: "us_registry s (KeyPtr (ue_key e t)) = Some m" "a < length (us_objs s)"
    "us_objs s ! a = sqlx_object e t m (if gone then None else Some v) c" and ok: "ud_ok False e s" and c: "\<not> gone \<longrightarrow> c"
    using assms(2) by (auto simp: tracked_def)
  have addr: "objects_ok False e s" using ok by (simp add: ud_ok_def)
  show ?thesis
  proof (cases "length (us_objs s) \<le> b \<or> \<not> uo_marked (us_objs s ! b)")
    case True
    then show ?thesis using assms(2,3) m c by (cases "b = a"; cases gone) (auto simp: collect_def)
  next
    case False
    let ?s1 = "on_object b (\<lambda>ob. ob\<lparr>uo_marked := False\<rparr>) s"
    have b: "b < length (us_objs s)" and ok1: "ud_ok False e ?s1" using False unmark_ok [OF ok] by auto
    show ?thesis
    proof (cases "b = a")
      case True
      have "um_gc (us_metas s ! m) = Some (TakeOption t)"
        using registry_okD(2) [OF _ m(1)] ok by (simp add: ud_ok_def complete_meta_def)
      then have run: "ud_gc e t (ud_ref a) ?s1 = Done s'"
        using assms(3) False True m by (simp add: collect_def Let_def)
      have "test_userdata e t (ud_ref a) ?s1 = Some a"
        using m True ud_ref_addr [OF addr m(2)]
        by (simp add: test_userdata_def ud_ref_def Let_def on_object_def)
      then show ?thesis
        using run ud_gc_done [OF ok1 run] m True
        by (auto simp: ud_gc_def take_option_def cast_option_def tracked_def on_object_def split: option.splits)
    next
      case other: False
      have t1: "tracked e t a v gone ?s1" by (rule unmark_tracked [OF assms(2) b]) (use other in simp)
      have addr1: "unat (word_of_nat b :: u64) = b" by (rule ud_ref_addr [OF addr b])
      have same: "ud_ref b \<noteq> ud_ref a"
      proof
        assume "ud_ref b = ud_ref a"
        then have "unat (word_of_nat b :: u64) = unat (word_of_nat a :: u64)" by (simp add: ud_ref_def)
        then show False using addr1 ud_ref_addr [OF addr m(2)] other by simp
      qed
      have ok': "ud_ok False e s'" using assms(3) collect_ok [OF ok, of b] by (cases "plain_allowed s (UdCollect b)") auto
      have "tracked e t a v gone s'"
      proof (cases "Option.bind (uo_meta (us_objs s ! b)) (\<lambda>m. um_gc (us_metas s ! m))")
        case (Some g)
        show ?thesis
        proof (cases g)
          case (TakeOption u)
          then have "ud_gc e u (ud_ref b) ?s1 = Done s'"
            using assms(3) False Some by (simp add: collect_def Let_def)
          from tracked_gc [OF t1 this] show ?thesis using same by simp
        next
          case (DropInPlace u)
          then have "lua_dropuserdata u (ud_ref b) ?s1 = Done s'"
            using assms(3) False Some by (simp add: collect_def Let_def)
          then have "s' = ?s1 \<or> s' = on_object b (\<lambda>ob. ob\<lparr>uo_cell := DroppedOf u\<rparr>) ?s1"
            using addr1 by (cases "lua_touserdata u (ud_ref b) ?s1") (auto simp: lua_dropuserdata_def ud_ref_def split: option.splits)
          then show ?thesis using t1 other ok' by (auto simp: tracked_def on_object_def)
        qed
      qed (use assms(3) False t1 in \<open>simp add: collect_def Let_def\<close>)
      then show ?thesis using other by simp
    qed
  qed
qed

text \<open>A plain \<open>__gc\<close> that returns has found a plain value.\<close>

lemma tracked_drop:
  assumes "tracked e t a v gone s" "lua_dropuserdata u w s = Done s'" "ud_ok False e s'"
  shows "tracked e t a v gone s'"
proof -
  have "s' = s \<or> (\<exists>c x. uo_cell (us_objs s ! c) = PlainOf u x \<and> s' = on_object c (\<lambda>ob. ob\<lparr>uo_cell := DroppedOf u\<rparr>) s)"
    using assms(2)
    by (fastforce simp: lua_dropuserdata_def lua_touserdata_def split: lua_value.splits if_splits ud_cell.splits)
  then show ?thesis
  proof (elim disjE exE conjE)
    fix c x assume c: "uo_cell (us_objs s ! c) = PlainOf u x" "s' = on_object c (\<lambda>ob. ob\<lparr>uo_cell := DroppedOf u\<rparr>) s"
    then have "c \<noteq> a" using assms(1) by (auto simp: tracked_def)
    then show ?thesis using c(2) assms(1,3) by (simp add: tracked_def on_object_def)
  qed (use assms(1) in simp)
qed

lemma tracked_step:
  assumes "inj (ue_key e)" "tracked e t a v gone s" "ud_step e s p = Done s'"
  shows "tracked e t a v (gone \<or> finalizes t a p) s'"
proof -
  have ok: "ud_ok False e s" using assms(2) by (simp add: tracked_def)
  have ok': "ud_ok False e s'" using ud_step_ok [OF assms(1) ok, of p] assms(3) by (cases "plain_allowed s p") auto
  show ?thesis
  proof (cases p)
    case (UdFinal u w)
    then show ?thesis using assms(3) tracked_gc [OF assms(2)] by simp
  next
    case (UdCollect b)
    then show ?thesis using assms(3) tracked_collect [OF assms(1,2)] by simp
  next
    case (UdMemory n)
    then have "ud_extends s s'" using assms(3) by (auto simp: ud_extends_def)
    then show ?thesis using UdMemory tracked_extends [OF assms(2) _ ok'] by simp
  next
    case (UdPush u lib w)
    then have "ud_extends s s'" using assms(3) userdata_extends [OF assms(1) ok] by auto
    then show ?thesis using UdPush tracked_extends [OF assms(2) _ ok'] by simp
  next
    case (UdPlain u lib w)
    then have "ud_extends s s'" using assms(3) lua_newuserdata_extends by auto
    then show ?thesis using UdPlain tracked_extends [OF assms(2) _ ok'] by simp
  next
    case (UdForeign n)
    then have "ud_extends s s'" using assms(3) foreign_userdata_extends by auto
    then show ?thesis using UdForeign tracked_extends [OF assms(2) _ ok'] by simp
  next
    case (UdPlainGc u w)
    then show ?thesis using assms(3) tracked_drop [OF assms(2) _ ok'] by simp
  next
    case (UdPlainRead u w)
    then show ?thesis using assms(2,3) by (cases "lua_touserdata u w s") auto
  qed
qed

lemma tracked_run:
  assumes "inj (ue_key e)" "tracked e t a v gone s" "run_ops (ud_step e) s ps = Done s'"
  shows "tracked e t a v (gone \<or> list_ex (finalizes t a) ps) s'"
  using assms(2,3)
proof (induction ps arbitrary: s gone)
  case (Cons p ps)
  obtain s1 where s1: "ud_step e s p = Done s1" "run_ops (ud_step e) s1 ps = Done s'"
    using Cons.prems(2) by (auto split: outcome.splits)
  have "tracked e t a v ((gone \<or> finalizes t a p) \<or> list_ex (finalizes t a) ps) s'"
    by (rule Cons.IH [OF tracked_step [OF assms(1) Cons.prems(1) s1(1)] s1(2)])
  then show ?case by (simp add: disj_assoc)
qed simp

lemma userdata_tracked:
  assumes "inj (ue_key e)" "ud_ok False e s" "userdata e t lib v s = (Inr a, s')"
  shows "tracked e t a v False s'"
proof -
  let ?s = "s\<lparr>us_given := us_given s @ [v]\<rparr>"
  have ok: "registry_ok e ?s" "objects_ok False e ?s"
    using assms(2) registry_ok_cong [of ?s s e] objects_ok_cong [of ?s s _ e] by (simp_all add: ud_ok_def)
  obtain r1 s1 m n where m: "sqlx_metatable e t lib ?s = (r1, s1)" "r1 = Inr m"
    and s': "a = length (us_objs s1)"
      "s' = s1\<lparr>us_mem := n, us_objs := us_objs s1 @ [sqlx_object e t m (Some v) (um_gc (us_metas s1 ! m) \<noteq> None)]\<rparr>"
    using assms(3) by (rule userdata_effect) auto
  note k = sqlx_metatable_ok [OF assms(1) ok m(1)]
  have "um_gc (us_metas s1 ! m) = Some (TakeOption t)"
    using registry_okD(2) [OF k(1) k(4) [OF m(2)]] by (simp add: complete_meta_def)
  moreover have "ud_ok False e s'" using userdata_ok [OF assms(1,2), of t lib v] assms(3) by simp
  ultimately show ?thesis using k(4) [OF m(2)] s' by (simp add: tracked_def ex_bool_eq)
qed

section \<open>Properties\<close>

text \<open>
  C10. Runs of these operations, whatever Lua code does with userdata of its own and of others and
  wherever memory runs out. A run is undefined exactly when one of its operations reads as a plain
  value what is not one: a plain \<open>__gc\<close> or method called with a value of another type or with one
  already dropped, or the collection of a plain userdata whose \<open>__gc\<close> was called before. No SQLx
  operation ever is, and a run without such calls returns. In a run that returns no memory is read as
  an \<open>Option<T>\<close> that is not one, because what \<open>test_userdata\<close> accepts is an object made by \<open>userdata\<close>
  for that type; every metatable in the cache has its finalizer; and every value given to \<open>userdata\<close>
  is held by exactly one object or has been dropped exactly once.
\<close>

theorem userdata_typed:
  assumes "inj (ue_key e)"
  shows "(case run_ops (ud_step e) ud_start ops of
      Done s \<Rightarrow> guarded (ud_step e) plain_allowed ud_start ops \<and>
        (\<forall>t v a. test_userdata e t v s = Some a \<longrightarrow> (\<exists>x. uo_cell (us_objs s ! a) = OptionOf t x)) \<and>
        (\<forall>t m. us_registry s (KeyPtr (ue_key e t)) = Some m \<longrightarrow> complete_meta t (us_metas s ! m)) \<and>
        mset (us_given s) = mset (values_held s) + mset (us_dropped s)
    | UB m \<Rightarrow> \<not> guarded (ud_step e) plain_allowed ud_start ops
    | Panic m \<Rightarrow> False) \<and>
    (list_all own_op ops \<longrightarrow> guarded (ud_step e) plain_allowed ud_start ops)"
proof (intro conjI impI)
  show "guarded (ud_step e) plain_allowed ud_start ops" if "list_all own_op ops"
    by (rule own_run_guarded [OF assms ud_start_ok that])
  show "case run_ops (ud_step e) ud_start ops of
      Done s \<Rightarrow> guarded (ud_step e) plain_allowed ud_start ops \<and>
        (\<forall>t v a. test_userdata e t v s = Some a \<longrightarrow> (\<exists>x. uo_cell (us_objs s ! a) = OptionOf t x)) \<and>
        (\<forall>t m. us_registry s (KeyPtr (ue_key e t)) = Some m \<longrightarrow> complete_meta t (us_metas s ! m)) \<and>
        mset (us_given s) = mset (values_held s) + mset (us_dropped s)
    | UB m \<Rightarrow> \<not> guarded (ud_step e) plain_allowed ud_start ops
    | Panic m \<Rightarrow> False"
  proof (cases "guarded (ud_step e) plain_allowed ud_start ops")
    case True
    then obtain s where s: "run_ops (ud_step e) ud_start ops = Done s" "ud_ok False e s"
      using ud_run [OF assms ud_start_ok, of ops] by auto
    then have ok: "registry_ok e s" "objects_ok False e s" "conserved s" by (simp_all add: ud_ok_def)
    have "\<forall>t v a. test_userdata e t v s = Some a \<longrightarrow> (\<exists>x. uo_cell (us_objs s ! a) = OptionOf t x)"
      using test_userdata_sound [OF ok(2)] by blast
    moreover have "\<forall>t m. us_registry s (KeyPtr (ue_key e t)) = Some m \<longrightarrow> complete_meta t (us_metas s ! m)"
      using registry_okD(2) [OF ok(1)] by blast
    ultimately show ?thesis using True s(1) ok(3) by (simp add: conserved_def)
  next
    case False
    then show ?thesis using ud_run [OF assms ud_start_ok, of ops] by auto
  qed
qed

text \<open>Keys for the witnesses.\<close>

definition three_keys :: ud_env where
  "three_keys = \<lparr>ue_key = (\<lambda>t. case t of ConnectionT \<Rightarrow> 1 | LeaseT \<Rightarrow> 2 | TransactionT \<Rightarrow> 3),
     ue_size = (\<lambda>_. 8), ue_plain_size = (\<lambda>_. 8)\<rparr>"

lemma three_keys_inj: "inj (ue_key three_keys)"
  by (auto simp: three_keys_def inj_def split: sqlx_type.splits)

text \<open>
  A lease for which memory runs out, one that is collected, and a channel whose \<open>__gc\<close> Lua code calls
  and which the collector drops again.
\<close>

theorem userdata_typed_witness:
  "(\<exists>s. run_ops (ud_step three_keys) ud_start
        [UdMemory 3, UdPush LeaseT [] True, UdMemory 9, UdPush LeaseT [] False, UdCollect 0] = Done s \<and>
      us_given s = [True, False] \<and> mset [True, False] = mset (values_held s) + mset (us_dropped s)) \<and>
   (\<exists>m. run_ops (ud_step three_keys) ud_start
        [UdMemory 9, UdPlain WsChannelT [] True, UdPlainGc WsChannelT (ud_ref 0), UdCollect 0] = UB m)"
proof -
  let ?own = "[UdMemory 3, UdPush LeaseT [] True, UdMemory 9, UdPush LeaseT [] False, UdCollect 0]"
  let ?bad = "[UdMemory 9, UdPlain WsChannelT [] True, UdPlainGc WsChannelT (ud_ref 0), UdCollect 0]"
  have "\<not> guarded (ud_step three_keys) plain_allowed ud_start ?bad"
    by (simp add: ud_start_def plain_allowed_def lua_dropuserdata_def lua_touserdata_def holds_plain_def ud_ref_def
        lua_newuserdata_def plain_metatable_def ud_bind_def ud_alloc_def ud_return_def create_meta_def set_field_def
        set_registry_def new_object_def write_cell_def set_metatable_def on_object_def)
  then have "\<exists>m. run_ops (ud_step three_keys) ud_start ?bad = UB m"
    using userdata_typed [OF three_keys_inj, of ?bad] by (auto split: outcome.splits)
  moreover obtain s where s: "run_ops (ud_step three_keys) ud_start ?own = Done s"
    and all: "mset (us_given s) = mset (values_held s) + mset (us_dropped s)"
    using userdata_typed [OF three_keys_inj, of ?own] by (auto split: outcome.splits)
  moreover have "us_given s = [True, False]"
    using s by (simp add: ud_start_def userdata_def dispatch_userdata_def sqlx_metatable_def ud_bind_def ud_alloc_def
        ud_return_def create_meta_def set_field_def set_registry_def new_object_def write_cell_def set_metatable_def
        on_object_def collect_def ud_gc_def test_userdata_def take_option_def cast_option_def ud_ref_def Let_def
        three_keys_def empty_meta_def) auto
  ultimately show ?thesis by auto
qed

text \<open>
  C11. What an entry point sees of a userdata refines the three cases it distinguishes: the object made
  for a value is \<open>Live\<close> with that value for its own type until its finalizer has run, by the
  collector or by \<open>__close\<close>, and \<open>Collected\<close> from then on, however often that happens; for every
  other type it is \<open>Foreign\<close>, always.
\<close>

theorem userdata_view_run:
  assumes "inj (ue_key e)" and "run_ops (ud_step e) ud_start before = Done s"
    and "userdata e t lib v s = (Inr a, s1)" and "run_ops (ud_step e) s1 after = Done s2"
  shows "userdata_view e t (ud_ref a) s2 = Done (if list_ex (finalizes t a) after then Collected else Live v) \<and>
    (\<forall>u. u \<noteq> t \<longrightarrow> userdata_view e u (ud_ref a) s2 = Done Foreign)"
proof -
  have ok: "ud_ok False e s" using ud_run_done [OF assms(1) ud_start_ok assms(2)] .
  have tr: "tracked e t a v (list_ex (finalizes t a) after) s2"
    using tracked_run [OF assms(1) userdata_tracked [OF assms(1) ok assms(3)] assms(4)] by simp
  obtain b m where "us_objs s2 ! a = sqlx_object e t m (if list_ex (finalizes t a) after then None else Some v) b"
    using tr by (auto simp: tracked_def)
  then show ?thesis
    using tracked_test [OF tr] by (auto simp: userdata_view_def cast_option_def)
qed

theorem userdata_view_run_witness:
  "\<exists>s s1 s2. run_ops (ud_step three_keys) ud_start [UdMemory 9] = Done s \<and>
     userdata three_keys LeaseT [] True s = (Inr 0, s1) \<and>
     run_ops (ud_step three_keys) s1 [UdFinal TransactionT (ud_ref 0), UdFinal LeaseT (ud_ref 0), UdCollect 0] = Done s2 \<and>
     userdata_view three_keys LeaseT (ud_ref 0) s2 = Done Collected"
proof -
  let ?after = "[UdFinal TransactionT (ud_ref 0), UdFinal LeaseT (ud_ref 0), UdCollect 0]"
  obtain s :: "bool ud_state" where s: "s = ud_start\<lparr>us_mem := 9\<rparr>" by blast
  have b: "run_ops (ud_step three_keys) ud_start [UdMemory 9] = Done s" by (simp add: s)
  obtain r s1 where u: "userdata three_keys LeaseT [] True s = (r, s1)" by (metis surj_pair)
  then have r: "r = Inr 0"
    by (auto simp: s ud_start_def userdata_def dispatch_userdata_def sqlx_metatable_def ud_bind_def ud_alloc_def ud_return_def
        create_meta_def set_field_def set_registry_def new_object_def write_cell_def set_metatable_def on_object_def)
  have "\<exists>s2. run_ops (ud_step three_keys) s1 ?after = Done s2"
    using u by (auto simp: s ud_start_def userdata_def dispatch_userdata_def sqlx_metatable_def ud_bind_def ud_alloc_def
        ud_return_def create_meta_def set_field_def set_registry_def new_object_def write_cell_def set_metatable_def
        on_object_def collect_def ud_gc_def test_userdata_def take_option_def cast_option_def ud_ref_def Let_def
        three_keys_def empty_meta_def)
  then obtain s2 where s2: "run_ops (ud_step three_keys) s1 ?after = Done s2" by blast
  show ?thesis
    using userdata_view_run [OF three_keys_inj b u [unfolded r] s2] b u r s2 by auto
qed

lemmas plain_steps =
  lua_newuserdata_def plain_metatable_def ud_bind_def ud_alloc_def ud_return_def create_meta_def set_field_def
  set_registry_def new_object_def write_cell_def set_metatable_def on_object_def

text \<open>
  C38. The userdata of the other modules has none of this. A value reads back as its own type, but
  reading it as another type is undefined, and so is running its \<open>__gc\<close> a second time, which any Lua
  code can do. When memory runs out while the metatable is filled, the half-built one stays
  published: what is created with it later is never marked for finalization, so its value is never
  dropped.
\<close>

theorem plain_userdata_unchecked:
  assumes "us_registry s (KeyName (plain_name t)) = None" and "length (us_objs s) + 1 < 2 ^ 64" and "u \<noteq> t"
  shows "(6 \<le> us_mem s \<longrightarrow> (\<exists>s1 s2. lua_newuserdata e t lib v s = (Inr (length (us_objs s)), s1) \<and>
      lua_touserdata t (ud_ref (length (us_objs s))) s1 = Done (Some v) \<and>
      lua_touserdata u (ud_ref (length (us_objs s))) s1 = UB ''userdata of another type'' \<and>
      lua_dropuserdata t (ud_ref (length (us_objs s))) s1 = Done s2 \<and>
      lua_dropuserdata t (ud_ref (length (us_objs s))) s2 = UB ''userdata of another type'')) \<and>
    (us_mem s = 4 \<longrightarrow> (\<exists>s1 s2. lua_newuserdata e t lib v s = (Inl ''not enough memory'', s1) \<and>
      lua_newuserdata e t lib w (s1\<lparr>us_mem := Suc n\<rparr>) = (Inr (length (us_objs s) + 1), s2) \<and>
      uo_cell (us_objs s2 ! (length (us_objs s) + 1)) = PlainOf t w \<and>
      collect e (length (us_objs s) + 1) s2 = Done s2))"
proof (intro conjI impI)
  let ?a = "length (us_objs s)"
  have addr: "unat (word_of_nat ?a :: u64) = ?a" using assms(2) by (simp add: unsigned_of_nat take_bit_nat_eq_self)
  assume "6 \<le> us_mem s"
  then obtain r s1 where new: "lua_newuserdata e t lib v s = (Inr ?a, s1)"
    and cell: "?a < length (us_objs s1)" "uo_cell (us_objs s1 ! ?a) = PlainOf t v"
    using assms(1,2) by (auto simp: plain_steps nth_append)
  let ?s2 = "on_object ?a (\<lambda>ob. ob\<lparr>uo_cell := DroppedOf t\<rparr>) s1"
  have "lua_touserdata t (ud_ref ?a) s1 = Done (Some v)" "lua_touserdata u (ud_ref ?a) s1 = UB ''userdata of another type''"
    "lua_dropuserdata t (ud_ref ?a) s1 = Done ?s2" "lua_dropuserdata t (ud_ref ?a) ?s2 = UB ''userdata of another type''"
    using cell addr assms(3) by (simp_all add: lua_dropuserdata_def lua_touserdata_def ud_ref_def on_object_def)
  with new show "\<exists>s1 s2. lua_newuserdata e t lib v s = (Inr ?a, s1) \<and> lua_touserdata t (ud_ref ?a) s1 = Done (Some v) \<and>
      lua_touserdata u (ud_ref ?a) s1 = UB ''userdata of another type'' \<and> lua_dropuserdata t (ud_ref ?a) s1 = Done s2 \<and>
      lua_dropuserdata t (ud_ref ?a) s2 = UB ''userdata of another type''" by blast
next
  let ?a = "length (us_objs s) + 1"
  assume mem: "us_mem s = 4"
  then obtain s1 where new: "lua_newuserdata e t lib v s = (Inl ''not enough memory'', s1)"
    and s1: "length (us_objs s1) = ?a" "us_registry s1 (KeyName (plain_name t)) = Some (length (us_metas s))"
      "um_gc (us_metas s1 ! length (us_metas s)) = None"
    using assms(1,2) by (auto simp: plain_steps empty_meta_def nth_append)
  obtain s2 where again: "lua_newuserdata e t lib w (s1\<lparr>us_mem := Suc n\<rparr>) = (Inr ?a, s2)"
    and s2: "uo_cell (us_objs s2 ! ?a) = PlainOf t w" "\<not> uo_marked (us_objs s2 ! ?a)"
    using s1 assms(2) by (auto simp: plain_steps nth_append)
  then have "collect e ?a s2 = Done s2" by (simp add: collect_def)
  with new again s2(1) show "\<exists>s1 s2. lua_newuserdata e t lib v s = (Inl ''not enough memory'', s1) \<and>
      lua_newuserdata e t lib w (s1\<lparr>us_mem := Suc n\<rparr>) = (Inr ?a, s2) \<and>
      uo_cell (us_objs s2 ! ?a) = PlainOf t w \<and> collect e ?a s2 = Done s2" by blast
qed

theorem plain_userdata_unchecked_witness:
  "\<exists>s1 s2. lua_newuserdata three_keys WsChannelT [] True (ud_start\<lparr>us_mem := 6\<rparr>) = (Inr 0, s1) \<and>
     lua_dropuserdata WsChannelT (ud_ref 0) s1 = Done s2 \<and>
     lua_dropuserdata WsChannelT (ud_ref 0) s2 = UB ''userdata of another type''"
proof -
  let ?s = "ud_start\<lparr>us_mem := 6\<rparr> :: bool ud_state"
  have "us_registry ?s (KeyName (plain_name WsChannelT)) = None" "length (us_objs ?s) + 1 < 2 ^ 64"
    by (simp_all add: ud_start_def)
  from plain_userdata_unchecked [OF this, of MongoConnectionT three_keys "[]" True]
  show ?thesis by (auto simp: ud_start_def)
qed

end
