(* ===== verification/LuaApi.thy ===== *)
theory LuaApi
  imports LuaValue
begin

text \<open>
  The macros of \<open>lua.h\<close> that \<open>crates/libs/lib-lua-sys/src/lua54/lua.rs\<close> writes as Rust functions. The
  functions of the C library they call are given by their manual (\<open>lua_settop\<close>, \<open>lua_rotate\<close>,
  \<open>lua_copy\<close>, \<open>lua_pushvalue\<close>, \<open>lua_xmove\<close>, with the valid indices they require); indices and counts are
  \<open>c_int\<close>s. That these functions are the list operations the other theories use is proved here.
\<close>

type_synonym c_int = "32 word"

section \<open>The library\<close>

text \<open>The position (from 0) of an index; \<open>None\<close> when it is not valid.\<close>

definition api_index :: "lua_stack \<Rightarrow> c_int \<Rightarrow> nat option" where
  "api_index s i =
     (let j = (if 0 < sint i then sint i - 1 else int (length s) + sint i)
      in if sint i \<noteq> 0 \<and> 0 \<le> j \<and> j < int (length s) then Some (nat j) else None)"

text \<open>A negative index counts from the top: \<open>-1\<close> leaves the stack as it is.\<close>

definition api_settop :: "lua_stack \<Rightarrow> c_int \<Rightarrow> lua_stack outcome" where
  "api_settop s i =
     (if 0 \<le> sint i then Done (take (nat (sint i)) s @ replicate (nat (sint i) - length s) LNil)
      else if - (int (length s) + 1) \<le> sint i then Done (take (nat (int (length s) + sint i + 1)) s)
      else UB ''invalid new top'')"

definition api_rotate :: "lua_stack \<Rightarrow> c_int \<Rightarrow> c_int \<Rightarrow> lua_stack outcome" where
  "api_rotate s i n =
     (case api_index s i of
        None \<Rightarrow> UB ''invalid index''
      | Some p \<Rightarrow>
          (let seg = drop p s; k = sint n
           in if int (length seg) < \<bar>k\<bar> then UB ''invalid 'n' ''
              else Done (take p s @ rotate (if 0 \<le> k then length seg - nat k else nat (- k)) seg)))"

definition api_copy :: "lua_stack \<Rightarrow> c_int \<Rightarrow> c_int \<Rightarrow> lua_stack outcome" where
  "api_copy s from to =
     (case (api_index s from, api_index s to) of
        (Some p, Some q) \<Rightarrow> Done (s[q := s ! p])
      | _ \<Rightarrow> UB ''invalid index'')"

definition api_pushvalue :: "lua_stack \<Rightarrow> c_int \<Rightarrow> lua_stack outcome" where
  "api_pushvalue s i = (case api_index s i of Some p \<Rightarrow> Done (s @ [s ! p]) | None \<Rightarrow> UB ''invalid index'')"

definition api_xmove :: "lua_stack \<Rightarrow> lua_stack \<Rightarrow> c_int \<Rightarrow> (lua_stack \<times> lua_stack) outcome" where
  "api_xmove from to n =
     (if sint n < 0 \<or> int (length from) < sint n then UB ''not enough elements to move''
      else let k = length from - nat (sint n) in Done (take k from, to @ drop k from))"

section \<open>The functions of \<open>lua.rs\<close>\<close>

definition lua_registryindex :: int where
  "lua_registryindex = - 1000000 - 1000"

definition lua_upvalueindex :: "c_int \<Rightarrow> c_int" where
  "lua_upvalueindex i = of_int lua_registryindex - i"

definition ffi_pop :: "lua_stack \<Rightarrow> c_int \<Rightarrow> lua_stack outcome" where
  "ffi_pop s n = api_settop s (- n - 1)"

definition ffi_insert :: "lua_stack \<Rightarrow> c_int \<Rightarrow> lua_stack outcome" where
  "ffi_insert s i = api_rotate s i 1"

definition ffi_remove :: "lua_stack \<Rightarrow> c_int \<Rightarrow> lua_stack outcome" where
  "ffi_remove s i = obind (api_rotate s i (- 1)) (\<lambda>s. ffi_pop s 1)"

definition ffi_replace :: "lua_stack \<Rightarrow> c_int \<Rightarrow> lua_stack outcome" where
  "ffi_replace s i = obind (api_copy s (- 1) i) (\<lambda>s. ffi_pop s 1)"

definition ffi_xpush :: "lua_stack \<Rightarrow> lua_stack \<Rightarrow> c_int \<Rightarrow> (lua_stack \<times> lua_stack) outcome" where
  "ffi_xpush from to i = obind (api_pushvalue from i) (\<lambda>from. api_xmove from to 1)"

definition ffi_type :: "lua_stack \<Rightarrow> c_int \<Rightarrow> int" where
  "ffi_type s i = lua_type_code (lua_type (lua_at s (sint i)))"

definition ffi_isfunction :: "lua_stack \<Rightarrow> c_int \<Rightarrow> bool" where "ffi_isfunction s i \<longleftrightarrow> ffi_type s i = 6"
definition ffi_istable :: "lua_stack \<Rightarrow> c_int \<Rightarrow> bool" where "ffi_istable s i \<longleftrightarrow> ffi_type s i = 5"
definition ffi_islightuserdata :: "lua_stack \<Rightarrow> c_int \<Rightarrow> bool" where "ffi_islightuserdata s i \<longleftrightarrow> ffi_type s i = 2"
definition ffi_isnil :: "lua_stack \<Rightarrow> c_int \<Rightarrow> bool" where "ffi_isnil s i \<longleftrightarrow> ffi_type s i = 0"
definition ffi_isboolean :: "lua_stack \<Rightarrow> c_int \<Rightarrow> bool" where "ffi_isboolean s i \<longleftrightarrow> ffi_type s i = 1"
definition ffi_isthread :: "lua_stack \<Rightarrow> c_int \<Rightarrow> bool" where "ffi_isthread s i \<longleftrightarrow> ffi_type s i = 8"
definition ffi_isnone :: "lua_stack \<Rightarrow> c_int \<Rightarrow> bool" where "ffi_isnone s i \<longleftrightarrow> ffi_type s i = - 1"
definition ffi_isnoneornil :: "lua_stack \<Rightarrow> c_int \<Rightarrow> bool" where "ffi_isnoneornil s i \<longleftrightarrow> ffi_type s i \<le> 0"

section \<open>They are the list operations\<close>

lemma sint_neg_count:
  assumes "0 \<le> sint (n :: c_int)"
  shows "sint (- n - 1) = - sint n - 1"
proof -
  have n: "sint n < 2 ^ 31" using sint_lt [of n] by simp
  have "sint (- n) = signed_take_bit 31 (- sint n)" by (simp add: sint_word_ariths)
  also have "\<dots> = - sint n" using n assms by (intro signed_take_bit_int_eq_self) simp_all
  finally have "sint (- n - 1) = signed_take_bit 31 (- sint n - 1)" by (simp add: sint_word_ariths)
  also have "\<dots> = - sint n - 1" using n assms by (intro signed_take_bit_int_eq_self) simp_all
  finally show ?thesis .
qed

lemma ffi_pop_eq:
  assumes "0 \<le> sint n" "sint n \<le> int (length s)"
  shows "ffi_pop s n = Done (lua_pop s (nat (sint n)))"
proof -
  have "nat (int (length s) + (- sint n - 1) + 1) = length s - nat (sint n)" using assms by simp
  then show ?thesis using assms by (simp add: ffi_pop_def api_settop_def sint_neg_count lua_pop_def)
qed

text \<open>Indices are valid when they name an element.\<close>

lemma api_index_at: "api_index s i = Some p \<Longrightarrow> p < length s \<and> lua_at s (sint i) = s ! p"
  by (auto simp: api_index_def lua_at_def Let_def split: if_splits)

lemma api_index_top: "s \<noteq> [] \<Longrightarrow> api_index s (- 1) = Some (length s - 1)"
  by (simp add: api_index_def Let_def Suc_le_eq nat_diff_distrib)

lemma rotate_one_back: "xs \<noteq> [] \<Longrightarrow> rotate (length xs - 1) xs = last xs # butlast xs"
  by (cases xs rule: rev_cases) (simp_all add: rotate_append)

lemma ffi_pop_snoc: "ffi_pop (s @ [v]) 1 = Done s"
  using ffi_pop_eq [of 1 "s @ [v]"] by (simp add: lua_pop_def)

lemma ffi_insert_eq:
  assumes "api_index s i = Some p"
  shows "ffi_insert s i = Done (take p s @ last s # drop p (butlast s))"
proof -
  have p: "p < length s" using api_index_at [OF assms] by simp
  then have "drop p s \<noteq> []" "last (drop p s) = last s" "butlast (drop p s) = drop p (butlast s)"
    by (simp_all add: butlast_drop)
  then show ?thesis
    using assms p rotate_one_back [of "drop p s"] by (simp add: ffi_insert_def api_rotate_def Let_def)
qed

lemma ffi_remove_eq:
  assumes "api_index s i = Some p"
  shows "ffi_remove s i = Done (lua_remove s (p + 1))"
proof -
  have p: "p < length s" using api_index_at [OF assms] by simp
  have "api_rotate s i (- 1) = Done (take p s @ drop (Suc p) s @ [s ! p])"
    using assms p by (simp add: api_rotate_def Let_def Cons_nth_drop_Suc [symmetric])
  then show ?thesis
    using ffi_pop_snoc [of "take p s @ drop (Suc p) s" "s ! p"] by (simp add: ffi_remove_def lua_remove_def)
qed

lemma ffi_replace_eq:
  assumes "api_index s i = Some p"
  shows "ffi_replace s i = Done (butlast (s[p := last s]))"
proof -
  have p: "p < length s" using api_index_at [OF assms] by simp
  then have "s \<noteq> []" by auto
  then have "api_copy s (- 1) i = Done (s[p := last s])"
    using assms by (simp add: api_copy_def api_index_top last_conv_nth)
  moreover obtain xs v where "s[p := last s] = xs @ [v]"
    using \<open>s \<noteq> []\<close> by (metis append_butlast_last_id list_update_nonempty)
  ultimately show ?thesis by (simp add: ffi_replace_def ffi_pop_snoc)
qed

lemma ffi_xpush_eq:
  assumes "api_index s i = Some p"
  shows "ffi_xpush s to i = Done (s, lua_push to (s ! p))"
  using assms by (simp add: ffi_xpush_def api_pushvalue_def api_xmove_def lua_push_def Let_def)

lemma ffi_type_tests:
  "ffi_istable s i \<longleftrightarrow> lua_type (lua_at s (sint i)) = TTable" "ffi_isnil s i \<longleftrightarrow> lua_at s (sint i) = LNil"
  "ffi_isnone s i \<longleftrightarrow> lua_at s (sint i) = LNone"
  "ffi_isnoneornil s i \<longleftrightarrow> lua_at s (sint i) \<in> {LNone, LNil}"
  by (cases "lua_at s (sint i)"; simp add: ffi_istable_def ffi_isnil_def ffi_isnone_def ffi_isnoneornil_def ffi_type_def)+

section \<open>Properties\<close>

text \<open>
  C35. The stack functions that \<open>lua.rs\<close> builds from rotations, copies and negative tops are the list
  operations they are named after, at every valid index, positive or negative: popping drops the top
  elements, inserting moves the top element below the index, removing deletes the element, replacing
  overwrites it with the popped top, and pushing across states copies it. No argument leaves the range of \<open>c_int\<close>.
\<close>

theorem api_stack_functions:
  assumes "api_index s i = Some p" and "0 \<le> sint n" and "sint n \<le> int (length s)"
  shows "ffi_pop s n = Done (lua_pop s (nat (sint n))) \<and>
    ffi_insert s i = Done (take p s @ last s # drop p (butlast s)) \<and>
    ffi_remove s i = Done (lua_remove s (p + 1)) \<and>
    ffi_replace s i = Done (butlast (s[p := lua_at s (- 1)])) \<and>
    ffi_xpush s to i = Done (s, lua_push to (lua_at s (sint i)))"
proof -
  have "s \<noteq> []" using api_index_at [OF assms(1)] by auto
  then have "lua_at s (- 1) = last s" by (simp add: lua_at_def Let_def last_conv_nth Suc_le_eq nat_diff_distrib)
  then show ?thesis
    using assms ffi_pop_eq ffi_insert_eq ffi_remove_eq ffi_replace_eq ffi_xpush_eq api_index_at by simp
qed

theorem api_stack_functions_witness:
  "ffi_remove [LNil, LBoolean True, LInteger 3] (- 2) = Done (lua_remove [LNil, LBoolean True, LInteger 3] 2)"
proof -
  have "api_index [LNil, LBoolean True, LInteger 3] (- 2) = Some 1" by (simp add: api_index_def)
  from api_stack_functions [OF this, of 1 "[]"] show ?thesis by (simp add: numeral_2_eq_2)
qed

end
