(* ===== verification/FloatCast.thy ===== *)
theory FloatCast
  imports LuaStack
begin

text \<open>
  \<open>f32\<close> values on their way through Lua, whose numbers are \<open>f64\<close>: a \<open>FLOAT4\<close> column is widened when it
  is pushed (\<open>insert_pg_scalar_value\<close>, \<open>LuaStack for f32\<close>) and narrowed when it comes back as a
  parameter (\<open>get_pg_array_param\<close>). The casts are those of \<open>SqlxParams\<close> and \<open>SqlxDecode\<close>. With the type \<open>f32\<close> all
  implementations of \<open>LuaStack\<close> are there, and their round trip stands at the end.
\<close>

section \<open>Exact magnitudes\<close>

lemma bit_length_eq: "2 ^ k \<le> n \<Longrightarrow> n < 2 ^ (k + 1) \<Longrightarrow> bit_length n = k + 1"
proof (induction k arbitrary: n)
  case 0
  then have "n = 1" by simp
  then show ?case by (simp add: bit_length.simps [of "Suc 0"] bit_length.simps [of 0])
next
  case (Suc k)
  then have "2 ^ k \<le> n div 2" "n div 2 < 2 ^ (k + 1)" by (simp_all add: less_mult_imp_div_less)
  then have "bit_length (n div 2) = k + 1" by (rule Suc.IH)
  moreover have "n \<noteq> 0" using Suc.prems by (cases n) auto
  ultimately show ?case by (simp add: bit_length.simps [of n])
qed

lemma exponent_ex:
  assumes "0 < (n :: nat)"
  obtains k where "2 ^ k \<le> n" "n < 2 ^ (k + 1)"
proof -
  have "\<exists>k. 2 ^ k \<le> n \<and> n < 2 ^ (k + 1)" using assms by (intro ex_power_ivl1) simp_all
  then show thesis using that by blast
qed

lemma round_shift_exact: "round_shift (q * 2 ^ k) k = q"
  by (simp add: round_shift_def)

lemma widen_normal:
  assumes "1 \<le> ex" "ex \<le> 254" "fr < 2 ^ 23"
  shows "ieee_magnitude 11 52 (2 ^ 23 + fr) (int ex - 150) = (ex + 896) * 2 ^ 52 + fr * 2 ^ 29"
proof -
  have "bit_length (2 ^ 23 + fr) = 23 + 1" by (rule bit_length_eq) (use assms in simp_all)
  moreover have "nat (int ex - 127 + 1022) = ex + 895" by simp
  ultimately show ?thesis using assms by (simp add: ieee_magnitude_def Let_def)
qed

lemma narrow_normal:
  assumes "1 \<le> ex" "ex \<le> 254" "fr < 2 ^ 23"
  shows "ieee_magnitude 8 23 (2 ^ 52 + fr * 2 ^ 29) (int (ex + 896) - 1075) = ex * 2 ^ 23 + fr"
proof -
  have m: "2 ^ 52 + fr * 2 ^ 29 = (2 ^ 23 + fr) * 2 ^ 29" by simp
  have "bit_length ((2 ^ 23 + fr) * 2 ^ 29) = 52 + 1" by (rule bit_length_eq) (use assms in simp_all)
  moreover have "round_shift ((2 ^ 23 + fr) * 2 ^ 29) 29 = 2 ^ 23 + fr" by (rule round_shift_exact)
  moreover have "nat (int ex - 127 + 126) = ex - 1" by simp
  ultimately show ?thesis unfolding m using assms by (simp add: ieee_magnitude_def Let_def)
qed

lemma subnormal_range:
  assumes "2 ^ k \<le> (fr :: nat)" "fr < 2 ^ (k + 1)" "k \<le> 22"
  shows "2 ^ 52 \<le> fr * 2 ^ (52 - k)" "fr * 2 ^ (52 - k) < 2 ^ 53" "bit_length fr = k + 1"
    and "bit_length (fr * 2 ^ (52 - k)) = 53" "0 < fr" "fr < 2 ^ 23"
proof -
  have k: "(2 :: nat) ^ k * 2 ^ (52 - k) = 2 ^ 52" "(2 :: nat) ^ (k + 1) * 2 ^ (52 - k) = 2 ^ 53"
    using assms(3) by (simp_all flip: power_add)
  show lo: "2 ^ 52 \<le> fr * 2 ^ (52 - k)" using mult_le_mono1 [OF assms(1), of "2 ^ (52 - k)"] k(1) by simp
  have "fr * 2 ^ (52 - k) < 2 ^ (k + 1) * 2 ^ (52 - k)" by (rule mult_strict_right_mono [OF assms(2)]) simp
  also note k(2)
  finally show hi: "fr * 2 ^ (52 - k) < 2 ^ 53" .
  show "bit_length fr = k + 1" by (rule bit_length_eq [OF assms(1,2)])
  have "bit_length (fr * 2 ^ (52 - k)) = 52 + 1" by (rule bit_length_eq) (use lo hi in simp_all)
  then show "bit_length (fr * 2 ^ (52 - k)) = 53" by simp
  show "0 < fr" using assms(1) by (rule less_le_trans [rotated]) simp
  have "(2 :: nat) ^ (k + 1) \<le> 2 ^ 23" using assms(3) by (intro power_increasing) simp_all
  then show "fr < 2 ^ 23" using assms(2) by simp
qed

lemma widen_subnormal:
  assumes "2 ^ k \<le> fr" "fr < 2 ^ (k + 1)" "k \<le> 22"
  shows "ieee_magnitude 11 52 fr (- 149) = (k + 873) * 2 ^ 52 + fr * 2 ^ (52 - k)"
proof -
  note r = subnormal_range [OF assms]
  have e: "- 149 + int (bit_length fr) - 1 = int k - 149" "max (int k - 149) (- 1022) = int k - 149"
    "nat (- 149 - (int k - 149 - 52)) = 52 - k" "nat (int k - 149 + 1022) = k + 873"
    using r(3) assms(3) by simp_all
  have "ieee_magnitude 11 52 fr (- 149) = min ((k + 873) * 2 ^ 52 + fr * 2 ^ (52 - k)) ((2 ^ 11 - 1) * 2 ^ 52)"
    using e assms(3) r(5) by (simp add: ieee_magnitude_def Let_def)
  then show ?thesis using r(2) assms(3) by simp
qed

lemma narrow_subnormal:
  assumes "2 ^ k \<le> fr" "fr < 2 ^ (k + 1)" "k \<le> 22"
  shows "ieee_magnitude 8 23 (fr * 2 ^ (52 - k)) (int (k + 874) - 1075) = fr"
proof -
  note r = subnormal_range [OF assms]
  have e: "int (k + 874) - 1075 + int (bit_length (fr * 2 ^ (52 - k))) - 1 = int k - 149"
    "max (int k - 149) (- 126) = - 126" "\<not> - 126 - 23 \<le> int (k + 874) - 1075"
    "nat (- 126 - 23 - (int (k + 874) - 1075)) = 52 - k"
    using r(4) assms(3) by simp_all
  have "ieee_magnitude 8 23 (fr * 2 ^ (52 - k)) (int (k + 874) - 1075) = min (round_shift (fr * 2 ^ (52 - k)) (52 - k)) (255 * 2 ^ 23)"
    using e r(5) by (simp add: ieee_magnitude_def Let_def)
  then show ?thesis using r(6) round_shift_exact [of fr "52 - k"] by simp
qed

section \<open>Bit patterns\<close>

lemma unat_word_of_nat: "n < 2 ^ 64 \<Longrightarrow> unat (word_of_nat n :: u64) = n"
  by (simp add: unsigned_of_nat take_bit_nat_eq_self)

lemma split_at:
  fixes m :: nat
  assumes "r < m"
  shows "(q * m + r) div m = q" "(q * m + r) mod m = r"
  using assms by simp_all

lemma f64_parts:
  assumes "s < 2" "ex < 2 ^ 11" "fr < 2 ^ 52" "x = word_of_nat (s * 2 ^ 63 + (ex * 2 ^ 52 + fr))"
  shows "unat x div 2 ^ 63 = s" "f64_exponent x = ex" "f64_fraction x = fr"
proof -
  have u: "unat x = s * 2 ^ 63 + (ex * 2 ^ 52 + fr)"
    unfolding assms(4) using assms(1-3) by (intro unat_word_of_nat) simp
  have mag: "ex * 2 ^ 52 + fr < 2 ^ 63" using assms(2,3) by simp
  show "unat x div 2 ^ 63 = s" using u mag by simp
  have "unat x = (s * 2 ^ 11 + ex) * 2 ^ 52 + fr" using u by simp
  then have "unat x div 2 ^ 52 = s * 2 ^ 11 + ex" "unat x mod 2 ^ 52 = fr" by (simp_all only: split_at [OF assms(3)])
  then show "f64_exponent x = ex" "f64_fraction x = fr" using assms(2) by (simp_all add: f64_exponent_def f64_fraction_def)
qed

lemma f32_parts: "(x :: f32) = word_of_nat (unat x div 2 ^ 31 * 2 ^ 31 + (unat x div 2 ^ 23 mod 2 ^ 8 * 2 ^ 23 + unat x mod 2 ^ 23))"
    "unat x div 2 ^ 31 < 2" "unat x div 2 ^ 23 mod 2 ^ 8 < 2 ^ 8" "unat x mod 2 ^ 23 < 2 ^ 23"
proof -
  have join: "u = a * 2 ^ 31 + (b * 2 ^ 23 + r)" if "a = d" "u = q * 2 ^ 23 + r" "q = d * 2 ^ 8 + b" for u q r a b d :: nat
    using that by simp
  have "unat x div 2 ^ 31 = unat x div 2 ^ 23 div 2 ^ 8" by (simp add: div_mult2_eq [symmetric])
  moreover have "unat x = unat x div 2 ^ 23 * 2 ^ 23 + unat x mod 2 ^ 23" by (rule div_mult_mod_eq [symmetric])
  moreover have "unat x div 2 ^ 23 = unat x div 2 ^ 23 div 2 ^ 8 * 2 ^ 8 + unat x div 2 ^ 23 mod 2 ^ 8"
    by (rule div_mult_mod_eq [symmetric])
  ultimately have "unat x = unat x div 2 ^ 31 * 2 ^ 31 + (unat x div 2 ^ 23 mod 2 ^ 8 * 2 ^ 23 + unat x mod 2 ^ 23)"
    by (rule join)
  then show "x = word_of_nat (unat x div 2 ^ 31 * 2 ^ 31 + (unat x div 2 ^ 23 mod 2 ^ 8 * 2 ^ 23 + unat x mod 2 ^ 23))"
    using arg_cong [of _ _ "word_of_nat :: nat \<Rightarrow> f32"] by (metis of_nat_unat ucast_id)
  have "unat x < 2 ^ 32" using unsigned_less [of x] by simp
  then show "unat x div 2 ^ 31 < 2" by simp
qed simp_all

section \<open>There and back\<close>

text \<open>
  A signalling NaN comes back quiet, as the hardware conversion makes it. Rust leaves the payload and
  the quieting of a NaN after a cast open; the model fixes what the hardware does.
\<close>

definition quiet_f32 :: "f32 \<Rightarrow> f32" where
  "quiet_f32 x =
     (if unat x div 2 ^ 23 mod 2 ^ 8 = 255 \<and> unat x mod 2 ^ 23 \<noteq> 0 \<and> unat x mod 2 ^ 23 < 2 ^ 22 then x + 2 ^ 22 else x)"

lemma widened:
  assumes "s = unat x div 2 ^ 31" "ex = unat x div 2 ^ 23 mod 2 ^ 8" "fr = unat x mod 2 ^ 23"
  shows "f32_to_f64 (x :: f32) = word_of_nat (s * 2 ^ 63 +
     (if ex = 255 then 2047 * 2 ^ 52 + (if fr = 0 then 0 else (fr mod 2 ^ 22 + 2 ^ 22) * 2 ^ 29)
      else if ex = 0 then ieee_magnitude 11 52 fr (- 149) else ieee_magnitude 11 52 (2 ^ 23 + fr) (int ex - 150)))"
  unfolding f32_to_f64_def Let_def assms ..

lemma narrowed:
  assumes "s < 2" "ex < 2 ^ 11" "fr < 2 ^ 52" "x = word_of_nat (s * 2 ^ 63 + (ex * 2 ^ 52 + fr))"
  shows "f64_to_f32 x = word_of_nat (s * 2 ^ 31 +
     (if ex = 2047 then 255 * 2 ^ 23 + (if fr = 0 then 0 else 2 ^ 22 + fr div 2 ^ 29 mod 2 ^ 22)
      else if ex = 0 then ieee_magnitude 8 23 fr (- 1074) else ieee_magnitude 8 23 (2 ^ 52 + fr) (int ex - 1075)))"
  unfolding f64_to_f32_def Let_def f64_parts [OF assms] ..

lemma f32_there_and_back: "f64_to_f32 (f32_to_f64 x) = quiet_f32 x"
proof -
  define s where "s = unat x div 2 ^ 31"
  define ex where "ex = unat x div 2 ^ 23 mod 2 ^ 8"
  define fr where "fr = unat x mod 2 ^ 23"
  have x: "x = word_of_nat (s * 2 ^ 31 + (ex * 2 ^ 23 + fr))" "s < 2" "ex < 2 ^ 8" "fr < 2 ^ 23"
    using f32_parts [of x] by (simp_all add: s_def ex_def fr_def)
  have q: "quiet_f32 x = (if ex = 255 \<and> fr \<noteq> 0 \<and> fr < 2 ^ 22 then x + 2 ^ 22 else x)"
    by (simp add: quiet_f32_def ex_def fr_def)
  note w = widened [OF s_def ex_def fr_def]
  consider (nan) "ex = 255" | (zero) "ex = 0" "fr = 0" | (sub) "ex = 0" "0 < fr" | (normal) "1 \<le> ex" "ex \<le> 254"
    using x(3) by force
  then show ?thesis
  proof cases
    case normal
    then have "f32_to_f64 x = word_of_nat (s * 2 ^ 63 + ((ex + 896) * 2 ^ 52 + fr * 2 ^ 29))"
      using w widen_normal [OF normal x(4)] by simp
    from narrowed [OF x(2) _ _ this] show ?thesis
      using narrow_normal [OF normal x(4)] normal x q by simp
  next
    case zero
    then have "f32_to_f64 x = word_of_nat (s * 2 ^ 63 + (0 * 2 ^ 52 + 0))"
      using w by (simp add: ieee_magnitude_def)
    from narrowed [OF x(2) _ _ this] show ?thesis using zero x(1) q by (simp add: ieee_magnitude_def)
  next
    case sub
    obtain k where k: "2 ^ k \<le> fr" "fr < 2 ^ (k + 1)" by (rule exponent_ex [OF sub(2)])
    then have "(2 :: nat) ^ k < 2 ^ 23" using x(4) by linarith
    then have k22: "k \<le> 22" using power_less_imp_less_exp [of "2 :: nat" k 23] by simp
    note r = subnormal_range [OF k k22]
    define fr' where "fr' = fr * 2 ^ (52 - k) - 2 ^ 52"
    have fr': "fr * 2 ^ (52 - k) = 2 ^ 52 + fr'" "fr' < 2 ^ 52" using r(1,2) by (simp_all add: fr'_def)
    have "f32_to_f64 x = word_of_nat (s * 2 ^ 63 + ((k + 874) * 2 ^ 52 + fr'))"
      using w sub widen_subnormal [OF k k22] fr'(1) by simp
    from narrowed [OF x(2) _ fr'(2) this] show ?thesis
      using narrow_subnormal [OF k k22] fr'(1) k22 sub x(1) q by simp
  next
    case nan
    show ?thesis
    proof (cases "fr = 0")
      case True
      then have "f32_to_f64 x = word_of_nat (s * 2 ^ 63 + (2047 * 2 ^ 52 + 0))" using w nan by simp
      from narrowed [OF x(2) _ _ this] show ?thesis using True nan x(1) q by simp
    next
      case False
      let ?p = "fr mod 2 ^ 22 + 2 ^ 22"
      have p: "?p < 2 ^ 23" "?p mod 2 ^ 22 = fr mod 2 ^ 22" by simp_all
      have "f32_to_f64 x = word_of_nat (s * 2 ^ 63 + (2047 * 2 ^ 52 + ?p * 2 ^ 29))" using w nan False by simp
      from narrowed [OF x(2) _ _ this]
      have n: "f64_to_f32 (f32_to_f64 x) = word_of_nat (s * 2 ^ 31 + (255 * 2 ^ 23 + (2 ^ 22 + fr mod 2 ^ 22)))"
        using p by simp
      show ?thesis
      proof (cases "fr < 2 ^ 22")
        case True
        then show ?thesis using n q nan False x(1) by (simp add: algebra_simps)
      next
        case big: False
        then have "fr mod 2 ^ 22 = (fr - 2 ^ 22) mod 2 ^ 22" by (intro le_mod_geq) simp
        also have "\<dots> = fr - 2 ^ 22" using x(4) by (intro mod_less) (simp add: less_diff_conv2 big)
        finally have "2 ^ 22 + fr mod 2 ^ 22 = fr" using big by simp
        then show ?thesis using n q nan big x(1) by simp
      qed
    qed
  qed
qed

section \<open>Properties\<close>

text \<open>
  C13. A \<open>FLOAT4\<close> survives Lua bit by bit: whatever \<open>f32\<close> is pushed, normal, subnormal, zero of either
  sign, infinite or a quiet NaN with its payload, reading it as \<open>f32\<close>, checked, unchecked or
  optional, or binding it as an element of a \<open>FLOAT4[]\<close> parameter, gives the same bits; only a
  signalling NaN becomes quiet.
\<close>

theorem f32_roundtrip:
  assumes "lua_api_ok la"
  shows "opt_f32 la (push_f32 x) = Some (quiet_f32 x) \<and> checked_f32 la (push_f32 x) = Inr (quiet_f32 x) \<and>
    unchecked_f32 la (push_f32 x) = quiet_f32 x \<and> conv_f32 (push_f32 x) = Some (quiet_f32 x) \<and>
    (unat x div 2 ^ 23 mod 2 ^ 8 \<noteq> 255 \<longrightarrow> quiet_f32 x = x)"
  using assms
  by (simp add: opt_f32_def checked_f32_def unchecked_f32_def push_f32_def conv_f32_def opt_number_def checked_number_def
      unchecked_number_def lua_api_ok_def f32_there_and_back quiet_f32_def)

text \<open>The smallest subnormal number.\<close>

theorem f32_roundtrip_witness:
  "opt_f32 plain_api (push_f32 1) = Some 1 \<and> conv_f32 (push_f32 1) = Some 1"
  using f32_roundtrip [of plain_api 1] by (simp add: lua_api_ok_def plain_api_def)

section \<open>Every type through the stack and through a table\<close>

definition f32_impl :: "lua_api \<Rightarrow> f32 stack_impl" where
  "f32_impl la = \<lparr>si_checked = (\<lambda>s i. (checked_f32 la (lua_at s i), s)),
     si_unchecked = (\<lambda>s i. Done (unchecked_f32 la (lua_at s i), s)),
     si_opt = opt_f32 la, si_push = (\<lambda>s x. lua_push s (push_f32 x))\<rparr>"

interpretation single: stack_type "f32_impl la" push_f32 "\<lambda>_. lua_api_ok la" quiet_f32
  by unfold_locales
    (simp_all add: f32_impl_def lua_push_def present_def push_f32_def checked_f32_def unchecked_f32_def opt_f32_def
      checked_number_def unchecked_number_def opt_number_def lua_api_ok_def f32_there_and_back)

text \<open>
  C28. A Rust value of any type of the trait is kept by Lua: on the stack and in a field of a table
  that is anywhere on the stack, by a positive or a negative index. It comes back as it was: an
  integer of each width up to 64, signed or unsigned (an unsigned one above the largest Lua integer
  travels as a negative number), a float, a boolean, bytes and valid text; an \<open>f32\<close> up to its
  signalling NaNs. Nothing else changes: no other field, and no slot of the stack.
\<close>

theorem stack_values_kept:
  assumes "LENGTH('w::len) \<le> 64" and "lua_api_ok la" and "raw_store put" and "lua_at (lw_stack w) i = LTable a"
  shows "kept put la (signed_impl la) (v :: 'w word) v w i name \<and> kept put la (unsigned_impl la) v v w i name \<and>
    kept put la (number_impl la) x x w i name \<and> kept put la (f32_impl la) z (quiet_f32 z) w i name \<and>
    kept put la bool_impl b b w i name \<and> kept put la (bytes_impl la) t t w i name \<and>
    (utf8_check 0 (map of_char t) = None \<longrightarrow> kept put la (string_impl la) t t w i name)"
  using assms
  by (simp add: signed.kept_in_table unsigned.kept_in_table number.kept_in_table single.kept_in_table boolean.kept_in_table
      byte_slice.kept_in_table rust_string.kept_in_table)

text \<open>An unsigned byte and a text, in the table below a boolean.\<close>

theorem stack_values_kept_witness:
  "\<exists>w' w''. let w = \<lparr>lw_stack = [LTable 3, LBoolean True], lw_alloc = (\<lambda>_. empty_table, 7)\<rparr> in
     table_insert_as simple_put (table_from_stack (lw_stack w) (- 2)) (bytes_impl plain_api) ''n'' (unsigned_impl plain_api) (0xFF :: 8 word) w =
       Done (Inr w') \<and> opt_field_at (unsigned_impl plain_api) w' (- 2) ''n'' = Done (Some (0xFF :: 8 word), w') \<and>
     table_insert_as simple_put (table_from_stack (lw_stack w) 1) (bytes_impl plain_api) ''s'' (string_impl plain_api) ''ok'' w =
       Done (Inr w'') \<and> opt_field_at (string_impl plain_api) w'' 1 ''s'' = Done (Some ''ok'', w'')"
proof -
  let ?w = "\<lparr>lw_stack = [LTable 3, LBoolean True], lw_alloc = (\<lambda>_. empty_table, 7)\<rparr>"
  have la: "lua_api_ok plain_api" by (simp add: lua_api_ok_def plain_api_def)
  have at: "lua_at (lw_stack ?w) (- 2) = LTable 3" "lua_at (lw_stack ?w) 1 = LTable 3" by (simp_all add: lua_at_def)
  have "utf8_check 0 (map of_char ''ok'') = None" by (simp add: utf8_first_def)
  then show ?thesis
    using stack_values_kept [OF _ la lua_store.raw_store_axioms at(1), of "0xFF :: 8 word" "''n''" 0 0 True "''ok''"]
      stack_values_kept [OF _ la lua_store.raw_store_axioms at(2), of "0xFF :: 8 word" "''s''" 0 0 True "''ok''"]
    by (auto simp: kept_def Let_def)
qed

end
