(* ===== verification/Spec2Isabelle.thy ===== *)
theory Spec2Isabelle
  imports Prelude CoreBuffer LuaValue JsonEncode JsonText Resp JsonDecode SqlxRetry SqlxResponse PgDatetime SqlxParams SqlxBackend SqlxActor SqlxSystem SqlxDecode
    SqlxLua LuaStack Moon MongoDoc MongoSystem Tiberius Http WebSocket Crypto Excel Userdata LuaApi FloatCast
begin

text \<open>
  Verification of \<open>lrust\<close>, a Rust extension of Lua: JSON, databases, HTTP, WebSocket, cryptography and
  spreadsheets as Lua modules. All paths below are under \<open>src/crates/libs\<close>.

  The parts and how they interact. Lua calls an entry point of a module (\<open>lib-lualib\<close>), which reads its
  arguments from the Lua stack through the value layer (\<open>lib-lua-sys\<close>), either answers at once or hands a
  request to a task through a bounded channel, and returns the session under which the answer comes.
  The task works on an external resource (a database connection, a socket, an HTTP client), and answers
  by sending the host a pointer or by publishing into a registry, from where Lua fetches the answer and has
  it decoded into Lua tables. Byte output goes through the buffer of \<open>lib-core\<close>.

  Theories, in the order of the dependencies.

  \<^item> \<open>Prelude\<close>: outcomes of code that may panic or leave defined behaviour (\<open>outcome\<close>), errors as sums, checked and
    saturating arithmetic, UTF-8, lists and maps, and the locales \<open>safe_machine\<close> (operations with a guard that
    depends on the state), \<open>total_machine\<close> and \<open>byte_queue\<close> (runs that refine a first-in first-out queue) that the
    components interpret.
  \<^item> \<open>CoreBuffer\<close>: \<open>lib-core/src/buffer.rs\<close>, the byte buffer with its cursors on an allocation whose bytes may be
    uninitialised; invariant, the exact conditions under which each public call is defined and so every
    sequence of calls that keeps to them, and the refinement of a queue by every interleaving of calls.
  \<^item> \<open>LuaValue\<close>, \<open>LuaApi\<close>, \<open>LuaStack\<close>: \<open>lib-lua-sys/src/laux.rs\<close> and the functions \<open>lua54/lua.rs\<close> writes in
    Rust. Values, the stack as a list, conversions, array detection, iterators, \<open>LuaTable\<close>. The functions
    of \<open>lua.rs\<close> are proved to be the list operations used everywhere else. The trait \<open>LuaStack\<close> is the record
    \<open>stack_impl\<close>, its law the locale \<open>stack_type\<close>, interpreted for each implementation. \<open>FloatCast\<close> follows an \<open>f32\<close>
    through Lua's doubles. Rust leaves the payload of a NaN after a cast open; the model is the conversion of the
    hardware, which keeps the payload and makes it quiet.
  \<^item> \<open>JsonEncode\<close>, \<open>JsonText\<close>, \<open>JsonDecode\<close>, \<open>Resp\<close>: \<open>lib-lualib/src/lua_json.rs\<close>. The writer as it appends to a
    buffer, refined to a document tree and its layout; parsing back; decoding into tables; the RESP commands.
  \<^item> \<open>SqlxRetry\<close>, \<open>SqlxResponse\<close>, \<open>PgDatetime\<close>, \<open>SqlxParams\<close>, \<open>SqlxBackend\<close>, \<open>SqlxActor\<close>, \<open>SqlxSystem\<close>, \<open>SqlxDecode\<close>:
    \<open>sqlx_retry.rs\<close>, \<open>sqlx_response.rs\<close>, \<open>sqlx_pg_datetime.rs\<close> and \<open>lua_sqlx.rs\<close>, in the order of a request:
    parameters, the backend's calls (the result of a transaction follows from the answers a replay of its calls
    on the driver gives), the actor with its reconnection and deadlines, channels and names under every
    interleaving, with the task of a \<open>connect\<close> as steps between its accesses to shared state, and the
    tables that come back.
  \<^item> \<open>SqlxLua\<close>, \<open>Userdata\<close>: \<open>sqlx_lua.rs\<close>, the boundary behind which Lua may raise errors: protected
    operations, output tables, views, the entry wrapper; Rust values owned by Lua, with memory running
    out at any allocation, and the unchecked userdata of the other modules beside them, whose finalizers and
    methods Lua code may call with any value.
  \<^item> \<open>Moon\<close>: \<open>lib.rs\<close>, what is sent to the host, and the arguments of the entry points.
  \<^item> \<open>MongoDoc\<close>, \<open>MongoSystem\<close>: \<open>lua_mongodb.rs\<close>. \<open>Tiberius\<close>: \<open>lua_tiberius.rs\<close>. \<open>Http\<close>: \<open>lua_http.rs\<close> and
    \<open>lib-core/src/context.rs\<close>. \<open>WebSocket\<close>: \<open>lua_websocket.rs\<close>. \<open>Crypto\<close>: \<open>lua_crypto.rs\<close>. \<open>Excel\<close>:
    \<open>lua_excel.rs\<close>.
  \<^item> This theory: what Lua is told about a database request, from the actor through the decoder to the table.

  How the code is represented. Machine integers are words of their width. A struct is a record, an enum
  a datatype. A Rust error, an early return and a Lua error are \<open>Inl\<close>, a panic is \<open>Panic\<close>, and undefined behaviour is
  \<open>UB\<close> of the type \<open>outcome\<close>. The Lua stack is a list of values; a table is its entries in the order of
  \<open>lua_next\<close>, its border and its metatable's fields; tables live in a heap, so that sharing and cycles are
  there. The order and the border of a table that the code builds are Lua's choice: a \<open>layout\<close> or a single
  store \<open>put\<close> is a parameter, with the contract of the Lua manual (\<open>layout_ok\<close>, the locale \<open>raw_store\<close>), and the
  theorems hold for all of them. Tasks are step functions; an interleaving is a list of steps, and the
  theorems about connections quantify over all such lists. Messages to the host and calls of a driver are
  recorded in the state in their order.

  What the lemmas show. Each component has an invariant kept by its steps (\<open>buf_ok\<close>, \<open>reg_ok\<close>, \<open>conn_ok\<close>,
  \<open>mongo_ok\<close>, \<open>t_ok\<close>, \<open>reads_ok\<close> and \<open>writes_ok\<close>, \<open>ud_ok\<close>, \<open>clients_ok\<close>), and the machine locales are interpreted on
  it. The properties, C1 to C40, stand in the theory of what they are about, each after a text
  that states it. Where code misbehaves, the property states what it does.

  Fuel and bounds. The scans of a table use one unit of fuel more than the table has entries, which the
  keys being distinct makes enough (\<open>array_size_scan_total\<close>). Recursion into Lua tables, which may be
  cyclic, takes the native stack as a bound on its depth where the code has no guard of its own; the theorems
  say when the bound is enough and that no bound is for cyclic data. The JSON writer is bounded by the code's
  own depth of 64. Sizes are below \<open>2 ^ 62\<close> where a count becomes a Lua integer.

  Outside the repository, hence parameters with their documented behaviour: the Lua library, the database
  drivers, \<open>serde_json\<close>'s parser and float printer, \<open>bson\<close>'s own conversions, \<open>reqwest\<close>, \<open>url\<close>, \<open>tungstenite\<close>, \<open>ring\<close>,
  \<open>csv\<close> and \<open>calamine\<close>, and the host's two functions.

  Not modelled. The declarations of the C interface (\<open>lua54/lua.rs\<close>, \<open>lauxlib.rs\<close>, \<open>lualib.rs\<close>) beyond the stack functions
  and type tests, since there is no code behind them; the tables of functions that \<open>luaopen_*\<close> registers;
  tracebacks; \<open>lua_runtime.rs\<close>, which asks the runtime for one number; \<open>error.rs\<close>, a wrapped string; the
  pinning of the module on Windows; the tests. Finalizers, which Lua may run at any allocation, run between
  operations in \<open>Userdata\<close> and at the one point where the code allows for them in \<open>SqlxSystem\<close>.
\<close>

section \<open>From the database actor to Lua\<close>

lemma flag_of_request:
  assumes "layout_ok lay" and "op \<noteq> ReqClose"
    and "process_request ctx d name op a = Done (resp, a')" and "row_count resp < 2 ^ 62"
    and "decode_response show_error cv lay ud resp st = (lv, st')"
  shows "lua_field (fst st') lv ''not_executed'' = (if not_executed resp then LBoolean True else LNil) \<and>
    request_done ctx op a resp a'"
  using decode_response_flag [OF assms(1,4,5)] process_request_cases [OF assms(2), of ctx d name a] assms(3) by auto

lemma silent_not: "silent_transaction op resp new \<Longrightarrow> \<not> not_executed resp"
  by (auto simp: silent_transaction_def not_executed_def split: db_request.splits)

text \<open>
  C2. What Lua is told is true: whatever the driver does and however far the deadline lets the
  request come, when the value a Lua caller gets for it has a field \<open>not_executed\<close>, that field is
  \<open>true\<close>, and no statement was sent to the database for the request. When none was sent the field is
  there, with the exception of two transactions: one without statements that was committed, and
  one that is told as a lost connection because its ROLLBACK, or with no statements its COMMIT,
  broke; these two have no such field.
\<close>

theorem not_executed_reported:
  assumes "layout_ok lay" and "op \<noteq> ReqClose"
    and "process_request ctx d name op a = Done (resp, a')" and "row_count resp < 2 ^ 62"
    and "decode_response show_error cv lay ud resp st = (lv, st')"
  shows "\<exists>new. actor_calls a' = actor_calls a @ new \<and>
    (lua_field (fst st') lv ''not_executed'' \<noteq> LNil \<longrightarrow>
       lua_field (fst st') lv ''not_executed'' = LBoolean True \<and> filter is_statement new = []) \<and>
    (filter is_statement new = [] \<longrightarrow>
       lua_field (fst st') lv ''not_executed'' = (if silent_transaction op resp new then LNil else LBoolean True))"
proof -
  note f = flag_of_request [OF assms]
  obtain new m k where "actor_calls a' = actor_calls a @ new" "m \<le> length (request_statements k op)"
    "filter is_statement new = take m (request_statements k op)"
    "not_executed resp \<longrightarrow> m = 0" "m = 0 \<longrightarrow> not_executed resp \<or> plain_response resp \<and> silent_transaction op resp new"
    using f unfolding request_done_def by blast
  then show ?thesis using f silent_not [of op resp new] by (intro exI [of _ new]) auto
qed

text \<open>A connection that is down until its cooldown ends.\<close>

definition down_actor :: "(nat, string db_row) actor" where
  "down_actor = (actor_new demo_ctx MySql 0)\<lparr>actor_backend := None,
     actor_backoff := (backoff_new 250000000 5000000000)\<lparr>delay := 250000000, retry_at := Some 250000005\<rparr>\<rparr>"

lemma down_actor_request:
  "process_request demo_ctx down_driver ''execute'' (ReqExecute 1 2 demo_query) down_actor = Done (RReconnectCooldown 250, down_actor)"
  by (simp add: process_request_def down_actor_def actor_new_def down_driver_def actor_simps retry_after_ms_def
      div_ceil_def word_gt_0 backoff_new_def)

text \<open>A transaction whose first argument MySQL has no type for, on a connection whose ROLLBACK breaks.\<close>

definition unbound_query :: db_query where
  "unbound_query = \<lparr>sql = ''DELETE FROM t'', binds = [PNull NTimestampTz]\<rparr>"

definition broken_actor :: "(nat, string db_row) actor" where
  "broken_actor = (actor_new demo_ctx MySql 10)\<lparr>actor_backend := Some MySql\<rparr>"

lemma broken_transaction:
  "\<exists>a'. process_request demo_ctx breaking_driver ''transaction'' (ReqTransaction 1 2 [unbound_query]) broken_actor =
      Done (RDisconnectedError (EIo ''broken pipe''), a') \<and> actor_calls a' = actor_calls broken_actor @ [CallBegin, CallRollback]"
  by (simp add: process_request_def broken_actor_def actor_new_def breaking_driver_def easy_driver_def actor_simps attempt_def
      backend_transaction_def unbound_query_def make_query_for_def make_query_def lift_error_def retire_def
      operation_response_def classify_execution_def Let_def)

theorem not_executed_reported_witness:
  "(\<exists>lv st'. decode_response (\<lambda>_. ''down'') text_codec simple_layout (\<lambda>_. 0) (RReconnectCooldown 250) (blank_heap, 0) = (lv, st') \<and>
     lua_field (fst st') lv ''not_executed'' = LBoolean True \<and>
     process_request demo_ctx down_driver ''execute'' (ReqExecute 1 2 demo_query) down_actor = Done (RReconnectCooldown 250, down_actor)) \<and>
   (\<exists>lv st'. decode_response (\<lambda>_. ''down'') text_codec simple_layout (\<lambda>_. 0) (RDisconnectedError (EIo ''broken pipe'')) (blank_heap, 0) = (lv, st') \<and>
     lua_field (fst st') lv ''not_executed'' = LNil)"
proof
  obtain lv st' where d: "decode_response (\<lambda>_. ''down'') text_codec simple_layout (\<lambda>_. 0)
      (RReconnectCooldown 250) (blank_heap, 0) = (lv, st')" by (rule prod.exhaust)
  have "row_count (RReconnectCooldown 250 :: string db_row db_response) < 2 ^ 62" by (simp add: row_count_def)
  from not_executed_reported [OF simple_layout_ok _ down_actor_request this d]
  obtain new where n: "actor_calls down_actor = actor_calls down_actor @ new"
    "filter is_statement new = [] \<longrightarrow> lua_field (fst st') lv ''not_executed'' =
       (if silent_transaction (ReqExecute 1 2 demo_query) (RReconnectCooldown 250 :: string db_row db_response) new
        then LNil else LBoolean True)" by blast
  have "\<not> silent_transaction (ReqExecute 1 2 demo_query) (RReconnectCooldown 250 :: string db_row db_response) new"
    by (simp add: silent_transaction_def)
  with n have "lua_field (fst st') lv ''not_executed'' = LBoolean True"
    by (simp only: self_append_conv filter.simps if_False simp_thms)
  with d down_actor_request show "\<exists>lv st'. decode_response (\<lambda>_. ''down'') text_codec simple_layout (\<lambda>_. 0) (RReconnectCooldown 250) (blank_heap, 0) = (lv, st') \<and>
     lua_field (fst st') lv ''not_executed'' = LBoolean True \<and>
     process_request demo_ctx down_driver ''execute'' (ReqExecute 1 2 demo_query) down_actor = Done (RReconnectCooldown 250, down_actor)"
    by blast
next
  obtain a' where a': "process_request demo_ctx breaking_driver ''transaction'' (ReqTransaction 1 2 [unbound_query]) broken_actor =
      Done (RDisconnectedError (EIo ''broken pipe''), a')" "actor_calls a' = actor_calls broken_actor @ [CallBegin, CallRollback]"
    using broken_transaction by blast
  obtain lv st' where d: "decode_response (\<lambda>_. ''down'') text_codec simple_layout (\<lambda>_. 0)
      (RDisconnectedError (EIo ''broken pipe'')) (blank_heap, 0) = (lv, st')" by (rule prod.exhaust)
  have "row_count (RDisconnectedError (EIo ''broken pipe'') :: string db_row db_response) < 2 ^ 62" by (simp add: row_count_def)
  from not_executed_reported [OF simple_layout_ok _ a'(1) this d]
  obtain new where n: "actor_calls a' = actor_calls broken_actor @ new"
    "filter is_statement new = [] \<longrightarrow> lua_field (fst st') lv ''not_executed'' =
       (if silent_transaction (ReqTransaction 1 2 [unbound_query]) (RDisconnectedError (EIo ''broken pipe'') :: string db_row db_response) new
        then LNil else LBoolean True)" by blast
  from n(1) a'(2) have new: "new = [CallBegin, CallRollback]" by (simp only: same_append_eq)
  have "silent_transaction (ReqTransaction 1 2 [unbound_query]) (RDisconnectedError (EIo ''broken pipe'') :: string db_row db_response) new"
    "filter is_statement new = []" by (simp_all add: silent_transaction_def new)
  with n(2) have "lua_field (fst st') lv ''not_executed'' = LNil" by simp
  with d show "\<exists>lv st'. decode_response (\<lambda>_. ''down'') text_codec simple_layout (\<lambda>_. 0) (RDisconnectedError (EIo ''broken pipe'')) (blank_heap, 0) = (lv, st') \<and>
     lua_field (fst st') lv ''not_executed'' = LNil" by blast
qed

end
